(* ===== verification/Xv6_Prelude.thy ===== *)
theory Xv6_Prelude
  imports Main "HOL-Library.Word" "HOL-Library.While_Combinator"
begin

text \<open>
  What every component shares: the outcome of a kernel path, sequencing of kernel statements,
  loops, and generic facts about words and lists.

  A kernel function is a HOL function from the state in which it is called to an outcome. The
  outcome is \<open>Done a t\<close> (it returned \<open>a\<close> in state \<open>t\<close>), \<open>Stop r t\<close> (control never comes back,
  for the reason \<open>r\<close>, and \<open>t\<close> is the state in which that happened) or \<open>Forever\<close> (a loop of the
  source spins and never leaves).
\<close>

unbundle bit_operations_syntax

section \<open>Outcomes and sequencing\<close>

datatype reason =
    Panic string    \<comment> \<open>the kernel called panic with this message\<close>
  | Fault string    \<comment> \<open>an access through a null or unmapped kernel pointer\<close>
  | NoReturn        \<comment> \<open>the process left through swtch for the last time\<close>
  | Exited int      \<comment> \<open>a user program called exit with this status\<close>

datatype ('a, 's) outcome = Done 'a 's | Stop reason 's | Forever

type_synonym ('s, 'a) km = "'s \<Rightarrow> ('a, 's) outcome"

named_theorems km_simps \<open>unfolding equations of the statement combinators\<close>

definition ret :: "'a \<Rightarrow> ('s, 'a) km" where
  [km_simps]: "ret x s = Done x s"

definition bind :: "('s, 'a) km \<Rightarrow> ('a \<Rightarrow> ('s, 'b) km) \<Rightarrow> ('s, 'b) km" where
  [km_simps]: "bind m f s =
     (case m s of Done a t \<Rightarrow> f a t | Stop r t \<Rightarrow> Stop r t | Forever \<Rightarrow> Forever)"

definition panic :: "string \<Rightarrow> ('s, 'a) km" where
  [km_simps]: "panic msg s = Stop (Panic msg) s"

definition fault :: "string \<Rightarrow> ('s, 'a) km" where
  [km_simps]: "fault what s = Stop (Fault what) s"

definition panic_if :: "bool \<Rightarrow> string \<Rightarrow> ('s, unit) km" where
  [km_simps]: "panic_if b msg = (if b then panic msg else ret ())"

definition gets :: "('s \<Rightarrow> 'a) \<Rightarrow> ('s, 'a) km" where
  [km_simps]: "gets f s = Done (f s) s"

definition modify :: "('s \<Rightarrow> 's) \<Rightarrow> ('s, unit) km" where
  [km_simps]: "modify f s = Done () (f s)"

definition only_if :: "bool \<Rightarrow> ('s, unit) km \<Rightarrow> ('s, unit) km" where
  [km_simps]: "only_if b m = (if b then m else ret ())"

text \<open>A C block: its statements in order.\<close>

primrec block :: "('s, unit) km list \<Rightarrow> ('s, unit) km" where
  "block [] = ret ()"
| "block (m # ms) = bind m (\<lambda>_. block ms)"

declare block.simps [km_simps]

section \<open>Loops\<close>

text \<open>
  \<open>for_each f xs\<close> is a counted \<open>for\<close> loop without exits; \<open>scan f xs\<close> one whose body may leave the
  loop with a value (\<open>Some\<close>), and gives \<open>None\<close> when the range is exhausted.
\<close>

primrec for_each :: "('x \<Rightarrow> ('s, unit) km) \<Rightarrow> 'x list \<Rightarrow> ('s, unit) km" where
  "for_each f [] = ret ()"
| "for_each f (x # xs) = bind (f x) (\<lambda>_. for_each f xs)"

primrec scan :: "('x \<Rightarrow> ('s, 'r option) km) \<Rightarrow> 'x list \<Rightarrow> ('s, 'r option) km" where
  "scan f [] = ret None"
| "scan f (x # xs) = bind (f x) (\<lambda>r. case r of None \<Rightarrow> scan f xs | Some y \<Rightarrow> ret (Some y))"

text \<open>
  \<open>loop f x\<close> is an unbounded loop with loop variables \<open>x\<close>: the body returns \<open>Inl y\<close> to go round
  again with \<open>y\<close> and \<open>Inr r\<close> to leave with \<open>r\<close>. A loop that never leaves is \<open>Forever\<close>.
\<close>

definition loop :: "('x \<Rightarrow> ('s, 'x + 'r) km) \<Rightarrow> 'x \<Rightarrow> ('s, 'r) km" where
  "loop f x s =
     (case while_option
             (\<lambda>v. case v of Done (Inl _) _ \<Rightarrow> True | _ \<Rightarrow> False)
             (\<lambda>v. case v of Done (Inl y) t \<Rightarrow> f y t | _ \<Rightarrow> v)
             (Done (Inl x) s)
      of Some (Done (Inr r) t) \<Rightarrow> Done r t
       | Some (Stop q t) \<Rightarrow> Stop q t
       | _ \<Rightarrow> Forever)"

lemma loop_unfold:
  "loop f x s =
     (case f x s of
        Done (Inl y) t \<Rightarrow> loop f y t
      | Done (Inr r) t \<Rightarrow> Done r t
      | Stop q t \<Rightarrow> Stop q t
      | Forever \<Rightarrow> Forever)"
proof (cases "f x s")
  case (Done v t)
  then show ?thesis
    by (cases v) (simp_all add: loop_def while_option_unfold [of _ _ "Done (Inl x) s"]
        while_option_unfold [of _ _ "Done (Inr y) t" for y])
next
  case (Stop q t)
  then show ?thesis
    by (simp add: loop_def while_option_unfold [of _ _ "Done (Inl x) s"]
        while_option_unfold [of _ _ "Stop q t"])
next
  case Forever
  then show ?thesis
    by (simp add: loop_def while_option_unfold [of _ _ "Done (Inl x) s"]
        while_option_unfold [of _ _ "Forever"])
qed

lemma loop_Forever:
  assumes "I x s" and step: "\<And>x s. I x s \<Longrightarrow> \<exists>y t. f x s = Done (Inl y) t \<and> I y t"
  shows "loop f x s = Forever"
proof -
  have "while_option (\<lambda>v. case v of Done (Inl _) _ \<Rightarrow> True | _ \<Rightarrow> False)
          (\<lambda>v. case v of Done (Inl y) t \<Rightarrow> f y t | _ \<Rightarrow> v) (Done (Inl x) s) = None"
    (is "while_option ?b ?c ?v = None")
  proof (rule ccontr)
    assume "while_option ?b ?c ?v \<noteq> None"
    then obtain w where w: "while_option ?b ?c ?v = Some w" by auto
    have "\<exists>y t. w = Done (Inl y) t \<and> I y t"
      by (rule while_option_rule [OF _ w, where P = "\<lambda>w. \<exists>y t. w = Done (Inl y) t \<and> I y t"])
         (use assms in auto)
    with while_option_stop [OF w] show False by auto
  qed
  then show ?thesis by (simp add: loop_def)
qed

text \<open>\<open>while_do b m\<close> is \<open>while(b) m\<close>.\<close>

definition while_do :: "('s \<Rightarrow> bool) \<Rightarrow> ('s, unit) km \<Rightarrow> ('s, unit) km" where
  "while_do b m =
     loop (\<lambda>_. bind (gets b) (\<lambda>c. if c then bind m (\<lambda>_. ret (Inl ())) else ret (Inr ()))) ()"

lemma while_do_unfold:
  "while_do b m s = (if b s then bind m (\<lambda>_. while_do b m) s else Done () s)"
  unfolding while_do_def
  by (subst loop_unfold) (simp add: bind_def gets_def ret_def split: outcome.split)

lemma while_do_False [simp]: "\<not> b s \<Longrightarrow> while_do b m s = Done () s"
  by (subst while_do_unfold) simp

lemma bind_Done [simp]: "m s = Done a t \<Longrightarrow> bind m f s = f a t"
  by (simp add: bind_def)

lemma bind_Stop [simp]: "m s = Stop r t \<Longrightarrow> bind m f s = Stop r t"
  by (simp add: bind_def)

lemma bind_Forever [simp]: "m s = Forever \<Longrightarrow> bind m f s = Forever"
  by (simp add: bind_def)

lemma bind_eq_Done:
  "bind m f s = Done b u \<longleftrightarrow> (\<exists>a t. m s = Done a t \<and> f a t = Done b u)"
  by (auto simp: bind_def split: outcome.splits)

lemma bind_assoc: "bind (bind m f) g = bind m (\<lambda>x. bind (f x) g)"
  by (rule ext) (simp add: bind_def split: outcome.split)

lemma ret_bind [simp]: "bind (ret x) f = f x"
  by (rule ext) (simp add: km_simps)

lemma bind_ret [simp]: "bind m ret = m"
  by (rule ext) (simp add: km_simps split: outcome.split)

lemma for_each_append:
  "for_each f (xs @ ys) = bind (for_each f xs) (\<lambda>_. for_each f ys)"
  by (induction xs) (simp_all add: bind_assoc)

lemma loop_leave:
  assumes "f x s = bind m (\<lambda>r. ret (Inr r)) s"
  shows "loop f x s = m s"
  by (subst loop_unfold) (simp add: assms km_simps split: outcome.split)

text \<open>
  A counted loop whose rounds all return is a fold. A search whose unsuccessful rounds leave
  \<open>q s\<close> ends with the first element found.
\<close>

lemma for_each_fold:
  assumes "\<And>x s. x \<in> set xs \<Longrightarrow> I s \<Longrightarrow> f x s = Done () (g x s) \<and> I (g x s)" "I s"
  shows "for_each f xs s = Done () (fold g xs s) \<and> I (fold g xs s)"
  using assms
proof (induction xs arbitrary: s)
  case (Cons x xs)
  from Cons.prems have x: "f x s = Done () (g x s)" "I (g x s)" by auto
  then have "for_each f xs (g x s) = Done () (fold g xs (g x s)) \<and> I (fold g xs (g x s))"
    by (intro Cons.IH) (use Cons.prems in auto)
  with x show ?case by simp
qed (simp add: ret_def)

lemma scan_find:
  assumes "\<And>x t. x \<in> set xs \<Longrightarrow> t = s \<or> t = q s \<Longrightarrow>
      f x t = (if P x then Done (Some (r x)) (g x) else Done None (q s))"
  shows "scan f xs s = (case find P xs of
     None \<Rightarrow> Done None (if xs = [] then s else q s) | Some x \<Rightarrow> Done (Some (r x)) (g x))"
proof -
  have "t = s \<or> t = q s \<Longrightarrow> (\<And>x t. x \<in> set xs \<Longrightarrow> t = s \<or> t = q s \<Longrightarrow>
      f x t = (if P x then Done (Some (r x)) (g x) else Done None (q s))) \<Longrightarrow>
    scan f xs t = (case find P xs of
      None \<Rightarrow> Done None (if xs = [] then t else q s) | Some x \<Rightarrow> Done (Some (r x)) (g x))" for t
  proof (induction xs arbitrary: t)
    case (Cons x xs)
    have x: "f x t = (if P x then Done (Some (r x)) (g x) else Done None (q s))"
      using Cons.prems by simp
    have "scan f xs (q s) = (case find P xs of
        None \<Rightarrow> Done None (q s) | Some x \<Rightarrow> Done (Some (r x)) (g x))"
      using Cons.IH [of "q s"] Cons.prems(2) by (simp cong: if_cong)
    with x show ?case by (simp add: bind_def ret_def)
  qed (simp add: ret_def)
  from this [of s] assms show ?thesis by simp
qed

section \<open>Invariants of kernel paths\<close>

text \<open>
  \<open>keeps P m\<close>: from a state with \<open>P\<close>, every state in which \<open>m\<close> returns or stops has \<open>P\<close>.
\<close>

definition keeps :: "('s \<Rightarrow> bool) \<Rightarrow> ('s, 'a) km \<Rightarrow> bool" where
  "keeps P m \<longleftrightarrow> (\<forall>s. P s \<longrightarrow>
     (case m s of Done _ t \<Rightarrow> P t | Stop _ t \<Rightarrow> P t | Forever \<Rightarrow> True))"

named_theorems keeps_intros \<open>rules that propagate an invariant through statements\<close>

lemma keepsD: "keeps P m \<Longrightarrow> P s \<Longrightarrow> m s = Done a t \<Longrightarrow> P t"
  by (force simp: keeps_def)

lemma keeps_ret [keeps_intros]: "keeps P (ret x)"
  by (simp add: keeps_def km_simps)

lemma keeps_panic [keeps_intros]: "keeps P (panic msg)"
  by (simp add: keeps_def km_simps)

lemma keeps_fault [keeps_intros]: "keeps P (fault msg)"
  by (simp add: keeps_def km_simps)

lemma keeps_gets [keeps_intros]: "keeps P (gets f)"
  by (simp add: keeps_def km_simps)

lemma keeps_panic_if [keeps_intros]: "keeps P (panic_if b msg)"
  by (simp add: panic_if_def keeps_panic keeps_ret)

lemma keeps_bind [keeps_intros]: "keeps P m \<Longrightarrow> (\<And>x. keeps P (f x)) \<Longrightarrow> keeps P (bind m f)"
  unfolding keeps_def
proof (intro allI impI)
  fix s
  assume m: "\<forall>s. P s \<longrightarrow> (case m s of Done _ t \<Rightarrow> P t | Stop _ t \<Rightarrow> P t | Forever \<Rightarrow> True)"
    and f: "\<And>x. \<forall>s. P s \<longrightarrow> (case f x s of Done _ t \<Rightarrow> P t | Stop _ t \<Rightarrow> P t | Forever \<Rightarrow> True)"
    and s: "P s"
  from m s have "case m s of Done _ t \<Rightarrow> P t | Stop _ t \<Rightarrow> P t | Forever \<Rightarrow> True" by blast
  then show "case bind m f s of Done _ t \<Rightarrow> P t | Stop _ t \<Rightarrow> P t | Forever \<Rightarrow> True"
    using f by (cases "m s") auto
qed

lemma keeps_modify [keeps_intros]: "(\<And>s. P s \<Longrightarrow> P (f s)) \<Longrightarrow> keeps P (modify f)"
  by (simp add: keeps_def km_simps)

lemma keeps_if [keeps_intros]:
  "(b \<Longrightarrow> keeps P m) \<Longrightarrow> (\<not> b \<Longrightarrow> keeps P n) \<Longrightarrow> keeps P (if b then m else n)"
  by simp

lemma keeps_only_if [keeps_intros]: "(b \<Longrightarrow> keeps P m) \<Longrightarrow> keeps P (only_if b m)"
  by (simp add: only_if_def keeps_ret)

lemma keeps_option [keeps_intros]:
  "(r = None \<Longrightarrow> keeps P m) \<Longrightarrow> (\<And>y. r = Some y \<Longrightarrow> keeps P (n y)) \<Longrightarrow>
   keeps P (case r of None \<Rightarrow> m | Some y \<Rightarrow> n y)"
  by (cases r) simp_all

lemma keeps_for_each [keeps_intros]: "(\<And>x. keeps P (f x)) \<Longrightarrow> keeps P (for_each f xs)"
  by (induction xs) (auto intro: keeps_ret keeps_bind)

lemma keeps_scan [keeps_intros]: "(\<And>x. keeps P (f x)) \<Longrightarrow> keeps P (scan f xs)"
  by (induction xs) (auto intro!: keeps_ret keeps_bind keeps_option)

lemma keeps_block [keeps_intros]: "(\<And>m. m \<in> set ms \<Longrightarrow> keeps P m) \<Longrightarrow> keeps P (block ms)"
  by (induction ms) (auto intro: keeps_ret keeps_bind)

lemma keeps_loop [keeps_intros]:
  fixes f :: "'x \<Rightarrow> ('s, 'x + 'r) km"
  assumes "\<And>x. keeps P (f x)"
  shows "keeps P (loop f x)"
proof -
  let ?ok = "\<lambda>v :: ('x + 'r, 's) outcome. case v of Done _ t \<Rightarrow> P t | Stop _ t \<Rightarrow> P t | Forever \<Rightarrow> True"
  let ?b = "\<lambda>v. case v of Done (Inl _) _ \<Rightarrow> True | _ \<Rightarrow> False"
  let ?c = "\<lambda>v. case v of Done (Inl y) t \<Rightarrow> f y t | _ \<Rightarrow> v"
  have "?ok w" if "while_option ?b ?c (Done (Inl x) s) = Some w" "P s" for s w
  proof (rule while_option_rule [OF _ that(1), where P = ?ok])
    show "?ok (Done (Inl x) s)" using that(2) by simp
  next
    fix v :: "('x + 'r, 's) outcome" assume "?ok v" "?b v"
    then show "?ok (?c v)"
      using assms [unfolded keeps_def] by (cases v) (auto split: sum.splits)
  qed
  then have ok: "P s \<Longrightarrow> while_option ?b ?c (Done (Inl x) s) = Some w \<Longrightarrow> ?ok w" for s w by blast
  show ?thesis
    unfolding keeps_def loop_def
  proof (intro allI impI)
    fix s assume "P s"
    show "case (case while_option ?b ?c (Done (Inl x) s) of
            Some (Done (Inr r) t) \<Rightarrow> Done r t | Some (Stop q t) \<Rightarrow> Stop q t | _ \<Rightarrow> Forever)
          of Done _ t \<Rightarrow> P t | Stop _ t \<Rightarrow> P t | Forever \<Rightarrow> True"
    proof (cases "while_option ?b ?c (Done (Inl x) s)")
      case (Some w)
      with ok [OF \<open>P s\<close>] have "?ok w" by blast
      with Some show ?thesis by (cases w) (simp_all split: sum.split)
    qed simp
  qed
qed

lemma keeps_while_do [keeps_intros]: "keeps P m \<Longrightarrow> keeps P (while_do b m)"
  unfolding while_do_def
  by (intro keeps_loop keeps_bind keeps_gets keeps_if keeps_ret)

end
