(* ===== verification/Xv6_Machine.thy ===== *)
theory Xv6_Machine
  imports Xv6_Prelude
begin

text \<open>
  The machine under the kernel: the constants of \<open>param.h\<close>, \<open>memlayout.h\<close> and \<open>riscv.h\<close>, byte
  memory with little-endian loads and stores, control and status registers per hart, and the
  record \<open>machine\<close> that every later state extends. Extended records give the layering: a
  function of this theory works unchanged on the state of every later component, and cannot
  touch the fields those components add.
\<close>

section \<open>Constants\<close>

type_synonym addr = "64 word"
type_synonym byte = "8 word"
type_synonym uint = "32 word"
type_synonym memory = "addr \<Rightarrow> byte"

text \<open>
  The value of a C \<open>int\<close> expression on this machine: 32 bits, two's complement.
\<close>

definition int32 :: "int \<Rightarrow> int" where "int32 x = signed_take_bit 31 x"

lemma int32_small [simp]: "- (2 ^ 31) \<le> x \<Longrightarrow> x < 2 ^ 31 \<Longrightarrow> int32 x = x"
  by (simp add: int32_def signed_take_bit_int_eq_self)

definition NPROC :: nat where "NPROC = 64"
definition NCPU :: nat where "NCPU = 8"
definition NOFILE :: nat where "NOFILE = 16"
definition NFILE :: nat where "NFILE = 100"
definition NINODE :: nat where "NINODE = 50"
definition NDEV :: nat where "NDEV = 10"
definition ROOTDEV :: uint where "ROOTDEV = 1"
definition MAXARG :: nat where "MAXARG = 32"
definition MAXOPBLOCKS :: nat where "MAXOPBLOCKS = 10"
definition LOGSIZE :: nat where "LOGSIZE = MAXOPBLOCKS * 3"
definition NBUF :: nat where "NBUF = MAXOPBLOCKS * 3"
definition FSSIZE :: nat where "FSSIZE = 1000"
definition MAXPATH :: nat where "MAXPATH = 128"

abbreviation (input) PGSIZE :: addr where "PGSIZE \<equiv> 4096"
abbreviation (input) PGSHIFT :: nat where "PGSHIFT \<equiv> 12"

definition PGROUNDUP :: "addr \<Rightarrow> addr" where
  "PGROUNDUP sz = (sz + PGSIZE - 1) AND NOT (PGSIZE - 1)"

definition PGROUNDDOWN :: "addr \<Rightarrow> addr" where
  "PGROUNDDOWN a = a AND NOT (PGSIZE - 1)"

abbreviation (input) PTE_V :: addr where "PTE_V \<equiv> 1"
abbreviation (input) PTE_R :: addr where "PTE_R \<equiv> 2"
abbreviation (input) PTE_W :: addr where "PTE_W \<equiv> 4"
abbreviation (input) PTE_X :: addr where "PTE_X \<equiv> 8"
abbreviation (input) PTE_U :: addr where "PTE_U \<equiv> 16"

definition PA2PTE :: "addr \<Rightarrow> addr" where
  "PA2PTE pa = push_bit 10 (drop_bit 12 pa)"

definition PTE2PA :: "addr \<Rightarrow> addr" where
  "PTE2PA pte = push_bit 12 (drop_bit 10 pte)"

definition PTE_FLAGS :: "addr \<Rightarrow> addr" where
  "PTE_FLAGS pte = pte AND 0x3FF"

abbreviation (input) PXMASK :: addr where "PXMASK \<equiv> 0x1FF"

definition PXSHIFT :: "nat \<Rightarrow> nat" where
  "PXSHIFT level = PGSHIFT + 9 * level"

definition PX :: "nat \<Rightarrow> addr \<Rightarrow> addr" where
  "PX level va = drop_bit (PXSHIFT level) va AND PXMASK"

abbreviation (input) MAXVA :: addr where "MAXVA \<equiv> 0x4000000000"

abbreviation (input) SATP_SV39 :: addr where "SATP_SV39 \<equiv> 0x8000000000000000"

definition MAKE_SATP :: "addr \<Rightarrow> addr" where
  "MAKE_SATP pagetable = SATP_SV39 OR drop_bit 12 pagetable"

abbreviation (input) UART0 :: addr where "UART0 \<equiv> 0x10000000"
abbreviation (input) UART0_IRQ :: int where "UART0_IRQ \<equiv> 10"
abbreviation (input) VIRTIO0 :: addr where "VIRTIO0 \<equiv> 0x10001000"
abbreviation (input) VIRTIO0_IRQ :: int where "VIRTIO0_IRQ \<equiv> 1"
abbreviation (input) CLINT :: addr where "CLINT \<equiv> 0x2000000"
abbreviation (input) PLIC :: addr where "PLIC \<equiv> 0x0c000000"
abbreviation (input) KERNBASE :: addr where "KERNBASE \<equiv> 0x80000000"
abbreviation (input) PHYSTOP :: addr where "PHYSTOP \<equiv> 0x88000000"
abbreviation (input) TRAMPOLINE :: addr where "TRAMPOLINE \<equiv> MAXVA - PGSIZE"
abbreviation (input) TRAPFRAME :: addr where "TRAPFRAME \<equiv> TRAMPOLINE - PGSIZE"

definition KSTACK :: "nat \<Rightarrow> addr" where
  "KSTACK p = TRAMPOLINE - of_nat (p + 1) * 2 * PGSIZE"

section \<open>Memory\<close>

text \<open>
  Kernel-addressable memory is a function from addresses to bytes. Multi-byte values are
  little-endian, as on RISC-V.
\<close>

primrec load_le :: "nat \<Rightarrow> memory \<Rightarrow> addr \<Rightarrow> 'w::len word" where
  "load_le 0 m a = 0"
| "load_le (Suc n) m a = ucast (m a) OR push_bit 8 (load_le n m (a + 1))"

primrec store_le :: "nat \<Rightarrow> memory \<Rightarrow> addr \<Rightarrow> 'w::len word \<Rightarrow> memory" where
  "store_le 0 m a v = m"
| "store_le (Suc n) m a v = (store_le n m (a + 1) (drop_bit 8 v))(a := ucast v)"

definition load16 :: "memory \<Rightarrow> addr \<Rightarrow> 16 word" where "load16 m a = load_le 2 m a"
definition load32 :: "memory \<Rightarrow> addr \<Rightarrow> 32 word" where "load32 m a = load_le 4 m a"
definition load64 :: "memory \<Rightarrow> addr \<Rightarrow> 64 word" where "load64 m a = load_le 8 m a"
definition store16 :: "memory \<Rightarrow> addr \<Rightarrow> 16 word \<Rightarrow> memory" where "store16 m a v = store_le 2 m a v"
definition store32 :: "memory \<Rightarrow> addr \<Rightarrow> 32 word \<Rightarrow> memory" where "store32 m a v = store_le 4 m a v"
definition store64 :: "memory \<Rightarrow> addr \<Rightarrow> 64 word \<Rightarrow> memory" where "store64 m a v = store_le 8 m a v"

text \<open>
  \<open>within n a x\<close>: \<open>x\<close> is one of the \<open>n\<close> addresses from \<open>a\<close> on (addresses wrap at 64 bits).
\<close>

definition within :: "nat \<Rightarrow> addr \<Rightarrow> addr \<Rightarrow> bool" where
  "within n a x \<longleftrightarrow> unat (x - a) < n"

lemma unat_of_nat_small: "k < 2 ^ 64 \<Longrightarrow> unat (of_nat k :: addr) = k"
  by (simp add: unat_of_nat take_bit_nat_eq_self)

lemma plus_Suc_neq:
  assumes "Suc i < 2 ^ 64" shows "a + 1 + of_nat i \<noteq> (a :: addr)"
proof
  assume "a + 1 + of_nat i = a"
  then have "(of_nat (Suc i) :: addr) = 0" by (simp add: add.assoc)
  with unat_of_nat_small [OF assms] show False by simp
qed

lemma within_0 [simp]: "\<not> within 0 a x"
  by (simp add: within_def)

lemma within_self: "within (Suc n) a a"
  by (simp add: within_def)

lemma within_Suc: "within (Suc n) a x \<longleftrightarrow> x = a \<or> (x \<noteq> a \<and> within n (a + 1) x)"
proof (cases "x = a")
  case False
  then have "x - a \<noteq> 0" by simp
  then have "unat (x - a - 1) = unat (x - a) - 1" and "0 < unat (x - a)"
    by (simp_all add: unat_minus_one unat_gt_0)
  moreover have "x - (a + 1) = x - a - 1" by (simp add: diff_diff_eq)
  ultimately have "unat (x - (a + 1)) = unat (x - a) - 1" and "0 < unat (x - a)"
    by (simp_all only:)
  with False show ?thesis unfolding within_def by auto
qed (simp add: within_self)

lemma within_iff: "n \<le> 2 ^ 64 \<Longrightarrow> within n a x \<longleftrightarrow> (\<exists>i<n. x = a + of_nat i)"
proof
  assume "within n a x"
  then have "unat (x - a) < n" by (simp add: within_def)
  moreover have "x = a + of_nat (unat (x - a))" by simp
  ultimately show "\<exists>i<n. x = a + of_nat i" by blast
next
  assume n: "n \<le> 2 ^ 64" and "\<exists>i<n. x = a + of_nat i"
  then obtain i where "i < n" "x = a + of_nat i" by blast
  with n show "within n a x" by (simp add: within_def unat_of_nat_small)
qed

lemma not_within_before: "n < 2 ^ 64 \<Longrightarrow> \<not> within n (a + 1) a"
  by (simp add: within_def unsigned_minus_1_eq_mask mask_eq_exp_minus_1)

lemma store_le_other: "n < 2 ^ 64 \<Longrightarrow> \<not> within n a x \<Longrightarrow> store_le n m a v x = m x"
  by (induction n arbitrary: a v) (auto simp: within_Suc)

lemma load_le_cong:
  "(\<And>i. i < n \<Longrightarrow> m (a + of_nat i) = m' (a + of_nat i)) \<Longrightarrow>
   (load_le n m a :: 'w::len word) = load_le n m' a"
proof (induction n arbitrary: a)
  case (Suc n)
  have "(load_le n m (a + 1) :: 'w word) = load_le n m' (a + 1)"
  proof (rule Suc.IH)
    fix i assume "i < n"
    with Suc.prems [of "Suc i"] show "m (a + 1 + of_nat i) = m' (a + 1 + of_nat i)"
      by (simp add: add.assoc)
  qed
  moreover from Suc.prems [of 0] have "m a = m' a" by simp
  ultimately show ?case by simp
qed simp

lemma load_le_store_le:
  "n < 2 ^ 64 \<Longrightarrow> load_le n (store_le n m a v) a = take_bit (8 * n) (v :: 'w::len word)"
proof (induction n arbitrary: a v)
  case (Suc n)
  have cong: "load_le n ((store_le n m (a + 1) (drop_bit 8 v))(a := ucast v)) (a + 1)
      = (load_le n (store_le n m (a + 1) (drop_bit 8 v)) (a + 1) :: 'w word)"
  proof (rule load_le_cong)
    fix i assume "i < n"
    with Suc.prems have "a + 1 + of_nat i \<noteq> a" by (intro plus_Suc_neq) simp
    then show "((store_le n m (a + 1) (drop_bit 8 v))(a := ucast v)) (a + 1 + of_nat i)
        = store_le n m (a + 1) (drop_bit 8 v) (a + 1 + of_nat i)" by simp
  qed
  have bits: "take_bit 8 v OR push_bit 8 (take_bit (8 * n) (drop_bit 8 v)) = take_bit (8 + 8 * n) v"
    by (rule bit_word_eqI) (auto simp: bit_simps)
  have low: "(ucast (ucast v :: byte) :: 'w word) = take_bit 8 v"
    by (rule bit_word_eqI) (auto simp: bit_simps)
  from Suc.prems have "n < 2 ^ 64" by simp
  note IH = Suc.IH [OF this]
  show ?case unfolding load_le.simps store_le.simps cong IH by (simp add: low bits)
qed simp

lemma load_le_store_le_other:
  assumes "n < 2 ^ 64" "\<And>i. i < k \<Longrightarrow> \<not> within n a (b + of_nat i)"
  shows "load_le k (store_le n m a v) b = load_le k m b"
  by (rule load_le_cong) (use assms in \<open>simp add: store_le_other\<close>)

lemma load_le_zero [simp]: "load_le n (\<lambda>_. 0) a = 0"
  by (induction n arbitrary: a) simp_all

lemma load_zero [simp]: "load64 (\<lambda>_. 0) a = 0" "load32 (\<lambda>_. 0) a = 0" "load16 (\<lambda>_. 0) a = 0"
  by (simp_all add: load64_def load32_def load16_def)

lemma load64_store64 [simp]: "load64 (store64 m a v) a = v"
  unfolding load64_def store64_def by (subst load_le_store_le) (simp_all add: take_bit_word_eq_self)

lemma load32_store32 [simp]: "load32 (store32 m a v) a = v"
  unfolding load32_def store32_def by (subst load_le_store_le) (simp_all add: take_bit_word_eq_self)

lemma load16_store16 [simp]: "load16 (store16 m a v) a = v"
  unfolding load16_def store16_def by (subst load_le_store_le) (simp_all add: take_bit_word_eq_self)

lemma within_range:
  assumes "unat a + n \<le> 2 ^ 64"
  shows "within n a x \<longleftrightarrow> unat a \<le> unat x \<and> unat x < unat a + n"
proof (cases "a \<le> x")
  case True
  then show ?thesis by (auto simp: within_def unat_sub word_le_nat_alt)
next
  case False
  then have "unat x < unat a" by (simp add: word_le_nat_alt not_le)
  moreover from False have "unat (x - a) = 2 ^ 64 + unat x - unat a"
    using unat_sub_if' [of x a] by (simp add: word_le_nat_alt)
  ultimately show ?thesis using assms by (simp add: within_def)
qed

lemma load64_cong: "(\<And>x. within 8 a x \<Longrightarrow> m x = m' x) \<Longrightarrow> load64 m a = load64 m' a"
  unfolding load64_def by (rule load_le_cong) (simp add: within_def unat_of_nat_small)

lemma load32_cong: "(\<And>x. within 4 a x \<Longrightarrow> m x = m' x) \<Longrightarrow> load32 m a = load32 m' a"
  unfolding load32_def by (rule load_le_cong) (simp add: within_def unat_of_nat_small)

lemma load16_cong: "(\<And>x. within 2 a x \<Longrightarrow> m x = m' x) \<Longrightarrow> load16 m a = load16 m' a"
  unfolding load16_def by (rule load_le_cong) (simp add: within_def unat_of_nat_small)

lemma store64_other: "\<not> within 8 a x \<Longrightarrow> store64 m a v x = m x"
  unfolding store64_def by (rule store_le_other) simp_all

lemma store32_other: "\<not> within 4 a x \<Longrightarrow> store32 m a v x = m x"
  unfolding store32_def by (rule store_le_other) simp_all

lemma store16_other: "\<not> within 2 a x \<Longrightarrow> store16 m a v x = m x"
  unfolding store16_def by (rule store_le_other) simp_all

subsection \<open>Pages\<close>

definition page_aligned :: "addr \<Rightarrow> bool" where
  "page_aligned a \<longleftrightarrow> a mod PGSIZE = 0"

abbreviation in_page :: "addr \<Rightarrow> addr \<Rightarrow> bool" where
  "in_page \<equiv> within 4096"

lemma page_aligned_unat: "page_aligned a \<longleftrightarrow> unat a mod 4096 = 0"
  by (simp add: page_aligned_def word_unat_eq_iff unat_mod_distrib)

lemma page_alignedE:
  assumes "page_aligned a" obtains k where "unat a = 4096 * k" "k < 2 ^ 52"
proof -
  from assms have "4096 dvd unat a" by (simp add: page_aligned_unat mod_eq_0_iff_dvd)
  then obtain k where k: "unat a = 4096 * k" by (elim dvdE)
  moreover have "unat a < 4096 * 2 ^ 52" using unsigned_less [of a, where ?'a = nat] by simp
  ultimately show ?thesis using that by simp
qed

lemma unat_page_bound: "page_aligned a \<Longrightarrow> unat a + 4096 \<le> 2 ^ 64"
  by (erule page_alignedE) simp

lemma in_page_iff: "page_aligned a \<Longrightarrow> in_page a x \<longleftrightarrow> unat a \<le> unat x \<and> unat x < unat a + 4096"
  by (rule within_range) (rule unat_page_bound)

lemma in_page_div: "page_aligned a \<Longrightarrow> in_page a x \<longleftrightarrow> unat x div 4096 = unat a div 4096"
  unfolding in_page_iff by (erule page_alignedE) auto

lemma pages_disjoint:
  assumes "page_aligned a" "page_aligned b" "a \<noteq> b"
  shows "\<not> (in_page a x \<and> in_page b x)"
proof
  assume "in_page a x \<and> in_page b x"
  then have "unat a div 4096 = unat b div 4096" using assms by (simp add: in_page_div)
  then have "unat a = unat b"
    using assms(1,2) by (auto elim!: page_alignedE)
  with assms(3) show False by (simp add: word_unat_eq_iff)
qed

text \<open>The eight bytes of a field at offset \<open>k\<close> of a page are in the page.\<close>

lemma within_field:
  assumes "within n (a + of_nat k) x" "k + n \<le> 4096" "n \<le> 4096"
  shows "in_page a x"
proof -
  from assms obtain i where i: "i < n" "x = a + of_nat k + of_nat i"
    using within_iff [of n "a + of_nat k" x] by auto
  then have "x = a + of_nat (k + i)" by simp
  with i assms show ?thesis using within_iff [of 4096 a x] by (auto intro!: exI [of _ "k + i"])
qed

lemma within_page_start: "within n a x \<Longrightarrow> n \<le> 4096 \<Longrightarrow> in_page a x"
  by (simp add: within_def)

text \<open>Rounding to page boundaries, as arithmetic on naturals.\<close>

lemma PGROUNDDOWN_shift: "PGROUNDDOWN a = push_bit 12 (drop_bit 12 a)"
proof -
  have "(4096 - 1 :: addr) = mask 12" by (simp add: mask_eq_exp_minus_1)
  then have "PGROUNDDOWN a = a AND NOT (mask 12)" by (simp only: PGROUNDDOWN_def)
  also have "\<dots> = push_bit 12 (drop_bit 12 a)"
    by (rule bit_word_eqI) (auto simp: bit_simps)
  finally show ?thesis .
qed

lemma PGROUNDDOWN_mod: "PGROUNDDOWN a = a - a mod PGSIZE"
  using bits_ident [of 12 a] unfolding PGROUNDDOWN_shift take_bit_eq_mod
  by (simp add: eq_diff_eq)

lemma unat_PGROUNDDOWN: "unat (PGROUNDDOWN a) = unat a div 4096 * 4096"
proof -
  have "unat (a mod 4096) = unat a mod 4096" by (simp add: unat_mod_distrib)
  moreover have "a mod 4096 \<le> a" by (simp add: word_le_nat_alt unat_mod_distrib)
  ultimately have "unat (a - a mod 4096) = unat a - unat a mod 4096" by (simp add: unat_sub)
  then show ?thesis by (simp add: PGROUNDDOWN_mod minus_mod_eq_div_mult)
qed

lemma page_aligned_PGROUNDDOWN [simp]: "page_aligned (PGROUNDDOWN a)"
  by (simp add: page_aligned_unat unat_PGROUNDDOWN)

lemma PGROUNDDOWN_aligned: "page_aligned a \<Longrightarrow> PGROUNDDOWN a = a"
  by (simp add: PGROUNDDOWN_mod page_aligned_def)

lemma in_page_PGROUNDDOWN: "in_page (PGROUNDDOWN a) a"
  by (simp add: in_page_div unat_PGROUNDDOWN)

lemma PGROUNDUP_down: "PGROUNDUP a = PGROUNDDOWN (a + 4095)"
  by (simp add: PGROUNDUP_def PGROUNDDOWN_def add.commute)

lemma page_aligned_PGROUNDUP [simp]: "page_aligned (PGROUNDUP a)"
  by (simp add: PGROUNDUP_down)

lemma unat_PGROUNDUP:
  assumes "unat a + 4095 < 2 ^ 64" shows "unat (PGROUNDUP a) = (unat a + 4095) div 4096 * 4096"
proof -
  have "unat (a + 4095) = unat a + 4095"
    using assms unat_add_lem [of a 4095] by simp
  then show ?thesis by (simp add: PGROUNDUP_down unat_PGROUNDDOWN)
qed

lemma PGROUNDUP_aligned: "page_aligned a \<Longrightarrow> PGROUNDUP a = a"
proof (erule page_alignedE)
  fix k assume k: "unat a = 4096 * k" "k < 2 ^ 52"
  then have "unat (PGROUNDUP a) = unat a" by (subst unat_PGROUNDUP) simp_all
  then show "PGROUNDUP a = a" by (simp add: word_unat_eq_iff)
qed

section \<open>Harts, CPUs and locks\<close>

text \<open>The control and status registers the kernel reads and writes.\<close>

datatype csr =
    Mhartid | Mstatus | Mepc | Sstatus | Sip | Sie | Mie | Sepc | Medeleg | Mideleg | Stvec
  | Mtvec | Pmpcfg0 | Pmpaddr0 | Satp | Sscratch | Mscratch | Scause | Stval | Mcounteren | Time

abbreviation (input) SSTATUS_SPP :: addr where "SSTATUS_SPP \<equiv> 256"
abbreviation (input) SSTATUS_SPIE :: addr where "SSTATUS_SPIE \<equiv> 32"
abbreviation (input) SSTATUS_UPIE :: addr where "SSTATUS_UPIE \<equiv> 16"
abbreviation (input) SSTATUS_SIE :: addr where "SSTATUS_SIE \<equiv> 2"
abbreviation (input) SSTATUS_UIE :: addr where "SSTATUS_UIE \<equiv> 1"

text \<open>\<open>struct cpu\<close>; pointers into \<open>proc[]\<close> and \<open>cpus[]\<close> are indices.\<close>

record cpu =
  c_proc :: "nat option"
  c_noff :: int
  c_intena :: bool

text \<open>\<open>struct spinlock\<close>.\<close>

record spinlock =
  sl_locked :: uint
  sl_name :: string
  sl_cpu :: "nat option"

text \<open>
  Every spinlock object of the kernel, by the object it is part of. \<open>SleepBuf\<close> and
  \<open>SleepInode\<close> are the spinlocks inside the sleep locks of a buffer and of an inode;
  \<open>PipeLock\<close> is the lock of the pipe in the page at that address.
\<close>

datatype lockid =
    PidLock | WaitLock | KmemLock | ProcLock nat | BcacheLock | LogLock | ItableLock | FtableLock
  | TicksLock | ConsLock | UartTxLock | PrLock | VdiskLock | SleepBuf nat | SleepInode nat
  | PipeLock addr

text \<open>
  \<open>tp\<close> is the thread pointer of the hart that executes, its index into \<open>cpus\<close>. The last three
  fields are the addresses the linker script \<open>kernel.ld\<close> gives to \<open>end\<close>, \<open>etext\<close> and
  \<open>trampoline\<close>; nothing writes them.
\<close>

record machine =
  tp :: nat
  csrs :: "nat \<Rightarrow> csr \<Rightarrow> 64 word"
  cpus :: "nat \<Rightarrow> cpu"
  locks :: "lockid \<Rightarrow> spinlock"
  mem :: memory
  end_sym :: addr
  etext_sym :: addr
  trampoline_sym :: addr

text \<open>A machine after reset with the kernel image loaded; used to instantiate properties.\<close>

definition reset_machine :: machine where
  "reset_machine = \<lparr>tp = 0, csrs = (\<lambda>_ _. 0),
     cpus = (\<lambda>_. \<lparr>c_proc = None, c_noff = 0, c_intena = False\<rparr>),
     locks = (\<lambda>_. \<lparr>sl_locked = 0, sl_name = [], sl_cpu = None\<rparr>),
     mem = (\<lambda>_. 0), end_sym = 0x80027000, etext_sym = 0x80008000, trampoline_sym = 0x80007000\<rparr>"

definition r_csr :: "csr \<Rightarrow> 'a machine_scheme \<Rightarrow> 64 word" where
  "r_csr r s = csrs s (tp s) r"

definition w_csr :: "csr \<Rightarrow> 64 word \<Rightarrow> ('a machine_scheme, unit) km" where
  "w_csr r x = modify (\<lambda>s. s\<lparr>csrs := (csrs s)(tp s := (csrs s (tp s))(r := x))\<rparr>)"

definition r_sstatus :: "'a machine_scheme \<Rightarrow> 64 word" where "r_sstatus = r_csr Sstatus"
definition w_sstatus :: "64 word \<Rightarrow> ('a machine_scheme, unit) km" where "w_sstatus = w_csr Sstatus"

text \<open>The other registers.\<close>

definition r_mhartid :: "'a machine_scheme \<Rightarrow> 64 word" where "r_mhartid = r_csr Mhartid"
definition r_mstatus :: "'a machine_scheme \<Rightarrow> 64 word" where "r_mstatus = r_csr Mstatus"
definition r_sip :: "'a machine_scheme \<Rightarrow> 64 word" where "r_sip = r_csr Sip"
definition r_sie :: "'a machine_scheme \<Rightarrow> 64 word" where "r_sie = r_csr Sie"
definition r_mie :: "'a machine_scheme \<Rightarrow> 64 word" where "r_mie = r_csr Mie"
definition r_sepc :: "'a machine_scheme \<Rightarrow> 64 word" where "r_sepc = r_csr Sepc"
definition r_medeleg :: "'a machine_scheme \<Rightarrow> 64 word" where "r_medeleg = r_csr Medeleg"
definition r_mideleg :: "'a machine_scheme \<Rightarrow> 64 word" where "r_mideleg = r_csr Mideleg"
definition r_stvec :: "'a machine_scheme \<Rightarrow> 64 word" where "r_stvec = r_csr Stvec"
definition r_satp :: "'a machine_scheme \<Rightarrow> 64 word" where "r_satp = r_csr Satp"
definition r_scause :: "'a machine_scheme \<Rightarrow> 64 word" where "r_scause = r_csr Scause"
definition r_stval :: "'a machine_scheme \<Rightarrow> 64 word" where "r_stval = r_csr Stval"
definition r_mcounteren :: "'a machine_scheme \<Rightarrow> 64 word" where "r_mcounteren = r_csr Mcounteren"
definition r_time :: "'a machine_scheme \<Rightarrow> 64 word" where "r_time = r_csr Time"

definition w_mstatus :: "64 word \<Rightarrow> ('a machine_scheme, unit) km" where "w_mstatus = w_csr Mstatus"
definition w_mepc :: "64 word \<Rightarrow> ('a machine_scheme, unit) km" where "w_mepc = w_csr Mepc"
definition w_sip :: "64 word \<Rightarrow> ('a machine_scheme, unit) km" where "w_sip = w_csr Sip"
definition w_sie :: "64 word \<Rightarrow> ('a machine_scheme, unit) km" where "w_sie = w_csr Sie"
definition w_mie :: "64 word \<Rightarrow> ('a machine_scheme, unit) km" where "w_mie = w_csr Mie"
definition w_sepc :: "64 word \<Rightarrow> ('a machine_scheme, unit) km" where "w_sepc = w_csr Sepc"
definition w_medeleg :: "64 word \<Rightarrow> ('a machine_scheme, unit) km" where "w_medeleg = w_csr Medeleg"
definition w_mideleg :: "64 word \<Rightarrow> ('a machine_scheme, unit) km" where "w_mideleg = w_csr Mideleg"
definition w_stvec :: "64 word \<Rightarrow> ('a machine_scheme, unit) km" where "w_stvec = w_csr Stvec"
definition w_mtvec :: "64 word \<Rightarrow> ('a machine_scheme, unit) km" where "w_mtvec = w_csr Mtvec"
definition w_pmpcfg0 :: "64 word \<Rightarrow> ('a machine_scheme, unit) km" where "w_pmpcfg0 = w_csr Pmpcfg0"
definition w_pmpaddr0 :: "64 word \<Rightarrow> ('a machine_scheme, unit) km" where "w_pmpaddr0 = w_csr Pmpaddr0"
definition w_satp :: "64 word \<Rightarrow> ('a machine_scheme, unit) km" where "w_satp = w_csr Satp"
definition w_sscratch :: "64 word \<Rightarrow> ('a machine_scheme, unit) km" where "w_sscratch = w_csr Sscratch"
definition w_mscratch :: "64 word \<Rightarrow> ('a machine_scheme, unit) km" where "w_mscratch = w_csr Mscratch"
definition w_mcounteren :: "64 word \<Rightarrow> ('a machine_scheme, unit) km" where "w_mcounteren = w_csr Mcounteren"

definition w_tp :: "64 word \<Rightarrow> ('a machine_scheme, unit) km" where
  "w_tp x = modify (\<lambda>s. s\<lparr>tp := unat x\<rparr>)"

definition intr_on :: "('a machine_scheme, unit) km" where
  "intr_on = bind (gets r_sstatus) (\<lambda>x. w_sstatus (x OR SSTATUS_SIE))"

definition intr_off :: "('a machine_scheme, unit) km" where
  "intr_off = bind (gets r_sstatus) (\<lambda>x. w_sstatus (x AND NOT SSTATUS_SIE))"

definition intr_get :: "'a machine_scheme \<Rightarrow> bool" where
  "intr_get s \<longleftrightarrow> r_sstatus s AND SSTATUS_SIE \<noteq> 0"

text \<open>\<open>cpuid\<close> and \<open>mycpu\<close> of \<open>proc.c\<close>.\<close>

definition cpuid :: "'a machine_scheme \<Rightarrow> nat" where
  "cpuid s = tp s"

definition mycpu :: "'a machine_scheme \<Rightarrow> nat" where
  "mycpu s = cpuid s"

definition cpu_update :: "(cpu \<Rightarrow> cpu) \<Rightarrow> ('a machine_scheme, unit) km" where
  "cpu_update f = modify (\<lambda>s. s\<lparr>cpus := (cpus s)(mycpu s := f (cpus s (mycpu s)))\<rparr>)"

definition lock_update :: "lockid \<Rightarrow> (spinlock \<Rightarrow> spinlock) \<Rightarrow> ('a machine_scheme, unit) km" where
  "lock_update lk f = modify (\<lambda>s. s\<lparr>locks := (locks s)(lk := f (locks s lk))\<rparr>)"

text \<open>Memory accesses of the kernel: page zero is never mapped.\<close>

definition kload64 :: "addr \<Rightarrow> ('a machine_scheme, 64 word) km" where
  "kload64 a = (if a < PGSIZE then fault ''null pointer'' else gets (\<lambda>s. load64 (mem s) a))"

definition kstore64 :: "addr \<Rightarrow> 64 word \<Rightarrow> ('a machine_scheme, unit) km" where
  "kstore64 a v = (if a < PGSIZE then fault ''null pointer''
     else modify (\<lambda>s. s\<lparr>mem := store64 (mem s) a v\<rparr>))"

subsection \<open>Interrupt enable bit\<close>

lemma sie_bits:
  "(x OR SSTATUS_SIE) AND SSTATUS_SIE = (SSTATUS_SIE :: 64 word)"
  "(x AND NOT SSTATUS_SIE) AND SSTATUS_SIE = (0 :: 64 word)"
  by (rule bit_word_eqI, auto simp: bit_simps)+

lemma sie_bit: "x AND SSTATUS_SIE = 0 \<longleftrightarrow> \<not> bit (x :: 64 word) 1"
  using and_exp_eq_0_iff_not_bit [of x 1] by simp

lemma bit_SIE: "bit (SSTATUS_SIE :: 64 word) n \<longleftrightarrow> n = 1"
  using bit_exp_iff [of 1 n, where ?'a = "64 word"] by (cases "n = 1") auto

lemma sie_restore: "x AND SSTATUS_SIE \<noteq> 0 \<Longrightarrow> (x AND NOT SSTATUS_SIE) OR SSTATUS_SIE = (x :: 64 word)"
  unfolding sie_bit
  by (rule bit_word_eqI) (auto simp only: bit_or_iff bit_and_iff bit_not_iff bit_SIE possible_bit_word)

lemma sie_off: "x AND SSTATUS_SIE = 0 \<Longrightarrow> x AND NOT SSTATUS_SIE = (x :: 64 word)"
  unfolding sie_bit
  by (rule bit_word_eqI) (auto simp only: bit_or_iff bit_and_iff bit_not_iff bit_SIE possible_bit_word)

text \<open>The simplifier writes the complement of the bit as a negative numeral.\<close>

lemma not_SIE: "NOT SSTATUS_SIE = (- 3 :: 64 word)"
  by simp

lemmas sie_simps = sie_bits(1) sie_bits(2) [unfolded not_SIE] sie_restore [unfolded not_SIE]
  sie_off [unfolded not_SIE]

end
