(* ===== verification/Xv6_Spinlock.thy ===== *)
theory Xv6_Spinlock
  imports Xv6_Machine
begin

text \<open>
  Spin locks (\<open>spinlock.c\<close>): matched disabling of interrupts, acquiring and releasing a lock on
  one hart, and the interleaving of the instructions of several harts on one lock.
\<close>

section \<open>Operations\<close>

definition initlock :: "lockid \<Rightarrow> string \<Rightarrow> ('a machine_scheme, unit) km" where
  "initlock lk nm = lock_update lk (\<lambda>l. l\<lparr>sl_name := nm, sl_locked := 0, sl_cpu := None\<rparr>)"

definition push_off :: "('a machine_scheme, unit) km" where
  "push_off =
     bind (gets intr_get) (\<lambda>old. block [
       intr_off,
       bind (gets (\<lambda>s. c_noff (cpus s (mycpu s)))) (\<lambda>n.
         only_if (n = 0) (cpu_update (\<lambda>c. c\<lparr>c_intena := old\<rparr>))),
       cpu_update (\<lambda>c. c\<lparr>c_noff := c_noff c + 1\<rparr>)])"

definition pop_off :: "('a machine_scheme, unit) km" where
  "pop_off =
     block [
       bind (gets intr_get) (\<lambda>i. panic_if i ''pop_off - interruptible''),
       bind (gets (\<lambda>s. c_noff (cpus s (mycpu s)))) (\<lambda>n. panic_if (n < 1) ''pop_off''),
       cpu_update (\<lambda>c. c\<lparr>c_noff := c_noff c - 1\<rparr>),
       bind (gets (\<lambda>s. cpus s (mycpu s))) (\<lambda>c. only_if (c_noff c = 0 \<and> c_intena c) intr_on)]"

definition holding :: "lockid \<Rightarrow> 'a machine_scheme \<Rightarrow> bool" where
  "holding lk s \<longleftrightarrow> sl_locked (locks s lk) \<noteq> 0 \<and> sl_cpu (locks s lk) = Some (mycpu s)"

text \<open>The atomic swap behind \<open>__sync_lock_test_and_set(&lk->locked, 1)\<close>.\<close>

definition test_and_set :: "lockid \<Rightarrow> ('a machine_scheme, uint) km" where
  "test_and_set lk =
     bind (gets (\<lambda>s. sl_locked (locks s lk))) (\<lambda>old.
     bind (lock_update lk (\<lambda>l. l\<lparr>sl_locked := 1\<rparr>)) (\<lambda>_. ret old))"

text \<open>
  \<open>acquire\<close> in three parts, so that the interleaving below can stop between them: disable
  interrupts and check, spin on the swap, record the holder.
\<close>

definition acquire_enter :: "lockid \<Rightarrow> ('a machine_scheme, unit) km" where
  "acquire_enter lk =
     bind push_off (\<lambda>_. bind (gets (holding lk)) (\<lambda>h. panic_if h ''acquire''))"

definition acquire_spin :: "lockid \<Rightarrow> ('a machine_scheme, unit) km" where
  "acquire_spin lk =
     loop (\<lambda>_. bind (test_and_set lk) (\<lambda>old. ret (if old \<noteq> 0 then Inl () else Inr ()))) ()"

definition acquire_record :: "lockid \<Rightarrow> ('a machine_scheme, unit) km" where
  "acquire_record lk =
     bind (gets mycpu) (\<lambda>c. lock_update lk (\<lambda>l. l\<lparr>sl_cpu := Some c\<rparr>))"

definition acquire :: "lockid \<Rightarrow> ('a machine_scheme, unit) km" where
  "acquire lk = block [acquire_enter lk, acquire_spin lk, acquire_record lk]"

definition release_check :: "lockid \<Rightarrow> ('a machine_scheme, unit) km" where
  "release_check lk =
     bind (gets (holding lk)) (\<lambda>h. block [
       panic_if (\<not> h) ''release'',
       lock_update lk (\<lambda>l. l\<lparr>sl_cpu := None\<rparr>)])"

definition release_store :: "lockid \<Rightarrow> ('a machine_scheme, unit) km" where
  "release_store lk = lock_update lk (\<lambda>l. l\<lparr>sl_locked := 0\<rparr>)"

definition release :: "lockid \<Rightarrow> ('a machine_scheme, unit) km" where
  "release lk = block [release_check lk, release_store lk, pop_off]"

lemmas spinlock_defs =
  initlock_def push_off_def pop_off_def test_and_set_def acquire_enter_def acquire_record_def
  release_check_def release_store_def intr_on_def intr_off_def w_sstatus_def w_csr_def
  cpu_update_def lock_update_def cpuid_def mycpu_def

section \<open>What balanced use leaves behind\<close>

text \<open>
  \<open>cpu_ok\<close>: the nesting depth is not negative and interrupts are off inside a section.
  \<open>lock_free\<close>: nobody holds the lock. \<open>quiet\<close>: the only trace of a balanced
  \<open>push_off\<close>/\<open>pop_off\<close> pair, the saved interrupt flag of an idle CPU. \<open>entered\<close>: the state in
  which \<open>acquire\<close> returns.
\<close>

definition cpu_ok :: "'a machine_scheme \<Rightarrow> bool" where
  "cpu_ok s \<longleftrightarrow> 0 \<le> c_noff (cpus s (tp s)) \<and> (0 < c_noff (cpus s (tp s)) \<longrightarrow> \<not> intr_get s)"

definition lock_free :: "lockid \<Rightarrow> 'a machine_scheme \<Rightarrow> bool" where
  "lock_free lk s \<longleftrightarrow> sl_locked (locks s lk) = 0 \<and> sl_cpu (locks s lk) = None"

definition saved_intena :: "'a machine_scheme \<Rightarrow> cpu" where
  "saved_intena s = (let c = cpus s (tp s) in
     c\<lparr>c_intena := (if c_noff c = 0 then intr_get s else c_intena c)\<rparr>)"

definition quiet :: "'a machine_scheme \<Rightarrow> 'a machine_scheme" where
  "quiet s = s\<lparr>cpus := (cpus s)(tp s := saved_intena s)\<rparr>"

definition pushed :: "'a machine_scheme \<Rightarrow> 'a machine_scheme" where
  "pushed s = s\<lparr>
     csrs := (csrs s)(tp s := (csrs s (tp s))(Sstatus := r_sstatus s AND NOT SSTATUS_SIE)),
     cpus := (cpus s)(tp s := (saved_intena s)\<lparr>c_noff := c_noff (cpus s (tp s)) + 1\<rparr>)\<rparr>"

definition entered :: "lockid \<Rightarrow> 'a machine_scheme \<Rightarrow> 'a machine_scheme" where
  "entered lk s = (pushed s)\<lparr>
     locks := (locks s)(lk := (locks s lk)\<lparr>sl_locked := 1, sl_cpu := Some (tp s)\<rparr>)\<rparr>"

lemma push_off_eq: "push_off s = Done () (pushed s)"
  by (simp add: push_off_def pushed_def saved_intena_def spinlock_defs km_simps Let_def
      r_sstatus_def r_csr_def)

lemma not_intr_pushed [simp]: "\<not> intr_get (pushed s)"
  by (simp add: intr_get_def pushed_def r_sstatus_def r_csr_def sie_simps)

lemma tp_pushed [simp]: "tp (pushed s) = tp s" "locks (pushed s) = locks s" "mem (pushed s) = mem s"
  by (simp_all add: pushed_def)

lemma noff_pushed [simp]:
  "c_noff (cpus (pushed s) (tp s)) = c_noff (cpus s (tp s)) + 1"
  "c_intena (cpus (pushed s) (tp s)) =
     (if c_noff (cpus s (tp s)) = 0 then intr_get s else c_intena (cpus s (tp s)))"
  by (simp_all add: pushed_def saved_intena_def Let_def)

lemma quiet_simps [simp]:
  "tp (quiet s) = tp s" "locks (quiet s) = locks s" "mem (quiet s) = mem s" "csrs (quiet s) = csrs s"
  "c_noff (cpus (quiet s) (tp s)) = c_noff (cpus s (tp s))"
  "c_proc (cpus (quiet s) c) = c_proc (cpus s c)"
  "c_intena (cpus (quiet s) (tp s)) =
     (if c_noff (cpus s (tp s)) = 0 then intr_get s else c_intena (cpus s (tp s)))"
  by (simp_all add: quiet_def saved_intena_def Let_def)

lemma entered_simps [simp]:
  "tp (entered lk s) = tp s" "csrs (entered lk s) = csrs (pushed s)"
  "cpus (entered lk s) = cpus (pushed s)" "mem (entered lk s) = mem s"
  "locks (entered lk s) =
     (locks s)(lk := (locks s lk)\<lparr>sl_locked := 1, sl_cpu := Some (tp s)\<rparr>)"
  by (simp_all add: entered_def)

lemma intr_get_cong: "csrs t = csrs s \<Longrightarrow> tp t = tp s \<Longrightarrow> intr_get t = intr_get s"
  by (simp add: intr_get_def r_sstatus_def r_csr_def)

lemma not_intr_entered [simp]: "\<not> intr_get (entered lk s)"
  using intr_get_cong [of "entered lk s" "pushed s"] by simp

lemma cpu_ok_pushed [simp]: "cpu_ok s \<Longrightarrow> cpu_ok (pushed s)"
  by (simp add: cpu_ok_def)

lemma cpu_ok_entered [simp]: "cpu_ok s \<Longrightarrow> cpu_ok (entered lk s)"
  by (simp add: cpu_ok_def)

lemma acquire_spin_free:
  "sl_locked (locks s lk) = 0 \<Longrightarrow>
   acquire_spin lk s = Done () (s\<lparr>locks := (locks s)(lk := (locks s lk)\<lparr>sl_locked := 1\<rparr>)\<rparr>)"
  unfolding acquire_spin_def by (subst loop_unfold) (simp add: spinlock_defs km_simps)

lemma acquire_spin_held: "sl_locked (locks s lk) \<noteq> 0 \<Longrightarrow> acquire_spin lk s = Forever"
  unfolding acquire_spin_def
  by (rule loop_Forever [where I = "\<lambda>_ s. sl_locked (locks s lk) \<noteq> 0"])
     (auto simp: spinlock_defs km_simps)

lemma acquire_eq: "lock_free lk s \<Longrightarrow> acquire lk s = Done () (entered lk s)"
  by (simp add: acquire_def acquire_enter_def acquire_record_def push_off_eq holding_def
      lock_free_def acquire_spin_free km_simps mycpu_def cpuid_def lock_update_def entered_def)

lemma csrs_restore:
  assumes "cpu_ok s"
  shows "(csrs (pushed s))(tp s := (csrs (pushed s) (tp s))(Sstatus :=
      (if c_noff (cpus s (tp s)) = 0 \<and> intr_get s
       then csrs (pushed s) (tp s) Sstatus OR SSTATUS_SIE
       else csrs (pushed s) (tp s) Sstatus))) = csrs s"
  using assms
  by (auto simp: pushed_def cpu_ok_def intr_get_def r_sstatus_def r_csr_def sie_simps
      fun_eq_iff)

lemma pop_off_eq:
  assumes "cpu_ok s" "tp t = tp s" "csrs t = csrs (pushed s)" "cpus t = cpus (pushed s)"
  shows "pop_off t = Done () (t\<lparr>csrs := csrs s, cpus := cpus (quiet s)\<rparr>)"
proof -
  have off: "\<not> intr_get t"
    using intr_get_cong [of t "pushed s"] assms by simp
  have cpus: "(cpus (pushed s))(tp s := (cpus (pushed s) (tp s))
      \<lparr>c_noff := c_noff (cpus (pushed s) (tp s)) - 1\<rparr>) = cpus (quiet s)"
    by (simp add: pushed_def quiet_def saved_intena_def Let_def)
  from csrs_restore [OF assms(1)] show ?thesis
    using assms off cpus
    by (simp add: pop_off_def spinlock_defs km_simps cpu_ok_def r_sstatus_def r_csr_def
        fun_upd_triv split: if_splits)
qed

lemma release_eq:
  assumes "cpu_ok s" "lock_free lk s" "tp t = tp s" "csrs t = csrs (entered lk s)"
    "cpus t = cpus (entered lk s)" "locks t = locks (entered lk s)"
  shows "release lk t = Done () (t\<lparr>locks := locks s, csrs := csrs s, cpus := cpus (quiet s)\<rparr>)"
proof -
  let ?u = "t\<lparr>locks := locks s\<rparr>"
  have "(locks s lk)\<lparr>sl_cpu := None, sl_locked := 0\<rparr> = locks s lk"
    using assms(2) by (simp add: lock_free_def)
  then have "release lk t = pop_off ?u"
    using assms(3-6) by (simp add: release_def release_check_def release_store_def holding_def
        km_simps lock_update_def mycpu_def cpuid_def fun_upd_triv)
  also have "\<dots> = Done () (?u\<lparr>csrs := csrs s, cpus := cpus (quiet s)\<rparr>)"
    using assms by (intro pop_off_eq) simp_all
  finally show ?thesis by simp
qed

lemma intr_quiet [simp]: "intr_get (quiet s) = intr_get s"
  by (rule intr_get_cong) simp_all

lemma cpu_ok_quiet [simp]: "cpu_ok (quiet s) = cpu_ok s"
  by (simp add: cpu_ok_def)

lemma lock_free_quiet [simp]: "lock_free lk (quiet s) = lock_free lk s"
  by (simp add: lock_free_def)

lemma quiet_quiet [simp]: "quiet (quiet s) = quiet s"
  by (simp add: quiet_def saved_intena_def Let_def intr_get_def r_sstatus_def r_csr_def)

lemma quiet_nested: "cpu_ok s \<Longrightarrow> c_noff (cpus s (tp s)) \<noteq> 0 \<Longrightarrow> quiet s = s"
  by (simp add: quiet_def saved_intena_def Let_def)

lemma quiet_pushed [simp]: "cpu_ok s \<Longrightarrow> quiet (pushed s) = pushed s"
  by (rule quiet_nested) (auto simp: cpu_ok_def)

lemma quiet_entered [simp]: "cpu_ok s \<Longrightarrow> quiet (entered lk s) = entered lk s"
  by (rule quiet_nested) (auto simp: cpu_ok_def)

lemma lock_free_entered [simp]: "lk \<noteq> lk' \<Longrightarrow> lock_free lk (entered lk' s) = lock_free lk s"
  by (simp add: lock_free_def)

lemma not_lock_free_entered [simp]: "\<not> lock_free lk (entered lk s)"
  by (simp add: lock_free_def)

lemma holding_entered [simp]: "holding lk (entered lk s)"
  by (simp add: holding_def mycpu_def cpuid_def)

lemma saved_intena_quiet [simp]: "saved_intena (quiet s) = saved_intena s"
  by (simp add: saved_intena_def Let_def quiet_def intr_get_def r_sstatus_def r_csr_def)

lemma pushed_quiet [simp]: "pushed (quiet s) = pushed s"
  unfolding pushed_def saved_intena_quiet
  by (simp add: quiet_def saved_intena_def Let_def r_sstatus_def r_csr_def)

lemma entered_quiet [simp]: "entered lk (quiet s) = entered lk s"
  unfolding entered_def pushed_quiet by simp

text \<open>
  Critical sections: the code between \<open>acquire\<close> and \<open>release\<close> changes memory and fields of later
  records only. Such an update commutes with \<open>entered\<close> and \<open>quiet\<close>; with one bundle of these
  equations for every field, a critical section is evaluated by the simplifier and leaves
  \<open>quiet\<close> of the plain update.
\<close>

lemma release_entered [simp]:
  "cpu_ok s \<Longrightarrow> lock_free lk s \<Longrightarrow> release lk (entered lk s) = Done () (quiet s)"
  by (subst release_eq [where s = s]) (simp_all add: entered_def pushed_def quiet_def)

lemmas lock_state_defs = entered_def pushed_def quiet_def saved_intena_def Let_def intr_get_def
  r_sstatus_def r_csr_def cpu_ok_def lock_free_def

lemma mem_lock_simps [simp]:
  "mem_update f (entered lk s) = entered lk (mem_update f s)"
  "mem_update f (quiet s) = quiet (mem_update f s)"
  "mem_update f (pushed s) = pushed (mem_update f s)"
  "cpu_ok (mem_update f s) = cpu_ok s"
  "lock_free lk (mem_update f s) = lock_free lk s"
  "holding lk (mem_update f s) = holding lk s"
  "intr_get (mem_update f s) = intr_get s"
  by (simp_all add: lock_state_defs holding_def mycpu_def cpuid_def)

lemma sym_lock_simps [simp]:
  "end_sym (entered lk s) = end_sym s" "end_sym (quiet s) = end_sym s" "end_sym (pushed s) = end_sym s"
  "etext_sym (entered lk s) = etext_sym s" "etext_sym (quiet s) = etext_sym s"
  "trampoline_sym (entered lk s) = trampoline_sym s" "trampoline_sym (quiet s) = trampoline_sym s"
  by (simp_all add: lock_state_defs)

lemma acquire_free [simp]:
  "lock_free lk s \<Longrightarrow> bind (acquire lk) f s = f () (entered lk s)"
  by (simp add: bind_def acquire_eq)

lemma release_entered_bind [simp]:
  "cpu_ok s \<Longrightarrow> lock_free lk s \<Longrightarrow> bind (release lk) f (entered lk s) = f () (quiet s)"
  by (simp add: bind_def)

section \<open>Properties on one hart\<close>

text \<open>
  On a hart whose nesting count is in order, \<open>acquire\<close> of a free lock returns with the lock
  held by this CPU, interrupts off and the nesting count one up, and the matching \<open>release\<close>
  gives the lock back and restores the interrupt state; nothing else of the machine changes but
  the saved flag of an idle CPU.
\<close>

lemma acquire_release:
  assumes "cpu_ok s" "lock_free lk s"
  shows "\<exists>t. acquire lk s = Done () t \<and> holding lk t \<and> \<not> intr_get t
    \<and> c_noff (cpus t (tp t)) = c_noff (cpus s (tp s)) + 1
    \<and> release lk t = Done () (quiet s) \<and> intr_get (quiet s) = intr_get s
    \<and> locks (quiet s) = locks s \<and> mem (quiet s) = mem s"
  using assms by (intro exI [of _ "entered lk s"]) (simp add: acquire_eq)

text \<open>
  What \<open>release\<close> leaves behind: the lock free, one level of nesting less, and interrupts enabled again
  when the outermost level is left and they were enabled before it.
\<close>

definition unlocked :: "lockid \<Rightarrow> 'a machine_scheme \<Rightarrow> 'a machine_scheme" where
  "unlocked lk s = s\<lparr>locks := (locks s)(lk := (locks s lk)\<lparr>sl_locked := 0, sl_cpu := None\<rparr>)\<rparr>"

definition popped :: "'a machine_scheme \<Rightarrow> 'a machine_scheme" where
  "popped s = (let h = tp s; c = cpus s h; t = s\<lparr>cpus := (cpus s)(h := c\<lparr>c_noff := c_noff c - 1\<rparr>)\<rparr> in
     if c_noff c = 1 \<and> c_intena c
     then t\<lparr>csrs := (csrs s)(h := (csrs s h)(Sstatus := csrs s h Sstatus OR SSTATUS_SIE))\<rparr> else t)"

lemma release_outcome:
  assumes "holding lk s"
  shows "release lk s =
    (if intr_get s then Stop (Panic ''pop_off - interruptible'') (unlocked lk s)
     else if c_noff (cpus s (tp s)) < 1 then Stop (Panic ''pop_off'') (unlocked lk s)
     else Done () (popped (unlocked lk s)))"
proof -
  have swap: "(locks s lk)\<lparr>sl_cpu := None, sl_locked := 0\<rparr> = (locks s lk)\<lparr>sl_locked := 0, sl_cpu := None\<rparr>" by simp
  have "intr_get (unlocked lk s) = intr_get s"
    by (simp add: intr_get_def r_sstatus_def r_csr_def unlocked_def)
  then have i: "intr_get (s\<lparr>locks := (locks s)(lk := (locks s lk)\<lparr>sl_locked := 0, sl_cpu := None\<rparr>)\<rparr>) = intr_get s"
    by (simp add: unlocked_def)
  have "release lk s = pop_off (unlocked lk s)"
    using assms
    by (simp add: release_def release_check_def release_store_def lock_update_def unlocked_def swap km_simps
        split: outcome.split)
  also have "\<dots> = (if intr_get s then Stop (Panic ''pop_off - interruptible'') (unlocked lk s)
     else if c_noff (cpus s (tp s)) < 1 then Stop (Panic ''pop_off'') (unlocked lk s)
     else Done () (popped (unlocked lk s)))"
    by (auto simp: pop_off_def spinlock_defs km_simps i popped_def unlocked_def Let_def r_sstatus_def r_csr_def)
  finally show ?thesis .
qed

text \<open>
  C1. Every outcome of the two operations. Acquiring a lock this CPU already holds panics, a lock
  held elsewhere makes a lone hart spin forever, otherwise the lock is taken. Releasing a lock that
  this CPU does not hold panics at once. Releasing one that it holds frees the lock and then panics
  if interrupts are on or the nesting count is below one; otherwise it returns with the lock free,
  the nesting count one down, and interrupts on again exactly if this was the outermost level and
  they were on before it.
\<close>

theorem acquire_release_outcomes:
  "acquire lk s =
     (if holding lk s then Stop (Panic ''acquire'') (pushed s)
      else if sl_locked (locks s lk) \<noteq> 0 then Forever
      else Done () (entered lk s))
   \<and> release lk s =
     (if \<not> holding lk s then Stop (Panic ''release'') s
      else if intr_get s then Stop (Panic ''pop_off - interruptible'') (unlocked lk s)
      else if c_noff (cpus s (tp s)) < 1 then Stop (Panic ''pop_off'') (unlocked lk s)
      else Done () (popped (unlocked lk s)))"
proof -
  have h: "holding lk (pushed s) = holding lk s"
    by (simp add: holding_def mycpu_def cpuid_def)
  have "\<not> holding lk s \<Longrightarrow> release lk s = Stop (Panic ''release'') s"
    by (simp add: release_def release_check_def km_simps)
  moreover note release_outcome [of lk s]
  moreover have "acquire lk s =
     (if holding lk s then Stop (Panic ''acquire'') (pushed s)
      else if sl_locked (locks s lk) \<noteq> 0 then Forever
      else Done () (entered lk s))"
    by (simp add: acquire_def acquire_enter_def push_off_eq h km_simps acquire_spin_held
        acquire_spin_free acquire_record_def mycpu_def cpuid_def lock_update_def entered_def)
  ultimately show ?thesis by simp
qed

section \<open>Interleaving on several harts\<close>

text \<open>
  Where each hart is with respect to one lock: outside, spinning, past the successful swap but
  not yet recorded, in its critical section, with the holder field cleared, and with the lock
  word stored but interrupts not yet restored.
\<close>

datatype spin_pc = Outside | Spinning | Swapped | Critical | Cleared | Stored

definition on_hart :: "nat \<Rightarrow> 'a machine_scheme \<Rightarrow> 'a machine_scheme" where
  "on_hart h s = s\<lparr>tp := h\<rparr>"

text \<open>One hart executes one part of \<open>acquire\<close> or \<open>release\<close>; any hart may be the next.\<close>

inductive spin_step ::
  "lockid \<Rightarrow> 'a machine_scheme \<times> (nat \<Rightarrow> spin_pc) \<Rightarrow> 'a machine_scheme \<times> (nat \<Rightarrow> spin_pc) \<Rightarrow> bool"
  for lk where
  enter: "pc h = Outside \<Longrightarrow> acquire_enter lk (on_hart h s) = Done () t \<Longrightarrow>
    spin_step lk (s, pc) (t, pc(h := Spinning))"
| swap_again: "pc h = Spinning \<Longrightarrow> test_and_set lk (on_hart h s) = Done old t \<Longrightarrow> old \<noteq> 0 \<Longrightarrow>
    spin_step lk (s, pc) (t, pc)"
| swap_won: "pc h = Spinning \<Longrightarrow> test_and_set lk (on_hart h s) = Done 0 t \<Longrightarrow>
    spin_step lk (s, pc) (t, pc(h := Swapped))"
| note_holder: "pc h = Swapped \<Longrightarrow> acquire_record lk (on_hart h s) = Done () t \<Longrightarrow>
    spin_step lk (s, pc) (t, pc(h := Critical))"
| clear_holder: "pc h = Critical \<Longrightarrow> release_check lk (on_hart h s) = Done () t \<Longrightarrow>
    spin_step lk (s, pc) (t, pc(h := Cleared))"
| unlock: "pc h = Cleared \<Longrightarrow> release_store lk (on_hart h s) = Done () t \<Longrightarrow>
    spin_step lk (s, pc) (t, pc(h := Stored))"
| enable: "pc h = Stored \<Longrightarrow> pop_off (on_hart h s) = Done () t \<Longrightarrow>
    spin_step lk (s, pc) (t, pc(h := Outside))"

inductive spin_reach ::
  "lockid \<Rightarrow> 'a machine_scheme \<times> (nat \<Rightarrow> spin_pc) \<Rightarrow> bool" for lk where
  start: "lock_free lk s \<Longrightarrow> spin_reach lk (s, \<lambda>_. Outside)"
| step: "spin_reach lk c \<Longrightarrow> spin_step lk c c' \<Longrightarrow> spin_reach lk c'"

definition owns :: "spin_pc \<Rightarrow> bool" where
  "owns p \<longleftrightarrow> p = Swapped \<or> p = Critical \<or> p = Cleared"

lemma owns_simps [simp]:
  "\<not> owns Outside" "\<not> owns Spinning" "owns Swapped" "owns Critical" "owns Cleared" "\<not> owns Stored"
  by (simp_all add: owns_def)

definition spin_owner ::
  "lockid \<Rightarrow> nat option \<Rightarrow> 'a machine_scheme \<times> (nat \<Rightarrow> spin_pc) \<Rightarrow> bool" where
  "spin_owner lk ow = (\<lambda>(s, pc).
     (\<forall>h. owns (pc h) \<longleftrightarrow> ow = Some h)
     \<and> (sl_locked (locks s lk) = 0 \<longleftrightarrow> ow = None)
     \<and> (\<forall>h. sl_cpu (locks s lk) = Some h \<longleftrightarrow> pc h = Critical))"

text \<open>What each part does to the lock.\<close>

lemma on_hart_simps [simp]:
  "tp (on_hart h s) = h" "locks (on_hart h s) = locks s" "cpus (on_hart h s) = cpus s"
  by (simp_all add: on_hart_def)

lemma acquire_enter_Done:
  "acquire_enter lk s = Done () t \<longleftrightarrow> \<not> holding lk s \<and> t = pushed s"
  by (auto simp: acquire_enter_def push_off_eq km_simps holding_def mycpu_def cpuid_def)

lemma locks_pop_off: "pop_off s = Done () t \<Longrightarrow> locks t = locks s"
  by (auto simp: pop_off_def spinlock_defs km_simps split: if_splits)

lemma release_check_Done:
  "release_check lk s = Done () t \<longleftrightarrow>
   holding lk s \<and> t = s\<lparr>locks := (locks s)(lk := (locks s lk)\<lparr>sl_cpu := None\<rparr>)\<rparr>"
  by (auto simp: release_check_def lock_update_def km_simps)

lemma test_and_set_Done:
  "test_and_set lk s = Done old t \<longleftrightarrow>
   old = sl_locked (locks s lk)
   \<and> t = s\<lparr>locks := (locks s)(lk := (locks s lk)\<lparr>sl_locked := 1\<rparr>)\<rparr>"
  by (auto simp: test_and_set_def lock_update_def km_simps)

lemmas spin_part_Done =
  acquire_enter_Done release_check_Done test_and_set_Done

lemma spin_owner_iff: "spin_owner lk ow (s, pc) \<Longrightarrow> (ow = Some h) = owns (pc h)"
  by (simp add: spin_owner_def)

lemma spin_owner_unique:
  "spin_owner lk ow (s, pc) \<Longrightarrow> owns (pc h) \<Longrightarrow> owns (pc k) \<Longrightarrow> h = k"
  by (simp add: spin_owner_def)

lemma spin_owner_step:
  "spin_step lk c c' \<Longrightarrow> spin_owner lk ow c \<Longrightarrow> \<exists>ow'. spin_owner lk ow' c'"
proof (induction rule: spin_step.induct)
  case (enter pc h s t)
  then have "ow \<noteq> Some h" by (simp add: spin_owner_iff)
  with enter have "spin_owner lk ow (t, pc(h := Spinning))"
    by (auto simp: spin_part_Done spin_owner_def)
  then show ?case ..
next
  case (swap_again pc h s old t)
  then have "spin_owner lk ow (t, pc)"
    by (auto simp: spin_part_Done spin_owner_def)
  then show ?case ..
next
  case (swap_won pc h s t)
  then have "spin_owner lk (Some h) (t, pc(h := Swapped))"
    by (auto simp: spin_part_Done spin_owner_def)
  then show ?case ..
next
  case (note_holder pc h s t)
  then have "ow = Some h" by (simp add: spin_owner_iff)
  have "\<And>k. pc k = Critical \<Longrightarrow> k = h"
    by (rule spin_owner_unique [OF note_holder(3)]) (simp_all add: note_holder(1))
  with note_holder \<open>ow = Some h\<close> have "spin_owner lk ow (t, pc(h := Critical))"
    by (auto simp: acquire_record_def lock_update_def km_simps mycpu_def cpuid_def spin_owner_def)
  then show ?case ..
next
  case (clear_holder pc h s t)
  then have "ow = Some h" by (simp add: spin_owner_iff)
  have others: "\<not> owns (pc k)" if "k \<noteq> h" for k
    using that spin_owner_unique [OF clear_holder(3)] clear_holder(1) by auto
  then have "pc k \<noteq> Critical" if "k \<noteq> h" for k
    using that by fastforce
  with others clear_holder(1,2) \<open>ow = Some h\<close>
  have "spin_owner lk ow (t, pc(h := Cleared))"
    using clear_holder(3) by (simp add: spin_part_Done spin_owner_def)
  then show ?case ..
next
  case (unlock pc h s t)
  then have "ow = Some h" by (simp add: spin_owner_iff)
  with unlock have "spin_owner lk None (t, pc(h := Stored))"
    by (auto simp: release_store_def lock_update_def km_simps spin_owner_def)
  then show ?case ..
next
  case (enable pc h s t)
  then have "ow \<noteq> Some h" by (simp add: spin_owner_iff)
  with enable have "spin_owner lk ow (t, pc(h := Outside))"
    by (auto dest!: locks_pop_off simp: spin_owner_def)
  then show ?case ..
qed

lemma spin_reach_owner: "spin_reach lk c \<Longrightarrow> \<exists>ow. spin_owner lk ow c"
proof (induction rule: spin_reach.induct)
  case (start s)
  then have "spin_owner lk None (s, \<lambda>_. Outside)"
    by (simp add: spin_owner_def lock_free_def)
  then show ?case ..
next
  case (step c c')
  then show ?case using spin_owner_step by blast
qed

text \<open>
  C2. Mutual exclusion: however the harts' instructions interleave, at most one of them is
  between its successful swap and the store that frees the lock word.
\<close>

theorem spinlock_mutual_exclusion:
  assumes "spin_reach lk (s, pc)" "owns (pc h)" "owns (pc k)"
  shows "h = k"
  using spin_reach_owner [OF assms(1)] assms(2,3) by (auto simp: spin_owner_def)

text \<open>A run that takes the lock: enter, win the swap, record the holder.\<close>

definition taken_pc :: "nat \<Rightarrow> spin_pc" where
  "taken_pc = (\<lambda>_. Outside)(0 := Critical)"

lemma spin_reach_taken: "\<exists>s :: machine. spin_reach KmemLock (s, taken_pc)"
proof -
  let ?s = "on_hart 0 reset_machine"
  have "spin_reach KmemLock (reset_machine, \<lambda>_. Outside)"
    by (rule spin_reach.start) (simp add: lock_free_def reset_machine_def)
  moreover have "acquire_enter KmemLock ?s = Done () (pushed ?s)"
    by (simp add: acquire_enter_Done holding_def reset_machine_def)
  ultimately have "spin_reach KmemLock (pushed ?s, (\<lambda>_. Outside)(0 := Spinning))"
    by (auto intro: spin_reach.step spin_step.enter)
  moreover obtain t where t: "test_and_set KmemLock (on_hart 0 (pushed ?s)) = Done 0 t"
    by (simp add: test_and_set_Done reset_machine_def)
  ultimately have "spin_reach KmemLock (t, (\<lambda>_. Outside)(0 := Swapped))"
    using spin_step.swap_won [of "(\<lambda>_. Outside)(0 := Spinning)" 0, OF _ t]
    by (auto intro: spin_reach.step)
  moreover obtain u where u: "acquire_record KmemLock (on_hart 0 t) = Done () u"
    by (simp add: acquire_record_def lock_update_def km_simps)
  ultimately have "spin_reach KmemLock (u, taken_pc)"
    using spin_step.note_holder [of "(\<lambda>_. Outside)(0 := Swapped)" 0, OF _ u]
    by (auto intro: spin_reach.step simp: taken_pc_def)
  then show ?thesis ..
qed

theorem spinlock_mutual_exclusion_witness:
  "\<exists>s :: machine. spin_reach KmemLock (s, taken_pc) \<and> (\<forall>k. owns (taken_pc k) = (k = 0))"
proof -
  obtain s :: machine where s: "spin_reach KmemLock (s, taken_pc)"
    using spin_reach_taken by blast
  have "owns (taken_pc 0)" by (simp add: taken_pc_def)
  with spinlock_mutual_exclusion [OF s, of _ 0] have "\<forall>k. owns (taken_pc k) = (k = 0)" by blast
  with s show ?thesis by blast
qed

text \<open>
  C3. The holder check never fires on well-behaved harts: in every reachable state the hart in
  its critical section passes the check of \<open>release\<close> and a hart outside passes the check of
  \<open>acquire\<close>.
\<close>

theorem spinlock_no_false_panic:
  assumes "spin_reach lk (s, pc)"
  shows "(pc h = Critical \<longrightarrow> (\<exists>t. release_check lk (on_hart h s) = Done () t))
    \<and> (pc h = Outside \<longrightarrow> (\<exists>t. acquire_enter lk (on_hart h s) = Done () t))"
proof -
  from spin_reach_owner [OF assms] obtain ow where ow: "spin_owner lk ow (s, pc)" ..
  then have "pc h = Critical \<Longrightarrow> holding lk (on_hart h s)"
    using spin_owner_iff [OF ow, of h] by (auto simp: spin_owner_def holding_def mycpu_def cpuid_def)
  moreover from ow have "pc h = Outside \<Longrightarrow> \<not> holding lk (on_hart h s)"
    by (auto simp: spin_owner_def holding_def mycpu_def cpuid_def)
  ultimately show ?thesis by (simp add: acquire_enter_Done release_check_Done)
qed

theorem spinlock_no_false_panic_witness:
  "\<exists>s :: machine. spin_reach KmemLock (s, taken_pc)
     \<and> (\<exists>t. release_check KmemLock (on_hart 0 s) = Done () t)
     \<and> (\<exists>t. acquire_enter KmemLock (on_hart 1 s) = Done () t)"
proof -
  obtain s :: machine where s: "spin_reach KmemLock (s, taken_pc)"
    using spin_reach_taken by blast
  from spinlock_no_false_panic [OF s, of 0] spinlock_no_false_panic [OF s, of 1] s
  show ?thesis by (auto simp: taken_pc_def)
qed

end
