(* ===== verification/Xv6_String.thy ===== *)
theory Xv6_String
  imports Xv6_Machine
begin

text \<open>
  The kernel's string and memory routines (\<open>string.c\<close>). Routines whose arguments may overlap
  (\<open>memset\<close>, \<open>memmove\<close>) work on memory; the others work on what their pointers point to, as
  functions from the offset to the byte, so that they serve memory, arrays and struct fields
  alike.
\<close>

section \<open>Routines\<close>

type_synonym bytes_at = "nat \<Rightarrow> byte"

definition memset :: "memory \<Rightarrow> addr \<Rightarrow> int \<Rightarrow> uint \<Rightarrow> memory" where
  "memset m dst c n = fold (\<lambda>i m. m(dst + of_nat i := word_of_int c)) [0..<unat n] m"

primrec memcmp_loop :: "nat \<Rightarrow> bytes_at \<Rightarrow> bytes_at \<Rightarrow> int" where
  "memcmp_loop 0 s1 s2 = 0"
| "memcmp_loop (Suc n) s1 s2 =
     (if s1 0 \<noteq> s2 0 then uint (s1 0) - uint (s2 0)
      else memcmp_loop n (\<lambda>i. s1 (Suc i)) (\<lambda>i. s2 (Suc i)))"

definition memcmp :: "bytes_at \<Rightarrow> bytes_at \<Rightarrow> uint \<Rightarrow> int" where
  "memcmp v1 v2 n = memcmp_loop (unat n) v1 v2"

primrec copy_up :: "nat \<Rightarrow> memory \<Rightarrow> addr \<Rightarrow> addr \<Rightarrow> memory" where
  "copy_up 0 m d s = m"
| "copy_up (Suc n) m d s = copy_up n (m(d := m s)) (d + 1) (s + 1)"

primrec copy_down :: "nat \<Rightarrow> memory \<Rightarrow> addr \<Rightarrow> addr \<Rightarrow> memory" where
  "copy_down 0 m d s = m"
| "copy_down (Suc n) m d s = copy_down n (m(d - 1 := m (s - 1))) (d - 1) (s - 1)"

definition memmove :: "memory \<Rightarrow> addr \<Rightarrow> addr \<Rightarrow> uint \<Rightarrow> memory" where
  "memmove m dst src n =
     (if n = 0 then m
      else if src < dst \<and> src + ucast n > dst
      then copy_down (unat n) m (dst + ucast n) (src + ucast n)
      else copy_up (unat n) m dst src)"

definition memcpy :: "memory \<Rightarrow> addr \<Rightarrow> addr \<Rightarrow> uint \<Rightarrow> memory" where
  "memcpy m dst src n = memmove m dst src n"

primrec strncmp_loop :: "nat \<Rightarrow> bytes_at \<Rightarrow> bytes_at \<Rightarrow> int" where
  "strncmp_loop 0 p q = 0"
| "strncmp_loop (Suc n) p q =
     (if p 0 \<noteq> 0 \<and> p 0 = q 0 then strncmp_loop n (\<lambda>i. p (Suc i)) (\<lambda>i. q (Suc i))
      else uint (p 0) - uint (q 0))"

definition strncmp :: "bytes_at \<Rightarrow> bytes_at \<Rightarrow> uint \<Rightarrow> int" where
  "strncmp p q n = strncmp_loop (unat n) p q"

primrec strncpy_pad :: "nat \<Rightarrow> nat \<Rightarrow> bytes_at \<Rightarrow> bytes_at" where
  "strncpy_pad 0 i s = s"
| "strncpy_pad (Suc n) i s = strncpy_pad n (Suc i) (s(i := 0))"

primrec strncpy_loop :: "nat \<Rightarrow> nat \<Rightarrow> bytes_at \<Rightarrow> bytes_at \<Rightarrow> bytes_at" where
  "strncpy_loop 0 i s t = s"
| "strncpy_loop (Suc n) i s t =
     (if t i \<noteq> 0 then strncpy_loop n (Suc i) (s(i := t i)) t
      else strncpy_pad n (Suc i) (s(i := t i)))"

definition strncpy :: "bytes_at \<Rightarrow> bytes_at \<Rightarrow> int \<Rightarrow> bytes_at" where
  "strncpy s t n = strncpy_loop (nat n) 0 s t"

primrec safestrcpy_loop :: "nat \<Rightarrow> nat \<Rightarrow> bytes_at \<Rightarrow> bytes_at \<Rightarrow> bytes_at" where
  "safestrcpy_loop 0 i s t = s(i := 0)"
| "safestrcpy_loop (Suc n) i s t =
     (if t i \<noteq> 0 then safestrcpy_loop n (Suc i) (s(i := t i)) t
      else (s(i := t i))(Suc i := 0))"

definition safestrcpy :: "bytes_at \<Rightarrow> bytes_at \<Rightarrow> int \<Rightarrow> bytes_at" where
  "safestrcpy s t n = (if n \<le> 0 then s else safestrcpy_loop (nat (n - 1)) 0 s t)"

text \<open>The loop of \<open>strlen\<close> does not end on a string without a terminator.\<close>

partial_function (option) strlen_from :: "bytes_at \<Rightarrow> nat \<Rightarrow> nat option" where
  "strlen_from s n = (if s n = 0 then Some n else strlen_from s (Suc n))"

definition strlen :: "bytes_at \<Rightarrow> nat option" where
  "strlen s = strlen_from s 0"

section \<open>Memory routines\<close>

lemma unat_uint32: "unat (x :: uint) < 2 ^ 64"
  by (rule order_less_trans [OF unsigned_less]) simp

lemma within_Suc_last:
  "n < 2 ^ 64 \<Longrightarrow> within (Suc n) a x \<longleftrightarrow> x = a + of_nat n \<or> within n a x"
  by (auto simp: within_iff less_Suc_eq)

lemma fold_set_range:
  "n \<le> 2 ^ 64 \<Longrightarrow> fold (\<lambda>i m. m(dst + of_nat i := c)) [0..<n] m x = (if within n dst x then c else m x)"
  by (induction n) (simp_all add: within_Suc_last)

lemma memset_apply:
  "memset m dst c n x = (if within (unat n) dst x then word_of_int c else m x)"
  unfolding memset_def using unat_uint32 [of n] by (intro fold_set_range) simp

lemma copy_up_apply:
  assumes "n < 2 ^ 64" "\<And>i j. i < n \<Longrightarrow> j < i \<Longrightarrow> s + of_nat i \<noteq> d + of_nat j"
  shows "copy_up n m d s x = (if within n d x then m (s + (x - d)) else m x)"
  using assms
proof (induction n arbitrary: m d s)
  case (Suc n)
  have IH: "copy_up n (m(d := m s)) (d + 1) (s + 1) x =
      (if within n (d + 1) x then (m(d := m s)) (s + 1 + (x - (d + 1))) else (m(d := m s)) x)"
  proof (rule Suc.IH)
    show "n < 2 ^ 64" using Suc.prems(1) by simp
    fix i j assume "i < n" "j < i"
    then show "s + 1 + of_nat i \<noteq> d + 1 + of_nat j"
      using Suc.prems(2) [of "Suc i" "Suc j"] by (simp add: add.assoc)
  qed
  show ?case
  proof (cases "x = d")
    case True
    moreover have "\<not> within n (d + 1) d" using Suc.prems(1) by (intro not_within_before) simp
    ultimately show ?thesis using IH by (simp add: within_Suc)
  next
    case False
    show ?thesis
    proof (cases "within n (d + 1) x")
      case True
      then obtain i where i: "i < n" "x = d + 1 + of_nat i"
        using Suc.prems(1) by (auto simp: within_iff)
      then have "s + (x - d) \<noteq> d"
        using Suc.prems(2) [of "Suc i" 0] by (simp add: add.assoc)
      moreover have "s + 1 + (x - (d + 1)) = s + (x - d)" by simp
      ultimately show ?thesis using IH True False by (simp add: within_Suc)
    next
      case nw: False
      with IH False show ?thesis by (simp add: within_Suc)
    qed
  qed
qed simp

lemma copy_down_apply:
  assumes "n < 2 ^ 64" "\<And>i j. i < j \<Longrightarrow> j < n \<Longrightarrow> s + of_nat i \<noteq> d + of_nat j"
  shows "copy_down n m (d + of_nat n) (s + of_nat n) x =
    (if within n d x then m (s + (x - d)) else m x)"
  using assms
proof (induction n arbitrary: m)
  case (Suc n)
  let ?m = "m(d + of_nat n := m (s + of_nat n))"
  have IH: "copy_down n ?m (d + of_nat n) (s + of_nat n) x =
      (if within n d x then ?m (s + (x - d)) else ?m x)"
    using Suc.prems by (intro Suc.IH) auto
  have eq: "copy_down (Suc n) m (d + of_nat (Suc n)) (s + of_nat (Suc n)) x =
      copy_down n ?m (d + of_nat n) (s + of_nat n) x"
    by (simp add: algebra_simps)
  show ?case
  proof (cases "within n d x")
    case True
    then obtain i where i: "i < n" "x = d + of_nat i"
      using Suc.prems(1) by (auto simp: within_iff)
    then have "s + (x - d) \<noteq> d + of_nat n"
      using Suc.prems(2) [of i n] by simp
    with True IH eq Suc.prems(1) show ?thesis by (simp add: within_Suc_last)
  next
    case False
    with IH eq Suc.prems(1) show ?thesis by (auto simp: within_Suc_last)
  qed
qed simp

lemma unat_plus_of_nat:
  "unat (a :: addr) + k < 2 ^ 64 \<Longrightarrow> unat (a + of_nat k) = unat a + k"
  by (subst unat_add_lem [THEN iffD1]) (simp_all add: unat_of_nat_small)

text \<open>
  C4. \<open>memmove\<close> is a simultaneous copy: whether or not the two ranges overlap, every byte of the
  destination gets the old byte of the source, and nothing else changes (for ranges that do not
  run past the end of the address space).
\<close>

theorem memmove_correct:
  assumes "unat src + unat n < 2 ^ 64" "unat dst + unat n < 2 ^ 64"
  shows "memmove m dst src n x = (if within (unat n) dst x then m (src + (x - dst)) else m x)"
proof -
  let ?N = "unat n"
  have n64: "(ucast n :: addr) = of_nat ?N" by simp
  have src: "unat (src + of_nat i) = unat src + i" if "i \<le> ?N" for i
    using assms(1) that by (intro unat_plus_of_nat) simp
  have dst: "unat (dst + of_nat i) = unat dst + i" if "i \<le> ?N" for i
    using assms(2) that by (intro unat_plus_of_nat) simp
  consider "n = 0" | "n \<noteq> 0" "src < dst \<and> src + ucast n > dst"
    | "n \<noteq> 0" "\<not> (src < dst \<and> src + ucast n > dst)" by blast
  then show ?thesis
  proof cases
    case 1
    then show ?thesis by (simp add: memmove_def)
  next
    case 2
    then have "unat src < unat dst" by (simp add: word_less_nat_alt)
    have "src + of_nat i \<noteq> dst + of_nat j" if "i < j" "j < ?N" for i j
    proof
      assume eq: "src + of_nat i = dst + of_nat j"
      from that have "i \<le> ?N" "j \<le> ?N" by simp_all
      with src dst have "unat (src + of_nat i) = unat src + i" "unat (dst + of_nat j) = unat dst + j"
        by blast+
      moreover from eq have "unat (src + of_nat i) = unat (dst + of_nat j)" by (rule arg_cong)
      ultimately show False using \<open>unat src < unat dst\<close> that by linarith
    qed
    then have "copy_down ?N m (dst + of_nat ?N) (src + of_nat ?N) x =
        (if within ?N dst x then m (src + (x - dst)) else m x)"
      by (intro copy_down_apply unat_uint32)
    moreover have "memmove m dst src n = copy_down ?N m (dst + of_nat ?N) (src + of_nat ?N)"
      unfolding memmove_def n64 [symmetric] using 2 by (simp only: if_False if_True simp_thms)
    ultimately show ?thesis by (simp only:)
  next
    case 3
    have "src + of_nat i \<noteq> dst + of_nat j" if "i < ?N" "j < i" for i j
    proof
      assume eq: "src + of_nat i = dst + of_nat j"
      from that have "i \<le> ?N" "j \<le> ?N" by simp_all
      with src dst have "unat (src + of_nat i) = unat src + i" "unat (dst + of_nat j) = unat dst + j"
        by blast+
      moreover from eq have "unat (src + of_nat i) = unat (dst + of_nat j)" by (rule arg_cong)
      ultimately have "unat src + i = unat dst + j" by linarith
      moreover have "unat (src + ucast n) = unat src + ?N" using src [of ?N] by simp
      with 3 have "unat dst \<le> unat src \<or> unat src + ?N \<le> unat dst"
        by (auto simp: word_less_nat_alt not_less)
      ultimately show False using that by linarith
    qed
    then have "copy_up ?N m dst src x = (if within ?N dst x then m (src + (x - dst)) else m x)"
      by (intro copy_up_apply unat_uint32)
    moreover have "memmove m dst src n = copy_up ?N m dst src"
      unfolding memmove_def using 3 by (simp only: if_False if_True simp_thms)
    ultimately show ?thesis by (simp only:)
  qed
qed

theorem memmove_correct_witness:
  "memmove (\<lambda>a. ucast a) 0x1002 0x1000 4 0x1003 = 1 \<and> memmove (\<lambda>a. ucast a) 0x1002 0x1000 4 0x1006 = 6"
  using memmove_correct [of "0x1000" 4 "0x1002" "\<lambda>a. ucast a" "0x1003"]
    memmove_correct [of "0x1000" 4 "0x1002" "\<lambda>a. ucast a" "0x1006"]
  by (simp add: within_def)

section \<open>String routines\<close>

text \<open>The characters of a C string, cut at \<open>n\<close> bytes.\<close>

definition cstr :: "nat \<Rightarrow> bytes_at \<Rightarrow> byte list" where
  "cstr n s = takeWhile (\<lambda>c. c \<noteq> 0) (map s [0..<n])"

lemma cstr_0 [simp]: "cstr 0 s = []"
  by (simp add: cstr_def)

lemma cstr_Suc: "cstr (Suc n) s = (if s 0 = 0 then [] else s 0 # cstr n (\<lambda>i. s (Suc i)))"
  by (simp add: cstr_def upt_conv_Cons map_Suc_upt [symmetric] comp_def del: upt_Suc)

lemma length_cstr: "length (cstr n s) \<le> n"
  unfolding cstr_def using length_takeWhile_le [of _ "map s [0..<n]"] by simp

lemma cstr_nth: "i < length (cstr n s) \<Longrightarrow> cstr n s ! i = s i \<and> s i \<noteq> 0"
proof -
  assume i: "i < length (cstr n s)"
  then have "i < n" using length_cstr [of n s] by linarith
  moreover from i have "cstr n s ! i = map s [0..<n] ! i"
    unfolding cstr_def by (rule takeWhile_nth)
  moreover from i have "cstr n s ! i \<noteq> 0"
    unfolding cstr_def by (auto dest: nth_mem set_takeWhileD)
  ultimately show ?thesis by simp
qed

lemma cstr_end: "length (cstr n s) < n \<Longrightarrow> s (length (cstr n s)) = 0"
  unfolding cstr_def using nth_length_takeWhile [of "\<lambda>c. c \<noteq> 0" "map s [0..<n]"] by simp

lemma cstr_eqI:
  assumes "k \<le> n" "\<And>i. i < k \<Longrightarrow> s i = xs ! i" "\<And>i. i < k \<Longrightarrow> xs ! i \<noteq> 0"
    "k < n \<Longrightarrow> s k = 0" "length xs = k"
  shows "cstr n s = xs"
  using assms
proof (induction n arbitrary: s xs k)
  case (Suc n)
  show ?case
  proof (cases k)
    case 0
    with Suc.prems show ?thesis by (simp add: cstr_Suc)
  next
    case (Suc k')
    with Suc.prems(5) obtain x ys where xs: "xs = x # ys" "length ys = k'" by (cases xs) auto
    have "s (Suc i) = ys ! i" "ys ! i \<noteq> 0" if "i < k'" for i
      using Suc.prems(2,3) [of "Suc i"] that Suc xs by simp_all
    then have "cstr n (\<lambda>i. s (Suc i)) = ys"
      using Suc.prems(1,4) Suc xs by (intro Suc.IH [of k']) simp_all
    with Suc.prems(2,3) [of 0] Suc xs show ?thesis by (simp add: cstr_Suc)
  qed
qed simp

lemma strncmp_loop_zero: "strncmp_loop n p q = 0 \<longleftrightarrow> cstr n p = cstr n q"
  by (induction n arbitrary: p q) (auto simp: cstr_Suc uint_0_iff word_uint_eq_iff [symmetric])

text \<open>
  \<open>strncmp\<close> returns 0 exactly when the two strings, each cut at \<open>n\<close> bytes, are equal.
\<close>

lemma strncmp_zero: "strncmp p q n = 0 \<longleftrightarrow> cstr (unat n) p = cstr (unat n) q"
  by (simp add: strncmp_def strncmp_loop_zero)

lemma memcmp_loop_zero: "memcmp_loop n p q = 0 \<longleftrightarrow> (\<forall>i<n. p i = q i)"
  by (induction n arbitrary: p q) (auto simp: less_Suc_eq_0_disj word_uint_eq_iff [symmetric])

lemma strncpy_pad_apply: "strncpy_pad n i s k = (if i \<le> k \<and> k < i + n then 0 else s k)"
  by (induction n arbitrary: i s) auto

lemma strncpy_loop_apply:
  "strncpy_loop n i s t k =
     (if i \<le> k \<and> k < i + n
      then if k < i + length (cstr n (\<lambda>j. t (i + j))) then t k else 0 else s k)"
proof (induction n arbitrary: i s k)
  case (Suc n)
  show ?case by (auto simp: Suc.IH cstr_Suc strncpy_pad_apply)
qed auto

lemma strncpy_apply:
  "strncpy s t n k =
     (if k < nat n then if k < length (cstr (nat n) t) then t k else 0 else s k)"
  by (simp add: strncpy_def strncpy_loop_apply)

lemma safestrcpy_loop_apply:
  "safestrcpy_loop n i s t k =
     (if k < i \<or> i + n < k then s k
      else if k < i + length (cstr n (\<lambda>j. t (i + j))) then t k
      else if k \<le> Suc (i + length (cstr n (\<lambda>j. t (i + j)))) then 0 else s k)"
proof (induction n arbitrary: i s k)
  case (Suc n)
  show ?case by (cases "k = i") (auto simp: Suc.IH cstr_Suc)
qed auto

lemma strlen_from_eq:
  "(\<And>j. i \<le> j \<Longrightarrow> j < k \<Longrightarrow> s j \<noteq> 0) \<Longrightarrow> i \<le> k \<Longrightarrow> s k = 0 \<Longrightarrow> strlen_from s i = Some k"
proof (induction "k - i" arbitrary: i)
  case 0
  then show ?case by (subst strlen_from.simps) simp
next
  case (Suc x)
  then show ?case by (subst strlen_from.simps) auto
qed

lemma strlen_eq: "(\<And>j. j < k \<Longrightarrow> s j \<noteq> 0) \<Longrightarrow> s k = 0 \<Longrightarrow> strlen s = Some k"
  unfolding strlen_def by (rule strlen_from_eq) simp_all

text \<open>
  C5. \<open>safestrcpy\<close> into a buffer of \<open>n > 0\<close> bytes copies the source cut at \<open>n - 1\<close> bytes: the result
  is a terminated string that \<open>strlen\<close> measures, and no byte at or past \<open>n\<close> is written.
\<close>

theorem safestrcpy_terminates_string:
  assumes "0 < n"
  shows "cstr (nat n) (safestrcpy s t n) = cstr (nat (n - 1)) t
    \<and> strlen (safestrcpy s t n) = Some (length (cstr (nat (n - 1)) t))
    \<and> (\<forall>i. nat n \<le> i \<longrightarrow> safestrcpy s t n i = s i)"
proof -
  let ?c = "cstr (nat (n - 1)) t" and ?r = "safestrcpy s t n"
  have n: "nat n = Suc (nat (n - 1))" using assms by simp
  have r: "?r k = (if nat (n - 1) < k then s k else if k < length ?c then t k
      else if k \<le> Suc (length ?c) then 0 else s k)" for k
    using assms by (simp add: safestrcpy_def safestrcpy_loop_apply)
  have len: "length ?c \<le> nat (n - 1)" by (rule length_cstr)
  have body: "?r i = ?c ! i" "?c ! i \<noteq> 0" if "i < length ?c" for i
    using that len cstr_nth [OF that] by (simp_all add: r)
  have fin: "?r (length ?c) = 0" using len by (simp add: r)
  from body fin len n have "cstr (nat n) ?r = ?c" by (intro cstr_eqI [of "length ?c"]) auto
  moreover from body fin have "strlen ?r = Some (length ?c)" by (intro strlen_eq) auto
  ultimately show ?thesis using n by (simp add: r)
qed

theorem safestrcpy_terminates_string_witness:
  "cstr 3 (safestrcpy (\<lambda>_. 9) (\<lambda>i. [97, 98, 99, 0] ! i) 3) = [97, 98]"
proof -
  have "cstr 2 (\<lambda>i. [97, 98, 99, 0] ! i) = [97, 98]" by code_simp
  then show ?thesis
    using safestrcpy_terminates_string [of 3 "\<lambda>_. 9" "\<lambda>i. [97, 98, 99, 0] ! i"] by simp
qed

end
