(* ===== verification/Xv6_Kalloc.thy ===== *)
theory Xv6_Kalloc
  imports Xv6_Spinlock Xv6_String
begin

text \<open>
  The physical page allocator (\<open>kalloc.c\<close>): the free list threaded through the free pages, its
  invariant, the contract of an allocator that hands out whole pages, and the proof that
  \<open>kalloc\<close> and \<open>kfree\<close> meet it.
\<close>

section \<open>Operations\<close>

record kmem = machine +
  freelist :: addr

definition fill_page :: "addr \<Rightarrow> int \<Rightarrow> ('a machine_scheme, unit) km" where
  "fill_page pa c = modify (\<lambda>s. s\<lparr>mem := memset (mem s) pa c 4096\<rparr>)"

definition kfree :: "addr \<Rightarrow> ('a kmem_scheme, unit) km" where
  "kfree pa = block [
     bind (gets (\<lambda>s. pa mod PGSIZE \<noteq> 0 \<or> pa < end_sym s \<or> pa \<ge> PHYSTOP)) (\<lambda>b.
       panic_if b ''kfree''),
     fill_page pa 1,
     acquire KmemLock,
     bind (gets freelist) (kstore64 pa),
     modify (\<lambda>s. s\<lparr>freelist := pa\<rparr>),
     release KmemLock]"

definition kalloc :: "('a kmem_scheme, addr) km" where
  "kalloc =
     bind (acquire KmemLock) (\<lambda>_.
     bind (gets freelist) (\<lambda>r.
     bind (block [
       only_if (r \<noteq> 0) (bind (kload64 r) (\<lambda>n. modify (\<lambda>s. s\<lparr>freelist := n\<rparr>))),
       release KmemLock,
       only_if (r \<noteq> 0) (fill_page r 5)]) (\<lambda>_.
     ret r)))"

definition freerange :: "addr \<Rightarrow> addr \<Rightarrow> ('a kmem_scheme, unit) km" where
  "freerange pa_start pa_end =
     loop (\<lambda>p. if p + PGSIZE \<le> pa_end then bind (kfree p) (\<lambda>_. ret (Inl (p + PGSIZE)))
               else ret (Inr ())) (PGROUNDUP pa_start)"

definition kinit :: "('a kmem_scheme, unit) km" where
  "kinit = block [
     initlock KmemLock ''kmem'',
     bind (gets end_sym) (\<lambda>e. freerange e PHYSTOP)]"

section \<open>The free list\<close>

text \<open>
  \<open>run_list m a xs\<close>: the pages \<open>xs\<close> are linked from \<open>a\<close> through their first words, up to a null
  pointer. \<open>kpage\<close>: a page the allocator manages.
\<close>

primrec run_list :: "memory \<Rightarrow> addr \<Rightarrow> addr list \<Rightarrow> bool" where
  "run_list m a [] \<longleftrightarrow> a = 0"
| "run_list m a (x # xs) \<longleftrightarrow> a = x \<and> run_list m (load64 m x) xs"

definition kpage :: "'a machine_scheme \<Rightarrow> addr \<Rightarrow> bool" where
  "kpage s x \<longleftrightarrow> page_aligned x \<and> end_sym s \<le> x \<and> x < PHYSTOP"

definition kmem_inv :: "addr list \<Rightarrow> 'a kmem_scheme \<Rightarrow> bool" where
  "kmem_inv xs s \<longleftrightarrow> run_list (mem s) (freelist s) xs \<and> distinct xs \<and> (\<forall>x\<in>set xs. kpage s x)
     \<and> KERNBASE \<le> end_sym s"

text \<open>The states in which the allocator is called: interrupts in order, its lock free.\<close>

definition kmem_ready :: "'a kmem_scheme \<Rightarrow> bool" where
  "kmem_ready s \<longleftrightarrow> cpu_ok s \<and> lock_free KmemLock s"

lemma run_list_cong:
  "(\<And>x y. x \<in> set xs \<Longrightarrow> in_page x y \<Longrightarrow> m y = m' y) \<Longrightarrow> run_list m a xs = run_list m' a xs"
proof (induction xs arbitrary: a)
  case (Cons x xs)
  have "load64 m x = load64 m' x"
    by (rule load64_cong, rule Cons.prems [of x]) (simp_all add: within_page_start)
  moreover have "run_list m b xs = run_list m' b xs" for b
    by (rule Cons.IH, rule Cons.prems) auto
  ultimately show ?case by simp
qed simp

lemma kpage_aligned: "kpage s x \<Longrightarrow> page_aligned x"
  by (simp add: kpage_def)

lemma kpage_nonnull:
  assumes "kpage s x" "KERNBASE \<le> end_sym s" shows "\<not> x < PGSIZE" "x \<noteq> 0"
  using assms by (auto simp: kpage_def word_le_nat_alt word_less_nat_alt)

lemma memset_page: "memset m pa c 4096 x = (if in_page pa x then word_of_int c else m x)"
  by (simp add: memset_apply)

lemma freelist_lock_simps [simp]:
  "freelist (entered lk s) = freelist s" "freelist (quiet s) = freelist s"
  "freelist_update f (entered lk s) = entered lk (freelist_update f s)"
  "freelist_update f (quiet s) = quiet (freelist_update f s)"
  "cpu_ok (freelist_update f s) = cpu_ok s"
  "lock_free lk (freelist_update f s) = lock_free lk s"
  by (simp_all add: lock_state_defs)

lemma kfree_eq:
  assumes "kmem_ready s" "kpage s pa" "KERNBASE \<le> end_sym s"
  shows "kfree pa s = Done () (quiet (s
    \<lparr>mem := store64 (memset (mem s) pa 1 4096) pa (freelist s), freelist := pa\<rparr>))"
proof -
  from assms(2) have "\<not> (pa mod PGSIZE \<noteq> 0 \<or> pa < end_sym s \<or> pa \<ge> PHYSTOP)"
    by (auto simp: kpage_def page_aligned_def not_le)
  with assms(1) kpage_nonnull [OF assms(2,3)] show ?thesis
    by (simp add: kfree_def kmem_ready_def fill_page_def kstore64_def km_simps acquire_eq)
qed

lemma kalloc_eq:
  assumes "kmem_ready s" "kmem_inv xs s"
  shows "kalloc s = Done (freelist s) (quiet (if xs = [] then s else
     s\<lparr>freelist := load64 (mem s) (freelist s), mem := memset (mem s) (freelist s) 5 4096\<rparr>))"
proof (cases xs)
  case Nil
  with assms show ?thesis
    by (simp add: kalloc_def kmem_inv_def kmem_ready_def km_simps acquire_eq)
next
  case (Cons x ys)
  with assms(2) have "kpage s (freelist s)" "KERNBASE \<le> end_sym s" by (simp_all add: kmem_inv_def)
  from kpage_nonnull [OF this] Cons assms(1) show ?thesis
    by (simp add: kalloc_def kmem_ready_def fill_page_def kload64_def km_simps acquire_eq)
qed

lemma kpage_lock_simps [simp]:
  "kpage (quiet s) = kpage s" "kpage (mem_update f s) = kpage s"
  "kpage (freelist_update g s) = kpage s" for s :: "'a kmem_scheme"
  by (simp_all add: kpage_def fun_eq_iff)

lemma kmem_inv_quiet [simp]: "kmem_inv xs (quiet s) = kmem_inv xs s"
  by (simp add: kmem_inv_def)

lemma kmem_ready_simps [simp]:
  "kmem_ready (quiet s) = kmem_ready s" "kmem_ready (mem_update f s) = kmem_ready s"
  "kmem_ready (freelist_update g s) = kmem_ready s"
  by (simp_all add: kmem_ready_def)

text \<open>Writes outside the free pages keep the free list.\<close>

lemma kmem_inv_mem:
  assumes "kmem_inv xs s" "\<And>x y. x \<in> set xs \<Longrightarrow> in_page x y \<Longrightarrow> m y = mem s y"
  shows "kmem_inv xs (s\<lparr>mem := m\<rparr>)"
proof -
  have "run_list m (freelist s) xs = run_list (mem s) (freelist s) xs"
    by (rule run_list_cong) (rule assms(2))
  with assms(1) show ?thesis by (simp add: kmem_inv_def)
qed

lemma kmem_inv_freelist:
  "kmem_inv ys (s\<lparr>freelist := a\<rparr>) \<longleftrightarrow> run_list (mem s) a ys \<and> distinct ys
     \<and> (\<forall>x\<in>set ys. kpage s x) \<and> KERNBASE \<le> end_sym s"
  by (simp add: kmem_inv_def)

lemma kmem_inv_distinct_pages:
  assumes "kmem_inv xs s" "x \<in> set xs" "kpage s p" "p \<noteq> x" "in_page x y"
  shows "\<not> in_page p y"
  using pages_disjoint [of x p y] assms by (auto simp: kmem_inv_def kpage_def)

lemma kmem_inv_free:
  assumes "kmem_inv xs s" "kpage s pa" "pa \<notin> set xs"
  shows "kmem_inv (pa # xs) (s\<lparr>mem := store64 (memset (mem s) pa 1 4096) pa (freelist s), freelist := pa\<rparr>)"
proof -
  let ?m = "store64 (memset (mem s) pa 1 4096) pa (freelist s)"
  have "?m y = mem s y" if "x \<in> set xs" "in_page x y" for x y
  proof -
    have "\<not> in_page pa y" using kmem_inv_distinct_pages [OF assms(1) that(1) assms(2) _ that(2)]
      assms(3) that(1) by blast
    moreover from this have "\<not> within 8 pa y" using within_page_start [of 8 pa y] by auto
    ultimately show ?thesis by (simp add: store64_other memset_page)
  qed
  then have "kmem_inv xs (s\<lparr>mem := ?m\<rparr>)" by (rule kmem_inv_mem [OF assms(1)])
  with assms(2,3) show ?thesis by (simp add: kmem_inv_def)
qed

lemma kmem_inv_alloc:
  assumes "kmem_inv (x # xs) s"
  shows "kmem_inv xs (s\<lparr>freelist := load64 (mem s) x, mem := memset (mem s) x 5 4096\<rparr>)"
proof -
  have "kmem_inv xs (s\<lparr>freelist := load64 (mem s) x\<rparr>)"
    using assms by (simp add: kmem_inv_def)
  moreover have "\<not> in_page x y" if "z \<in> set xs" "in_page z y" for z y
    using kmem_inv_distinct_pages [OF assms, of z x y] that assms by (auto simp: kmem_inv_def)
  then have "memset (mem s) x 5 4096 y = mem (s\<lparr>freelist := load64 (mem s) x\<rparr>) y"
    if "z \<in> set xs" "in_page z y" for z y
    using that by (auto simp: memset_page)
  ultimately show ?thesis by (rule kmem_inv_mem [where s = "s\<lparr>freelist := load64 (mem s) x\<rparr>"])
qed

section \<open>The contract of a page allocator\<close>

text \<open>
  What the rest of the kernel relies on. \<open>frees xs s\<close>: the free pages, in the order they will be
  handed out; \<open>bytes\<close>: memory; \<open>write\<close>: a store by the owner of a page.
\<close>

locale page_allocator =
  fixes ready :: "'s \<Rightarrow> bool" and frees :: "addr list \<Rightarrow> 's \<Rightarrow> bool" and bytes :: "'s \<Rightarrow> memory"
    and alloc :: "('s, addr) km" and dealloc :: "addr \<Rightarrow> ('s, unit) km"
    and set_bytes :: "memory \<Rightarrow> 's \<Rightarrow> 's" and managed :: "'s \<Rightarrow> addr \<Rightarrow> bool"
  assumes alloc_empty: "ready s \<Longrightarrow> frees [] s \<Longrightarrow>
      \<exists>t. alloc s = Done 0 t \<and> ready t \<and> frees [] t \<and> managed t = managed s \<and> bytes t = bytes s"
    and alloc_head: "ready s \<Longrightarrow> frees (x # xs) s \<Longrightarrow>
      \<exists>t. alloc s = Done x t \<and> ready t \<and> frees xs t \<and> managed t = managed s
        \<and> (\<forall>y. bytes t y = (if in_page x y then 5 else bytes s y))"
    and dealloc_head: "ready s \<Longrightarrow> frees xs s \<Longrightarrow> managed s x \<Longrightarrow> x \<notin> set xs \<Longrightarrow>
      \<exists>t. dealloc x s = Done () t \<and> ready t \<and> frees (x # xs) t \<and> managed t = managed s
        \<and> (\<forall>y. \<not> in_page x y \<longrightarrow> bytes t y = bytes s y)"
    and set_bytes_frees: "frees xs s \<Longrightarrow> (\<And>x y. x \<in> set xs \<Longrightarrow> in_page x y \<Longrightarrow> m y = bytes s y) \<Longrightarrow>
      frees xs (set_bytes m s)"
    and set_bytes_ready: "ready (set_bytes m s) = ready s"
    and set_bytes_managed: "managed (set_bytes m s) = managed s"
    and frees_managed: "frees xs s \<Longrightarrow> x \<in> set xs \<Longrightarrow> managed s x"
    and frees_distinct: "frees xs s \<Longrightarrow> distinct xs"
    and frees_nonnull: "frees xs s \<Longrightarrow> x \<in> set xs \<Longrightarrow> x \<noteq> 0"
    and managed_disjoint: "managed s x \<Longrightarrow> managed s y \<Longrightarrow> x \<noteq> y \<Longrightarrow> \<not> (in_page x a \<and> in_page y a)"

text \<open>
  A run of clients against an allocator: they take pages, give pages back and write into the
  pages they hold. The second component is the set of pages held.
\<close>

inductive page_run ::
  "('s, addr) km \<Rightarrow> (addr \<Rightarrow> ('s, unit) km) \<Rightarrow> (memory \<Rightarrow> 's \<Rightarrow> 's) \<Rightarrow> ('s \<Rightarrow> memory) \<Rightarrow>
   's \<times> addr set \<Rightarrow> 's \<times> addr set \<Rightarrow> bool" for A D W B c where
  idle: "page_run A D W B c c"
| take_page: "page_run A D W B c (s, H) \<Longrightarrow> A s = Done p t \<Longrightarrow> p \<noteq> 0 \<Longrightarrow>
    page_run A D W B c (t, insert p H)"
| none_left: "page_run A D W B c (s, H) \<Longrightarrow> A s = Done 0 t \<Longrightarrow> page_run A D W B c (t, H)"
| give_page: "page_run A D W B c (s, H) \<Longrightarrow> p \<in> H \<Longrightarrow> D p s = Done () t \<Longrightarrow>
    page_run A D W B c (t, H - {p})"
| write_page: "page_run A D W B c (s, H) \<Longrightarrow> p \<in> H \<Longrightarrow> in_page p a \<Longrightarrow>
    page_run A D W B c (W ((B s)(a := v)) s, H)"

definition page_state ::
  "('s \<Rightarrow> bool) \<Rightarrow> (addr list \<Rightarrow> 's \<Rightarrow> bool) \<Rightarrow> ('s \<Rightarrow> addr \<Rightarrow> bool) \<Rightarrow> addr set \<Rightarrow> 's \<Rightarrow> addr set \<Rightarrow> bool" where
  "page_state rdy fr mg P s H \<longleftrightarrow> rdy s \<and> (\<forall>p\<in>H. mg s p)
     \<and> (\<exists>xs. fr xs s \<and> set xs \<inter> H = {} \<and> set xs \<union> H = P)"

context page_allocator
begin

lemma alloc_step:
  assumes "page_state ready frees managed P s H" "alloc s = Done p t"
  shows "page_state ready frees managed P t (if p = 0 then H else insert p H) \<and> p \<notin> H - {0}"
proof -
  obtain xs where xs: "frees xs s" "set xs \<inter> H = {}" "set xs \<union> H = P"
    using assms(1) by (auto simp: page_state_def)
  have s: "ready s" "\<forall>p\<in>H. managed s p" using assms(1) by (simp_all add: page_state_def)
  show ?thesis
  proof (cases xs)
    case Nil
    with alloc_empty [OF s(1)] xs s assms(2) show ?thesis by (auto simp: page_state_def)
  next
    case (Cons x ys)
    with alloc_head [OF s(1), of x ys] xs(1) obtain u where u: "alloc s = Done x u" "ready u"
      "frees ys u" "managed u = managed s" by auto
    moreover have "x \<noteq> 0" "managed s x" "x \<notin> set ys"
      using frees_nonnull [OF xs(1)] frees_managed [OF xs(1)] frees_distinct [OF xs(1)] Cons by auto
    ultimately show ?thesis using xs s Cons assms(2) by (auto simp: page_state_def intro!: exI [of _ ys])
  qed
qed

lemma dealloc_step:
  assumes "page_state ready frees managed P s H" "p \<in> H"
  shows "\<exists>t. dealloc p s = Done () t \<and> page_state ready frees managed P t (H - {p})"
proof -
  obtain xs where xs: "frees xs s" "set xs \<inter> H = {}" "set xs \<union> H = P"
    using assms(1) by (auto simp: page_state_def)
  have s: "ready s" "\<forall>p\<in>H. managed s p" using assms(1) by (simp_all add: page_state_def)
  from dealloc_head [OF s(1) xs(1), of p] s(2) xs(2) assms(2)
  obtain t where "dealloc p s = Done () t" "ready t" "frees (p # xs) t" "managed t = managed s"
    by auto
  with xs s assms(2) show ?thesis by (auto simp: page_state_def intro!: exI [of _ "p # xs"])
qed

lemma write_step:
  assumes "page_state ready frees managed P s H" "p \<in> H" "in_page p a"
  shows "page_state ready frees managed P (set_bytes ((bytes s)(a := v)) s) H"
proof -
  obtain xs where xs: "frees xs s" "set xs \<inter> H = {}" "set xs \<union> H = P"
    using assms(1) by (auto simp: page_state_def)
  have s: "ready s" "\<forall>p\<in>H. managed s p" using assms(1) by (simp_all add: page_state_def)
  have "((bytes s)(a := v)) y = bytes s y" if "x \<in> set xs" "in_page x y" for x y
    using managed_disjoint [of s x p a] frees_managed [OF xs(1) that(1)] s(2) assms(2,3) that xs(2)
    by auto
  then have "frees xs (set_bytes ((bytes s)(a := v)) s)" by (rule set_bytes_frees [OF xs(1)])
  with xs s show ?thesis by (auto simp: page_state_def set_bytes_ready set_bytes_managed)
qed

lemma run_state:
  assumes "page_run alloc dealloc set_bytes bytes c d"
    "page_state ready frees managed P (fst c) (snd c)"
  shows "page_state ready frees managed P (fst d) (snd d)"
  using assms
proof (induction rule: page_run.induct)
  case (take_page s H p t)
  then show ?case using alloc_step [of P s H p t] by simp
next
  case (none_left s H t)
  then show ?case using alloc_step [of P s H 0 t] by simp
next
  case (give_page s H p t)
  then show ?case using dealloc_step [of P s H p] by auto
next
  case (write_page s H p a v)
  then show ?case using write_step [of P s H p a v] by simp
qed simp

end

lemma kalloc_empty:
  "kmem_ready s \<Longrightarrow> kmem_inv [] s \<Longrightarrow> kalloc s = Done 0 (quiet s)"
  using kalloc_eq [of s "[]"] by (simp add: kmem_inv_def)

lemma kalloc_head:
  "kmem_ready s \<Longrightarrow> kmem_inv (x # xs) s \<Longrightarrow>
   kalloc s = Done x (quiet (s\<lparr>freelist := load64 (mem s) x, mem := memset (mem s) x 5 4096\<rparr>))"
  using kalloc_eq [of s "x # xs"] by (simp add: kmem_inv_def)

lemma kfreed_other:
  assumes "\<not> in_page pa y"
  shows "store64 (memset m pa 1 4096) pa v y = m y"
proof -
  have "\<not> within 8 pa y" using assms within_page_start [of 8 pa y] by auto
  with assms show ?thesis by (simp add: store64_other memset_page)
qed

interpretation kpages: page_allocator kmem_ready kmem_inv mem kalloc kfree "\<lambda>m s. s\<lparr>mem := m\<rparr>" kpage
proof unfold_locales
  fix s :: "'a kmem_scheme" and x xs
  assume s: "kmem_ready s" "kmem_inv (x # xs) s"
  then show "\<exists>t. kalloc s = Done x t \<and> kmem_ready t \<and> kmem_inv xs t \<and> kpage t = kpage s
      \<and> (\<forall>y. mem t y = (if in_page x y then 5 else mem s y))"
    by (simp add: kalloc_head kmem_inv_alloc memset_page)
next
  fix s :: "'a kmem_scheme" and x xs
  assume s: "kmem_ready s" "kmem_inv xs s" "kpage s x" "x \<notin> set xs"
  then have "KERNBASE \<le> end_sym s" by (simp add: kmem_inv_def)
  with s show "\<exists>t. kfree x s = Done () t \<and> kmem_ready t \<and> kmem_inv (x # xs) t \<and> kpage t = kpage s
      \<and> (\<forall>y. \<not> in_page x y \<longrightarrow> mem t y = mem s y)"
    by (simp add: kfree_eq kmem_inv_free kfreed_other)
next
  fix s :: "'a kmem_scheme" and xs x
  assume "kmem_inv xs s" "x \<in> set xs"
  then show "x \<noteq> 0" using kpage_nonnull [of s x] by (auto simp: kmem_inv_def)
next
  fix s :: "'a kmem_scheme" and xs m
  assume "kmem_inv xs s" "\<And>x y. x \<in> set xs \<Longrightarrow> in_page x y \<Longrightarrow> m y = mem s y"
  then show "kmem_inv xs (s\<lparr>mem := m\<rparr>)" by (rule kmem_inv_mem)
qed (auto simp: kalloc_empty kmem_inv_def pages_disjoint kpage_def)

section \<open>Properties\<close>

text \<open>A machine whose allocator has not been initialised, and one with a single free page.\<close>

definition boot_kmem :: kmem where
  "boot_kmem = machine.extend reset_machine (kmem.fields 0)"

definition one_free_page :: kmem where
  "one_free_page = boot_kmem\<lparr>freelist := 0x80030000\<rparr>"

lemma boot_kmem_simps [simp]:
  "freelist boot_kmem = 0" "mem boot_kmem = (\<lambda>_. 0)" "end_sym boot_kmem = 0x80027000"
  "kmem_ready boot_kmem"
  by (simp_all add: boot_kmem_def reset_machine_def machine.defs kmem.defs kmem_ready_def
      lock_state_defs)

lemma one_free_page_inv:
  "kmem_ready one_free_page" "kmem_inv [0x80030000] one_free_page"
  by (simp_all add: one_free_page_def kmem_inv_def kpage_def page_aligned_def)

text \<open>
  C6. The allocator never hands out a page that is in use and never loses one: however clients
  take, return and overwrite pages, the free pages and the held pages partition the pages the
  allocator started with, every held page can be returned without a panic, and what \<open>kalloc\<close>
  returns is not held by anybody.
\<close>

theorem kalloc_no_double_allocation:
  assumes "page_run kalloc kfree (\<lambda>m s. s\<lparr>mem := m\<rparr>) mem (s, {}) (t, H)"
    "kmem_ready s" "kmem_inv xs s"
  shows "(\<exists>ys. kmem_inv ys t \<and> set ys \<inter> H = {} \<and> set ys \<union> H = set xs)
    \<and> (\<forall>p\<in>H. \<exists>u. kfree p t = Done () u)
    \<and> (\<forall>p u. kalloc t = Done p u \<longrightarrow> p \<notin> H)"
proof -
  have start: "page_state kmem_ready kmem_inv kpage (set xs) s {}"
    using assms(2,3) by (auto simp: page_state_def)
  have st: "page_state kmem_ready kmem_inv kpage (set xs) t H"
    using kpages.run_state [OF assms(1)] start by simp
  then obtain ys where ys: "kmem_inv ys t" "set ys \<inter> H = {}" "set ys \<union> H = set xs"
    by (auto simp: page_state_def)
  have "0 \<notin> H" using kpages.frees_nonnull [OF assms(3), of 0] ys(3) by blast
  then have "p \<notin> H" if "kalloc t = Done p u" for p u
    using kpages.alloc_step [OF st that] by auto
  moreover have "\<exists>u. kfree p t = Done () u" if "p \<in> H" for p
    using kpages.dealloc_step [OF st that] by blast
  ultimately show ?thesis using ys by blast
qed

theorem kalloc_no_double_allocation_witness:
  "\<exists>t. page_run kalloc kfree (\<lambda>m s. s\<lparr>mem := m\<rparr>) mem (one_free_page, {}) (t, {0x80030000})
     \<and> (\<exists>u. kfree 0x80030000 t = Done () u) \<and> (\<forall>p u. kalloc t = Done p u \<longrightarrow> p \<noteq> 0x80030000)"
proof -
  obtain t where "kalloc one_free_page = Done 0x80030000 t"
    using kalloc_head [OF one_free_page_inv] by blast
  then have t: "page_run kalloc kfree (\<lambda>m s. s\<lparr>mem := m\<rparr>) mem (one_free_page, {}) (t, {0x80030000})"
    using page_run.take_page [OF page_run.idle, where H = "{}"] by fastforce
  from kalloc_no_double_allocation [OF this one_free_page_inv] t show ?thesis by blast
qed

text \<open>
  C7. \<open>kfree\<close> accepts exactly the page-aligned addresses between the end of the kernel and the
  top of memory: on such a page it returns (in a state where the lock can be taken), on any
  other address it panics before touching anything.
\<close>

theorem kfree_outcomes:
  assumes "kmem_ready s" "KERNBASE \<le> end_sym s"
  shows "if pa mod PGSIZE = 0 \<and> end_sym s \<le> pa \<and> pa < PHYSTOP
    then \<exists>t. kfree pa s = Done () t \<and> freelist t = pa \<and> load64 (mem t) pa = freelist s
    else kfree pa s = Stop (Panic ''kfree'') s"
proof (cases "kpage s pa")
  case True
  then show ?thesis using kfree_eq [OF assms(1) True assms(2)]
    by (simp add: kpage_def page_aligned_def)
next
  case False
  then have "pa mod PGSIZE \<noteq> 0 \<or> pa < end_sym s \<or> pa \<ge> PHYSTOP"
    by (auto simp: kpage_def page_aligned_def not_le not_less)
  then show ?thesis by (auto simp: kfree_def km_simps not_le)
qed

theorem kfree_outcomes_witness:
  "kfree 0x80030001 boot_kmem = Stop (Panic ''kfree'') boot_kmem
   \<and> (\<exists>t. kfree 0x80030000 boot_kmem = Done () t \<and> freelist t = 0x80030000)"
  using kfree_outcomes [of boot_kmem "0x80030001"] kfree_outcomes [of boot_kmem "0x80030000"] by auto

subsection \<open>Initialisation\<close>

definition pages_from :: "addr \<Rightarrow> nat \<Rightarrow> addr list" where
  "pages_from p n = map (\<lambda>i. p + of_nat i * PGSIZE) [0..<n]"

lemma pages_from_Suc: "pages_from p (Suc n) = p # pages_from (p + PGSIZE) n"
  by (simp add: pages_from_def upt_conv_Cons map_Suc_upt [symmetric] comp_def algebra_simps del: upt_Suc)

lemma freerange_loop:
  assumes "unat p + 4096 * n = unat PHYSTOP" "page_aligned p" "end_sym s \<le> p"
    "kmem_ready s" "kmem_inv xs s" "\<forall>x\<in>set xs. x < p"
  shows "\<exists>t. loop (\<lambda>p. if p + PGSIZE \<le> PHYSTOP then bind (kfree p) (\<lambda>_. ret (Inl (p + PGSIZE)))
                 else ret (Inr ())) p s = Done () t
    \<and> kmem_ready t \<and> kmem_inv (rev (pages_from p n) @ xs) t \<and> end_sym t = end_sym s"
  using assms
proof (induction n arbitrary: p s xs)
  case 0
  then have "p = PHYSTOP" by (simp add: word_unat_eq_iff)
  with 0 show ?case by (subst loop_unfold) (simp add: km_simps pages_from_def)
next
  case (Suc n)
  have step: "unat (p + 4096) = unat p + 4096"
    using Suc.prems(1) unat_plus_of_nat [of p 4096] by simp
  then have up: "p + 4096 \<le> PHYSTOP" and page: "kpage s p"
    using Suc.prems(1-3) by (simp_all add: word_le_nat_alt word_less_nat_alt kpage_def)
  have base: "KERNBASE \<le> end_sym s" using Suc.prems(5) by (simp add: kmem_inv_def)
  obtain t where t: "kfree p s = Done () t" "kmem_ready t" "kmem_inv (p # xs) t" "end_sym t = end_sym s"
    using kfree_eq [OF Suc.prems(4) page base] kmem_inv_free [OF Suc.prems(5) page] Suc.prems(4,6)
    by auto
  have "page_aligned (p + 4096)"
    using Suc.prems(2) step by (simp add: page_aligned_unat)
  moreover have "end_sym t \<le> p + 4096"
    using Suc.prems(3) step t(4) by (simp add: word_le_nat_alt)
  moreover have "\<forall>x\<in>set (p # xs). x < p + 4096"
    using Suc.prems(6) step by (auto simp: word_less_nat_alt)
  ultimately have "\<exists>u. loop (\<lambda>p. if p + PGSIZE \<le> PHYSTOP then bind (kfree p) (\<lambda>_. ret (Inl (p + PGSIZE)))
                 else ret (Inr ())) (p + 4096) t = Done () u
    \<and> kmem_ready u \<and> kmem_inv (rev (pages_from (p + 4096) n) @ p # xs) u \<and> end_sym u = end_sym t"
    using Suc.prems(1) step t by (intro Suc.IH) simp_all
  then show ?case using up t by (subst loop_unfold) (simp add: km_simps pages_from_Suc)
qed

lemma kinit_all:
  assumes "cpu_ok s" "freelist s = 0" "KERNBASE \<le> end_sym s" "end_sym s \<le> PHYSTOP"
  shows "\<exists>t. kinit s = Done () t \<and> kmem_ready t
    \<and> kmem_inv (rev (pages_from (PGROUNDUP (end_sym s)) ((unat PHYSTOP - unat (PGROUNDUP (end_sym s))) div 4096))) t"
proof -
  let ?l = "\<lambda>l. l\<lparr>sl_name := ''kmem'', sl_locked := 0, sl_cpu := None\<rparr>"
  let ?s = "s\<lparr>locks := (locks s)(KmemLock := ?l (locks s KmemLock))\<rparr>"
  let ?p = "PGROUNDUP (end_sym s)"
  have bound: "unat (end_sym s) \<le> 2281701376" using assms(4) by (simp add: word_le_nat_alt)
  then have p: "unat ?p = (unat (end_sym s) + 4095) div 4096 * 4096"
    by (intro unat_PGROUNDUP) simp
  have "(unat (end_sym s) + 4095) div 4096 \<le> 557056" using bound by linarith
  then have le: "unat ?p \<le> 2281701376" unfolding p by linarith
  have n: "unat ?p + 4096 * ((unat PHYSTOP - unat ?p) div 4096) = unat PHYSTOP"
    using le unfolding p by simp
  have "end_sym s \<le> ?p" unfolding word_le_nat_alt p by linarith
  moreover have "kmem_ready ?s" "kmem_inv [] ?s"
    using assms by (simp_all add: kmem_ready_def kmem_inv_def lock_state_defs)
  ultimately show ?thesis
    using freerange_loop [OF n, of ?s "[]"]
    by (auto simp: kinit_def freerange_def initlock_def lock_update_def km_simps)
qed

text \<open>
  C8. After \<open>kinit\<close> the free list holds every whole page between the end of the kernel and the
  top of memory, each once, highest address first.
\<close>

theorem kinit_frees_all_pages:
  assumes "cpu_ok s" "freelist s = 0" "KERNBASE \<le> end_sym s" "end_sym s \<le> PHYSTOP"
  shows "\<exists>t. kinit s = Done () t \<and> kmem_ready t
    \<and> kmem_inv (rev (pages_from (PGROUNDUP (end_sym s)) ((unat PHYSTOP - unat (PGROUNDUP (end_sym s))) div 4096))) t"
  using kinit_all [OF assms] .

theorem kinit_frees_all_pages_witness:
  "\<exists>t. kinit boot_kmem = Done () t \<and> kmem_inv (rev (pages_from 0x80027000 32729)) t"
proof -
  have "PGROUNDUP 0x80027000 = 0x80027000"
    by (rule PGROUNDUP_aligned) (simp add: page_aligned_def)
  moreover have "cpu_ok boot_kmem" using boot_kmem_simps(4) by (simp add: kmem_ready_def)
  ultimately show ?thesis using kinit_frees_all_pages [of boot_kmem] by auto
qed

end
