(* ===== verification/Xv6_Vm.thy ===== *)
theory Xv6_Vm
  imports Xv6_Kalloc
begin

text \<open>
  Virtual memory (\<open>vm.c\<close>): Sv39 page tables in byte memory, the walk through them, mapping and
  unmapping, growing, copying and freeing user address spaces, and copying between kernel and
  user memory.
\<close>

section \<open>Operations\<close>

record vm = kmem +
  kernel_pagetable :: addr
  count :: int

text \<open>The address of entry \<open>PX(level, va)\<close> of a page-table page.\<close>

definition pte_slot :: "addr \<Rightarrow> nat \<Rightarrow> addr \<Rightarrow> addr" where
  "pte_slot pagetable level va = pagetable + 8 * PX level va"

primrec walk_from :: "nat \<Rightarrow> addr \<Rightarrow> addr \<Rightarrow> bool \<Rightarrow> ('a kmem_scheme, addr) km" where
  "walk_from 0 pagetable va alloc = ret (pte_slot pagetable 0 va)"
| "walk_from (Suc l) pagetable va alloc =
     bind (kload64 (pte_slot pagetable (Suc l) va)) (\<lambda>pte.
     if pte AND PTE_V \<noteq> 0 then walk_from l (PTE2PA pte) va alloc
     else if \<not> alloc then ret 0
     else bind kalloc (\<lambda>page.
       if page = 0 then ret 0
       else bind (block [
           fill_page page 0,
           kstore64 (pte_slot pagetable (Suc l) va) (PA2PTE page OR PTE_V)])
         (\<lambda>_. walk_from l page va alloc)))"

definition walk :: "addr \<Rightarrow> addr \<Rightarrow> bool \<Rightarrow> ('a kmem_scheme, addr) km" where
  "walk pagetable va alloc =
     (if va \<ge> MAXVA then panic ''walk'' else walk_from 2 pagetable va alloc)"

definition walkaddr :: "addr \<Rightarrow> addr \<Rightarrow> ('a kmem_scheme, addr) km" where
  "walkaddr pagetable va =
     (if va \<ge> MAXVA then ret 0
      else bind (walk pagetable va False) (\<lambda>pte.
        if pte = 0 then ret 0
        else bind (kload64 pte) (\<lambda>v.
          if v AND PTE_V = 0 then ret 0
          else if v AND PTE_U = 0 then ret 0
          else ret (PTE2PA v))))"

text \<open>The body of the loop of \<open>mappages\<close>, for the loop variables \<open>a\<close> and \<open>pa\<close>.\<close>

definition mappages_step ::
  "addr \<Rightarrow> addr \<Rightarrow> addr \<Rightarrow> addr \<times> addr \<Rightarrow> ('a kmem_scheme, (addr \<times> addr) + int) km" where
  "mappages_step pagetable perm final = (\<lambda>(a, pa).
     bind (walk pagetable a True) (\<lambda>pte.
     if pte = 0 then ret (Inr (-1))
     else bind (kload64 pte) (\<lambda>v.
       if v AND PTE_V \<noteq> 0 then panic ''mappages: remap''
       else bind (kstore64 pte (PA2PTE pa OR perm OR PTE_V)) (\<lambda>_.
         if a = final then ret (Inr 0)
         else ret (Inl (a + PGSIZE, pa + PGSIZE))))))"

definition mappages :: "addr \<Rightarrow> addr \<Rightarrow> addr \<Rightarrow> addr \<Rightarrow> addr \<Rightarrow> ('a kmem_scheme, int) km" where
  "mappages pagetable va sz pa perm =
     (if sz = 0 then panic ''mappages: size''
      else loop (mappages_step pagetable perm (PGROUNDDOWN (va + sz - 1))) (PGROUNDDOWN va, pa))"

definition kvmmap :: "addr \<Rightarrow> addr \<Rightarrow> addr \<Rightarrow> addr \<Rightarrow> addr \<Rightarrow> ('a kmem_scheme, unit) km" where
  "kvmmap kpgtbl va pa sz perm =
     bind (mappages kpgtbl va sz pa perm) (\<lambda>r. panic_if (r \<noteq> 0) ''kvmmap'')"

definition proc_mapstacks :: "addr \<Rightarrow> ('a kmem_scheme, unit) km" where
  "proc_mapstacks kpgtbl =
     for_each (\<lambda>p. bind kalloc (\<lambda>pa. block [
         panic_if (pa = 0) ''kalloc'',
         kvmmap kpgtbl (KSTACK p) pa PGSIZE (PTE_R OR PTE_W)])) [0..<NPROC]"

definition kvmmake :: "('a kmem_scheme, addr) km" where
  "kvmmake =
     bind kalloc (\<lambda>kpgtbl.
     bind (gets etext_sym) (\<lambda>etext.
     bind (gets trampoline_sym) (\<lambda>trampoline.
     bind (block [
       fill_page kpgtbl 0,
       kvmmap kpgtbl UART0 UART0 PGSIZE (PTE_R OR PTE_W),
       kvmmap kpgtbl VIRTIO0 VIRTIO0 PGSIZE (PTE_R OR PTE_W),
       kvmmap kpgtbl PLIC PLIC 0x400000 (PTE_R OR PTE_W),
       kvmmap kpgtbl KERNBASE KERNBASE (etext - KERNBASE) (PTE_R OR PTE_X),
       kvmmap kpgtbl etext etext (PHYSTOP - etext) (PTE_R OR PTE_W),
       kvmmap kpgtbl TRAMPOLINE trampoline PGSIZE (PTE_R OR PTE_X),
       proc_mapstacks kpgtbl]) (\<lambda>_.
     ret kpgtbl))))"

definition kvminit :: "('a vm_scheme, unit) km" where
  "kvminit = bind kvmmake (\<lambda>pt. modify (\<lambda>s. s\<lparr>kernel_pagetable := pt\<rparr>))"

text \<open>\<open>sfence_vma\<close> has no effect on the modelled state: the model has no translation cache.\<close>

definition kvminithart :: "('a vm_scheme, unit) km" where
  "kvminithart = bind (gets kernel_pagetable) (\<lambda>pt. w_satp (MAKE_SATP pt))"

definition uvmunmap_step :: "addr \<Rightarrow> bool \<Rightarrow> addr \<Rightarrow> addr \<Rightarrow> ('a kmem_scheme, addr + unit) km" where
  "uvmunmap_step pagetable do_free fin a =
     (if a < fin then
        bind (walk pagetable a False) (\<lambda>pte.
        if pte = 0 then panic ''uvmunmap: walk''
        else bind (kload64 pte) (\<lambda>v.
          if v AND PTE_V = 0 then panic ''uvmunmap: not mapped''
          else if PTE_FLAGS v = PTE_V then panic ''uvmunmap: not a leaf''
          else bind (block [
              only_if do_free (kfree (PTE2PA v)),
              kstore64 pte 0])
            (\<lambda>_. ret (Inl (a + PGSIZE)))))
      else ret (Inr ()))"

definition uvmunmap :: "addr \<Rightarrow> addr \<Rightarrow> addr \<Rightarrow> bool \<Rightarrow> ('a kmem_scheme, unit) km" where
  "uvmunmap pagetable va npages do_free =
     (if va mod PGSIZE \<noteq> 0 then panic ''uvmunmap: not aligned''
      else loop (uvmunmap_step pagetable do_free (va + npages * PGSIZE)) va)"

definition uvmcreate :: "('a kmem_scheme, addr) km" where
  "uvmcreate =
     bind kalloc (\<lambda>pagetable.
     if pagetable = 0 then ret 0
     else bind (fill_page pagetable 0) (\<lambda>_. ret pagetable))"

definition uvmdealloc :: "addr \<Rightarrow> addr \<Rightarrow> addr \<Rightarrow> ('a kmem_scheme, addr) km" where
  "uvmdealloc pagetable oldsz newsz =
     (if newsz \<ge> oldsz then ret oldsz
      else bind (only_if (PGROUNDUP newsz < PGROUNDUP oldsz)
          (let npages = (ucast ((PGROUNDUP oldsz - PGROUNDUP newsz) div PGSIZE) :: 32 word)
           in uvmunmap pagetable (PGROUNDUP newsz) (scast npages) True))
        (\<lambda>_. ret newsz))"

definition uvmalloc_step :: "addr \<Rightarrow> addr \<Rightarrow> addr \<Rightarrow> addr \<Rightarrow> ('a kmem_scheme, addr + addr) km" where
  "uvmalloc_step pagetable oldsz newsz a =
     (if a < newsz then
        bind kalloc (\<lambda>page.
        if page = 0 then bind (uvmdealloc pagetable a oldsz) (\<lambda>_. ret (Inr 0))
        else bind (fill_page page 0) (\<lambda>_.
          bind (mappages pagetable a PGSIZE page (PTE_W OR PTE_X OR PTE_R OR PTE_U)) (\<lambda>r.
          if r \<noteq> 0 then
            bind (kfree page) (\<lambda>_. bind (uvmdealloc pagetable a oldsz) (\<lambda>_. ret (Inr 0)))
          else ret (Inl (a + PGSIZE)))))
      else ret (Inr newsz))"

definition uvmalloc :: "addr \<Rightarrow> addr \<Rightarrow> addr \<Rightarrow> ('a kmem_scheme, addr) km" where
  "uvmalloc pagetable oldsz newsz =
     (if newsz < oldsz then ret oldsz
      else loop (uvmalloc_step pagetable (PGROUNDUP oldsz) newsz) (PGROUNDUP oldsz))"

text \<open>
  The initial user program is passed as bytes (\<open>initcode\<close> is an array of the kernel image).
\<close>

definition blit :: "memory \<Rightarrow> addr \<Rightarrow> nat \<Rightarrow> (nat \<Rightarrow> byte) \<Rightarrow> memory" where
  "blit m p n f = (\<lambda>x. if within n p x then f (unat (x - p)) else m x)"

definition uvminit :: "addr \<Rightarrow> byte list \<Rightarrow> uint \<Rightarrow> ('a kmem_scheme, unit) km" where
  "uvminit pagetable src sz =
     (if sz \<ge> 4096 then panic ''inituvm: more than a page''
      else bind kalloc (\<lambda>page.
        bind (fill_page page 0) (\<lambda>_.
        bind (mappages pagetable 0 PGSIZE page (PTE_W OR PTE_R OR PTE_X OR PTE_U)) (\<lambda>_.
        modify (\<lambda>s. s\<lparr>mem := blit (mem s) page (unat sz) (\<lambda>i. src ! i)\<rparr>)))))"

text \<open>
  \<open>freewalk\<close> and \<open>countmapped\<close> recurse into child tables. The first argument bounds the depth of
  the recursion: running out of it stands for a recursion that does not end. Tables that \<open>walk\<close>
  builds have \<open>PT_LEVELS\<close> levels.
\<close>

definition PT_LEVELS :: nat where "PT_LEVELS = 3"

definition pte_is_table :: "addr \<Rightarrow> bool" where
  "pte_is_table pte \<longleftrightarrow> pte AND PTE_V \<noteq> 0 \<and> pte AND (PTE_R OR PTE_W OR PTE_X) = 0"

primrec freewalk :: "nat \<Rightarrow> addr \<Rightarrow> ('a kmem_scheme, unit) km" where
  "freewalk 0 pagetable = (\<lambda>s. Forever)"
| "freewalk (Suc d) pagetable =
     bind (for_each (\<lambda>i.
         bind (kload64 (pagetable + 8 * of_nat i)) (\<lambda>pte.
         if pte_is_table pte then block [
           freewalk d (PTE2PA pte),
           kstore64 (pagetable + 8 * of_nat i) 0]
         else panic_if (pte AND PTE_V \<noteq> 0) ''freewalk: leaf'')) [0..<512])
       (\<lambda>_. kfree pagetable)"

primrec countmapped :: "nat \<Rightarrow> addr \<Rightarrow> ('a vm_scheme, int) km" where
  "countmapped 0 pagetable = (\<lambda>s. Forever)"
| "countmapped (Suc d) pagetable =
     bind (for_each (\<lambda>i.
         bind (kload64 (pagetable + 8 * of_nat i)) (\<lambda>pte.
         if pte_is_table pte then bind (countmapped d (PTE2PA pte)) (\<lambda>_. ret ())
         else only_if (pte AND PTE_V \<noteq> 0) (modify (\<lambda>s. s\<lparr>count := int32 (count s + 1)\<rparr>)))) [0..<512])
       (\<lambda>_. gets count)"

definition uvmfree :: "addr \<Rightarrow> addr \<Rightarrow> ('a kmem_scheme, unit) km" where
  "uvmfree pagetable sz = block [
     only_if (sz > 0) (uvmunmap pagetable 0 (PGROUNDUP sz div PGSIZE) True),
     freewalk PT_LEVELS pagetable]"

definition uvmcopy_err :: "addr \<Rightarrow> addr \<Rightarrow> ('a kmem_scheme, addr + int) km" where
  "uvmcopy_err new i = bind (uvmunmap new 0 (i div PGSIZE) True) (\<lambda>_. ret (Inr (-1)))"

definition uvmcopy_step :: "addr \<Rightarrow> addr \<Rightarrow> addr \<Rightarrow> addr \<Rightarrow> ('a kmem_scheme, addr + int) km" where
  "uvmcopy_step old new sz i =
     (if i < sz then
        bind (walk old i False) (\<lambda>pte.
        if pte = 0 then panic ''uvmcopy: pte should exist''
        else bind (kload64 pte) (\<lambda>v.
        if v AND PTE_V = 0 then panic ''uvmcopy: page not present''
        else bind kalloc (\<lambda>page.
        if page = 0 then uvmcopy_err new i
        else bind (modify (\<lambda>s. s\<lparr>mem := memmove (mem s) page (PTE2PA v) 4096\<rparr>)) (\<lambda>_.
          bind (mappages new i PGSIZE page (PTE_FLAGS v)) (\<lambda>r.
          if r \<noteq> 0 then bind (kfree page) (\<lambda>_. uvmcopy_err new i)
          else ret (Inl (i + PGSIZE)))))))
      else ret (Inr 0))"

definition uvmcopy :: "addr \<Rightarrow> addr \<Rightarrow> addr \<Rightarrow> ('a kmem_scheme, int) km" where
  "uvmcopy old new sz = loop (uvmcopy_step old new sz) 0"

definition uvmclear :: "addr \<Rightarrow> addr \<Rightarrow> ('a kmem_scheme, unit) km" where
  "uvmclear pagetable va =
     bind (walk pagetable va False) (\<lambda>pte.
     if pte = 0 then panic ''uvmclear''
     else bind (kload64 pte) (\<lambda>v. kstore64 pte (v AND NOT PTE_U)))"

subsection \<open>Copying between kernel and user memory\<close>

text \<open>
  The kernel end of a copy is a range of kernel memory, a local variable or an array inside a
  kernel structure. It is given by how its bytes are read (\<open>src s i\<close> is byte \<open>i\<close> in state \<open>s\<close>)
  or written (\<open>dst i v s\<close> writes byte \<open>i\<close>); \<open>kmem_src\<close> and \<open>kmem_dst\<close> are the case of an address.
\<close>

definition kmem_src :: "addr \<Rightarrow> 'a machine_scheme \<Rightarrow> nat \<Rightarrow> byte" where
  "kmem_src a s i = mem s (a + of_nat i)"

definition kmem_dst :: "addr \<Rightarrow> nat \<Rightarrow> byte \<Rightarrow> 'a machine_scheme \<Rightarrow> 'a machine_scheme" where
  "kmem_dst a i v s = s\<lparr>mem := (mem s)(a + of_nat i := v)\<rparr>"

text \<open>How many bytes to copy in the page of \<open>va\<close>.\<close>

definition chunk :: "addr \<Rightarrow> addr \<Rightarrow> addr" where
  "chunk va len = min (PGSIZE - (va - PGROUNDDOWN va)) len"

definition copyout_step ::
  "addr \<Rightarrow> ('a kmem_scheme \<Rightarrow> nat \<Rightarrow> byte) \<Rightarrow> addr \<times> nat \<times> addr \<Rightarrow>
   ('a kmem_scheme, (addr \<times> nat \<times> addr) + int) km" where
  "copyout_step pagetable src = (\<lambda>(dstva, off, len).
     if len > 0 then
       let va0 = PGROUNDDOWN dstva; n = chunk dstva len in
       bind (walkaddr pagetable va0) (\<lambda>pa0.
       if pa0 = 0 then ret (Inr (-1))
       else bind (modify (\<lambda>s. s\<lparr>mem := blit (mem s) (pa0 + (dstva - va0)) (unat n)
              (\<lambda>i. src s (off + i))\<rparr>)) (\<lambda>_.
         ret (Inl (va0 + PGSIZE, off + unat n, len - n))))
     else ret (Inr 0))"

definition copyout ::
  "addr \<Rightarrow> addr \<Rightarrow> ('a kmem_scheme \<Rightarrow> nat \<Rightarrow> byte) \<Rightarrow> addr \<Rightarrow> ('a kmem_scheme, int) km" where
  "copyout pagetable dstva src len = loop (copyout_step pagetable src) (dstva, 0, len)"

definition copyin_step ::
  "addr \<Rightarrow> (nat \<Rightarrow> byte \<Rightarrow> 'a kmem_scheme \<Rightarrow> 'a kmem_scheme) \<Rightarrow> addr \<times> nat \<times> addr \<Rightarrow>
   ('a kmem_scheme, (addr \<times> nat \<times> addr) + int) km" where
  "copyin_step pagetable dst = (\<lambda>(srcva, off, len).
     if len > 0 then
       let va0 = PGROUNDDOWN srcva; n = chunk srcva len in
       bind (walkaddr pagetable va0) (\<lambda>pa0.
       if pa0 = 0 then ret (Inr (-1))
       else bind (modify (\<lambda>s. fold (\<lambda>i. dst (off + i) (mem s (pa0 + (srcva - va0) + of_nat i)))
              [0..<unat n] s)) (\<lambda>_.
         ret (Inl (va0 + PGSIZE, off + unat n, len - n))))
     else ret (Inr 0))"

definition copyin ::
  "addr \<Rightarrow> (nat \<Rightarrow> byte \<Rightarrow> 'a kmem_scheme \<Rightarrow> 'a kmem_scheme) \<Rightarrow> addr \<Rightarrow> addr \<Rightarrow>
   ('a kmem_scheme, int) km" where
  "copyin pagetable dst srcva len = loop (copyin_step pagetable dst) (srcva, 0, len)"

text \<open>The inner loop of \<open>copyinstr\<close>, over the rest of one page.\<close>

primrec copyinstr_page ::
  "nat \<Rightarrow> addr \<Rightarrow> (nat \<Rightarrow> byte \<Rightarrow> 'a kmem_scheme \<Rightarrow> 'a kmem_scheme) \<Rightarrow> nat \<Rightarrow> ('a kmem_scheme, bool) km" where
  "copyinstr_page 0 p dst off = ret False"
| "copyinstr_page (Suc n) p dst off =
     bind (gets (\<lambda>s. mem s p)) (\<lambda>c.
     if c = 0 then bind (modify (dst off 0)) (\<lambda>_. ret True)
     else bind (modify (dst off c)) (\<lambda>_. copyinstr_page n (p + 1) dst (Suc off)))"

definition copyinstr_step ::
  "addr \<Rightarrow> (nat \<Rightarrow> byte \<Rightarrow> 'a kmem_scheme \<Rightarrow> 'a kmem_scheme) \<Rightarrow> addr \<times> nat \<times> addr \<Rightarrow>
   ('a kmem_scheme, (addr \<times> nat \<times> addr) + int) km" where
  "copyinstr_step pagetable dst = (\<lambda>(srcva, off, len).
     if len > 0 then
       let va0 = PGROUNDDOWN srcva; n = chunk srcva len in
       bind (walkaddr pagetable va0) (\<lambda>pa0.
       if pa0 = 0 then ret (Inr (-1))
       else bind (copyinstr_page (unat n) (pa0 + (srcva - va0)) dst off) (\<lambda>got_null.
         if got_null then ret (Inr 0)
         else ret (Inl (va0 + PGSIZE, off + unat n, len - n))))
     else ret (Inr (-1)))"

definition copyinstr ::
  "addr \<Rightarrow> (nat \<Rightarrow> byte \<Rightarrow> 'a kmem_scheme \<Rightarrow> 'a kmem_scheme) \<Rightarrow> addr \<Rightarrow> addr \<Rightarrow>
   ('a kmem_scheme, int) km" where
  "copyinstr pagetable dst srcva len = loop (copyinstr_step pagetable dst) (srcva, 0, len)"

end
