(* ===== verification/Xv6_Pagetable.thy ===== *)
theory Xv6_Pagetable
  imports Xv6_Vm
begin

text \<open>
  What the page-table code of \<open>vm.c\<close> does to a page table: which entry a virtual address leads to,
  when a page table is a tree of distinct pages, and how the walk that allocates tables and the
  store into an entry change the mapping.
\<close>

section \<open>Entries\<close>

definition valid_pte :: "addr \<Rightarrow> bool" where
  "valid_pte v \<longleftrightarrow> v AND PTE_V \<noteq> 0"

definition px :: "nat \<Rightarrow> addr \<Rightarrow> nat" where
  "px level va = unat (PX level va)"

definition entry_at :: "addr \<Rightarrow> nat \<Rightarrow> addr" where
  "entry_at p i = p + of_nat (8 * i)"

definition entry :: "memory \<Rightarrow> addr \<Rightarrow> nat \<Rightarrow> addr" where
  "entry m p i = load64 m (entry_at p i)"

definition ram_page :: "addr \<Rightarrow> bool" where
  "ram_page p \<longleftrightarrow> page_aligned p \<and> KERNBASE \<le> p \<and> p < PHYSTOP"

lemma px_less: "px l va < 512"
proof -
  have "PX l va AND mask 9 = PX l va"
    by (simp add: PX_def mask_eq_exp_minus_1 and.assoc)
  then have "PX l va = take_bit 9 (PX l va)" by (simp add: take_bit_eq_mask)
  then have "unat (PX l va) = take_bit 9 (unat (PX l va))" by (metis unsigned_take_bit_eq)
  then show ?thesis unfolding px_def using take_bit_nat_less_exp [of 9 "unat (PX l va)"] by simp
qed

lemma pte_slot_entry: "pte_slot p l va = entry_at p (px l va)"
  by (simp add: pte_slot_def entry_at_def px_def)

lemma ram_page_unat:
  "ram_page p \<Longrightarrow> 2147483648 \<le> unat p" "ram_page p \<Longrightarrow> unat p + 4096 \<le> 2281701376"
proof -
  assume p: "ram_page p"
  then show "2147483648 \<le> unat p" by (simp add: ram_page_def word_le_nat_alt)
  from p have "unat p < 2281701376" "page_aligned p" by (simp_all add: ram_page_def word_less_nat_alt)
  then show "unat p + 4096 \<le> 2281701376" by (auto elim!: page_alignedE)
qed

lemma unat_entry_at: "ram_page p \<Longrightarrow> i < 512 \<Longrightarrow> unat (entry_at p i) = unat p + 8 * i"
  unfolding entry_at_def using ram_page_unat [of p] by (intro unat_plus_of_nat) simp

lemma within_entry:
  assumes "ram_page p" "i < 512"
  shows "within 8 (entry_at p i) x \<longleftrightarrow> unat p + 8 * i \<le> unat x \<and> unat x < unat p + 8 * i + 8"
  using assms ram_page_unat [of p] by (subst within_range) (simp_all add: unat_entry_at)

lemma entry_in_page: "ram_page p \<Longrightarrow> i < 512 \<Longrightarrow> within 8 (entry_at p i) x \<Longrightarrow> in_page p x"
  by (simp add: within_entry in_page_iff ram_page_def)

lemma entry_at_nonnull:
  assumes "ram_page p" "i < 512" shows "\<not> entry_at p i < PGSIZE" "entry_at p i \<noteq> 0"
  using unat_entry_at [OF assms] ram_page_unat [OF assms(1)]
  by (auto simp: word_less_nat_alt)

lemma entry_cong:
  "ram_page p \<Longrightarrow> i < 512 \<Longrightarrow> (\<And>x. in_page p x \<Longrightarrow> m' x = m x) \<Longrightarrow> entry m' p i = entry m p i"
  unfolding entry_def by (rule load64_cong) (auto dest: entry_in_page)

lemma entry_store:
  assumes "ram_page p" "i < 512" "j < 512"
  shows "entry (store64 m (entry_at p i) v) p j = (if i = j then v else entry m p j)"
proof (cases "i = j")
  case False
  have "store64 m (entry_at p i) v x = m x" if "within 8 (entry_at p j) x" for x
    using that False assms by (intro store64_other) (auto simp: within_entry)
  then have "load64 (store64 m (entry_at p i) v) (entry_at p j) = load64 m (entry_at p j)"
    by (rule load64_cong)
  with False show ?thesis by (simp add: entry_def)
qed (simp add: entry_def)

lemma store_entry_other:
  "ram_page p \<Longrightarrow> i < 512 \<Longrightarrow> \<not> in_page p x \<Longrightarrow> store64 m (entry_at p i) v x = m x"
  by (rule store64_other) (auto dest: entry_in_page)

text \<open>Encoding a physical address in an entry and reading it back.\<close>

lemma take_bit_small:
  assumes "unat (w :: addr) < 2 ^ k" shows "take_bit k w = w"
proof -
  have "unat (take_bit k w) = unat w"
    using assms by (simp add: unsigned_take_bit_eq take_bit_nat_eq_self)
  then show ?thesis by (simp add: word_unat_eq_iff)
qed

lemma bit_small: "unat (w :: addr) < 2 ^ k \<Longrightarrow> bit w n \<Longrightarrow> n < k"
  using take_bit_small [of w k] by (metis bit_take_bit_iff)

lemma bit_aligned:
  assumes "page_aligned pa" "bit pa n" shows "12 \<le> n"
proof -
  have "take_bit 12 pa = 0" using assms(1) by (simp add: take_bit_eq_mod page_aligned_def)
  then have "\<not> bit (take_bit 12 pa) n" by simp
  with assms(2) show ?thesis by (simp add: bit_take_bit_iff not_less)
qed

lemma bit_one_word: "bit (1 :: addr) n \<longleftrightarrow> n = 0"
  by (simp add: bit_1_iff)

lemma pte_encode:
  assumes "page_aligned pa" "unat pa < 2 ^ 56" "unat perm < 2 ^ 10"
  shows "PTE2PA (PA2PTE pa OR perm OR PTE_V) = pa" and "valid_pte (PA2PTE pa OR perm OR PTE_V)"
    and "PTE_FLAGS (PA2PTE pa OR perm OR PTE_V) = perm OR PTE_V"
proof -
  note pa = bit_aligned [OF assms(1)] bit_small [OF assms(2)]
  note pm = bit_small [OF assms(3)]
  show "PTE2PA (PA2PTE pa OR perm OR PTE_V) = pa"
  proof (rule bit_word_eqI)
    fix n assume "n < LENGTH(64)"
    then have "\<not> bit perm (n - 2)" if "12 \<le> n" using pm [of "n - 2"] that by auto
    then show "bit (PTE2PA (PA2PTE pa OR perm OR PTE_V)) n = bit pa n"
      using pa [of n] \<open>n < LENGTH(64)\<close>
      by (auto simp: PTE2PA_def PA2PTE_def bit_simps)
  qed
  have "bit (PA2PTE pa OR perm OR PTE_V) 0" by (simp add: bit_or_iff)
  then show "valid_pte (PA2PTE pa OR perm OR PTE_V)"
    unfolding valid_pte_def using and_exp_eq_0_iff_not_bit [of "PA2PTE pa OR perm OR 1" 0] by simp
  have m: "(0x3FF :: addr) = mask 10" by (simp add: mask_eq_exp_minus_1)
  show "PTE_FLAGS (PA2PTE pa OR perm OR PTE_V) = perm OR PTE_V"
    unfolding PTE_FLAGS_def m
    by (rule bit_word_eqI) (use pm in \<open>auto simp: PA2PTE_def bit_simps\<close>)
qed

lemma ram_page_small: "ram_page p \<Longrightarrow> unat p < 2 ^ 56"
  using ram_page_unat(2) [of p] by simp

lemma pte_table:
  assumes "ram_page p"
  shows "PTE2PA (PA2PTE p OR PTE_V) = p" "valid_pte (PA2PTE p OR PTE_V)"
  using pte_encode [of p 0] ram_page_small [OF assms] assms by (simp_all add: ram_page_def)

lemma not_valid_0 [simp]: "\<not> valid_pte 0"
  by (simp add: valid_pte_def)

section \<open>The mapping of a page table\<close>

text \<open>
  \<open>leaf m va l p\<close>: the entry a virtual address leads to from the table page \<open>p\<close> of level \<open>l\<close>, 0 if
  a table is missing on the way; \<open>pte_addr\<close>: its address; \<open>pt_pages\<close>: the pages of the tree.
\<close>

primrec leaf :: "memory \<Rightarrow> addr \<Rightarrow> nat \<Rightarrow> addr \<Rightarrow> addr" where
  "leaf m va 0 p = entry m p (px 0 va)"
| "leaf m va (Suc l) p = (let v = entry m p (px (Suc l) va) in
     if valid_pte v then leaf m va l (PTE2PA v) else 0)"

primrec pte_addr :: "memory \<Rightarrow> addr \<Rightarrow> nat \<Rightarrow> addr \<Rightarrow> addr" where
  "pte_addr m va 0 p = entry_at p (px 0 va)"
| "pte_addr m va (Suc l) p = (let v = entry m p (px (Suc l) va) in
     if valid_pte v then pte_addr m va l (PTE2PA v) else 0)"

primrec pt_pages :: "memory \<Rightarrow> nat \<Rightarrow> addr \<Rightarrow> addr set" where
  "pt_pages m 0 p = {p}"
| "pt_pages m (Suc l) p = insert p
     (\<Union>i\<in>{i. i < 512 \<and> valid_pte (entry m p i)}. pt_pages m l (PTE2PA (entry m p i)))"

primrec pt_wf :: "memory \<Rightarrow> nat \<Rightarrow> addr \<Rightarrow> bool" where
  "pt_wf m 0 p \<longleftrightarrow> ram_page p"
| "pt_wf m (Suc l) p \<longleftrightarrow> ram_page p \<and> (\<forall>i<512. valid_pte (entry m p i) \<longrightarrow>
     pt_wf m l (PTE2PA (entry m p i)) \<and> p \<notin> pt_pages m l (PTE2PA (entry m p i))
     \<and> (\<forall>j<512. j \<noteq> i \<and> valid_pte (entry m p j) \<longrightarrow>
          pt_pages m l (PTE2PA (entry m p i)) \<inter> pt_pages m l (PTE2PA (entry m p j)) = {}))"

text \<open>Two addresses that use the same entry of the table.\<close>

definition same_slot :: "nat \<Rightarrow> addr \<Rightarrow> addr \<Rightarrow> bool" where
  "same_slot l va va' \<longleftrightarrow> (\<forall>k\<le>l. px k va = px k va')"

lemma same_slot_Suc: "same_slot (Suc l) va va' \<longleftrightarrow> px (Suc l) va = px (Suc l) va' \<and> same_slot l va va'"
  by (auto simp: same_slot_def le_Suc_eq)

lemma root_in_pages [simp]: "p \<in> pt_pages m l p"
  by (cases l) simp_all

lemma pt_wf_root: "pt_wf m l p \<Longrightarrow> ram_page p"
  by (cases l) simp_all

lemma pt_pages_ram: "pt_wf m l p \<Longrightarrow> x \<in> pt_pages m l p \<Longrightarrow> ram_page x"
  by (induction l arbitrary: p) auto

lemma ram_pages_disjoint: "ram_page a \<Longrightarrow> ram_page b \<Longrightarrow> a \<noteq> b \<Longrightarrow> in_page a x \<Longrightarrow> \<not> in_page b x"
  using pages_disjoint [of a b x] by (auto simp: ram_page_def)

text \<open>A tree depends only on its own pages.\<close>

lemma pt_frame:
  assumes "pt_wf m l p" "\<And>x y. x \<in> pt_pages m l p \<Longrightarrow> in_page x y \<Longrightarrow> m' y = m y"
  shows "pt_pages m' l p = pt_pages m l p" "pt_wf m' l p" "leaf m' va l p = leaf m va l p"
    "pte_addr m' va l p = pte_addr m va l p"
proof -
  have "pt_pages m' l p = pt_pages m l p \<and> pt_wf m' l p \<and> (\<forall>va. leaf m' va l p = leaf m va l p
     \<and> pte_addr m' va l p = pte_addr m va l p)"
    using assms
  proof (induction l arbitrary: p)
    case 0
    then have "entry m' p (px 0 va) = entry m p (px 0 va)" for va
      by (intro entry_cong) (auto simp: px_less)
    with 0 show ?case by simp
  next
    case (Suc l)
    have e: "entry m' p i = entry m p i" if "i < 512" for i
      using Suc.prems that by (intro entry_cong) auto
    have IH: "pt_pages m' l c = pt_pages m l c \<and> pt_wf m' l c \<and> (\<forall>va. leaf m' va l c = leaf m va l c
       \<and> pte_addr m' va l c = pte_addr m va l c)"
      if "i < 512" "valid_pte (entry m p i)" "c = PTE2PA (entry m p i)" for i c
    proof (rule Suc.IH)
      show "pt_wf m l c" using Suc.prems(1) that by simp
      show "m' y = m y" if "x \<in> pt_pages m l c" "in_page x y" for x y
        using Suc.prems(2) [of x y] that \<open>i < 512\<close> \<open>valid_pte (entry m p i)\<close> \<open>c = _\<close> by auto
    qed
    show ?case
      using Suc.prems(1) IH [OF _ _ refl] e px_less [of "Suc l"] by (simp add: Let_def cong: conj_cong)
  qed
  then show "pt_pages m' l p = pt_pages m l p" "pt_wf m' l p" "leaf m' va l p = leaf m va l p"
    "pte_addr m' va l p = pte_addr m va l p" by simp_all
qed

text \<open>Where the entry of an address is.\<close>

lemma pte_addr_entry:
  "pt_wf m l p \<Longrightarrow> pte_addr m va l p \<noteq> 0 \<Longrightarrow>
   \<exists>q\<in>pt_pages m l p. pte_addr m va l p = entry_at q (px 0 va) \<and> leaf m va l p = entry m q (px 0 va)"
proof (induction l arbitrary: p)
  case (Suc l)
  then have v: "valid_pte (entry m p (px (Suc l) va))" by (auto simp: Let_def split: if_splits)
  with Suc.prems Suc.IH [of "PTE2PA (entry m p (px (Suc l) va))"] px_less [of "Suc l" va]
  show ?case by (auto simp: Let_def)
qed simp

lemma pte_addr_nonnull: "pt_wf m l p \<Longrightarrow> pte_addr m va l p \<noteq> 0 \<Longrightarrow> \<not> pte_addr m va l p < PGSIZE"
  using pte_addr_entry [of m l p va] entry_at_nonnull px_less pt_pages_ram by metis

lemma leaf_load: "pt_wf m l p \<Longrightarrow> pte_addr m va l p \<noteq> 0 \<Longrightarrow> load64 m (pte_addr m va l p) = leaf m va l p"
  using pte_addr_entry [of m l p va] by (auto simp: entry_def)

lemma leaf_unmapped: "pte_addr m va l p = 0 \<Longrightarrow> pt_wf m l p \<Longrightarrow> leaf m va l p = 0"
proof (induction l arbitrary: p)
  case 0
  then show ?case using entry_at_nonnull [of p "px 0 va"] px_less by simp
next
  case (Suc l)
  then show ?case using px_less [of "Suc l" va] by (auto simp: Let_def split: if_splits)
qed

lemma store_leaf_other:
  assumes "pt_wf m l p" "pte_addr m va l p \<noteq> 0" "\<And>x. x \<in> pt_pages m l p \<Longrightarrow> \<not> in_page x y"
  shows "store64 m (pte_addr m va l p) v y = m y"
  using pte_addr_entry [OF assms(1,2)] assms(1,3)
  by (metis store_entry_other pt_pages_ram px_less)

text \<open>Storing into the entry of \<open>va\<close> changes the mapping of the addresses that use it.\<close>

lemma leaf_store:
  assumes "pt_wf m l p" "pte_addr m va l p \<noteq> 0" "m' = store64 m (pte_addr m va l p) v"
  shows "pt_pages m' l p = pt_pages m l p \<and> pt_wf m' l p
    \<and> (\<forall>va'. leaf m' va' l p = (if same_slot l va va' then v else leaf m va' l p)
         \<and> pte_addr m' va' l p = pte_addr m va' l p)"
  using assms
proof (induction l arbitrary: p)
  case 0
  then show ?case by (simp add: entry_store px_less same_slot_def)
next
  case (Suc l)
  let ?i = "px (Suc l) va"
  let ?c = "\<lambda>i. PTE2PA (entry m p i)"
  have v: "valid_pte (entry m p ?i)" using Suc.prems(2) by (auto simp: Let_def split: if_splits)
  have i: "?i < 512" by (rule px_less)
  have wc: "pt_wf m l (?c ?i)" "p \<notin> pt_pages m l (?c ?i)" "ram_page p"
    using Suc.prems(1) v i by auto
  have pa: "pte_addr m va l (?c ?i) \<noteq> 0" "m' = store64 m (pte_addr m va l (?c ?i)) v"
    using Suc.prems(2,3) v by (auto simp: Let_def)
  have other: "m' y = m y" if "\<And>x. x \<in> pt_pages m l (?c ?i) \<Longrightarrow> \<not> in_page x y" for y
    unfolding pa(2) using that by (rule store_leaf_other [OF wc(1) pa(1)])
  have e: "entry m' p j = entry m p j" if "j < 512" for j
  proof (rule entry_cong [OF wc(3) that])
    fix x assume "in_page p x"
    then show "m' x = m x"
      using ram_pages_disjoint [OF wc(3) pt_pages_ram [OF wc(1)]] wc(2) by (intro other) blast
  qed
  note IH = Suc.IH [OF wc(1) pa]
  have fr: "pt_pages m' l (?c j) = pt_pages m l (?c j) \<and> pt_wf m' l (?c j)
      \<and> (\<forall>va'. leaf m' va' l (?c j) = leaf m va' l (?c j) \<and> pte_addr m' va' l (?c j) = pte_addr m va' l (?c j))"
    if j: "j < 512" "valid_pte (entry m p j)" "j \<noteq> ?i" for j
  proof -
    have wj: "pt_wf m l (?c j)" "pt_pages m l (?c ?i) \<inter> pt_pages m l (?c j) = {}"
      using Suc.prems(1) v i j by auto
    have "m' y = m y" if "x \<in> pt_pages m l (?c j)" "in_page x y" for x y
      using ram_pages_disjoint [OF pt_pages_ram [OF wj(1) that(1)] pt_pages_ram [OF wc(1)] _ that(2)]
        wj(2) that(1) by (intro other) blast
    from pt_frame [OF wj(1) this] show ?thesis by simp
  qed
  have sub: "pt_pages m' l (?c j) = pt_pages m l (?c j) \<and> pt_wf m' l (?c j)"
    if "j < 512" "valid_pte (entry m p j)" for j
    using fr [of j] IH that by (cases "j = ?i") auto
  have "pt_pages m' (Suc l) p = pt_pages m (Suc l) p" using sub e by (auto cong: conj_cong)
  moreover have "pt_wf m' (Suc l) p" using Suc.prems(1) sub e by auto
  moreover have "leaf m' va' (Suc l) p = (if same_slot (Suc l) va va' then v else leaf m va' (Suc l) p)
      \<and> pte_addr m' va' (Suc l) p = pte_addr m va' (Suc l) p" for va'
    using IH fr [of "px (Suc l) va'"] e [of "px (Suc l) va'"] v px_less [of "Suc l" va']
    by (cases "px (Suc l) va' = ?i") (auto simp: Let_def same_slot_Suc)
  ultimately show ?case by blast
qed

section \<open>The walk\<close>

lemma kload64_ok: "\<not> a < PGSIZE \<Longrightarrow> kload64 a s = Done (load64 (mem s) a) s"
  by (simp add: kload64_def gets_def)

lemma kstore64_ok: "\<not> a < PGSIZE \<Longrightarrow> kstore64 a v s = Done () (s\<lparr>mem := store64 (mem s) a v\<rparr>)"
  by (simp add: kstore64_def modify_def)

lemma walk_from_lookup:
  "pt_wf (mem s) l p \<Longrightarrow> walk_from l p va False s = Done (pte_addr (mem s) va l p) s"
proof (induction l arbitrary: p)
  case 0
  then show ?case by (simp add: ret_def pte_slot_entry)
next
  case (Suc l)
  then show ?case using entry_at_nonnull [of p "px (Suc l) va"] px_less [of "Suc l" va]
    by (auto simp: pte_slot_entry kload64_ok valid_pte_def Let_def entry_def [symmetric] ret_def)
qed

lemma walk_lookup:
  "pt_wf (mem s) 2 p \<Longrightarrow> va < MAXVA \<Longrightarrow> walk p va False s = Done (pte_addr (mem s) va 2 p) s"
  by (auto simp: walk_def walk_from_lookup)

text \<open>
  What an operation on the tables may do to the rest of the state: it takes pages off the free
  list and returns some; nothing but memory and the free list changes (and the saved interrupt
  flag of an idle CPU).
\<close>

definition mem_step :: "'a kmem_scheme \<Rightarrow> 'a kmem_scheme \<Rightarrow> bool" where
  "mem_step s t \<longleftrightarrow> quiet t = quiet (s\<lparr>mem := mem t, freelist := freelist t\<rparr>)"

lemma mem_step_refl [simp]: "mem_step s s"
  by (simp add: mem_step_def)

lemma mem_step_quiet [simp]: "mem_step s (quiet s)"
  by (simp add: mem_step_def)

lemma mem_freelist_commute: "s\<lparr>freelist := f, mem := m\<rparr> = s\<lparr>mem := m, freelist := f\<rparr>"
  by simp

lemma mem_step_upd [simp]:
  "mem_step s (s\<lparr>mem := m\<rparr>)" "mem_step s (s\<lparr>freelist := f, mem := m\<rparr>)"
  "mem_step s (quiet (s\<lparr>freelist := f, mem := m\<rparr>))" "mem_step s (quiet (s\<lparr>mem := m, freelist := f\<rparr>))"
  by (simp_all add: mem_step_def mem_freelist_commute)

lemma mem_step_trans: "mem_step s t \<Longrightarrow> mem_step t u \<Longrightarrow> mem_step s u"
  unfolding mem_step_def
proof -
  assume st: "quiet t = quiet (s\<lparr>mem := mem t, freelist := freelist t\<rparr>)"
    and tu: "quiet u = quiet (t\<lparr>mem := mem u, freelist := freelist u\<rparr>)"
  have "quiet u = (quiet t)\<lparr>mem := mem u, freelist := freelist u\<rparr>" using tu by simp
  also have "\<dots> = quiet (s\<lparr>mem := mem u, freelist := freelist u\<rparr>)" unfolding st by simp
  finally show "quiet u = quiet (s\<lparr>mem := mem u, freelist := freelist u\<rparr>)" .
qed

lemma kpage_ram: "kpage s x \<Longrightarrow> KERNBASE \<le> end_sym s \<Longrightarrow> ram_page x"
  by (auto simp: kpage_def ram_page_def)

lemma kmem_inv_ram: "kmem_inv xs s \<Longrightarrow> x \<in> set xs \<Longrightarrow> ram_page x"
  by (auto simp: kmem_inv_def intro: kpage_ram)

text \<open>An empty table page maps nothing.\<close>

lemma zero_table:
  assumes "\<And>y. in_page p y \<Longrightarrow> m y = 0" "ram_page p"
  shows "entry m p i = 0 \<or> \<not> i < 512" "pt_wf m l p" "pt_pages m l p = {p}" "leaf m va l p = 0"
    "pte_addr m va (Suc k) p = 0"
proof -
  have z: "entry m p i = 0" if "i < 512" for i
    using entry_cong [OF assms(2) that, of m "\<lambda>_. 0"] assms(1) by (simp add: entry_def)
  then show "entry m p i = 0 \<or> \<not> i < 512" by blast
  show "pt_wf m l p" "pt_pages m l p = {p}" "leaf m va l p = 0"
    using z assms(2) px_less by (cases l; simp)+
  show "pte_addr m va (Suc k) p = 0" using z px_less by simp
qed

text \<open>
  \<open>walk\<close> with allocation: every address keeps its mapping, the tables and the free pages are
  the same pages as before, at most one page is taken per level, and the walk fails only when no
  page is left.
\<close>

definition tables_ok :: "addr list \<Rightarrow> nat \<Rightarrow> addr \<Rightarrow> 'a kmem_scheme \<Rightarrow> bool" where
  "tables_ok xs l p s \<longleftrightarrow> kmem_ready s \<and> kmem_inv xs s \<and> pt_wf (mem s) l p
     \<and> pt_pages (mem s) l p \<inter> set xs = {}"

definition grown :: "addr list \<Rightarrow> addr list \<Rightarrow> nat \<Rightarrow> addr \<Rightarrow> 'a kmem_scheme \<Rightarrow> 'a kmem_scheme \<Rightarrow> bool" where
  "grown xs ys l p s t \<longleftrightarrow> mem_step s t
     \<and> pt_pages (mem t) l p \<union> set ys = pt_pages (mem s) l p \<union> set xs
     \<and> pt_pages (mem s) l p \<subseteq> pt_pages (mem t) l p
     \<and> (\<forall>y. (\<forall>x\<in>pt_pages (mem s) l p \<union> set xs. \<not> in_page x y) \<longrightarrow> mem t y = mem s y)"

lemma new_table:
  assumes "tables_ok (g # xs) (Suc l) p s" "i < 512" "\<not> valid_pte (entry (mem s) p i)"
  defines "m \<equiv> store64 (memset (memset (mem s) g 5 4096) g 0 4096) (entry_at p i) (PA2PTE g OR PTE_V)"
  shows "ram_page g" "g \<noteq> p" "\<And>y. in_page g y \<Longrightarrow> m y = 0"
    "\<And>j. j < 512 \<Longrightarrow> entry m p j = (if i = j then PA2PTE g OR PTE_V else entry (mem s) p j)"
    "\<And>x y. x \<noteq> p \<Longrightarrow> x \<noteq> g \<Longrightarrow> ram_page x \<Longrightarrow> in_page x y \<Longrightarrow> m y = mem s y"
    "\<And>y. \<not> in_page p y \<Longrightarrow> \<not> in_page g y \<Longrightarrow> m y = mem s y"
proof -
  have p: "ram_page p" using assms(1) pt_wf_root by (auto simp: tables_ok_def)
  have "kmem_inv (g # xs) s" using assms(1) by (simp add: tables_ok_def)
  then show g: "ram_page g" by (rule kmem_inv_ram) simp
  show gp: "g \<noteq> p" using assms(1) by (auto simp: tables_ok_def)
  have dis: "\<not> in_page p y" if "in_page g y" for y using ram_pages_disjoint [OF g p gp that] .
  show "m y = 0" if "in_page g y" for y
    unfolding m_def using store_entry_other [OF p assms(2) dis [OF that]] that by (simp add: memset_page)
  show out: "m y = mem s y" if "\<not> in_page p y" "\<not> in_page g y" for y
    unfolding m_def using store_entry_other [OF p assms(2) that(1)] that(2) by (simp add: memset_page)
  show "m y = mem s y" if "x \<noteq> p" "x \<noteq> g" "ram_page x" "in_page x y" for x y
    using ram_pages_disjoint [OF that(3) p that(1) that(4)] ram_pages_disjoint [OF that(3) g that(2) that(4)]
    by (rule out)
  show "entry m p j = (if i = j then PA2PTE g OR PTE_V else entry (mem s) p j)" if "j < 512" for j
  proof -
    have "entry (memset (memset (mem s) g 5 4096) g 0 4096) p j = entry (mem s) p j"
      using dis by (intro entry_cong [OF p that]) (auto simp: memset_page)
    then show ?thesis unfolding m_def entry_store [OF p assms(2) that] by simp
  qed
qed

lemma grown_trans:
  assumes st: "grown xs ys l p s t" and tu: "grown ys zs l p t u"
  shows "grown xs zs l p s u"
proof -
  have "mem u y = mem s y" if "\<forall>x\<in>pt_pages (mem s) l p \<union> set xs. \<not> in_page x y" for y
  proof -
    have "mem t y = mem s y" using st that by (simp add: grown_def)
    moreover have "mem u y = mem t y" using st tu that by (simp add: grown_def)
    ultimately show ?thesis by simp
  qed
  moreover have "mem_step s u" using st tu mem_step_trans by (auto simp: grown_def)
  ultimately show ?thesis using st tu unfolding grown_def by (simp, blast)
qed

lemma grown_refl [simp]: "grown xs xs l p s s"
  by (simp add: grown_def)

lemma leaf_Suc_child:
  assumes "entry m' p (px (Suc l) va) = entry m p (px (Suc l) va)"
    "valid_pte (entry m p (px (Suc l) va)) \<Longrightarrow>
     leaf m' va l (PTE2PA (entry m p (px (Suc l) va))) = leaf m va l (PTE2PA (entry m p (px (Suc l) va)))"
  shows "leaf m' va (Suc l) p = leaf m va (Suc l) p"
  using assms by (simp add: Let_def)

lemma UN_replace:
  assumes "i \<in> J" "\<And>j. j \<in> J \<Longrightarrow> j \<noteq> i \<Longrightarrow> f' j = f j" "f i \<subseteq> f' i"
  shows "(\<Union>j\<in>J. f' j) = (\<Union>j\<in>J. f j) \<union> f' i"
proof -
  have "x \<in> (\<Union>j\<in>J. f j) \<union> f' i" if "j \<in> J" "x \<in> f' j" for j x
    using that assms(2) [of j] by (cases "j = i") auto
  moreover have "x \<in> (\<Union>j\<in>J. f' j)" if "j \<in> J" "x \<in> f j" for j x
    using that assms by (cases "j = i") auto
  ultimately show ?thesis using assms(1) by blast
qed

text \<open>A change below one child of a table is a change of the table.\<close>

lemma child_grown:
  assumes ok: "tables_ok xs (Suc l) p s" and i: "i < 512" "valid_pte (entry (mem s) p i)"
    and c: "c = PTE2PA (entry (mem s) p i)"
    and step: "tables_ok ys l c t" "grown xs ys l c s t" "\<And>va. leaf (mem t) va l c = leaf (mem s) va l c"
  shows "tables_ok ys (Suc l) p t" "grown xs ys (Suc l) p s t" "entry (mem t) p i = entry (mem s) p i"
    "leaf (mem t) va (Suc l) p = leaf (mem s) va (Suc l) p"
proof -
  let ?m = "mem s" and ?m' = "mem t"
  let ?c = "\<lambda>i. PTE2PA (entry ?m p i)"
  have wf: "pt_wf ?m (Suc l) p" and xs: "kmem_inv xs s" and dxs: "pt_pages ?m (Suc l) p \<inter> set xs = {}"
    using ok by (simp_all add: tables_ok_def)
  have g: "mem_step s t" "pt_pages ?m' l c \<union> set ys = pt_pages ?m l c \<union> set xs"
    "pt_pages ?m l c \<subseteq> pt_pages ?m' l c"
    "\<And>y. (\<And>x. x \<in> pt_pages ?m l c \<union> set xs \<Longrightarrow> \<not> in_page x y) \<Longrightarrow> ?m' y = ?m y"
    using step(2) unfolding grown_def by blast+
  have t: "kmem_ready t" "kmem_inv ys t" "pt_wf ?m' l c" "pt_pages ?m' l c \<inter> set ys = {}"
    using step(1) by (simp_all add: tables_ok_def)
  have p: "ram_page p" "p \<notin> pt_pages ?m l c" "p \<notin> set xs" using wf i c dxs by auto
  have ramx: "ram_page x" if "x \<in> pt_pages ?m l c \<union> set xs" for x
    using that wf i c pt_pages_ram [of ?m l c x] kmem_inv_ram [OF xs, of x] by auto
  have keep: "?m' y = ?m y" if "ram_page q" "q \<notin> pt_pages ?m l c \<union> set xs" "in_page q y" for q y
    using ram_pages_disjoint [OF that(1) ramx _ that(3)] that(2) by (intro g(4)) blast
  have e: "entry ?m' p j = entry ?m p j" if "j < 512" for j
    using keep p by (intro entry_cong [OF p(1) that]) blast
  then show "entry ?m' p i = entry ?m p i" using i by blast
  have fr: "pt_pages ?m' l (?c j) = pt_pages ?m l (?c j) \<and> pt_wf ?m' l (?c j)
      \<and> (\<forall>va. leaf ?m' va l (?c j) = leaf ?m va l (?c j))"
    if j: "j < 512" "valid_pte (entry ?m p j)" "j \<noteq> i" for j
  proof -
    have wj: "pt_wf ?m l (?c j)" "pt_pages ?m l (?c j) \<inter> pt_pages ?m l c = {}"
      using wf i j c by auto
    have xj: "pt_pages ?m l (?c j) \<inter> set xs = {}" using dxs j by auto
    have "?m' y = ?m y" if "x \<in> pt_pages ?m l (?c j)" "in_page x y" for x y
      using keep [OF pt_pages_ram [OF wj(1) that(1)] _ that(2)] wj(2) xj that(1) by blast
    from pt_frame [OF wj(1) this] show ?thesis by simp
  qed
  have wfc: "pt_wf ?m' l (?c j)" if "j < 512" "valid_pte (entry ?m p j)" for j
    using fr [of j] t(3) c that by (cases "j = i") auto
  have sub: "pt_pages ?m' l (?c j) \<subseteq> pt_pages ?m l (?c j) \<union> (if j = i then set xs else {})"
    if "j < 512" "valid_pte (entry ?m p j)" for j
    using fr [of j] g(2) c that by (cases "j = i") auto
  have pp: "pt_pages ?m' (Suc l) p = pt_pages ?m (Suc l) p \<union> pt_pages ?m' l c"
  proof -
    have "(\<Union>j\<in>{j. j < 512 \<and> valid_pte (entry ?m p j)}. pt_pages ?m' l (?c j)) =
      (\<Union>j\<in>{j. j < 512 \<and> valid_pte (entry ?m p j)}. pt_pages ?m l (?c j)) \<union> pt_pages ?m' l c"
      using fr g(3) i unfolding c by (intro UN_replace) auto
    then show ?thesis using e by (simp cong: conj_cong)
  qed
  have sep: "p \<notin> pt_pages ?m' l (?c j)" if "j < 512" "valid_pte (entry ?m p j)" for j
    using sub [OF that] wf that p(3) by (auto split: if_splits)
  have dis: "pt_pages ?m' l (?c j) \<inter> pt_pages ?m' l (?c k) = {}"
    if "j < 512" "valid_pte (entry ?m p j)" "k < 512" "valid_pte (entry ?m p k)" "j \<noteq> k" for j k
  proof -
    have "pt_pages ?m l (?c j) \<inter> pt_pages ?m l (?c k) = {}" using wf that by auto
    moreover have "pt_pages ?m l (?c j) \<inter> set xs = {}" "pt_pages ?m l (?c k) \<inter> set xs = {}"
      using dxs that by auto
    ultimately show ?thesis using sub [OF that(1,2)] sub [OF that(3,4)] that(5)
      by (cases "j = i"; cases "k = i") (simp_all, blast+)
  qed
  have "pt_wf ?m' (Suc l) p" using p(1) wfc sep dis e by simp
  moreover have "pt_pages ?m' (Suc l) p \<inter> set ys = {}"
  proof -
    have "set ys \<subseteq> pt_pages ?m l c \<union> set xs" using g(2) by blast
    moreover have "set ys \<inter> pt_pages ?m l c = {}" using t(4) g(3) by blast
    ultimately have "set ys \<subseteq> set xs" by blast
    then show ?thesis unfolding pp using dxs t(4) by blast
  qed
  ultimately show "tables_ok ys (Suc l) p t" using t(1,2) by (simp add: tables_ok_def)
  have cin: "pt_pages ?m l c \<subseteq> pt_pages ?m (Suc l) p" using i c by auto
  show "grown xs ys (Suc l) p s t"
    unfolding grown_def
  proof (intro conjI allI impI)
    show "pt_pages ?m' (Suc l) p \<union> set ys = pt_pages ?m (Suc l) p \<union> set xs"
      unfolding pp using g(2) cin by blast
    show "pt_pages ?m (Suc l) p \<subseteq> pt_pages ?m' (Suc l) p" unfolding pp by blast
    show "?m' y = ?m y" if "\<forall>x\<in>pt_pages ?m (Suc l) p \<union> set xs. \<not> in_page x y" for y
      using that cin by (intro g(4)) blast
  qed (rule g(1))
  show "leaf ?m' va (Suc l) p = leaf ?m va (Suc l) p"
    using e [OF px_less] fr [OF px_less] step(3) c
    by (intro leaf_Suc_child) (auto, metis)
qed

text \<open>Hanging a fresh zeroed page below an invalid entry maps nothing new.\<close>

lemma table_added:
  assumes ok: "tables_ok (g # xs) (Suc l) p s" and i: "i < 512" "\<not> valid_pte (entry (mem s) p i)"
    and u: "mem u = store64 (memset (memset (mem s) g 5 4096) g 0 4096) (entry_at p i) (PA2PTE g OR PTE_V)"
      "kmem_ready u" "kmem_inv xs u" "mem_step s u"
  shows "tables_ok xs (Suc l) p u" "grown (g # xs) xs (Suc l) p s u" "tables_ok xs l g u"
    "entry (mem u) p i = PA2PTE g OR PTE_V" "leaf (mem u) va (Suc l) p = leaf (mem s) va (Suc l) p"
proof -
  let ?m = "mem s" and ?m' = "mem u"
  let ?c = "\<lambda>i. PTE2PA (entry ?m p i)"
  note n = new_table [OF ok i, folded u(1)]
  have wf: "pt_wf ?m (Suc l) p" and dxs: "pt_pages ?m (Suc l) p \<inter> set (g # xs) = {}"
    using ok by (simp_all add: tables_ok_def)
  have p: "ram_page p" using wf by simp
  have "distinct (g # xs)" using ok by (simp add: tables_ok_def kmem_inv_def)
  then have gxs: "g \<notin> set xs" by simp
  note z = zero_table [OF n(3) n(1), simplified]
  note g = pte_table [OF n(1)]
  show ei: "entry ?m' p i = PA2PTE g OR PTE_V" using n(4) [OF i(1)] by simp
  have fr: "pt_pages ?m' l (?c j) = pt_pages ?m l (?c j) \<and> pt_wf ?m' l (?c j)
      \<and> (\<forall>va. leaf ?m' va l (?c j) = leaf ?m va l (?c j))"
    if j: "j < 512" "valid_pte (entry ?m p j)" for j
  proof -
    have wj: "pt_wf ?m l (?c j)" "p \<notin> pt_pages ?m l (?c j)" "g \<notin> pt_pages ?m l (?c j)"
      using wf dxs j by auto
    have "?m' y = ?m y" if "x \<in> pt_pages ?m l (?c j)" "in_page x y" for x y
      using n(5) [OF _ _ pt_pages_ram [OF wj(1) that(1)] that(2)] wj that(1) by blast
    from pt_frame [OF wj(1) this] show ?thesis by simp
  qed
  have ent: "valid_pte (entry ?m' p j) \<longleftrightarrow> j = i \<or> valid_pte (entry ?m p j)" if "j < 512" for j
    using n(4) [OF that] g(2) by auto
  have ch: "pt_pages ?m' l (PTE2PA (entry ?m' p j)) = (if j = i then {g} else pt_pages ?m l (?c j))
      \<and> pt_wf ?m' l (PTE2PA (entry ?m' p j))"
    if "j < 512" "valid_pte (entry ?m' p j)" for j
    using n(4) [OF that(1)] fr [OF that(1)] that i g z by auto
  have pp: "pt_pages ?m' (Suc l) p = insert g (pt_pages ?m (Suc l) p)"
  proof -
    have "(\<Union>j\<in>{j. j < 512 \<and> valid_pte (entry ?m' p j)}. pt_pages ?m' l (PTE2PA (entry ?m' p j))) =
      (\<Union>j\<in>{j. j < 512 \<and> valid_pte (entry ?m' p j)}. if j = i then {g} else pt_pages ?m l (?c j))"
      using ch by (intro SUP_cong) auto
    also have "\<dots> = insert g (\<Union>j\<in>{j. j < 512 \<and> valid_pte (entry ?m p j)}. pt_pages ?m l (?c j))"
      using ent i by (auto split: if_splits)
    finally show ?thesis by auto
  qed
  have gp: "g \<notin> pt_pages ?m (Suc l) p" using dxs by auto
  have sep: "p \<notin> pt_pages ?m' l (PTE2PA (entry ?m' p j))" if "j < 512" "valid_pte (entry ?m' p j)" for j
    using ch [OF that] wf ent [OF that(1)] that n(2) by (auto split: if_splits)
  have dis: "pt_pages ?m' l (PTE2PA (entry ?m' p j)) \<inter> pt_pages ?m' l (PTE2PA (entry ?m' p k)) = {}"
    if "j < 512" "valid_pte (entry ?m' p j)" "k < 512" "valid_pte (entry ?m' p k)" "k \<noteq> j" for j k
  proof -
    have "g \<notin> pt_pages ?m l (?c q)" if "q < 512" "valid_pte (entry ?m p q)" for q using gp that by auto
    then show ?thesis
      using ch [OF that(1,2)] ch [OF that(3,4)] wf ent [OF that(1)] ent [OF that(3)] that
      by (cases "j = i"; cases "k = i") simp_all
  qed
  have "pt_wf ?m' (Suc l) p" using p ch sep dis by simp
  moreover have "pt_pages ?m' (Suc l) p \<inter> set xs = {}" unfolding pp using dxs gxs by auto
  ultimately show "tables_ok xs (Suc l) p u" using u(2,3) by (simp add: tables_ok_def)
  show "grown (g # xs) xs (Suc l) p s u"
    unfolding grown_def pp using u(4) n(6) by auto
  show "tables_ok xs l g u" using u(2,3) z gxs by (simp add: tables_ok_def)
  show "leaf ?m' va (Suc l) p = leaf ?m va (Suc l) p"
    using n(4) [OF px_less, of "Suc l" va] fr [OF px_less, of "Suc l" va] i(2) g z by (auto simp: Let_def)
qed

lemma tables_ok_child:
  assumes "tables_ok xs (Suc l) p s" "i < 512" "valid_pte (entry (mem s) p i)"
  shows "tables_ok xs l (PTE2PA (entry (mem s) p i)) s"
  using assms by (auto simp: tables_ok_def)

definition walk_spec ::
  "nat \<Rightarrow> addr list \<Rightarrow> nat \<Rightarrow> addr \<Rightarrow> addr \<Rightarrow> 'a kmem_scheme \<Rightarrow> addr \<Rightarrow> 'a kmem_scheme \<Rightarrow> bool" where
  "walk_spec k xs l p va s r t \<longleftrightarrow> (\<exists>ys. tables_ok ys l p t \<and> grown xs ys l p s t \<and> length xs \<le> length ys + k
     \<and> (\<forall>va'. leaf (mem t) va' l p = leaf (mem s) va' l p)
     \<and> (if r = 0 then ys = [] else r = pte_addr (mem t) va l p))"

lemma walk_below:
  assumes "tables_ok xs (Suc l) p s" "valid_pte (entry (mem s) p (px (Suc l) va))"
    "walk_spec k xs l (PTE2PA (entry (mem s) p (px (Suc l) va))) va s r t"
  shows "walk_spec k xs (Suc l) p va s r t"
proof -
  let ?c = "PTE2PA (entry (mem s) p (px (Suc l) va))"
  obtain ys where t: "tables_ok ys l ?c t" "grown xs ys l ?c s t"
    "\<And>va'. leaf (mem t) va' l ?c = leaf (mem s) va' l ?c"
    "if r = 0 then ys = [] else r = pte_addr (mem t) va l ?c" "length xs \<le> length ys + k"
    using assms(3) by (auto simp: walk_spec_def)
  note cg = child_grown [OF assms(1) px_less assms(2) refl t(1,2,3)]
  show ?thesis unfolding walk_spec_def
    by (rule exI [of _ ys]) (use cg t(4,5) assms(2) in \<open>simp add: Let_def\<close>)
qed

lemma walk_spec_fail: "tables_ok [] l p s \<Longrightarrow> walk_spec k [] l p va s 0 (quiet s)"
  by (simp add: walk_spec_def tables_ok_def grown_def)

lemma walk_spec_more: "walk_spec k xs l p va s r t \<Longrightarrow> k \<le> n \<Longrightarrow> walk_spec n xs l p va s r t"
  unfolding walk_spec_def by (elim exE conjE) (intro exI conjI, assumption+, simp, assumption+)

lemma new_table_inv:
  assumes "tables_ok (g # gs) (Suc l) p s" "i < 512" "\<not> valid_pte (entry (mem s) p i)"
  shows "kmem_inv gs (s\<lparr>freelist := load64 (mem s) g,
    mem := store64 (memset (memset (mem s) g 5 4096) g 0 4096) (entry_at p i) v\<rparr>)"
proof -
  have s: "kmem_inv (g # gs) s" and p: "ram_page p" "p \<notin> set gs"
    using assms(1) by (auto simp: tables_ok_def)
  then have g: "ram_page g" "g \<notin> set gs" using kmem_inv_ram [OF s] by (auto simp: kmem_inv_def)
  have "kmem_inv gs ((s\<lparr>freelist := load64 (mem s) g, mem := memset (mem s) g 5 4096\<rparr>)
    \<lparr>mem := store64 (memset (memset (mem s) g 5 4096) g 0 4096) (entry_at p i) v\<rparr>)"
  proof (rule kmem_inv_mem [OF kmem_inv_alloc [OF s]])
    fix x y assume x: "x \<in> set gs" "in_page x y"
    have r: "ram_page x" using x(1) kmem_inv_ram [OF s] by simp
    have "\<not> in_page p y" "\<not> in_page g y"
      using ram_pages_disjoint [OF r p(1) _ x(2)] ram_pages_disjoint [OF r g(1) _ x(2)] x(1) p(2) g(2) by auto
    then show "store64 (memset (memset (mem s) g 5 4096) g 0 4096) (entry_at p i) v y =
        mem (s\<lparr>freelist := load64 (mem s) g, mem := memset (mem s) g 5 4096\<rparr>) y"
      by (simp add: store_entry_other [OF p(1) assms(2)] memset_page)
  qed
  then show ?thesis by simp
qed

lemma walk_from_alloc:
  "tables_ok xs l p s \<Longrightarrow> \<exists>r t. walk_from l p va True s = Done r t \<and> walk_spec l xs l p va s r t"
proof (induction l arbitrary: p s xs)
  case 0
  then have "ram_page p" by (simp add: tables_ok_def)
  then have "entry_at p (px 0 va) \<noteq> 0" by (rule entry_at_nonnull(2)) (rule px_less)
  with 0 show ?case by (auto simp: ret_def pte_slot_entry walk_spec_def)
next
  case (Suc l)
  let ?i = "px (Suc l) va"
  have i: "?i < 512" by (rule px_less)
  have "ram_page p" using Suc.prems by (simp add: tables_ok_def)
  note nn = entry_at_nonnull [OF this i]
  have s: "kmem_ready s" "kmem_inv xs s" using Suc.prems by (simp_all add: tables_ok_def)
  show ?case
  proof (cases "valid_pte (entry (mem s) p ?i)")
    case True
    then obtain r t where "walk_from l (PTE2PA (entry (mem s) p ?i)) va True s = Done r t"
      "walk_spec l xs l (PTE2PA (entry (mem s) p ?i)) va s r t"
      using Suc.IH [OF tables_ok_child [OF Suc.prems i]] by blast
    moreover from walk_below [OF Suc.prems True this(2)] have "walk_spec (Suc l) xs (Suc l) p va s r t"
      by (rule walk_spec_more) simp
    ultimately show ?thesis using True nn
      by (simp add: pte_slot_entry kload64_ok valid_pte_def entry_def)
  next
    case inv: False
    show ?thesis
    proof (cases xs)
      case Nil
      have "walk_from (Suc l) p va True s = Done 0 (quiet s)"
        using inv nn s Nil by (simp add: pte_slot_entry kload64_ok valid_pte_def entry_def kalloc_empty ret_def)
      moreover have "walk_spec (Suc l) xs (Suc l) p va s 0 (quiet s)"
        unfolding Nil by (rule walk_spec_fail) (use Suc.prems Nil in simp)
      ultimately show ?thesis by blast
    next
      case (Cons g gs)
      let ?m = "store64 (memset (memset (mem s) g 5 4096) g 0 4096) (entry_at p ?i) (PA2PTE g OR PTE_V)"
      let ?u = "quiet (s\<lparr>freelist := load64 (mem s) g, mem := ?m\<rparr>)"
      have ok: "tables_ok (g # gs) (Suc l) p s" using Suc.prems Cons by simp
      have g0: "g \<noteq> 0" using kpages.frees_nonnull [OF s(2)] Cons by simp
      have inv': "kmem_inv gs ?u" using new_table_inv [OF ok i inv] by simp
      have ta: "tables_ok gs (Suc l) p ?u" "grown (g # gs) gs (Suc l) p s ?u" "tables_ok gs l g ?u"
        "entry (mem ?u) p ?i = PA2PTE g OR PTE_V" "leaf (mem ?u) va' (Suc l) p = leaf (mem s) va' (Suc l) p" for va'
        using table_added [OF ok i inv _ _ inv'] s(1) by auto
      have w: "walk_from (Suc l) p va True s = walk_from l g va True ?u"
        using inv nn s g0 kalloc_head [of s g gs] Cons
        by (simp add: pte_slot_entry kload64_ok kstore64_ok valid_pte_def entry_def fill_page_def km_simps)
      note pt = pte_table [OF new_table(1) [OF ok i inv]]
      obtain r t where "walk_from l g va True ?u = Done r t" "walk_spec l gs l g va ?u r t"
        using Suc.IH [OF ta(3)] by blast
      moreover from this have "walk_spec l gs (Suc l) p va ?u r t"
        using walk_below [OF ta(1), of va l r t] ta(4) pt by simp
      ultimately show ?thesis using w ta(5) grown_trans [OF ta(2)] Cons by (auto simp: walk_spec_def)
    qed
  qed
qed

end
