(* ===== verification/Xv6_Uvm.thy ===== *)
theory Xv6_Uvm
  imports Xv6_Pagetable
begin

text \<open>
  Properties of mapping, unmapping and copying (\<open>vm.c\<close>), stated over the mapping of a page table:
  the function from a virtual address to its entry.
\<close>

section \<open>Mapping pages\<close>

lemma px_div: "px k va = unat va div 4096 div 512 ^ k mod 512"
proof -
  have "(0x1FF :: addr) = mask 9" by (simp add: mask_eq_exp_minus_1)
  then have "PX k va = take_bit 9 (drop_bit (12 + 9 * k) va)"
    by (simp add: PX_def PXSHIFT_def take_bit_eq_mask)
  then have "px k va = take_bit 9 (drop_bit (12 + 9 * k) (unat va))"
    by (simp only: px_def unsigned_take_bit_eq unat_drop_bit_eq)
  also have "\<dots> = unat va div (2 ^ 12 * 2 ^ (9 * k)) mod 2 ^ 9"
    by (simp only: take_bit_eq_mod drop_bit_eq_div power_add)
  finally show ?thesis by (simp add: div_mult2_eq power_mult)
qed

lemma page_number_px:
  assumes "unat va < 2 ^ 38"
  shows "unat va div 4096 = px 0 va + 512 * (px 1 va + 512 * px 2 va)"
proof -
  let ?n = "unat va div 4096"
  have "?n div 512 div 512 < 512"
    using assms by (simp add: div_mult2_eq [symmetric] less_mult_imp_div_less)
  then have "px 2 va = ?n div 512 div 512" "px 1 va = ?n div 512 mod 512" "px 0 va = ?n mod 512"
    by (simp_all add: px_div div_mult2_eq [symmetric])
  then show ?thesis by simp
qed

lemma same_slot_page:
  assumes "va < MAXVA" "va' < MAXVA"
  shows "same_slot 2 va va' \<longleftrightarrow> PGROUNDDOWN va = PGROUNDDOWN va'"
proof -
  have u: "unat va < 2 ^ 38" "unat va' < 2 ^ 38" using assms by (simp_all add: word_less_nat_alt)
  have "same_slot 2 va va' \<longleftrightarrow> px 0 va = px 0 va' \<and> px 1 va = px 1 va' \<and> px 2 va = px 2 va'"
    by (auto simp: same_slot_def numeral_2_eq_2 le_Suc_eq)
  also have "\<dots> \<longleftrightarrow> unat va div 4096 = unat va' div 4096"
    using page_number_px [OF u(1)] page_number_px [OF u(2)] by (metis px_div)
  also have "\<dots> \<longleftrightarrow> PGROUNDDOWN va = PGROUNDDOWN va'"
    by (simp add: word_unat_eq_iff unat_PGROUNDDOWN)
  finally show ?thesis .
qed

lemma in_page_base:
  assumes "page_aligned a" shows "in_page a va \<longleftrightarrow> PGROUNDDOWN va = a"
proof -
  obtain k where "unat a = 4096 * k" using assms by (rule page_alignedE)
  then show ?thesis
    unfolding in_page_div [OF assms] word_unat_eq_iff [of _ a] unat_PGROUNDDOWN by auto
qed

lemma same_slot_in_page:
  assumes "va < MAXVA" "va' < MAXVA" "page_aligned va"
  shows "same_slot 2 va va' \<longleftrightarrow> in_page va va'"
  using same_slot_page [OF assms(1,2)] in_page_base [OF assms(3)] PGROUNDDOWN_aligned [OF assms(3)] by auto

text \<open>
  A store into a table page of the tree keeps the free list.
\<close>

lemma tables_ok_store:
  assumes "tables_ok xs 2 p s" "pte_addr (mem s) va 2 p \<noteq> 0"
  shows "tables_ok xs 2 p (s\<lparr>mem := store64 (mem s) (pte_addr (mem s) va 2 p) v\<rparr>)"
proof -
  let ?m = "store64 (mem s) (pte_addr (mem s) va 2 p) v"
  have wf: "pt_wf (mem s) 2 p" "pt_pages (mem s) 2 p \<inter> set xs = {}" "kmem_inv xs s"
    using assms(1) by (simp_all add: tables_ok_def)
  have "?m y = mem s y" if "x \<in> set xs" "in_page x y" for x y
    using ram_pages_disjoint [OF kmem_inv_ram [OF wf(3) that(1)] pt_pages_ram [OF wf(1)] _ that(2)]
      wf(2) that(1) by (intro store_leaf_other [OF wf(1) assms(2)]) blast
  then have "kmem_inv xs (s\<lparr>mem := ?m\<rparr>)" by (rule kmem_inv_mem [OF wf(3)])
  moreover note leaf_store [OF wf(1) assms(2) refl, of v]
  ultimately show ?thesis using assms(1) wf(2) by (simp add: tables_ok_def)
qed

definition pte_for :: "addr \<Rightarrow> addr \<Rightarrow> addr \<Rightarrow> addr \<Rightarrow> addr" where
  "pte_for a pa perm va = PA2PTE (pa + (PGROUNDDOWN va - a)) OR perm OR PTE_V"

text \<open>The mapping of \<open>t\<close> is that of \<open>s\<close> with \<open>k\<close> pages from \<open>a\<close> mapped to \<open>pa\<close> and on.\<close>

definition maps_from :: "addr \<Rightarrow> nat \<Rightarrow> addr \<Rightarrow> addr \<Rightarrow> addr \<Rightarrow> memory \<Rightarrow> memory \<Rightarrow> bool" where
  "maps_from a k pa perm p m m' \<longleftrightarrow> (\<forall>va<MAXVA. leaf m' va 2 p =
     (if within (4096 * k) a va then pte_for a pa perm va else leaf m va 2 p))"

lemma maps_from_0: "(\<And>va. leaf m' va 2 p = leaf m va 2 p) \<Longrightarrow> maps_from a 0 pa perm p m m'"
  by (simp add: maps_from_def)

lemma within_next_page:
  assumes "unat a + 4096 * Suc k \<le> 2 ^ 64"
  shows "within (4096 * Suc k) a x \<longleftrightarrow> in_page a x \<or> (\<not> in_page a x \<and> within (4096 * k) (a + 4096) x)"
proof (cases "k = 0")
  case False
  then have "unat (a + 4096) = unat a + 4096" using assms unat_plus_of_nat [of a 4096] by simp
  with assms show ?thesis by (subst (1 2 3 4) within_range) auto
qed auto

lemma maps_from_Suc:
  assumes one: "maps_from a 1 pa perm p m m1"
    and rest: "maps_from (a + 4096) k (pa + 4096) perm p m1 m'"
    and bound: "unat a + 4096 * Suc k \<le> 2 ^ 64"
  shows "maps_from a (Suc k) pa perm p m m'"
  unfolding maps_from_def
proof (intro allI impI)
  fix va :: addr assume va: "va < MAXVA"
  have eq: "pte_for (a + 4096) (pa + 4096) perm va = pte_for a pa perm va"
    by (simp add: pte_for_def)
  have "\<not> within (4096 * k) (a + 4096) va" if "in_page a va"
  proof (cases "k = 0")
    case False
    then have "unat (a + 4096) = unat a + 4096" using bound unat_plus_of_nat [of a 4096] by simp
    then show ?thesis using that bound by (subst within_range) (auto simp: within_range)
  qed simp
  then show "leaf m' va 2 p = (if within (4096 * Suc k) a va then pte_for a pa perm va else leaf m va 2 p)"
    using one rest va eq unfolding maps_from_def within_next_page [OF bound] by auto
qed

text \<open>The entry of one page: the body of the loop of \<open>mappages\<close>.\<close>

lemma map_one_page:
  assumes ok: "tables_ok xs 2 p s" and a: "a < MAXVA" "page_aligned a"
    and inv: "\<not> valid_pte (leaf (mem s) a 2 p)"
  shows "\<exists>pte u ys. walk p a True s = Done pte u \<and> grown xs ys 2 p s u \<and> tables_ok ys 2 p u
    \<and> length xs \<le> length ys + 2
    \<and> (if pte = 0 then ys = [] \<and> maps_from a 0 pa perm p (mem s) (mem u)
       else \<not> pte < PGSIZE \<and> \<not> valid_pte (load64 (mem u) pte)
         \<and> (let t = u\<lparr>mem := store64 (mem u) pte (PA2PTE pa OR perm OR PTE_V)\<rparr> in
            tables_ok ys 2 p t \<and> grown xs ys 2 p s t \<and> maps_from a 1 pa perm p (mem s) (mem t)))"
proof -
  obtain pte u where w: "walk_from 2 p a True s = Done pte u" "walk_spec 2 xs 2 p a s pte u"
    using walk_from_alloc [OF ok] by blast
  then obtain ys where u: "tables_ok ys 2 p u" "grown xs ys 2 p s u"
    "\<And>va. leaf (mem u) va 2 p = leaf (mem s) va 2 p"
    "if pte = 0 then ys = [] else pte = pte_addr (mem u) a 2 p" "length xs \<le> length ys + 2"
    by (auto simp: walk_spec_def)
  have walk: "walk p a True s = Done pte u" using w(1) a(1) by (auto simp: walk_def)
  show ?thesis
  proof (cases "pte = 0")
    case True
    with u walk show ?thesis by (auto intro!: maps_from_0)
  next
    case False
    let ?t = "u\<lparr>mem := store64 (mem u) pte (PA2PTE pa OR perm OR PTE_V)\<rparr>"
    have wf: "pt_wf (mem u) 2 p" using u(1) by (simp add: tables_ok_def)
    have pte: "pte = pte_addr (mem u) a 2 p" "pte_addr (mem u) a 2 p \<noteq> 0" using u(4) False by auto
    note st = leaf_store [OF wf pte(2) refl, of "PA2PTE pa OR perm OR PTE_V", folded pte(1)]
    have "grown ys ys 2 p u ?t"
      using st store_leaf_other [OF wf pte(2)] by (auto simp: grown_def pte(1))
    then have "grown xs ys 2 p s ?t" by (rule grown_trans [OF u(2)])
    moreover have "tables_ok ys 2 p ?t" using tables_ok_store [OF u(1) pte(2)] pte(1) by simp
    moreover have "maps_from a 1 pa perm p (mem s) (mem ?t)"
      using st same_slot_in_page [OF a(1) _ a(2)] u(3) in_page_base [OF a(2)]
      by (auto simp: maps_from_def pte_for_def)
    moreover have "\<not> pte < PGSIZE" "\<not> valid_pte (load64 (mem u) pte)"
      using pte_addr_nonnull [OF wf pte(2)] leaf_load [OF wf pte(2)] pte(1) u(3) inv by simp_all
    ultimately show ?thesis using walk u(1,2,5) False by (auto simp: Let_def)
  qed
qed

lemma unat_next_page:
  assumes "unat (a :: addr) + 4096 < 2 ^ 64" shows "unat (a + 4096) = unat a + 4096"
  using unat_plus_of_nat [of a 4096] assms by simp

lemma page_aligned_next: "page_aligned a \<Longrightarrow> unat a + 4096 < 2 ^ 64 \<Longrightarrow> page_aligned (a + 4096)"
  by (simp add: page_aligned_unat unat_next_page)

lemma mappages_step_eq:
  assumes "tables_ok xs 2 p s" "a < MAXVA" "page_aligned a" "\<not> valid_pte (leaf (mem s) a 2 p)"
  shows "\<exists>t ys. tables_ok ys 2 p t \<and> grown xs ys 2 p s t \<and> length xs \<le> length ys + 2
    \<and> (mappages_step p perm fin (a, pa) s = Done (Inr (-1)) t \<and> ys = []
         \<and> maps_from a 0 pa perm p (mem s) (mem t)
       \<or> mappages_step p perm fin (a, pa) s = Done (if a = fin then Inr 0 else Inl (a + PGSIZE, pa + PGSIZE)) t
         \<and> maps_from a 1 pa perm p (mem s) (mem t))"
proof -
  obtain pte u ys where u: "walk p a True s = Done pte u" "grown xs ys 2 p s u" "tables_ok ys 2 p u"
    "if pte = 0 then ys = [] \<and> maps_from a 0 pa perm p (mem s) (mem u)
       else \<not> pte < PGSIZE \<and> \<not> valid_pte (load64 (mem u) pte)
         \<and> (let t = u\<lparr>mem := store64 (mem u) pte (PA2PTE pa OR perm OR PTE_V)\<rparr> in
            tables_ok ys 2 p t \<and> grown xs ys 2 p s t \<and> maps_from a 1 pa perm p (mem s) (mem t))"
    "length xs \<le> length ys + 2"
    using map_one_page [OF assms, of pa perm] by blast
  show ?thesis
  proof (cases "pte = 0")
    case True
    with u show ?thesis by (auto simp: mappages_step_def ret_def)
  next
    case False
    with u have "\<not> pte < PGSIZE" "\<not> valid_pte (load64 (mem u) pte)" by simp_all
    then have "mappages_step p perm fin (a, pa) s = Done (if a = fin then Inr 0 else Inl (a + PGSIZE, pa + PGSIZE))
        (u\<lparr>mem := store64 (mem u) pte (PA2PTE pa OR perm OR PTE_V)\<rparr>)"
      using u(1) False by (simp add: mappages_step_def kload64_ok kstore64_ok valid_pte_def ret_def)
    with u(4,5) False show ?thesis by (auto simp: Let_def)
  qed
qed

lemma mappages_loop:
  assumes "tables_ok xs 2 p s" "page_aligned a" "unat a + 4096 * Suc n \<le> 2 ^ 38"
    "\<And>va. va < MAXVA \<Longrightarrow> within (4096 * Suc n) a va \<Longrightarrow> \<not> valid_pte (leaf (mem s) va 2 p)"
  shows "\<exists>r t ys k. loop (mappages_step p perm (a + of_nat (4096 * n))) (a, pa) s = Done r t
    \<and> tables_ok ys 2 p t \<and> grown xs ys 2 p s t \<and> maps_from a k pa perm p (mem s) (mem t)
    \<and> length xs \<le> length ys + 2 * Suc n \<and> (r = 0 \<and> k = Suc n \<or> r = -1 \<and> k \<le> n \<and> ys = [])"
  using assms
proof (induction n arbitrary: xs s a pa)
  case (0 xs s a pa)
  have a: "a < MAXVA" using 0(3) by (simp add: word_less_nat_alt)
  have "\<not> valid_pte (leaf (mem s) a 2 p)" using 0(4) [OF a] by (simp add: within_def)
  from mappages_step_eq [OF 0(1) a 0(2) this, of perm a pa]
  obtain t ys where t: "tables_ok ys 2 p t" "grown xs ys 2 p s t"
    "mappages_step p perm a (a, pa) s = Done (Inr (-1)) t \<and> ys = [] \<and> maps_from a 0 pa perm p (mem s) (mem t)
     \<or> mappages_step p perm a (a, pa) s = Done (Inr 0) t \<and> maps_from a 1 pa perm p (mem s) (mem t)"
    "length xs \<le> length ys + 2"
    by auto
  then show ?case by (subst loop_unfold) fastforce
next
  case (Suc n xs s a pa)
  let ?fin = "a + of_nat (4096 * Suc n)"
  have a: "a < MAXVA" using Suc.prems(3) by (simp add: word_less_nat_alt)
  have nx: "unat (a + 4096) = unat a + 4096" using Suc.prems(3) by (intro unat_next_page) simp
  have fin: "?fin = (a + 4096) + of_nat (4096 * n)" by (simp add: algebra_simps)
  have "of_nat (4096 * Suc n) \<noteq> (0 :: addr)"
    using unat_of_nat_small [of "4096 * Suc n"] Suc.prems(3) by auto
  then have "a \<noteq> ?fin" by simp
  moreover have "\<not> valid_pte (leaf (mem s) a 2 p)" using Suc.prems(4) [OF a] by (simp add: within_def)
  ultimately obtain t ys where t: "tables_ok ys 2 p t" "grown xs ys 2 p s t"
    "mappages_step p perm ?fin (a, pa) s = Done (Inr (-1)) t \<and> ys = [] \<and> maps_from a 0 pa perm p (mem s) (mem t)
     \<or> mappages_step p perm ?fin (a, pa) s = Done (Inl (a + 4096, pa + 4096)) t
       \<and> maps_from a 1 pa perm p (mem s) (mem t)" "length xs \<le> length ys + 2"
    using mappages_step_eq [OF Suc.prems(1) a Suc.prems(2), of perm ?fin pa] by auto
  from t(3) show ?case
  proof (elim disjE conjE)
    assume "mappages_step p perm ?fin (a, pa) s = Done (Inr (-1)) t" "ys = []"
      "maps_from a 0 pa perm p (mem s) (mem t)"
    with t show ?thesis by (subst loop_unfold) fastforce
  next
    assume st: "mappages_step p perm ?fin (a, pa) s = Done (Inl (a + 4096, pa + 4096)) t"
      and one: "maps_from a 1 pa perm p (mem s) (mem t)"
    have nv: "\<not> valid_pte (leaf (mem t) va 2 p)" if va: "va < MAXVA" "within (4096 * Suc n) (a + 4096) va" for va
    proof -
      have "unat a + 4096 \<le> unat va" "unat va < unat a + 4096 * Suc (Suc n)"
        using va(2) Suc.prems(3) nx within_range [of "a + 4096" "4096 * Suc n" va] by auto
      then have "\<not> in_page a va" "within (4096 * Suc (Suc n)) a va"
        using Suc.prems(2,3) by (simp_all add: in_page_iff within_range)
      then show ?thesis using one va(1) Suc.prems(4) by (simp add: maps_from_def)
    qed
    have "page_aligned (a + 4096)" "unat (a + 4096) + 4096 * Suc n \<le> 2 ^ 38"
      using page_aligned_next [OF Suc.prems(2)] nx Suc.prems(3) by simp_all
    from Suc.IH [OF t(1) this nv, of "pa + 4096"]
    obtain r u zs k where u: "loop (mappages_step p perm ?fin) (a + 4096, pa + 4096) t = Done r u"
      "tables_ok zs 2 p u" "grown ys zs 2 p t u" "maps_from (a + 4096) k (pa + 4096) perm p (mem t) (mem u)"
      "r = 0 \<and> k = Suc n \<or> r = -1 \<and> k \<le> n \<and> zs = []" "length ys \<le> length zs + 2 * Suc n"
      unfolding fin by blast
    have "maps_from a (Suc k) pa perm p (mem s) (mem u)"
      using Suc.prems(3) u(5) by (intro maps_from_Suc [OF one u(4)]) auto
    moreover have "length xs \<le> length zs + 2 * Suc (Suc n)" using t(4) u(6) by simp
    ultimately show ?thesis using u(1,2,5) st grown_trans [OF t(2) u(3)]
      by (subst loop_unfold) (auto intro!: exI [of _ "Suc k"])
  qed
qed

lemma mappages_eq:
  assumes "sz \<noteq> 0" "unat va + unat sz \<le> 2 ^ 38"
  shows "\<exists>n. n = (unat va + unat sz - 1) div 4096 - unat va div 4096
    \<and> mappages p va sz pa perm s =
      loop (mappages_step p perm (PGROUNDDOWN va + of_nat (4096 * n))) (PGROUNDDOWN va, pa) s
    \<and> unat (PGROUNDDOWN va) + 4096 * Suc n \<le> 2 ^ 38"
proof -
  let ?n = "(unat va + unat sz - 1) div 4096 - unat va div 4096"
  have sz: "0 < unat sz" using assms(1) by (simp add: unat_gt_0)
  have "unat (va + sz) = unat va + unat sz" using assms(2) by (subst unat_add_lem [THEN iffD1]) simp_all
  then have last: "unat (va + sz - 1) = unat va + unat sz - 1"
    using sz by (subst unat_minus_one) auto
  have le: "unat va div 4096 \<le> (unat va + unat sz - 1) div 4096" using sz by (intro div_le_mono) simp
  then have n: "unat va div 4096 + ?n = (unat va + unat sz - 1) div 4096" by simp
  have "unat (PGROUNDDOWN va) + 4096 * ?n = (unat va div 4096 + ?n) * 4096"
    unfolding unat_PGROUNDDOWN by (simp only: add_mult_distrib2 mult.commute)
  then have sum: "unat (PGROUNDDOWN va) + 4096 * ?n = unat (PGROUNDDOWN (va + sz - 1))"
    by (simp only: n last unat_PGROUNDDOWN)
  moreover have "unat (PGROUNDDOWN va) + 4096 * ?n < 2 ^ 64"
    unfolding sum by (rule order_less_le_trans [OF unsigned_less]) simp
  ultimately have "PGROUNDDOWN va + of_nat (4096 * ?n) = PGROUNDDOWN (va + sz - 1)"
    by (simp add: word_unat_eq_iff unat_plus_of_nat del: of_nat_mult)
  moreover have "unat (PGROUNDDOWN va) + 4096 * Suc ?n \<le> 2 ^ 38"
  proof -
    have "(unat va + unat sz - 1) div 4096 < 67108864" using assms(2) sz by (simp add: less_mult_imp_div_less)
    then show ?thesis unfolding unat_PGROUNDDOWN using n by simp
  qed
  ultimately show ?thesis using assms(1) by (intro exI [of _ ?n]) (simp add: mappages_def)
qed

text \<open>What \<open>walkaddr\<close> returns: the physical page of a user mapping, 0 otherwise.\<close>

definition user_page :: "memory \<Rightarrow> addr \<Rightarrow> addr \<Rightarrow> addr" where
  "user_page m p va = (if va \<ge> MAXVA then 0 else let v = leaf m va 2 p in
     if valid_pte v \<and> v AND PTE_U \<noteq> 0 then PTE2PA v else 0)"

lemma walkaddr_eq:
  assumes "pt_wf (mem s) 2 p" shows "walkaddr p va s = Done (user_page (mem s) p va) s"
proof (cases "va \<ge> MAXVA \<or> pte_addr (mem s) va 2 p = 0")
  case True
  then show ?thesis using walk_lookup [OF assms, of va] leaf_unmapped [OF _ assms, of va]
    by (auto simp: walkaddr_def user_page_def ret_def not_le)
next
  case False
  with assms show ?thesis using walk_lookup [OF assms, of va]
    by (auto simp: walkaddr_def user_page_def ret_def not_le kload64_ok pte_addr_nonnull leaf_load
        valid_pte_def Let_def)
qed

lemma pte_user_bit: "(PA2PTE pa OR perm OR PTE_V) AND PTE_U = 0 \<longleftrightarrow> perm AND PTE_U = 0"
proof -
  have "v AND PTE_U = 0 \<longleftrightarrow> \<not> bit v 4" for v :: addr
    using and_exp_eq_0_iff_not_bit [of v 4] by simp
  moreover have "bit (PA2PTE pa OR perm OR PTE_V) 4 = bit perm 4"
    by (auto simp: PA2PTE_def bit_simps)
  ultimately show ?thesis by simp
qed

lemma user_page_maps:
  assumes m: "maps_from a n pa perm p m m'" and a: "page_aligned a" "unat a + 4096 * n \<le> 2 ^ 38"
    and pa: "page_aligned pa" "unat pa + 4096 * n \<le> 2 ^ 56" and perm: "unat perm < 2 ^ 10" "perm AND PTE_U \<noteq> 0"
    and va: "va < MAXVA"
  shows "user_page m' p va = (if within (4096 * n) a va then pa + (PGROUNDDOWN va - a) else user_page m p va)"
proof (cases "within (4096 * n) a va")
  case True
  then have r: "unat a \<le> unat va" "unat va < unat a + 4096 * n" using a(2) by (auto simp: within_range)
  obtain i j where ij: "unat a = 4096 * i" "unat pa = 4096 * j" using a(1) pa(1) by (metis page_alignedE)
  let ?d = "PGROUNDDOWN va - a"
  have "a \<le> PGROUNDDOWN va"
    using r(1) ij(1) by (simp add: word_le_nat_alt unat_PGROUNDDOWN)
  then have d: "unat ?d = 4096 * (unat va div 4096 - i)"
    using ij(1) by (simp add: unat_sub unat_PGROUNDDOWN diff_mult_distrib2)
  have "unat va div 4096 < i + n" using r(2) ij(1) by (simp add: less_mult_imp_div_less)
  then have dn: "unat va div 4096 - i < n" using r by linarith
  then have sum: "unat (pa + ?d) = unat pa + unat ?d"
    using pa(2) d by (subst unat_add_lem [THEN iffD1]) auto
  have "page_aligned (pa + ?d)" "unat (pa + ?d) < 2 ^ 56"
    using d dn ij(2) pa(2) by (auto simp: page_aligned_unat sum)
  from pte_encode [OF this perm(1)] True m va perm(2) show ?thesis
    by (auto simp: user_page_def maps_from_def pte_for_def Let_def pte_user_bit)
next
  case False
  with m va show ?thesis by (simp add: user_page_def maps_from_def)
qed

text \<open>A new page table maps nothing.\<close>

lemma uvmcreate_empty:
  assumes "kmem_ready s" "kmem_inv (x # xs) s"
  shows "\<exists>t. uvmcreate s = Done x t \<and> tables_ok xs 2 x t \<and> mem_step s t \<and> (\<forall>va. leaf (mem t) va 2 x = 0)
    \<and> (\<forall>y. \<not> in_page x y \<longrightarrow> mem t y = mem s y)"
proof -
  let ?u = "s\<lparr>freelist := load64 (mem s) x, mem := memset (mem s) x 5 4096\<rparr>"
  let ?m = "memset (memset (mem s) x 5 4096) x 0 4096"
  have x: "x \<noteq> 0" "ram_page x" "x \<notin> set xs" "distinct (x # xs)"
    using kpages.frees_nonnull [OF assms(2)] kmem_inv_ram [OF assms(2)] kpages.frees_distinct [OF assms(2)] by auto
  have m: "?m y = (if in_page x y then 0 else mem s y)" for y by (simp add: memset_page)
  then have z: "pt_wf ?m 2 x" "pt_pages ?m 2 x = {x}" "leaf ?m va 2 x = 0" for va
    by (auto intro!: zero_table x(2))
  have "kmem_inv xs (?u\<lparr>mem := ?m\<rparr>)"
  proof (rule kmem_inv_mem [OF kmem_inv_alloc [OF assms(2)]])
    fix q y assume q: "q \<in> set xs" "in_page q y"
    have "\<not> in_page x y"
      using ram_pages_disjoint [OF kmem_inv_ram [OF assms(2)] x(2) _ q(2)] q(1) x(3) by auto
    then show "?m y = mem ?u y" by (simp add: memset_page)
  qed
  then have "tables_ok xs 2 x (quiet (s\<lparr>freelist := load64 (mem s) x, mem := ?m\<rparr>))"
    using assms(1) z x(3) by (simp add: tables_ok_def)
  moreover have "uvmcreate s = Done x (quiet (s\<lparr>freelist := load64 (mem s) x, mem := ?m\<rparr>))"
    using x(1) by (simp add: uvmcreate_def kalloc_head [OF assms] fill_page_def km_simps)
  ultimately show ?thesis using z(3) m by auto
qed

section \<open>Properties of mapping\<close>

text \<open>
  C11. \<open>mappages\<close> on a well-formed page table, over \<open>n\<close> pages that are not mapped yet, either maps
  them all, so that \<open>walkaddr\<close> translates every address of the range to the given physical pages
  and every other address as before, or returns -1 with the free list empty. It takes at most two
  free pages per mapped page, so it cannot fail when more than that are free. In both cases the
  table stays a tree of distinct pages apart from the free pages.
\<close>

theorem mappages_walkaddr:
  assumes ok: "tables_ok xs 2 p s" and n: "0 < n" "page_aligned va" "unat va + 4096 * n \<le> 2 ^ 38"
    and pa: "page_aligned pa" "unat pa + 4096 * n \<le> 2 ^ 56" and perm: "unat perm < 2 ^ 10" "perm AND PTE_U \<noteq> 0"
    and free: "\<And>va'. va' < MAXVA \<Longrightarrow> within (4096 * n) va va' \<Longrightarrow> \<not> valid_pte (leaf (mem s) va' 2 p)"
  shows "\<exists>r t ys. mappages p va (of_nat (4096 * n)) pa perm s = Done r t \<and> tables_ok ys 2 p t
    \<and> length xs \<le> length ys + 2 * n
    \<and> (r = 0 \<and> (\<forall>va'<MAXVA. walkaddr p va' s = Done (user_page (mem s) p va') s
         \<and> walkaddr p va' t = Done (if within (4096 * n) va va' then pa + (PGROUNDDOWN va' - va)
                                   else user_page (mem s) p va') t)
       \<or> r = -1 \<and> ys = [])"
proof -
  obtain k where k: "n = Suc k" using n(1) by (cases n) auto
  let ?sz = "of_nat (4096 * n) :: addr"
  have sz: "unat ?sz = 4096 * n" using n(3) by (intro unat_of_nat_small) simp
  then have "?sz \<noteq> 0" using n(1) by auto
  moreover have "unat va + unat ?sz \<le> 2 ^ 38" using sz n(3) by simp
  moreover obtain i where i: "unat va = 4096 * i" using n(2) by (rule page_alignedE)
  then have "(unat va + unat ?sz - 1) div 4096 - unat va div 4096 = k"
    unfolding sz using k by simp
  ultimately have mp: "mappages p va ?sz pa perm s = loop (mappages_step p perm (va + of_nat (4096 * k))) (va, pa) s"
    using mappages_eq [of ?sz va p pa perm s] PGROUNDDOWN_aligned [OF n(2)] by auto
  obtain r t ys j where t: "mappages p va ?sz pa perm s = Done r t" "tables_ok ys 2 p t"
    "maps_from va j pa perm p (mem s) (mem t)" "r = 0 \<and> j = Suc k \<or> r = -1 \<and> ys = []"
    "length xs \<le> length ys + 2 * n"
    unfolding mp using mappages_loop [OF ok n(2) n(3) [unfolded k], of perm pa] free k by auto
  have wf: "pt_wf (mem s) 2 p" "pt_wf (mem t) 2 p" using ok t(2) by (simp_all add: tables_ok_def)
  have "user_page (mem t) p va' = (if within (4096 * n) va va' then pa + (PGROUNDDOWN va' - va)
      else user_page (mem s) p va')" if "r = 0" "va' < MAXVA" for va'
    using user_page_maps [OF _ n(2,3) pa perm that(2)] t(3,4) that(1) k by auto
  then show ?thesis using t walkaddr_eq [OF wf(1)] walkaddr_eq [OF wf(2)] by (intro exI [of _ r] exI [of _ t] exI [of _ ys]) auto
qed

text \<open>A machine after \<open>kinit\<close>, with a new page table.\<close>

lemma fresh_table_exists:
  "\<exists>(s :: kmem) p xs. tables_ok xs 2 p s \<and> (\<forall>va. leaf (mem s) va 2 p = 0) \<and> 7 < length xs"
proof -
  have "cpu_ok boot_kmem" using boot_kmem_simps(4) by (simp add: kmem_ready_def)
  moreover have "PGROUNDUP 0x80027000 = 0x80027000"
    by (rule PGROUNDUP_aligned) (simp add: page_aligned_def)
  ultimately obtain t :: kmem where t: "kmem_ready t" "kmem_inv (rev (pages_from 0x80027000 32729)) t"
    using kinit_all [of boot_kmem] by auto
  obtain x xs where xs: "rev (pages_from 0x80027000 32729) = x # xs"
    by (cases "rev (pages_from 0x80027000 32729)") (auto simp: pages_from_def)
  then have "Suc (length xs) = length (rev (pages_from 0x80027000 32729))" by simp
  then have "length xs = 32728" by (simp only: length_rev pages_from_def length_map length_upt)
  then have "7 < length xs" by simp
  moreover obtain u :: kmem where "tables_ok xs 2 x u" "\<forall>va. leaf (mem u) va 2 x = 0"
    using uvmcreate_empty [OF t(1), of x xs] t(2) xs by auto
  ultimately show ?thesis by blast
qed

theorem mappages_walkaddr_witness:
  "\<exists>(s :: kmem) p t. mappages p 0x1000 0x2000 0x80100000 0x1F s = Done 0 t
     \<and> walkaddr p 0x2008 s = Done 0 s \<and> walkaddr p 0x2008 t = Done 0x80101000 t"
proof -
  obtain s :: kmem and p xs where s: "tables_ok xs 2 p s" "\<And>va. leaf (mem s) va 2 p = 0" "7 < length xs"
    using fresh_table_exists by blast
  have "\<exists>r t ys. mappages p 0x1000 0x2000 0x80100000 0x1F s = Done r t \<and> tables_ok ys 2 p t
    \<and> length xs \<le> length ys + 4
    \<and> (r = 0 \<and> (\<forall>va'<MAXVA. walkaddr p va' s = Done (user_page (mem s) p va') s
       \<and> walkaddr p va' t = Done (if within 8192 0x1000 va'
        then 0x80100000 + (PGROUNDDOWN va' - 0x1000) else user_page (mem s) p va') t) \<or> r = -1 \<and> ys = [])"
    using mappages_walkaddr [OF s(1), of 2 "0x1000" "0x80100000" "0x1F"] s(2) by (simp add: page_aligned_def)
  then obtain r t and ys :: "addr list" where t: "mappages p 0x1000 0x2000 0x80100000 0x1F s = Done r t" "length xs \<le> length ys + 4"
    "r = 0 \<and> (\<forall>va'<MAXVA. walkaddr p va' s = Done (user_page (mem s) p va') s
       \<and> walkaddr p va' t = Done (if within 8192 0x1000 va'
        then 0x80100000 + (PGROUNDDOWN va' - 0x1000) else user_page (mem s) p va') t) \<or> r = -1 \<and> ys = []"
    by blast
  have r: "r = 0" using t(2,3) s(3) by auto
  have "PGROUNDDOWN 0x2008 = 0x2000" by (simp add: PGROUNDDOWN_mod)
  moreover have "within 8192 0x1000 0x2008" by (simp add: within_def)
  moreover have "(0x2008 :: addr) < MAXVA" by simp
  moreover have "user_page (mem s) p 0x2008 = 0" using s(2) by (simp add: user_page_def)
  ultimately have "walkaddr p 0x2008 s = Done 0 s" "walkaddr p 0x2008 t = Done 0x80101000 t"
    using t(3) r by auto
  with t(1) r show ?thesis by blast
qed

end
