(* ===== verification/Xv6_Copy.thy ===== *)
theory Xv6_Copy
  imports Xv6_Uvm
begin

text \<open>
  Copying between kernel and user memory (\<open>copyout\<close>, \<open>copyin\<close>, \<open>copyinstr\<close> of \<open>vm.c\<close>), stated
  over the bytes a process sees at its virtual addresses.
\<close>

section \<open>User memory\<close>

text \<open>
  \<open>user_byte\<close>: the byte at a user address, if it is mapped for the user. \<open>uvm_ok\<close>: the user pages
  are pages of memory, each mapped once and none of them part of the page table.
\<close>

definition user_byte :: "memory \<Rightarrow> addr \<Rightarrow> addr \<Rightarrow> byte option" where
  "user_byte m p va = (let q = user_page m p va in
     if q = 0 then None else Some (m (q + (va - PGROUNDDOWN va))))"

definition uvm_ok :: "memory \<Rightarrow> addr \<Rightarrow> bool" where
  "uvm_ok m p \<longleftrightarrow> pt_wf m 2 p
     \<and> (\<forall>va. user_page m p va \<noteq> 0 \<longrightarrow> ram_page (user_page m p va) \<and> user_page m p va \<notin> pt_pages m 2 p)
     \<and> (\<forall>va va'. user_page m p va \<noteq> 0 \<longrightarrow> user_page m p va = user_page m p va' \<longrightarrow>
          PGROUNDDOWN va = PGROUNDDOWN va')"

lemma uvm_ok_wf: "uvm_ok m p \<Longrightarrow> pt_wf m 2 p"
  unfolding uvm_ok_def by blast

lemma uvm_ok_page:
  "uvm_ok m p \<Longrightarrow> user_page m p va \<noteq> 0 \<Longrightarrow> ram_page (user_page m p va)"
  "uvm_ok m p \<Longrightarrow> user_page m p va \<noteq> 0 \<Longrightarrow> user_page m p va \<notin> pt_pages m 2 p"
  unfolding uvm_ok_def by blast+

lemma uvm_ok_inj:
  "uvm_ok m p \<Longrightarrow> user_page m p va \<noteq> 0 \<Longrightarrow> user_page m p va = user_page m p va' \<Longrightarrow>
   PGROUNDDOWN va = PGROUNDDOWN va'"
  unfolding uvm_ok_def by blast

lemma user_page_cong: "leaf m' va 2 p = leaf m va 2 p \<Longrightarrow> user_page m' p va = user_page m p va"
  by (simp add: user_page_def)

lemma PGROUNDDOWN_less: "PGROUNDDOWN va \<ge> MAXVA \<longleftrightarrow> va \<ge> MAXVA"
  by (simp add: word_le_nat_alt unat_PGROUNDDOWN) linarith

lemma user_page_base:
  assumes "PGROUNDDOWN va = PGROUNDDOWN va'" shows "user_page m p va = user_page m p va'"
proof (cases "va \<ge> MAXVA")
  case True
  then show ?thesis using assms PGROUNDDOWN_less [of va] PGROUNDDOWN_less [of va']
    by (simp add: user_page_def)
next
  case False
  then have v: "va < MAXVA" "va' < MAXVA"
    using assms PGROUNDDOWN_less [of va] PGROUNDDOWN_less [of va'] by auto
  then have "same_slot 2 va va'" using assms same_slot_page by blast
  then have "px k va = px k va'" if "k \<le> 2" for k using that by (simp add: same_slot_def)
  then have "leaf m va 2 p = leaf m va' 2 p" by (simp add: numeral_2_eq_2 Let_def)
  then show ?thesis using v by (auto simp: user_page_def)
qed

lemma unat_page_offset: "unat (va - PGROUNDDOWN va) = unat va mod 4096"
proof -
  have "va - PGROUNDDOWN va = va mod 4096" by (simp add: PGROUNDDOWN_mod)
  then show ?thesis by (simp add: unat_mod_distrib)
qed

lemma page_offset_in_page:
  assumes "ram_page q" shows "in_page q (q + (va - PGROUNDDOWN va))"
  by (simp add: within_def unat_page_offset)

text \<open>A write into one user page is seen at the addresses of that page only.\<close>

lemma uvm_write:
  assumes ok: "uvm_ok m p" and q: "q = user_page m p va0" "q \<noteq> 0"
    and out: "\<And>y. \<not> in_page q y \<Longrightarrow> m' y = m y"
  shows "uvm_ok m' p" "user_page m' p = user_page m p" "pt_pages m' 2 p = pt_pages m 2 p"
    "user_byte m' p va = (if PGROUNDDOWN va = PGROUNDDOWN va0
       then Some (m' (q + (va - PGROUNDDOWN va))) else user_byte m p va)"
proof -
  have wf: "pt_wf m 2 p" and rq: "ram_page q" "q \<notin> pt_pages m 2 p"
    using uvm_ok_wf [OF ok] uvm_ok_page [OF ok] q by simp_all
  have keep: "m' y = m y" if "x \<in> pt_pages m 2 p" "in_page x y" for x y
    using ram_pages_disjoint [OF pt_pages_ram [OF wf that(1)] rq(1) _ that(2)] rq(2) that(1)
    by (intro out) auto
  have fr1: "pt_pages m' 2 p = pt_pages m 2 p" by (rule pt_frame(1) [OF wf], rule keep)
  have fr2: "pt_wf m' 2 p" by (rule pt_frame(2) [OF wf], rule keep)
  have fr3: "leaf m' v 2 p = leaf m v 2 p" for v by (rule pt_frame(3) [OF wf], rule keep)
  have up: "user_page m' p v = user_page m p v" for v by (intro user_page_cong fr3)
  then show "user_page m' p = user_page m p" by (simp add: fun_eq_iff)
  show "pt_pages m' 2 p = pt_pages m 2 p" by (rule fr1)
  show "uvm_ok m' p" using ok fr2 unfolding uvm_ok_def up fr1 by blast
  show "user_byte m' p va = (if PGROUNDDOWN va = PGROUNDDOWN va0
       then Some (m' (q + (va - PGROUNDDOWN va))) else user_byte m p va)"
  proof (cases "PGROUNDDOWN va = PGROUNDDOWN va0 \<or> user_page m p va = 0")
    case True
    then show ?thesis using user_page_base [of va va0 m p] q by (auto simp: user_byte_def up Let_def)
  next
    case False
    let ?r = "user_page m p va"
    have "ram_page ?r" "?r \<noteq> q" using uvm_ok_page(1) [OF ok] uvm_ok_inj [OF ok, of va va0] False q(1) by auto
    then have "\<not> in_page q (?r + (va - PGROUNDDOWN va))"
      using ram_pages_disjoint [OF _ rq(1) _ page_offset_in_page] by blast
    with False show ?thesis by (simp add: user_byte_def up Let_def out)
  qed
qed

section \<open>One chunk\<close>

lemma unat_chunk: "unat (chunk va len) = min (4096 - unat va mod 4096) (unat len)"
proof -
  let ?o = "va - PGROUNDDOWN va"
  have "unat ?o < 4096" by (simp add: unat_page_offset)
  then have "unat (4096 - ?o) = 4096 - unat va mod 4096"
    by (simp add: unat_sub word_le_nat_alt unat_page_offset [symmetric])
  then show ?thesis by (simp add: chunk_def min_def word_le_nat_alt)
qed

lemma within_chunk_page:
  assumes "within n va x" "n \<le> 4096 - unat va mod 4096" shows "PGROUNDDOWN x = PGROUNDDOWN va"
proof -
  have "unat (x - va) + unat (va - PGROUNDDOWN va) < 4096"
    using assms by (simp add: within_def unat_page_offset)
  moreover have "x - PGROUNDDOWN va = (x - va) + (va - PGROUNDDOWN va)" by simp
  ultimately have "unat (x - PGROUNDDOWN va) < 4096"
    using unat_add_lem [of "x - va" "va - PGROUNDDOWN va"] by simp
  then have "in_page (PGROUNDDOWN va) x" by (simp add: within_def)
  then show ?thesis using in_page_base by simp
qed

lemma within_add:
  assumes "n + k \<le> 2 ^ 64"
  shows "within (n + k) a x \<longleftrightarrow> within n a x \<or> within k (a + of_nat n) x"
    and "within k (a + of_nat n) x \<Longrightarrow> 0 < n \<Longrightarrow> \<not> within n a x \<and> unat (x - a) = n + unat (x - (a + of_nat n))"
proof -
  let ?d = "x - a"
  have eq: "x - (a + of_nat n) = ?d - of_nat n" by (simp add: diff_diff_eq)
  have d: "unat ?d < 2 ^ 64" using unsigned_less [of ?d, where ?'a = nat] by simp
  have un: "unat (of_nat n :: addr) = n" if "n < 2 ^ 64" using that by (rule unat_of_nat_small)
  have sub: "unat (?d - of_nat n) = (if n \<le> unat ?d then unat ?d - n else unat ?d + 2 ^ 64 - n)" if "n < 2 ^ 64"
    using unat_sub_if' [of ?d "of_nat n"] un [OF that] by simp
  consider "n < 2 ^ 64" | "n = 2 ^ 64" "k = 0" using assms by linarith
  note c = this
  show "within (n + k) a x \<longleftrightarrow> within n a x \<or> within k (a + of_nat n) x"
    using c
  proof cases
    case 1
    then show ?thesis unfolding within_def eq sub [OF 1] using assms d by auto
  qed simp
  show "\<not> within n a x \<and> unat (x - a) = n + unat (x - (a + of_nat n))"
    if "within k (a + of_nat n) x" "0 < n"
    using c
  proof cases
    case 1
    then show ?thesis using that unfolding within_def eq sub [OF 1] using assms d by (auto split: if_splits)
  next
    case 2
    then show ?thesis using that(1) by simp
  qed
qed

lemma copyout_chunk:
  assumes ok: "uvm_ok m p" and q: "q = user_page m p va" "q \<noteq> 0" and n: "n \<le> 4096 - unat va mod 4096"
    and m': "m' = blit m (q + (va - PGROUNDDOWN va)) n f"
  shows "uvm_ok m' p" "user_page m' p = user_page m p" "pt_pages m' 2 p = pt_pages m 2 p"
    "\<And>x. user_byte m' p x = (if within n va x then Some (f (unat (x - va))) else user_byte m p x)"
    "\<And>y. \<not> in_page q y \<Longrightarrow> m' y = m y"
proof -
  let ?o = "va - PGROUNDDOWN va"
  have rq: "ram_page q" using uvm_ok_page(1) [OF ok] q by simp
  show out: "m' y = m y" if "\<not> in_page q y" for y
  proof -
    have "unat ?o < 4096" "unat ?o + n \<le> 4096" "n \<le> 4096"
      using n mod_less_divisor [of 4096 "unat va"] by (auto simp: unat_page_offset simp del: mod_less_divisor)
    then have "\<not> within n (q + of_nat (unat ?o)) y"
      using within_field [of n q "unat ?o" y] that by blast
    then show ?thesis by (simp add: m' blit_def)
  qed
  note w = uvm_write [OF ok q out]
  show "uvm_ok m' p" "user_page m' p = user_page m p" "pt_pages m' 2 p = pt_pages m 2 p"
    by (rule w; assumption)+
  show "user_byte m' p x = (if within n va x then Some (f (unat (x - va))) else user_byte m p x)" for x
  proof (cases "PGROUNDDOWN x = PGROUNDDOWN va")
    case True
    have diff: "q + (x - PGROUNDDOWN x) - (q + ?o) = x - va" using True by simp
    have "user_byte m' p x = Some (m' (q + (x - PGROUNDDOWN x)))" using w(4) [of x] True by simp
    also have "m' (q + (x - PGROUNDDOWN x)) =
        (if within n va x then f (unat (x - va)) else m (q + (x - PGROUNDDOWN x)))"
      unfolding m' blit_def within_def diff by simp
    finally show ?thesis using user_page_base [OF True, of m p] q by (simp add: user_byte_def)
  next
    case False
    then show ?thesis using w(4) [of x] within_chunk_page [OF _ n] by auto
  qed
qed

section \<open>Whole copies\<close>

text \<open>
  \<open>user_same m0 m\<close>: \<open>m\<close> differs from \<open>m0\<close> at most inside the user pages of \<open>m0\<close>, and maps the same.
\<close>

definition user_same :: "addr \<Rightarrow> memory \<Rightarrow> memory \<Rightarrow> bool" where
  "user_same p m0 m \<longleftrightarrow> uvm_ok m p \<and> user_page m p = user_page m0 p \<and> pt_pages m 2 p = pt_pages m0 2 p
     \<and> (\<forall>y. (\<forall>va. user_page m0 p va \<noteq> 0 \<longrightarrow> \<not> in_page (user_page m0 p va) y) \<longrightarrow> m y = m0 y)"

lemma user_same_refl: "uvm_ok m p \<Longrightarrow> user_same p m m"
  by (simp add: user_same_def)

text \<open>The chunk that starts a copy and the rest of the range.\<close>

lemma chunk_rest:
  assumes "len > 0"
  shows "unat (len - chunk va len) < unat len" "unat (len - chunk va len) = unat len - unat (chunk va len)"
    "0 < unat (chunk va len)" "unat (chunk va len) \<le> unat len"
    "unat (chunk va len) < unat len \<Longrightarrow> PGROUNDDOWN va + 4096 = va + of_nat (unat (chunk va len))"
proof -
  let ?n = "unat (chunk va len)"
  have len: "0 < unat len" using assms by (simp add: word_less_nat_alt)
  have "unat va mod 4096 < 4096" by simp
  then show n: "0 < ?n" "?n \<le> unat len" using len by (simp_all add: unat_chunk)
  then show "unat (len - chunk va len) = unat len - ?n" by (simp add: unat_sub word_le_nat_alt)
  with n len show "unat (len - chunk va len) < unat len" by linarith
  assume "?n < unat len"
  then have "?n = 4096 - unat (va - PGROUNDDOWN va)" by (simp add: unat_chunk unat_page_offset)
  then have "?n + unat (va - PGROUNDDOWN va) = 4096"
    using unat_page_offset [of va] \<open>unat va mod 4096 < 4096\<close> by linarith
  then have "(of_nat ?n :: addr) + of_nat (unat (va - PGROUNDDOWN va)) = of_nat 4096"
    by (metis of_nat_add)
  then show "PGROUNDDOWN va + 4096 = va + of_nat ?n" by (simp add: algebra_simps)
qed

text \<open>A kernel source whose bytes are not in the user pages of the process.\<close>

definition kernel_source :: "addr \<Rightarrow> ('a kmem_scheme \<Rightarrow> nat \<Rightarrow> byte) \<Rightarrow> 'a kmem_scheme \<Rightarrow> bool" where
  "kernel_source p src s \<longleftrightarrow> (\<forall>m. user_same p (mem s) m \<longrightarrow> src (s\<lparr>mem := m\<rparr>) = src s)"

lemma copyout_step_eq:
  assumes "user_same p (mem s) m" "kernel_source p src s" "len > 0"
  shows "\<exists>m'. user_same p (mem s) m' \<and>
    (if user_page (mem s) p va = 0
     then copyout_step p src (va, off, len) (s\<lparr>mem := m\<rparr>) = Done (Inr (-1)) (s\<lparr>mem := m'\<rparr>) \<and> m' = m
     else copyout_step p src (va, off, len) (s\<lparr>mem := m\<rparr>) =
         Done (Inl (PGROUNDDOWN va + 4096, off + unat (chunk va len), len - chunk va len)) (s\<lparr>mem := m'\<rparr>)
       \<and> (\<forall>x. user_byte m' p x = (if within (unat (chunk va len)) va x
            then Some (src s (off + unat (x - va))) else user_byte m p x)))"
proof -
  have m: "uvm_ok m p" "user_page m p = user_page (mem s) p" using assms(1) by (simp_all add: user_same_def)
  let ?q = "user_page m p va"
  have wa: "walkaddr p (PGROUNDDOWN va) (s\<lparr>mem := m\<rparr>) = Done ?q (s\<lparr>mem := m\<rparr>)"
    using walkaddr_eq [of "s\<lparr>mem := m\<rparr>" p "PGROUNDDOWN va"] uvm_ok_wf [OF m(1)]
      user_page_base [of "PGROUNDDOWN va" va m p] by (simp add: PGROUNDDOWN_aligned)
  show ?thesis
  proof (cases "?q = 0")
    case True
    then show ?thesis using assms wa m(2) by (intro exI [of _ m]) (simp add: copyout_step_def Let_def ret_def)
  next
    case False
    let ?m = "blit m (?q + (va - PGROUNDDOWN va)) (unat (chunk va len)) (\<lambda>i. src s (off + i))"
    have src: "src (s\<lparr>mem := m\<rparr>) = src s" using assms(1,2) by (simp add: kernel_source_def)
    have n: "unat (chunk va len) \<le> 4096 - unat va mod 4096" by (simp add: unat_chunk)
    note c = copyout_chunk [OF m(1) refl False n refl, where f = "\<lambda>i. src s (off + i)"]
    have "user_same p (mem s) ?m"
      using assms(1) c m(2) False unfolding user_same_def by auto
    moreover have "copyout_step p src (va, off, len) (s\<lparr>mem := m\<rparr>) =
        Done (Inl (PGROUNDDOWN va + 4096, off + unat (chunk va len), len - chunk va len)) (s\<lparr>mem := ?m\<rparr>)"
      using False wa assms(3) src by (simp add: copyout_step_def Let_def ret_def modify_def)
    ultimately show ?thesis using c(4) False m(2) by (intro exI [of _ ?m]) simp
  qed
qed

lemma copyout_loop:
  assumes "kernel_source p src s" "user_same p (mem s) m"
  shows "\<exists>r m' k. loop (copyout_step p src) (va, off, len) (s\<lparr>mem := m\<rparr>) = Done r (s\<lparr>mem := m'\<rparr>)
    \<and> user_same p (mem s) m' \<and> k \<le> unat len
    \<and> (\<forall>x. user_byte m' p x = (if within k va x then Some (src s (off + unat (x - va))) else user_byte m p x))
    \<and> (if r = 0 then k = unat len \<and> (\<forall>x. within k va x \<longrightarrow> user_page (mem s) p x \<noteq> 0)
       else r = -1 \<and> k < unat len \<and> user_page (mem s) p (va + of_nat k) = 0)"
  using assms(2)
proof (induction "unat len" arbitrary: va off len m rule: less_induct)
  case less
  show ?case
  proof (cases "len > 0")
    case False
    then have "len = 0" by (simp add: word_gt_0)
    then have "loop (copyout_step p src) (va, off, len) (s\<lparr>mem := m\<rparr>) = Done 0 (s\<lparr>mem := m\<rparr>)"
      by (subst loop_unfold) (simp add: copyout_step_def ret_def)
    with less.prems \<open>len = 0\<close> show ?thesis by (intro exI [of _ 0] exI [of _ m] exI [of _ "0::nat"]) simp
  next
    case len: True
    let ?n = "unat (chunk va len)"
    obtain m1 where m1: "user_same p (mem s) m1" "if user_page (mem s) p va = 0
     then copyout_step p src (va, off, len) (s\<lparr>mem := m\<rparr>) = Done (Inr (-1)) (s\<lparr>mem := m1\<rparr>) \<and> m1 = m
     else copyout_step p src (va, off, len) (s\<lparr>mem := m\<rparr>) =
         Done (Inl (PGROUNDDOWN va + 4096, off + ?n, len - chunk va len)) (s\<lparr>mem := m1\<rparr>)
       \<and> (\<forall>x. user_byte m1 p x = (if within ?n va x
            then Some (src s (off + unat (x - va))) else user_byte m p x))"
      using copyout_step_eq [OF less.prems assms(1) len] by blast
    show ?thesis
    proof (cases "user_page (mem s) p va = 0")
      case True
      with m1 have "loop (copyout_step p src) (va, off, len) (s\<lparr>mem := m\<rparr>) = Done (-1) (s\<lparr>mem := m\<rparr>)"
        by (subst loop_unfold) simp
      with less.prems True len show ?thesis
        by (intro exI [of _ "-1"] exI [of _ m] exI [of _ "0::nat"]) (simp add: unat_gt_0)
    next
      case False
      let ?va = "PGROUNDDOWN va + 4096" and ?len = "len - chunk va len"
      note cr = chunk_rest [OF len, of va]
      obtain r m' k where k: "loop (copyout_step p src) (?va, off + ?n, ?len) (s\<lparr>mem := m1\<rparr>) = Done r (s\<lparr>mem := m'\<rparr>)"
        "user_same p (mem s) m'" "k \<le> unat ?len"
        "\<And>x. user_byte m' p x = (if within k ?va x then Some (src s (off + ?n + unat (x - ?va))) else user_byte m1 p x)"
        "if r = 0 then k = unat ?len \<and> (\<forall>x. within k ?va x \<longrightarrow> user_page (mem s) p x \<noteq> 0)
         else r = -1 \<and> k < unat ?len \<and> user_page (mem s) p (?va + of_nat k) = 0"
        using less.hyps [OF cr(1) m1(1), of ?va "off + ?n"] by blast
      have va: "k = 0 \<or> ?va = va + of_nat ?n" "r = 0 \<or> ?va = va + of_nat ?n"
        using cr(2,4,5) k(3,5) by (cases "?n < unat len"; auto split: if_splits)+
      have le: "?n + k \<le> unat len" using k(3) cr(2,4) by linarith
      then have b: "?n + k \<le> 2 ^ 64" using unsigned_less [of len, where ?'a = nat] by simp
      have st: "copyout_step p src (va, off, len) (s\<lparr>mem := m\<rparr>) = Done (Inl (?va, off + ?n, ?len)) (s\<lparr>mem := m1\<rparr>)"
        and ub: "\<And>x. user_byte m1 p x = (if within ?n va x then Some (src s (off + unat (x - va))) else user_byte m p x)"
        using m1(2) False by simp_all
      have "user_byte m' p x = (if within (?n + k) va x then Some (src s (off + unat (x - va))) else user_byte m p x)" for x
        using within_add [OF b, of va x] k(4) [of x] ub [of x] va(1) cr(3) by (auto simp: add.assoc)
      moreover have "user_page (mem s) p x \<noteq> 0" if "r = 0" "within (?n + k) va x" for x
        using within_add(1) [OF b, of va x] that k(5) va(1) False user_page_base [of x va "mem s" p]
          within_chunk_page [of ?n va x] by (auto simp: unat_chunk)
      ultimately show ?thesis using k(1,2,5) le va(2) st cr(2,4)
        by (subst loop_unfold, intro exI [of _ r] exI [of _ m'] exI [of _ "?n + k"]) (auto simp: add.assoc)
    qed
  qed
qed

subsection \<open>From user to kernel\<close>

text \<open>
  \<open>same_user p m0 m\<close>: \<open>m\<close> agrees with \<open>m0\<close> on the page table and on the user pages.
  \<open>kernel_dest\<close>: a destination that is neither part of a page table nor of a user page.
\<close>

definition same_user :: "addr \<Rightarrow> memory \<Rightarrow> memory \<Rightarrow> bool" where
  "same_user p m0 m \<longleftrightarrow> (\<forall>x y. (x \<in> pt_pages m0 2 p \<or> (\<exists>va. x = user_page m0 p va \<and> x \<noteq> 0)) \<longrightarrow>
     in_page x y \<longrightarrow> m y = m0 y)"

definition kernel_dest :: "addr \<Rightarrow> (nat \<Rightarrow> byte \<Rightarrow> 'a kmem_scheme \<Rightarrow> 'a kmem_scheme) \<Rightarrow> memory \<Rightarrow> bool" where
  "kernel_dest p dst m0 \<longleftrightarrow> (\<forall>i v t. same_user p m0 (mem t) \<longrightarrow> same_user p m0 (mem (dst i v t)))"

lemma same_user_refl [simp]: "same_user p m m"
  by (simp add: same_user_def)

lemma same_user_view:
  assumes "uvm_ok m0 p" "same_user p m0 m"
  shows "pt_wf m 2 p" "user_page m p va = user_page m0 p va" "user_byte m p va = user_byte m0 p va"
proof -
  have keep: "m y = m0 y" if "x \<in> pt_pages m0 2 p" "in_page x y" for x y
    using assms(2) that by (auto simp: same_user_def)
  show "pt_wf m 2 p" by (rule pt_frame(2) [OF uvm_ok_wf [OF assms(1)]], rule keep)
  have "leaf m va 2 p = leaf m0 va 2 p" by (rule pt_frame(3) [OF uvm_ok_wf [OF assms(1)]], rule keep)
  then show up: "user_page m p va = user_page m0 p va" by (rule user_page_cong)
  show "user_byte m p va = user_byte m0 p va"
  proof (cases "user_page m0 p va = 0")
    case False
    then have "m (user_page m0 p va + (va - PGROUNDDOWN va)) = m0 (user_page m0 p va + (va - PGROUNDDOWN va))"
      using assms(2) page_offset_in_page [OF uvm_ok_page(1) [OF assms(1) False], of va]
      unfolding same_user_def by blast
    then show ?thesis by (simp add: user_byte_def up Let_def)
  qed (simp add: user_byte_def up)
qed

text \<open>The bytes of a range, delivered to the destination one after the other.\<close>

definition deliver ::
  "(nat \<Rightarrow> byte \<Rightarrow> 's \<Rightarrow> 's) \<Rightarrow> nat \<Rightarrow> (nat \<Rightarrow> byte) \<Rightarrow> nat \<Rightarrow> 's \<Rightarrow> 's" where
  "deliver dst off f n s = fold (\<lambda>i. dst (off + i) (f i)) [0..<n] s"

lemma deliver_0 [simp]: "deliver dst off f 0 s = s"
  by (simp add: deliver_def)

lemma deliver_cong: "(\<And>i. i < n \<Longrightarrow> f i = g i) \<Longrightarrow> deliver dst off f n s = deliver dst off g n s"
  unfolding deliver_def by (rule fold_cong) auto

lemma deliver_add:
  "deliver dst off f (n + k) s = deliver dst (off + n) (\<lambda>i. f (n + i)) k (deliver dst off f n s)"
  unfolding deliver_def upt_add_eq_append [OF le0] fold_append
  using fold_map [of "\<lambda>i. dst (off + i) (f i)" "\<lambda>i. n + i" "[0..<k]"]
  by (simp add: map_add_upt add.commute [of n] comp_def add.assoc)

lemma same_user_deliver:
  "kernel_dest p dst m0 \<Longrightarrow> same_user p m0 (mem s) \<Longrightarrow> same_user p m0 (mem (deliver dst off f n s))"
  by (induction n) (simp_all add: deliver_def kernel_dest_def)

lemma user_byte_chunk:
  assumes "user_page m p va \<noteq> 0" "i < n" "n \<le> 4096 - unat va mod 4096"
  shows "user_byte m p (va + of_nat i) = Some (m (user_page m p va + (va - PGROUNDDOWN va) + of_nat i))"
proof -
  have "within n va (va + of_nat i)" using assms(2,3) by (simp add: within_def unat_of_nat_small)
  then have pg: "PGROUNDDOWN (va + of_nat i) = PGROUNDDOWN va" using assms(3) by (rule within_chunk_page)
  have "m (user_page m p va + (va - PGROUNDDOWN va) + of_nat i) =
      m (user_page m p va + (va + of_nat i - PGROUNDDOWN va))"
    by (rule arg_cong [where f = m]) (simp add: algebra_simps)
  then show ?thesis using user_page_base [OF pg, of m p] assms(1) pg by (simp add: user_byte_def)
qed

definition user_bytes :: "memory \<Rightarrow> addr \<Rightarrow> addr \<Rightarrow> nat \<Rightarrow> byte" where
  "user_bytes m p va i = the (user_byte m p (va + of_nat i))"

lemma user_bytes_shift: "user_bytes m p (va + of_nat n) i = user_bytes m p va (n + i)"
  by (simp add: user_bytes_def add.assoc)

lemma copyin_step_eq:
  assumes ok: "uvm_ok m0 p" and s: "same_user p m0 (mem s)" and len: "len > 0"
  shows "copyin_step p dst (va, off, len) s =
    (if user_page m0 p va = 0 then Done (Inr (-1)) s
     else Done (Inl (PGROUNDDOWN va + 4096, off + unat (chunk va len), len - chunk va len))
       (deliver dst off (user_bytes m0 p va) (unat (chunk va len)) s))"
proof -
  note v = same_user_view [OF ok s]
  have wa: "walkaddr p (PGROUNDDOWN va) s = Done (user_page m0 p va) s"
    using walkaddr_eq [OF v(1)] v(2) user_page_base [of "PGROUNDDOWN va" va m0 p] by (simp add: PGROUNDDOWN_aligned)
  show ?thesis
  proof (cases "user_page m0 p va = 0")
    case False
    have "Some (mem s (user_page m0 p va + (va - PGROUNDDOWN va) + of_nat i)) = user_byte m0 p (va + of_nat i)"
      if "i < unat (chunk va len)" for i
      using user_byte_chunk [of "mem s" p va i "unat (chunk va len)"] that False v(2,3) by (simp add: unat_chunk)
    then have "deliver dst off (\<lambda>i. mem s (user_page m0 p va + (va - PGROUNDDOWN va) + of_nat i)) (unat (chunk va len)) s
        = deliver dst off (user_bytes m0 p va) (unat (chunk va len)) s"
      by (intro deliver_cong) (metis user_bytes_def option.sel)
    with False wa len show ?thesis
      by (simp add: copyin_step_def Let_def ret_def modify_def deliver_def)
  qed (use wa len in \<open>simp add: copyin_step_def Let_def ret_def\<close>)
qed

lemma copyin_loop:
  assumes ok: "uvm_ok m0 p" and dst: "kernel_dest p dst m0" and s: "same_user p m0 (mem s)"
  shows "\<exists>r k. loop (copyin_step p dst) (va, off, len) s = Done r (deliver dst off (user_bytes m0 p va) k s)
    \<and> (if r = 0 then k = unat len \<and> (\<forall>x. within k va x \<longrightarrow> user_page m0 p x \<noteq> 0)
       else r = -1 \<and> k < unat len \<and> user_page m0 p (va + of_nat k) = 0)"
  using s
proof (induction "unat len" arbitrary: va off len s rule: less_induct)
  case less
  show ?case
  proof (cases "len > 0")
    case False
    then have "len = 0" by (simp add: word_gt_0)
    then have "loop (copyin_step p dst) (va, off, len) s = Done 0 s"
      by (subst loop_unfold) (simp add: copyin_step_def ret_def)
    with \<open>len = 0\<close> show ?thesis by (intro exI [of _ 0] exI [of _ "0::nat"]) simp
  next
    case len: True
    let ?n = "unat (chunk va len)"
    note st = copyin_step_eq [OF ok less.prems len, of dst va off]
    show ?thesis
    proof (cases "user_page m0 p va = 0")
      case True
      with st len show ?thesis
        by (subst loop_unfold) (intro exI [of _ "-1"] exI [of _ "0::nat"], simp add: unat_gt_0)
    next
      case False
      let ?va = "PGROUNDDOWN va + 4096" and ?len = "len - chunk va len"
      let ?s = "deliver dst off (user_bytes m0 p va) ?n s"
      note cr = chunk_rest [OF len, of va]
      obtain r k where k: "loop (copyin_step p dst) (?va, off + ?n, ?len) ?s =
          Done r (deliver dst (off + ?n) (user_bytes m0 p ?va) k ?s)"
        "if r = 0 then k = unat ?len \<and> (\<forall>x. within k ?va x \<longrightarrow> user_page m0 p x \<noteq> 0)
         else r = -1 \<and> k < unat ?len \<and> user_page m0 p (?va + of_nat k) = 0"
        using less.hyps [OF cr(1) same_user_deliver [OF dst less.prems], of ?va "off + ?n"] by blast
      have va: "k = 0 \<or> ?va = va + of_nat ?n" "r = 0 \<or> ?va = va + of_nat ?n"
        using cr(2,4,5) k(2) by (cases "?n < unat len"; auto split: if_splits)+
      have le: "?n + k \<le> unat len" using k(2) cr(2,4) by (auto split: if_splits)
      then have b: "?n + k \<le> 2 ^ 64" using unsigned_less [of len, where ?'a = nat] by simp
      have "user_bytes m0 p (va + of_nat ?n) = (\<lambda>i. user_bytes m0 p va (?n + i))"
        by (rule ext) (rule user_bytes_shift)
      then have "deliver dst (off + ?n) (user_bytes m0 p ?va) k ?s = deliver dst off (user_bytes m0 p va) (?n + k) s"
        using va(1) by (auto simp: deliver_add)
      moreover have "user_page m0 p x \<noteq> 0" if "r = 0" "within (?n + k) va x" for x
        using within_add(1) [OF b, of va x] that k(2) va(1) False user_page_base [of x va m0 p]
          within_chunk_page [of ?n va x] by (auto simp: unat_chunk)
      ultimately show ?thesis using k le va(2) st False cr(2,4)
        by (subst loop_unfold, intro exI [of _ r] exI [of _ "?n + k"]) (auto simp: add.assoc)
    qed
  qed
qed

subsection \<open>Strings\<close>

lemma deliver_Suc: "deliver dst off f (Suc n) s = deliver dst (Suc off) (\<lambda>i. f (Suc i)) n (dst off (f 0) s)"
  using deliver_add [of dst off f 1 n s] by (simp add: deliver_def)

text \<open>Where a string ends: the number of bytes up to and including the terminator, if it is among the first \<open>n\<close>.\<close>

primrec str_end :: "(nat \<Rightarrow> byte) \<Rightarrow> nat \<Rightarrow> nat option" where
  "str_end f 0 = None"
| "str_end f (Suc n) = (case str_end f n of Some k \<Rightarrow> Some k | None \<Rightarrow> if f n = 0 then Some (Suc n) else None)"

lemma str_end_None: "str_end f n = None \<longleftrightarrow> (\<forall>i<n. f i \<noteq> 0)"
  by (induction n) (auto split: option.splits simp: less_Suc_eq)

lemma str_end_Some: "str_end f n = Some k \<longleftrightarrow> 0 < k \<and> k \<le> n \<and> f (k - 1) = 0 \<and> (\<forall>i<k - 1. f i \<noteq> 0)"
proof (induction n)
  case (Suc n)
  then show ?case using str_end_None [of f n]
    by (auto split: option.splits simp: less_Suc_eq le_Suc_eq)
qed auto

lemma str_end_add:
  "str_end f (n + k) = (case str_end f n of Some j \<Rightarrow> Some j | None \<Rightarrow> map_option ((+) n) (str_end (\<lambda>i. f (n + i)) k))"
  by (induction k) (auto split: option.splits)

lemma str_end_Suc_left:
  "str_end f (Suc n) = (if f 0 = 0 then Some 1 else map_option Suc (str_end (\<lambda>i. f (Suc i)) n))"
  by (induction n) (auto split: option.splits)

lemma copyinstr_page_eq:
  assumes "\<And>i t. i < n \<Longrightarrow> I t \<Longrightarrow> mem t (a + of_nat i) = f i" "\<And>i v t. I t \<Longrightarrow> I (dst i v t)" "I s"
  shows "copyinstr_page n a dst off s = (case str_end f n of
     Some k \<Rightarrow> Done True (deliver dst off f k s) | None \<Rightarrow> Done False (deliver dst off f n s))"
  using assms
proof (induction n arbitrary: a off s f)
  case 0
  then show ?case by (simp add: ret_def)
next
  case (Suc n)
  have b: "mem s a = f 0" using Suc.prems(1) [of 0 s] Suc.prems(3) by simp
  have "mem t (a + 1 + of_nat i) = f (Suc i)" if "i < n" "I t" for i t
    using Suc.prems(1) [of "Suc i" t] that by (simp add: add.assoc)
  then have "copyinstr_page n (a + 1) dst (Suc off) (dst off (f 0) s) = (case str_end (\<lambda>i. f (Suc i)) n of
     Some k \<Rightarrow> Done True (deliver dst (Suc off) (\<lambda>i. f (Suc i)) k (dst off (f 0) s))
   | None \<Rightarrow> Done False (deliver dst (Suc off) (\<lambda>i. f (Suc i)) n (dst off (f 0) s)))"
    using Suc.prems(2,3) by (intro Suc.IH) auto
  then show ?case
    by (simp add: km_simps b str_end_Suc_left deliver_Suc del: str_end.simps(2) split: option.splits)
qed

lemma copyinstr_step_eq:
  assumes ok: "uvm_ok m0 p" and dst: "kernel_dest p dst m0" and s: "same_user p m0 (mem s)" and len: "len > 0"
  shows "copyinstr_step p dst (va, off, len) s =
    (if user_page m0 p va = 0 then Done (Inr (-1)) s
     else case str_end (user_bytes m0 p va) (unat (chunk va len)) of
       Some k \<Rightarrow> Done (Inr 0) (deliver dst off (user_bytes m0 p va) k s)
     | None \<Rightarrow> Done (Inl (PGROUNDDOWN va + 4096, off + unat (chunk va len), len - chunk va len))
         (deliver dst off (user_bytes m0 p va) (unat (chunk va len)) s))"
proof -
  note v = same_user_view [OF ok s]
  have wa: "walkaddr p (PGROUNDDOWN va) s = Done (user_page m0 p va) s"
    using walkaddr_eq [OF v(1)] v(2) user_page_base [of "PGROUNDDOWN va" va m0 p] by (simp add: PGROUNDDOWN_aligned)
  show ?thesis
  proof (cases "user_page m0 p va = 0")
    case False
    let ?a = "user_page m0 p va + (va - PGROUNDDOWN va)" and ?n = "unat (chunk va len)"
    have "mem t (?a + of_nat i) = user_bytes m0 p va i" if "i < ?n" "same_user p m0 (mem t)" for i t
      using user_byte_chunk [of "mem t" p va i ?n] that False same_user_view [OF ok that(2)]
      by (simp add: user_bytes_def unat_chunk)
    then have "copyinstr_page ?n ?a dst off s = (case str_end (user_bytes m0 p va) ?n of
        Some k \<Rightarrow> Done True (deliver dst off (user_bytes m0 p va) k s)
      | None \<Rightarrow> Done False (deliver dst off (user_bytes m0 p va) ?n s))"
      using dst s by (intro copyinstr_page_eq [where I = "\<lambda>t. same_user p m0 (mem t)"]) (auto simp: kernel_dest_def)
    with False wa len show ?thesis
      by (simp add: copyinstr_step_def Let_def ret_def bind_def split: option.splits)
  qed (use wa len in \<open>simp add: copyinstr_step_def Let_def ret_def\<close>)
qed

text \<open>
  The outcome of copying a string: the bytes up to the terminator when all of them are mapped
  and it comes within the limit, an error otherwise.
\<close>

lemma user_page_chunk:
  assumes "user_page m p va \<noteq> 0" "i < unat (chunk va len)" shows "user_page m p (va + of_nat i) \<noteq> 0"
  using user_byte_chunk [OF assms(1,2)] by (auto simp: unat_chunk user_byte_def Let_def split: if_splits)

definition copyinstr_result :: "memory \<Rightarrow> addr \<Rightarrow> addr \<Rightarrow> nat \<Rightarrow> int \<Rightarrow> nat \<Rightarrow> bool" where
  "copyinstr_result m p va len r k \<longleftrightarrow>
     (if r = 0 then str_end (user_bytes m p va) len = Some k \<and> (\<forall>i<k. user_page m p (va + of_nat i) \<noteq> 0)
      else r = -1 \<and> str_end (user_bytes m p va) k = None
        \<and> (k = len \<or> k < len \<and> user_page m p (va + of_nat k) = 0))"

lemma copyinstr_result_add:
  assumes "copyinstr_result m p (va + of_nat n) len r k" "str_end (user_bytes m p va) n = None"
    "\<And>i. i < n \<Longrightarrow> user_page m p (va + of_nat i) \<noteq> 0"
  shows "copyinstr_result m p va (n + len) r (n + k)"
proof -
  have sh: "user_bytes m p (va + of_nat n) = (\<lambda>i. user_bytes m p va (n + i))"
    by (rule ext) (rule user_bytes_shift)
  have end_k: "str_end (user_bytes m p va) (n + j) = map_option ((+) n) (str_end (user_bytes m p (va + of_nat n)) j)" for j
    using str_end_add [of "user_bytes m p va" n j] assms(2) sh by simp
  have "user_page m p (va + of_nat i) \<noteq> 0"
    if "i < n + k" "\<forall>i<k. user_page m p (va + of_nat n + of_nat i) \<noteq> 0" for i
    using that assms(3) [of i] spec [OF that(2), of "i - n"]
    by (cases "i < n") (auto simp: add.assoc of_nat_diff)
  then show ?thesis using assms(1) end_k unfolding copyinstr_result_def
    by (auto simp: add.assoc split: if_splits)
qed

lemma copyinstr_loop:
  assumes ok: "uvm_ok m0 p" and dst: "kernel_dest p dst m0" and s: "same_user p m0 (mem s)"
  shows "\<exists>r k. loop (copyinstr_step p dst) (va, off, len) s = Done r (deliver dst off (user_bytes m0 p va) k s)
    \<and> copyinstr_result m0 p va (unat len) r k"
  using s
proof (induction "unat len" arbitrary: va off len s rule: less_induct)
  case less
  show ?case
  proof (cases "len > 0")
    case False
    then have "len = 0" by (simp add: word_gt_0)
    then have "loop (copyinstr_step p dst) (va, off, len) s = Done (-1) s"
      by (subst loop_unfold) (simp add: copyinstr_step_def ret_def)
    with \<open>len = 0\<close> show ?thesis by (intro exI [of _ "-1"] exI [of _ "0::nat"]) (simp add: copyinstr_result_def)
  next
    case len: True
    let ?n = "unat (chunk va len)"
    note st = copyinstr_step_eq [OF ok dst less.prems len, of va off]
    note cr = chunk_rest [OF len, of va]
    consider "user_page m0 p va = 0" | k where "user_page m0 p va \<noteq> 0" "str_end (user_bytes m0 p va) ?n = Some k"
      | "user_page m0 p va \<noteq> 0" "str_end (user_bytes m0 p va) ?n = None"
      by (cases "str_end (user_bytes m0 p va) ?n") auto
    then show ?thesis
    proof cases
      case 1
      have "0 < unat len" using len by (simp add: word_less_nat_alt)
      with st 1 show ?thesis
        by (subst loop_unfold) (intro exI [of _ "-1"] exI [of _ "0::nat"], simp add: copyinstr_result_def)
    next
      case (2 k)
      have "str_end (user_bytes m0 p va) (unat len) = Some k"
        using str_end_add [of "user_bytes m0 p va" ?n "unat len - ?n"] 2(2) cr(4) by simp
      moreover have "k \<le> ?n" using 2(2) by (simp add: str_end_Some)
      ultimately have "copyinstr_result m0 p va (unat len) 0 k"
        using user_page_chunk [OF 2(1), of _ len] by (simp add: copyinstr_result_def)
      with st 2 show ?thesis by (subst loop_unfold) (intro exI [of _ "0"] exI [of _ k], simp)
    next
      case 3
      let ?va = "PGROUNDDOWN va + 4096" and ?len = "len - chunk va len"
      let ?s = "deliver dst off (user_bytes m0 p va) ?n s"
      obtain r k where k: "loop (copyinstr_step p dst) (?va, off + ?n, ?len) ?s =
          Done r (deliver dst (off + ?n) (user_bytes m0 p ?va) k ?s)" "copyinstr_result m0 p ?va (unat ?len) r k"
        using less.hyps [OF cr(1) same_user_deliver [OF dst less.prems], of ?va "off + ?n"] by blast
      have lp: "loop (copyinstr_step p dst) (va, off, len) s = Done r (deliver dst (off + ?n) (user_bytes m0 p ?va) k ?s)"
        using st 3 k(1) by (subst loop_unfold) simp
      have eq: "unat len = ?n + unat ?len" using cr(2,4) by simp
      show ?thesis
      proof (cases "?n = unat len")
        case True
        then have "unat ?len = 0" using cr(2) by simp
        with k(2) have "r = -1" "k = 0" by (auto simp: copyinstr_result_def split: if_splits)
        with lp True 3(2) show ?thesis
          by (intro exI [of _ "-1"] exI [of _ "?n"]) (simp add: copyinstr_result_def)
      next
        case False
        then have va: "?va = va + of_nat ?n" using cr(4,5) by simp
        have sh: "user_bytes m0 p ?va = (\<lambda>i. user_bytes m0 p va (?n + i))"
          unfolding va by (rule ext) (rule user_bytes_shift)
        have "copyinstr_result m0 p va (?n + unat ?len) r (?n + k)"
          using user_page_chunk [OF 3(1)] k(2) unfolding va by (intro copyinstr_result_add 3(2)) auto
        then show ?thesis using lp sh eq
          by (intro exI [of _ r] exI [of _ "?n + k"]) (simp add: deliver_add)
      qed
    qed
  qed
qed

section \<open>A small address space\<close>

text \<open>
  Three table pages that map the page at virtual address 0 for the user; it instantiates the
  properties below.
\<close>

definition demo_mem :: memory where
  "demo_mem = store64 (store64 (store64 (\<lambda>_. 0)
     (entry_at 0x80100000 0) (PA2PTE 0x80101000 OR 0 OR PTE_V))
     (entry_at 0x80101000 0) (PA2PTE 0x80102000 OR 0 OR PTE_V))
     (entry_at 0x80102000 0) (PA2PTE 0x80103000 OR 0x1E OR PTE_V)"

definition demo_kmem :: kmem where
  "demo_kmem = boot_kmem\<lparr>mem := demo_mem\<rparr>"

lemma demo_ram [simp]:
  "ram_page 0x80100000" "ram_page 0x80101000" "ram_page 0x80102000" "ram_page 0x80103000"
  by (simp_all add: ram_page_def page_aligned_def)

lemma entry_store_page:
  "ram_page p \<Longrightarrow> ram_page q \<Longrightarrow> p \<noteq> q \<Longrightarrow> i < 512 \<Longrightarrow> j < 512 \<Longrightarrow>
   entry (store64 m (entry_at p i) v) q j = entry m q j"
  using ram_pages_disjoint [of q p] store_entry_other [of p i]
  by (intro entry_cong) auto

lemma entry_zero [simp]: "entry (\<lambda>_. 0) p i = 0"
  by (simp add: entry_def)

lemma demo_entries:
  assumes "i < 512"
  shows "entry demo_mem 0x80100000 i = (if i = 0 then PA2PTE 0x80101000 OR 0 OR PTE_V else 0)"
    "entry demo_mem 0x80101000 i = (if i = 0 then PA2PTE 0x80102000 OR 0 OR PTE_V else 0)"
    "entry demo_mem 0x80102000 i = (if i = 0 then PA2PTE 0x80103000 OR 0x1E OR PTE_V else 0)"
  unfolding demo_mem_def using assms by (simp_all add: entry_store entry_store_page)

lemma demo_ptes:
  "PTE2PA (PA2PTE 0x80101000 OR 0 OR PTE_V) = 0x80101000" "valid_pte (PA2PTE 0x80101000 OR 0 OR PTE_V)"
  "PTE2PA (PA2PTE 0x80102000 OR 0 OR PTE_V) = 0x80102000" "valid_pte (PA2PTE 0x80102000 OR 0 OR PTE_V)"
  "PTE2PA (PA2PTE 0x80103000 OR 0x1E OR PTE_V) = 0x80103000" "valid_pte (PA2PTE 0x80103000 OR 0x1E OR PTE_V)"
  by (rule pte_encode; simp add: page_aligned_def)+

lemma demo_children:
  "{i. i < 512 \<and> valid_pte (entry demo_mem 0x80100000 i)} = {0}"
  "{i. i < 512 \<and> valid_pte (entry demo_mem 0x80101000 i)} = {0}"
  using demo_ptes(2,4) by (auto simp: demo_entries split: if_splits)

lemma demo_pages:
  "pt_pages demo_mem 1 0x80101000 = {0x80101000, 0x80102000}"
  "pt_pages demo_mem 2 0x80100000 = {0x80100000, 0x80101000, 0x80102000}"
  unfolding numeral_2_eq_2 One_nat_def pt_pages.simps demo_children
  using demo_ptes(1,3) by (simp_all add: demo_entries pt_pages.simps(2) demo_children)

lemma demo_wf: "pt_wf demo_mem 2 0x80100000"
proof -
  have "pt_wf demo_mem 1 0x80101000"
    using demo_ptes(3,4) by (auto simp: demo_entries split: if_splits)
  with demo_pages(1) show ?thesis
    using demo_ptes(1,2) unfolding numeral_2_eq_2 One_nat_def pt_wf.simps(2) [of _ "Suc 0"]
    by (auto simp: demo_entries simp del: pt_wf.simps pt_pages.simps split: if_splits)
qed

lemma demo_leaf:
  "leaf demo_mem va 2 0x80100000 =
     (if px 2 va = 0 \<and> px 1 va = 0 \<and> px 0 va = 0 then PA2PTE 0x80103000 OR 0x1E OR PTE_V else 0)"
  unfolding numeral_2_eq_2 One_nat_def
  using demo_ptes px_less by (simp add: demo_entries Let_def)

lemma demo_user_page:
  "user_page demo_mem 0x80100000 va = (if va < MAXVA \<and> in_page 0 va then 0x80103000 else 0)"
proof (cases "va < MAXVA")
  case True
  have "px k 0 = 0" for k by (simp add: px_div)
  then have "(px 2 va = 0 \<and> px 1 va = 0 \<and> px 0 va = 0) = same_slot 2 0 va"
    by (auto simp: same_slot_def numeral_2_eq_2 le_Suc_eq)
  also have "\<dots> = in_page 0 va"
    using True by (intro same_slot_in_page) (simp_all add: page_aligned_def)
  finally show ?thesis using True demo_ptes(5,6) pte_user_bit [of "0x80103000" "0x1E"]
    by (auto simp: user_page_def demo_leaf Let_def)
qed (auto simp: user_page_def)

lemma demo_uvm_ok: "uvm_ok (mem demo_kmem) 0x80100000"
  using demo_wf demo_pages(2) in_page_base [of 0]
  by (auto simp: uvm_ok_def demo_kmem_def demo_user_page page_aligned_def split: if_splits)

section \<open>Properties\<close>

text \<open>
  C12. \<open>copyout\<close> returns 0 exactly when every page of the range is mapped for the user, and then
  the process sees the kernel's bytes at the range and everything else as before; otherwise it
  returns -1. Nothing outside the user pages of the process changes.
\<close>

theorem copyout_user_bytes:
  assumes "uvm_ok (mem s) p" "kernel_source p src s"
  shows "\<exists>r m'. copyout p va src len s = Done r (s\<lparr>mem := m'\<rparr>) \<and> user_same p (mem s) m'
    \<and> (if r = 0 then (\<forall>x. within (unat len) va x \<longrightarrow> user_page (mem s) p x \<noteq> 0)
         \<and> (\<forall>x. user_byte m' p x = (if within (unat len) va x then Some (src s (unat (x - va)))
                                   else user_byte (mem s) p x))
       else r = -1 \<and> (\<exists>k<unat len. user_page (mem s) p (va + of_nat k) = 0))"
proof -
  obtain r m' k where "loop (copyout_step p src) (va, 0, len) (s\<lparr>mem := mem s\<rparr>) = Done r (s\<lparr>mem := m'\<rparr>)"
    "user_same p (mem s) m'" "k \<le> unat len"
    "\<And>x. user_byte m' p x = (if within k va x then Some (src s (0 + unat (x - va))) else user_byte (mem s) p x)"
    "if r = 0 then k = unat len \<and> (\<forall>x. within k va x \<longrightarrow> user_page (mem s) p x \<noteq> 0)
       else r = -1 \<and> k < unat len \<and> user_page (mem s) p (va + of_nat k) = 0"
    using copyout_loop [OF assms(2) user_same_refl [OF assms(1)], of va 0 len] by blast
  then show ?thesis
    by (intro exI [of _ r] exI [of _ m']) (auto simp: copyout_def split: if_splits)
qed

theorem copyout_user_bytes_witness:
  "\<exists>r m'. copyout 0x80100000 4 (\<lambda>_ i. of_nat i) 2 demo_kmem = Done r (demo_kmem\<lparr>mem := m'\<rparr>)
     \<and> r = 0 \<and> user_byte m' 0x80100000 5 = Some 1"
proof -
  have "kernel_source 0x80100000 (\<lambda>_ i. of_nat i) demo_kmem" by (simp add: kernel_source_def)
  from copyout_user_bytes [OF demo_uvm_ok this, of 4 2]
  obtain r m' where c: "copyout 0x80100000 4 (\<lambda>_ i. of_nat i) 2 demo_kmem = Done r (demo_kmem\<lparr>mem := m'\<rparr>)"
    "if r = 0 then (\<forall>x. within (unat (2 :: addr)) 4 x \<longrightarrow> user_page (mem demo_kmem) 0x80100000 x \<noteq> 0)
        \<and> (\<forall>x. user_byte m' 0x80100000 x = (if within (unat (2 :: addr)) 4 x then Some (of_nat (unat (x - 4)))
            else user_byte (mem demo_kmem) 0x80100000 x))
     else r = -1 \<and> (\<exists>k<unat (2 :: addr). user_page (mem demo_kmem) 0x80100000 (4 + of_nat k) = 0)" by blast
  have "user_page (mem demo_kmem) 0x80100000 (4 + of_nat k) \<noteq> 0" if "k < 2" for k
    using that by (auto simp: demo_kmem_def demo_user_page less_2_cases_iff within_def)
  with c have "r = 0" "user_byte m' 0x80100000 5 = Some 1" by (auto simp: within_def split: if_splits)
  with c(1) show ?thesis by blast
qed

text \<open>
  C13. \<open>copyin\<close> delivers the bytes the process sees at the range, in order, and returns 0 exactly
  when all of them are mapped for the user.
\<close>

theorem copyin_user_bytes:
  assumes "uvm_ok (mem s) p" "kernel_dest p dst (mem s)"
  shows "\<exists>r k. copyin p dst va len s = Done r (deliver dst 0 (user_bytes (mem s) p va) k s)
    \<and> (if r = 0 then k = unat len \<and> (\<forall>x. within k va x \<longrightarrow> user_page (mem s) p x \<noteq> 0)
       else r = -1 \<and> k < unat len \<and> user_page (mem s) p (va + of_nat k) = 0)"
  unfolding copyin_def by (rule copyin_loop [OF assms same_user_refl])

text \<open>A kernel buffer below the page tables of the example.\<close>

lemma demo_kernel_dest: "kernel_dest 0x80100000 (\<lambda>_ v s. s\<lparr>freelist := ucast v\<rparr>) (mem demo_kmem)"
  by (simp add: kernel_dest_def)

theorem copyin_user_bytes_witness:
  "\<exists>r k. copyin 0x80100000 (\<lambda>_ v s. s\<lparr>freelist := ucast v\<rparr>) 4094 4 demo_kmem =
       Done r (deliver (\<lambda>_ v s. s\<lparr>freelist := ucast v\<rparr>) 0 (user_bytes (mem demo_kmem) 0x80100000 4094) k demo_kmem)
     \<and> r = -1 \<and> k < 4"
proof -
  have "user_page (mem demo_kmem) 0x80100000 4096 = 0" "within 4 4094 (4096 :: addr)"
    by (simp_all add: demo_kmem_def demo_user_page within_def)
  then show ?thesis
    using copyin_user_bytes [OF demo_uvm_ok demo_kernel_dest, of 4094 4] by (auto split: if_splits)
qed

text \<open>
  C14. \<open>copyinstr\<close> delivers a string up to and including its terminator and returns 0 exactly when
  the terminator is among the first \<open>max\<close> bytes and the bytes before it are mapped.
\<close>

theorem copyinstr_string:
  assumes "uvm_ok (mem s) p" "kernel_dest p dst (mem s)"
  shows "\<exists>r k. copyinstr p dst va len s = Done r (deliver dst 0 (user_bytes (mem s) p va) k s)
    \<and> (if r = 0 then str_end (user_bytes (mem s) p va) (unat len) = Some k
         \<and> (\<forall>i<k. user_page (mem s) p (va + of_nat i) \<noteq> 0)
       else r = -1 \<and> str_end (user_bytes (mem s) p va) k = None
         \<and> (k = unat len \<or> k < unat len \<and> user_page (mem s) p (va + of_nat k) = 0))"
  unfolding copyinstr_def
  using copyinstr_loop [OF assms same_user_refl, of va 0 len] unfolding copyinstr_result_def .

theorem copyinstr_string_witness:
  "\<exists>r k. copyinstr 0x80100000 (\<lambda>_ v s. s\<lparr>freelist := ucast v\<rparr>) 0 16 demo_kmem =
       Done r (deliver (\<lambda>_ v s. s\<lparr>freelist := ucast v\<rparr>) 0 (user_bytes (mem demo_kmem) 0x80100000 0) k demo_kmem)
     \<and> (r = 0 \<or> r = -1)"
  using copyinstr_string [OF demo_uvm_ok demo_kernel_dest, of 0 16] by (auto split: if_splits)

end
