(* ===== verification/Xv6_Proc.thy ===== *)
theory Xv6_Proc
  imports Xv6_Copy
begin

text \<open>
  Processes (\<open>proc.c\<close>): the process table, allocation and release of its entries, the scheduler
  and the context switch, sleeping and waking, waiting for children, killing. \<open>fork\<close>, \<open>exit\<close> and
  \<open>userinit\<close> also use the file system and are in the theory of system calls on processes.

  A context switch is split at \<open>swtch\<close>. What happens while a process is switched out, other
  processes, other harts and devices, is the function \<open>env\<close>, an argument of every function that
  may give up the CPU: it maps the state in which the process leaves to the state in which it comes
  back. Theorems quantify over it, or state what they need of it.
\<close>

type_synonym 's env = "'s \<Rightarrow> 's"

section \<open>Process table\<close>

datatype procstate = UNUSED | USED | SLEEPING | RUNNABLE | RUNNING | ZOMBIE

text \<open>
  A sleep channel is the address of a kernel object: one constructor for every object the kernel
  sleeps on. \<open>NoChan\<close> is the null pointer.
\<close>

datatype chan =
    NoChan | ChanProc nat | ChanTicks | ChanSleeplock lockid | ChanPipeRead addr | ChanPipeWrite addr
  | ChanLog | ChanConsR | ChanUartTxR | ChanDiskFree | ChanBuf nat

text \<open>Saved registers for kernel context switches; \<open>ctx_s\<close> is \<open>s0\<close> to \<open>s11\<close>.\<close>

record kcontext =
  ctx_ra :: addr
  ctx_sp :: addr
  ctx_s :: "nat \<Rightarrow> addr"

text \<open>
  \<open>struct proc\<close>. Its lock is \<open>ProcLock i\<close> for entry \<open>i\<close> of the table; pointers to processes, open
  files and inodes are indices into their tables, null is \<open>None\<close>. The trapframe is a page of
  memory, accessed at the offsets of \<open>struct trapframe\<close>.
\<close>

record proc =
  p_state :: procstate
  p_chan :: chan
  p_killed :: bool
  p_xstate :: int
  p_pid :: int
  p_parent :: "nat option"
  p_kstack :: addr
  p_sz :: addr
  p_pagetable :: addr
  p_trapframe :: addr
  p_context :: kcontext
  p_ofile :: "nat \<Rightarrow> nat option"
  p_cwd :: "nat option"
  p_name :: "nat \<Rightarrow> byte"
  p_trace_mask :: int

text \<open>
  The globals of \<open>proc.c\<close> and \<open>trap.c\<close>. \<open>kbuf\<close> holds the buffers on kernel stacks that are filled
  through a pointer, by the process whose stack it is. \<open>code_sym\<close> gives the addresses of code
  labels, which the linker chooses; nothing writes it.
\<close>

record procs = vm +
  proc :: "nat \<Rightarrow> proc"
  initproc :: "nat option"
  nextpid :: int
  first :: bool
  ticks :: uint
  kbuf :: "nat option \<Rightarrow> nat \<Rightarrow> byte"
  code_sym :: "string \<Rightarrow> addr"

definition upd_proc :: "nat \<Rightarrow> (proc \<Rightarrow> proc) \<Rightarrow> ('a procs_scheme, unit) km" where
  "upd_proc p f = modify (\<lambda>s. s\<lparr>proc := (proc s)(p := f (proc s p))\<rparr>)"

text \<open>The offsets of \<open>struct trapframe\<close>.\<close>

abbreviation (input) TF_kernel_satp :: addr where "TF_kernel_satp \<equiv> 0"
abbreviation (input) TF_kernel_sp :: addr where "TF_kernel_sp \<equiv> 8"
abbreviation (input) TF_kernel_trap :: addr where "TF_kernel_trap \<equiv> 16"
abbreviation (input) TF_epc :: addr where "TF_epc \<equiv> 24"
abbreviation (input) TF_kernel_hartid :: addr where "TF_kernel_hartid \<equiv> 32"
abbreviation (input) TF_sp :: addr where "TF_sp \<equiv> 48"
abbreviation (input) TF_a0 :: addr where "TF_a0 \<equiv> 112"
abbreviation (input) TF_a1 :: addr where "TF_a1 \<equiv> 120"
abbreviation (input) TF_a7 :: addr where "TF_a7 \<equiv> 168"
abbreviation (input) TF_size :: uint where "TF_size \<equiv> 288"

section \<open>Operations\<close>

definition procinit :: "('a procs_scheme, unit) km" where
  "procinit = block [
     initlock PidLock ''nextpid'',
     initlock WaitLock ''wait_lock'',
     for_each (\<lambda>p. block [
         initlock (ProcLock p) ''proc'',
         upd_proc p (\<lambda>q. q\<lparr>p_kstack := KSTACK p\<rparr>)]) [0..<NPROC]]"

definition myproc :: "('a machine_scheme, nat option) km" where
  "myproc =
     bind push_off (\<lambda>_.
     bind (gets (\<lambda>s. c_proc (cpus s (mycpu s)))) (\<lambda>p.
     bind pop_off (\<lambda>_.
     ret p)))"

text \<open>Dereferencing a pointer to a process.\<close>

definition deref :: "'p option \<Rightarrow> ('p \<Rightarrow> ('s, 'a) km) \<Rightarrow> ('s, 'a) km" where
  "deref p f = (case p of None \<Rightarrow> fault ''null pointer'' | Some i \<Rightarrow> f i)"

definition allocpid :: "('a procs_scheme, int) km" where
  "allocpid =
     bind (acquire PidLock) (\<lambda>_.
     bind (gets nextpid) (\<lambda>pid.
     bind (modify (\<lambda>s. s\<lparr>nextpid := int32 (nextpid s + 1)\<rparr>)) (\<lambda>_.
     bind (release PidLock) (\<lambda>_.
     ret pid))))"

definition proc_pagetable :: "nat \<Rightarrow> ('a procs_scheme, addr) km" where
  "proc_pagetable p =
     bind uvmcreate (\<lambda>pagetable.
     if pagetable = 0 then ret 0
     else bind (gets trampoline_sym) (\<lambda>trampoline.
       bind (mappages pagetable TRAMPOLINE PGSIZE trampoline (PTE_R OR PTE_X)) (\<lambda>r.
       if r < 0 then bind (uvmfree pagetable 0) (\<lambda>_. ret 0)
       else bind (gets (\<lambda>s. p_trapframe (proc s p))) (\<lambda>trapframe.
         bind (mappages pagetable TRAPFRAME PGSIZE trapframe (PTE_R OR PTE_W)) (\<lambda>r.
         if r < 0 then
           bind (uvmunmap pagetable TRAMPOLINE 1 False) (\<lambda>_.
           bind (uvmfree pagetable 0) (\<lambda>_. ret 0))
         else ret pagetable)))))"

definition proc_freepagetable :: "addr \<Rightarrow> addr \<Rightarrow> ('a procs_scheme, unit) km" where
  "proc_freepagetable pagetable sz = block [
     uvmunmap pagetable TRAMPOLINE 1 False,
     uvmunmap pagetable TRAPFRAME 1 False,
     uvmfree pagetable sz]"

definition freeproc :: "nat \<Rightarrow> ('a procs_scheme, unit) km" where
  "freeproc p = block [
     bind (gets (\<lambda>s. p_trapframe (proc s p))) (\<lambda>tf. only_if (tf \<noteq> 0) (kfree tf)),
     upd_proc p (\<lambda>q. q\<lparr>p_trapframe := 0\<rparr>),
     bind (gets (\<lambda>s. proc s p)) (\<lambda>q.
       only_if (p_pagetable q \<noteq> 0) (proc_freepagetable (p_pagetable q) (p_sz q))),
     upd_proc p (\<lambda>q. q\<lparr>p_pagetable := 0, p_sz := 0, p_pid := 0, p_parent := None,
       p_name := (p_name q)(0 := 0), p_chan := NoChan, p_killed := False, p_xstate := 0,
       p_state := UNUSED\<rparr>)]"

text \<open>The failure exit of \<open>allocproc\<close>.\<close>

definition allocproc_fail :: "nat \<Rightarrow> ('a procs_scheme, nat option) km" where
  "allocproc_fail p =
     bind (freeproc p) (\<lambda>_. bind (release (ProcLock p)) (\<lambda>_. ret None))"

definition allocproc_found :: "nat \<Rightarrow> ('a procs_scheme, nat option) km" where
  "allocproc_found p =
     bind allocpid (\<lambda>pid.
     bind (upd_proc p (\<lambda>q. q\<lparr>p_pid := pid, p_state := USED\<rparr>)) (\<lambda>_.
     bind kalloc (\<lambda>tf.
     bind (upd_proc p (\<lambda>q. q\<lparr>p_trapframe := tf\<rparr>)) (\<lambda>_.
     if tf = 0 then allocproc_fail p
     else bind (proc_pagetable p) (\<lambda>pt.
       bind (upd_proc p (\<lambda>q. q\<lparr>p_pagetable := pt\<rparr>)) (\<lambda>_.
       if pt = 0 then allocproc_fail p
       else bind (gets (\<lambda>s. code_sym s ''forkret'')) (\<lambda>forkret.
         bind (upd_proc p (\<lambda>q. q\<lparr>p_context :=
           \<lparr>ctx_ra = forkret, ctx_sp = p_kstack q + PGSIZE, ctx_s = (\<lambda>_. 0)\<rparr>\<rparr>)) (\<lambda>_.
         ret (Some p)))))))))"

text \<open>The search for an unused entry returns with the lock of the entry held.\<close>

definition allocproc_search :: "('a procs_scheme, nat option) km" where
  "allocproc_search =
     scan (\<lambda>p.
       bind (acquire (ProcLock p)) (\<lambda>_.
       bind (gets (\<lambda>s. p_state (proc s p))) (\<lambda>st.
       if st = UNUSED then ret (Some p)
       else bind (release (ProcLock p)) (\<lambda>_. ret None)))) [0..<NPROC]"

definition allocproc :: "('a procs_scheme, nat option) km" where
  "allocproc =
     bind allocproc_search (\<lambda>r. case r of None \<Rightarrow> ret None | Some p \<Rightarrow> allocproc_found p)"

text \<open>Sizes are 32-bit here, as in the source.\<close>

definition growproc :: "int \<Rightarrow> ('a procs_scheme, int) km" where
  "growproc n =
     bind myproc (\<lambda>mp. deref mp (\<lambda>p.
     bind (gets (\<lambda>s. p_pagetable (proc s p))) (\<lambda>pt.
     bind (gets (\<lambda>s. ucast (p_sz (proc s p)) :: uint)) (\<lambda>sz.
     if n > 0 then
       bind (uvmalloc pt (ucast sz) (ucast (sz + word_of_int n))) (\<lambda>r.
       if (ucast r :: uint) = 0 then ret (-1)
       else bind (upd_proc p (\<lambda>q. q\<lparr>p_sz := ucast (ucast r :: uint)\<rparr>)) (\<lambda>_. ret 0))
     else if n < 0 then
       bind (uvmdealloc pt (ucast sz) (ucast (sz + word_of_int n))) (\<lambda>r.
       bind (upd_proc p (\<lambda>q. q\<lparr>p_sz := ucast (ucast r :: uint)\<rparr>)) (\<lambda>_. ret 0))
     else bind (upd_proc p (\<lambda>q. q\<lparr>p_sz := ucast sz\<rparr>)) (\<lambda>_. ret 0)))))"

subsection \<open>Scheduling\<close>

text \<open>\<open>sched\<close> up to the switch; the result is the saved \<open>intena\<close>. And after the switch.\<close>

definition sched_enter :: "('a procs_scheme, bool) km" where
  "sched_enter =
     bind myproc (\<lambda>mp. deref mp (\<lambda>p.
     bind (block [
       bind (gets (holding (ProcLock p))) (\<lambda>h. panic_if (\<not> h) ''sched p->lock''),
       bind (gets (\<lambda>s. c_noff (cpus s (mycpu s)))) (\<lambda>n. panic_if (n \<noteq> 1) ''sched locks''),
       bind (gets (\<lambda>s. p_state (proc s p))) (\<lambda>st. panic_if (st = RUNNING) ''sched running''),
       bind (gets intr_get) (\<lambda>i. panic_if i ''sched interruptible'')]) (\<lambda>_.
     gets (\<lambda>s. c_intena (cpus s (mycpu s))))))"

definition sched_leave :: "bool \<Rightarrow> ('a machine_scheme, unit) km" where
  "sched_leave intena = cpu_update (\<lambda>c. c\<lparr>c_intena := intena\<rparr>)"

definition sched :: "'a procs_scheme env \<Rightarrow> ('a procs_scheme, unit) km" where
  "sched env =
     bind sched_enter (\<lambda>intena.
     bind (modify env) (\<lambda>_.
     sched_leave intena))"

text \<open>The statements of \<open>yield\<close> before the switch.\<close>

definition yield_enter :: "nat \<Rightarrow> ('a procs_scheme, unit) km list" where
  "yield_enter p = [
     acquire (ProcLock p),
     upd_proc p (\<lambda>q. q\<lparr>p_state := RUNNABLE\<rparr>)]"

definition yield :: "'a procs_scheme env \<Rightarrow> ('a procs_scheme, unit) km" where
  "yield env =
     bind myproc (\<lambda>mp. deref mp (\<lambda>p. block (yield_enter p @ [sched env, release (ProcLock p)])))"

text \<open>
  One visit of the scheduler to an entry of the table, split at the switch: \<open>scheduler_pick\<close>
  tells whether a process was chosen; \<open>scheduler_rest\<close> follows, after the switch back if there was one.
\<close>

definition scheduler_pick :: "nat \<Rightarrow> ('a procs_scheme, bool) km" where
  "scheduler_pick p =
     bind (acquire (ProcLock p)) (\<lambda>_.
     bind (gets (\<lambda>s. p_state (proc s p))) (\<lambda>st.
     if st = RUNNABLE then
       bind (upd_proc p (\<lambda>q. q\<lparr>p_state := RUNNING\<rparr>)) (\<lambda>_.
       bind (cpu_update (\<lambda>c. c\<lparr>c_proc := Some p\<rparr>)) (\<lambda>_. ret True))
     else ret False))"

definition scheduler_back :: "('a machine_scheme, unit) km" where
  "scheduler_back = cpu_update (\<lambda>c. c\<lparr>c_proc := None\<rparr>)"

definition scheduler_rest :: "bool \<Rightarrow> nat \<Rightarrow> ('a procs_scheme, unit) km" where
  "scheduler_rest picked p = block [
     only_if picked scheduler_back,
     release (ProcLock p)]"

definition scheduler_visit :: "'a procs_scheme env \<Rightarrow> nat \<Rightarrow> ('a procs_scheme, unit) km" where
  "scheduler_visit env p =
     bind (scheduler_pick p) (\<lambda>picked. block [
       only_if picked (modify env),
       scheduler_rest picked p])"

definition scheduler :: "'a procs_scheme env \<Rightarrow> ('a procs_scheme, unit) km" where
  "scheduler env =
     bind (cpu_update (\<lambda>c. c\<lparr>c_proc := None\<rparr>)) (\<lambda>_.
     loop (\<lambda>_. bind (block [intr_on, for_each (scheduler_visit env) [0..<NPROC]])
       (\<lambda>_. ret (Inl ()))) ())"

text \<open>
  \<open>sleep\<close> as its statements before and after the switch to the scheduler; other harts may run
  between any two of them.
\<close>

definition sleep_enter :: "chan \<Rightarrow> lockid \<Rightarrow> nat \<Rightarrow> ('a procs_scheme, unit) km list" where
  "sleep_enter chan lk p = [
     acquire (ProcLock p),
     release lk,
     upd_proc p (\<lambda>q. q\<lparr>p_chan := chan\<rparr>),
     upd_proc p (\<lambda>q. q\<lparr>p_state := SLEEPING\<rparr>)]"

definition sleep_leave :: "lockid \<Rightarrow> nat \<Rightarrow> ('a procs_scheme, unit) km list" where
  "sleep_leave lk p = [
     upd_proc p (\<lambda>q. q\<lparr>p_chan := NoChan\<rparr>),
     release (ProcLock p),
     acquire lk]"

definition sleep :: "'a procs_scheme env \<Rightarrow> chan \<Rightarrow> lockid \<Rightarrow> ('a procs_scheme, unit) km" where
  "sleep env chan lk =
     bind myproc (\<lambda>mp. deref mp (\<lambda>p. block (sleep_enter chan lk p @ sched env # sleep_leave lk p)))"

definition wakeup_one :: "chan \<Rightarrow> nat \<Rightarrow> ('a procs_scheme, unit) km" where
  "wakeup_one chan p =
     bind myproc (\<lambda>mp. only_if (mp \<noteq> Some p) (block [
       acquire (ProcLock p),
       bind (gets (\<lambda>s. proc s p)) (\<lambda>q.
         only_if (p_state q = SLEEPING \<and> p_chan q = chan) (upd_proc p (\<lambda>q. q\<lparr>p_state := RUNNABLE\<rparr>))),
       release (ProcLock p)]))"

text \<open>\<open>wakeup\<close> as the visits to the entries of the table.\<close>

definition wakeup_visits :: "chan \<Rightarrow> ('a procs_scheme, unit) km list" where
  "wakeup_visits chan = map (wakeup_one chan) [0..<NPROC]"

definition wakeup :: "chan \<Rightarrow> ('a procs_scheme, unit) km" where
  "wakeup chan = block (wakeup_visits chan)"

definition kill_one :: "int \<Rightarrow> nat \<Rightarrow> ('a procs_scheme, int option) km" where
  "kill_one pid p =
     bind (acquire (ProcLock p)) (\<lambda>_.
     bind (gets (\<lambda>s. proc s p)) (\<lambda>q.
     if p_pid q = pid then
       bind (block [
         upd_proc p (\<lambda>q. q\<lparr>p_killed := True\<rparr>),
         only_if (p_state q = SLEEPING) (upd_proc p (\<lambda>q. q\<lparr>p_state := RUNNABLE\<rparr>)),
         release (ProcLock p)]) (\<lambda>_. ret (Some 0))
     else bind (release (ProcLock p)) (\<lambda>_. ret None)))"

definition kill :: "int \<Rightarrow> ('a procs_scheme, int) km" where
  "kill pid =
     bind (scan (kill_one pid) [0..<NPROC]) (\<lambda>r.
     ret (case r of Some x \<Rightarrow> x | None \<Rightarrow> -1))"

subsection \<open>Waiting for children\<close>

definition chan_of_proc :: "nat option \<Rightarrow> chan" where
  "chan_of_proc p = (case p of None \<Rightarrow> NoChan | Some i \<Rightarrow> ChanProc i)"

definition reparent :: "nat \<Rightarrow> ('a procs_scheme, unit) km" where
  "reparent p =
     for_each (\<lambda>pp.
       bind (gets (\<lambda>s. (p_parent (proc s pp), initproc s))) (\<lambda>(parent, init).
       only_if (parent = Some p) (block [
         upd_proc pp (\<lambda>q. q\<lparr>p_parent := init\<rparr>),
         wakeup (chan_of_proc init)]))) [0..<NPROC]"

text \<open>The part of \<open>exit\<close> under \<open>wait_lock\<close>, up to the final switch.\<close>

definition exit_zombie :: "nat \<Rightarrow> int \<Rightarrow> ('a procs_scheme, unit) km" where
  "exit_zombie p status = block [
     acquire WaitLock,
     reparent p,
     bind (gets (\<lambda>s. p_parent (proc s p))) (\<lambda>parent. wakeup (chan_of_proc parent)),
     acquire (ProcLock p),
     upd_proc p (\<lambda>q. q\<lparr>p_xstate := status, p_state := ZOMBIE\<rparr>),
     release WaitLock]"

text \<open>The bytes of an \<open>int\<close> in memory.\<close>

definition int_bytes :: "int \<Rightarrow> nat \<Rightarrow> byte" where
  "int_bytes x i = ucast (drop_bit (8 * i) (word_of_int x :: 32 word))"

text \<open>
  One pass of \<open>wait\<close> over the table: \<open>Inr r\<close> when it returns \<open>r\<close> (both locks released), \<open>Inl k\<close>
  when it goes on, \<open>k\<close> being the flag \<open>havekids\<close>, cleared before the pass and set at each child.
\<close>

definition wait_child :: "addr \<Rightarrow> nat \<Rightarrow> nat \<Rightarrow> ('a procs_scheme, int option) km" where
  "wait_child addr p np =
     bind (acquire (ProcLock np)) (\<lambda>_.
     bind (gets (\<lambda>s. proc s np)) (\<lambda>q.
     if p_state q = ZOMBIE then
       bind (gets (\<lambda>s. p_pagetable (proc s p))) (\<lambda>pt.
       bind (if addr \<noteq> 0 then copyout pt addr (\<lambda>s. int_bytes (p_xstate (proc s np))) 4 else ret 0) (\<lambda>r.
       if r < 0 then bind (block [release (ProcLock np), release WaitLock]) (\<lambda>_. ret (Some (-1)))
       else bind (block [freeproc np, release (ProcLock np), release WaitLock]) (\<lambda>_.
         ret (Some (p_pid q)))))
     else bind (release (ProcLock np)) (\<lambda>_. ret None)))"

primrec wait_from :: "addr \<Rightarrow> nat \<Rightarrow> bool \<Rightarrow> nat list \<Rightarrow> ('a procs_scheme, bool + int) km" where
  "wait_from addr p havekids [] = ret (Inl havekids)"
| "wait_from addr p havekids (np # nps) =
     bind (gets (\<lambda>s. p_parent (proc s np))) (\<lambda>parent.
     if parent = Some p then
       bind (wait_child addr p np) (\<lambda>r. case r of
         Some x \<Rightarrow> ret (Inr x)
       | None \<Rightarrow> wait_from addr p True nps)
     else wait_from addr p havekids nps)"

definition wait_scan :: "addr \<Rightarrow> nat \<Rightarrow> ('a procs_scheme, bool + int) km" where
  "wait_scan addr p = wait_from addr p False [0..<NPROC]"

definition wait :: "'a procs_scheme env \<Rightarrow> addr \<Rightarrow> ('a procs_scheme, int) km" where
  "wait env addr =
     bind myproc (\<lambda>mp. deref mp (\<lambda>p.
     bind (acquire WaitLock) (\<lambda>_.
     loop (\<lambda>_.
       bind (wait_scan addr p) (\<lambda>r. case r of
         Inr x \<Rightarrow> ret (Inr x)
       | Inl havekids \<Rightarrow>
           bind (gets (\<lambda>s. p_killed (proc s p))) (\<lambda>killed.
           if \<not> havekids \<or> killed then bind (release WaitLock) (\<lambda>_. ret (Inr (-1)))
           else bind (sleep env (ChanProc p) WaitLock) (\<lambda>_. ret (Inl ()))))) ())))"

subsection \<open>Copying to and from either address space\<close>

text \<open>
  The process on whose kernel stack the CPU runs, and writing to the buffer there.
\<close>

definition stack_owner :: "'a machine_scheme \<Rightarrow> nat option" where
  "stack_owner s = c_proc (cpus s (mycpu s))"

definition kbuf_dst :: "nat option \<Rightarrow> nat \<Rightarrow> byte \<Rightarrow> 'a procs_scheme \<Rightarrow> 'a procs_scheme" where
  "kbuf_dst ow i v s = s\<lparr>kbuf := (kbuf s)(ow := (kbuf s ow)(i := v))\<rparr>"

text \<open>
  The destination of \<open>either_copyout\<close> is a user address or a kernel location, given by how it is
  written; dually for \<open>either_copyin\<close>.
\<close>

datatype 's dest = UserDst addr | KernDst "nat \<Rightarrow> byte \<Rightarrow> 's \<Rightarrow> 's"
datatype 's source = UserSrc addr | KernSrc "'s \<Rightarrow> nat \<Rightarrow> byte"

definition dest_plus :: "'s dest \<Rightarrow> nat \<Rightarrow> 's dest" where
  "dest_plus d k = (case d of
     UserDst va \<Rightarrow> UserDst (va + of_nat k) | KernDst w \<Rightarrow> KernDst (\<lambda>i. w (k + i)))"

definition source_plus :: "'s source \<Rightarrow> nat \<Rightarrow> 's source" where
  "source_plus d k = (case d of
     UserSrc va \<Rightarrow> UserSrc (va + of_nat k) | KernSrc r \<Rightarrow> KernSrc (\<lambda>s i. r s (k + i)))"

definition either_copyout ::
  "'a procs_scheme dest \<Rightarrow> ('a procs_scheme \<Rightarrow> nat \<Rightarrow> byte) \<Rightarrow> addr \<Rightarrow> ('a procs_scheme, int) km" where
  "either_copyout dst src len =
     bind myproc (\<lambda>mp. case dst of
       UserDst va \<Rightarrow> deref mp (\<lambda>p.
         bind (gets (\<lambda>s. p_pagetable (proc s p))) (\<lambda>pt. copyout pt va src len))
     | KernDst w \<Rightarrow> bind (modify (\<lambda>s. deliver w 0 (src s) (unat (ucast len :: uint)) s)) (\<lambda>_. ret 0))"

definition either_copyin ::
  "(nat \<Rightarrow> byte \<Rightarrow> 'a procs_scheme \<Rightarrow> 'a procs_scheme) \<Rightarrow> 'a procs_scheme source \<Rightarrow> addr \<Rightarrow>
   ('a procs_scheme, int) km" where
  "either_copyin dst src len =
     bind myproc (\<lambda>mp. case src of
       UserSrc va \<Rightarrow> deref mp (\<lambda>p.
         bind (gets (\<lambda>s. p_pagetable (proc s p))) (\<lambda>pt. copyin pt dst va len))
     | KernSrc r \<Rightarrow> bind (modify (\<lambda>s. deliver dst 0 (r s) (unat (ucast len :: uint)) s)) (\<lambda>_. ret 0))"

end
