(* ===== verification/Xv6_Console.thy ===== *)
theory Xv6_Console
  imports Xv6_Proc
begin

text \<open>
  The serial port driver (\<open>uart.c\<close>), formatted console output and \<open>panic\<close> (\<open>printf.c\<close>), the
  process listing, the console (\<open>console.c\<close>) and the interrupt controller (\<open>plic.c\<close>).

  Device registers are memory mapped. The device is not part of the program: what the \<open>k\<close>-th read
  of a register returns is the function \<open>mmio_in k\<close>, a component of the state no operation
  changes, and the writes are recorded in order in \<open>mmio_out\<close>.
\<close>

section \<open>State\<close>

datatype devfn = ConsoleRead | ConsoleWrite

record consoles = procs +
  mmio_in :: "nat \<Rightarrow> addr \<Rightarrow> uint"
  mmio_count :: nat
  mmio_out :: "(addr \<times> uint) list"
  uart_tx_buf :: "nat \<Rightarrow> byte"
  uart_tx_w :: addr
  uart_tx_r :: addr
  panicked :: bool
  pr_locking :: bool
  cons_buf :: "nat \<Rightarrow> byte"
  cons_r :: uint
  cons_w :: uint
  cons_e :: uint
  devsw_read :: "nat \<Rightarrow> devfn option"
  devsw_write :: "nat \<Rightarrow> devfn option"

definition mmio_read :: "addr \<Rightarrow> ('a consoles_scheme, uint) km" where
  "mmio_read a =
     bind (gets (\<lambda>s. mmio_in s (mmio_count s) a)) (\<lambda>v.
     bind (modify (\<lambda>s. s\<lparr>mmio_count := Suc (mmio_count s)\<rparr>)) (\<lambda>_. ret v))"

definition mmio_write :: "addr \<Rightarrow> uint \<Rightarrow> ('a consoles_scheme, unit) km" where
  "mmio_write a v = modify (\<lambda>s. s\<lparr>mmio_out := mmio_out s @ [(a, v)]\<rparr>)"

section \<open>Serial port\<close>

definition ReadReg :: "addr \<Rightarrow> ('a consoles_scheme, byte) km" where
  "ReadReg reg = bind (mmio_read (UART0 + reg)) (\<lambda>v. ret (ucast v))"

definition WriteReg :: "addr \<Rightarrow> byte \<Rightarrow> ('a consoles_scheme, unit) km" where
  "WriteReg reg v = mmio_write (UART0 + reg) (ucast v)"

abbreviation (input) RHR :: addr where "RHR \<equiv> 0"
abbreviation (input) THR :: addr where "THR \<equiv> 0"
abbreviation (input) IER :: addr where "IER \<equiv> 1"
abbreviation (input) IER_RX_ENABLE :: byte where "IER_RX_ENABLE \<equiv> 1"
abbreviation (input) IER_TX_ENABLE :: byte where "IER_TX_ENABLE \<equiv> 2"
abbreviation (input) FCR :: addr where "FCR \<equiv> 2"
abbreviation (input) FCR_FIFO_ENABLE :: byte where "FCR_FIFO_ENABLE \<equiv> 1"
abbreviation (input) FCR_FIFO_CLEAR :: byte where "FCR_FIFO_CLEAR \<equiv> 6"
abbreviation (input) LCR :: addr where "LCR \<equiv> 3"
abbreviation (input) LCR_EIGHT_BITS :: byte where "LCR_EIGHT_BITS \<equiv> 3"
abbreviation (input) LCR_BAUD_LATCH :: byte where "LCR_BAUD_LATCH \<equiv> 128"
abbreviation (input) LSR :: addr where "LSR \<equiv> 5"
abbreviation (input) LSR_TX_IDLE :: byte where "LSR_TX_IDLE \<equiv> 32"

abbreviation (input) UART_TX_BUF_SIZE :: addr where "UART_TX_BUF_SIZE \<equiv> 32"

definition uartinit :: "('a consoles_scheme, unit) km" where
  "uartinit = block [
     WriteReg IER 0,
     WriteReg LCR LCR_BAUD_LATCH,
     WriteReg 0 3,
     WriteReg 1 0,
     WriteReg LCR LCR_EIGHT_BITS,
     WriteReg FCR (FCR_FIFO_ENABLE OR FCR_FIFO_CLEAR),
     WriteReg IER (IER_TX_ENABLE OR IER_RX_ENABLE),
     initlock UartTxLock ''uart'']"

text \<open>\<open>for(;;);\<close>\<close>

definition hang :: "('s, 'a) km" where
  "hang s = Forever"

definition uartstart_step :: "unit \<Rightarrow> ('a consoles_scheme, unit + unit) km" where
  "uartstart_step _ =
     bind (gets (\<lambda>s. (uart_tx_w s, uart_tx_r s))) (\<lambda>(w, r).
     if w = r then ret (Inr ())
     else bind (ReadReg LSR) (\<lambda>lsr.
       if lsr AND LSR_TX_IDLE = 0 then ret (Inr ())
       else bind (gets (\<lambda>s. uart_tx_buf s (unat (r mod UART_TX_BUF_SIZE)))) (\<lambda>c.
         bind (modify (\<lambda>s. s\<lparr>uart_tx_r := r + 1\<rparr>)) (\<lambda>_.
         bind (wakeup ChanUartTxR) (\<lambda>_.
         bind (WriteReg THR c) (\<lambda>_. ret (Inl ())))))))"

definition uartstart :: "('a consoles_scheme, unit) km" where
  "uartstart = loop uartstart_step ()"

definition uart_enqueue :: "int \<Rightarrow> ('a consoles_scheme, unit) km" where
  "uart_enqueue c = modify (\<lambda>s. s\<lparr>
     uart_tx_buf := (uart_tx_buf s)(unat (uart_tx_w s mod UART_TX_BUF_SIZE) := word_of_int c),
     uart_tx_w := uart_tx_w s + 1\<rparr>)"

definition uartputc :: "'a consoles_scheme env \<Rightarrow> int \<Rightarrow> ('a consoles_scheme, unit) km" where
  "uartputc env c =
     bind (acquire UartTxLock) (\<lambda>_.
     bind (gets panicked) (\<lambda>b.
     if b then hang
     else loop (\<lambda>_.
       bind (gets (\<lambda>s. uart_tx_w s = uart_tx_r s + UART_TX_BUF_SIZE)) (\<lambda>full.
       if full then bind (sleep env ChanUartTxR UartTxLock) (\<lambda>_. ret (Inl ()))
       else bind (block [uart_enqueue c, uartstart, release UartTxLock]) (\<lambda>_. ret (Inr ())))) ()))"

definition uartputc_sync :: "int \<Rightarrow> ('a consoles_scheme, unit) km" where
  "uartputc_sync c =
     bind push_off (\<lambda>_.
     bind (gets panicked) (\<lambda>b.
     if b then hang
     else block [
       loop (\<lambda>_. bind (ReadReg LSR) (\<lambda>lsr.
         ret (if lsr AND LSR_TX_IDLE = 0 then Inl () else Inr ()))) (),
       WriteReg THR (word_of_int c),
       pop_off]))"

definition uartgetc :: "('a consoles_scheme, int) km" where
  "uartgetc =
     bind (ReadReg LSR) (\<lambda>lsr.
     if lsr AND 1 \<noteq> 0 then bind (ReadReg RHR) (\<lambda>c. ret (uint c)) else ret (-1))"

section \<open>Formatted output\<close>

abbreviation (input) BACKSPACE :: int where "BACKSPACE \<equiv> 0x100"

definition consputc :: "int \<Rightarrow> ('a consoles_scheme, unit) km" where
  "consputc c =
     (if c = BACKSPACE then block [uartputc_sync 8, uartputc_sync 32, uartputc_sync 8]
      else uartputc_sync c)"

definition digits :: "nat \<Rightarrow> char" where
  "digits i = ''0123456789abcdef'' ! i"

text \<open>
  \<open>printint_buf\<close> is the \<open>do\<close> loop: the digits of \<open>x\<close>, least significant first. The base is 10 or
  16 in every call; a base below 2 is excluded for termination.
\<close>

function printint_buf :: "uint \<Rightarrow> uint \<Rightarrow> char list" where
  "printint_buf x base =
     digits (unat (x mod base)) #
     (if x div base = 0 \<or> base < 2 then [] else printint_buf (x div base) base)"
  by auto
termination
proof (relation "measure (\<lambda>(x, _). unat x)")
  fix x base :: uint
  assume "\<not> (x div base = 0 \<or> base < 2)"
  then have "2 \<le> unat base" and "unat (x div base) \<noteq> 0"
    by (auto simp: not_less word_le_nat_alt unat_eq_0)
  then have "1 < unat base" "unat x \<noteq> 0"
    by (auto simp: unat_div intro: gr0I)
  then show "((x div base, base), x, base) \<in> measure (\<lambda>(x, _). unat x)"
    by (simp add: unat_div)
qed simp

declare printint_buf.simps [simp del]

definition printint_chars :: "int \<Rightarrow> uint \<Rightarrow> bool \<Rightarrow> char list" where
  "printint_chars xx base sign =
     (if sign \<and> xx < 0 then rev (printint_buf (word_of_int (- xx)) base @ ''-'')
      else rev (printint_buf (word_of_int xx) base))"

definition printint :: "int \<Rightarrow> uint \<Rightarrow> bool \<Rightarrow> ('a consoles_scheme, unit) km" where
  "printint xx base sign = for_each (\<lambda>c. consputc (of_char c)) (printint_chars xx base sign)"

primrec printptr_chars :: "nat \<Rightarrow> addr \<Rightarrow> char list" where
  "printptr_chars 0 x = []"
| "printptr_chars (Suc n) x = digits (unat (drop_bit 60 x)) # printptr_chars n (push_bit 4 x)"

definition printptr :: "addr \<Rightarrow> ('a consoles_scheme, unit) km" where
  "printptr x = block [
     consputc 48, consputc 120, for_each (\<lambda>c. consputc (of_char c)) (printptr_chars 16 x)]"

text \<open>Variadic arguments; a string is its bytes up to the terminator, the null pointer \<open>None\<close>.\<close>

datatype varg = ArgInt int | ArgPtr addr | ArgStr "byte list option"

definition print_bytes :: "byte list \<Rightarrow> ('a consoles_scheme, unit) km" where
  "print_bytes bs = for_each (\<lambda>b. consputc (uint b)) bs"

fun printf_go :: "char list \<Rightarrow> varg list \<Rightarrow> ('a consoles_scheme, unit) km" where
  "printf_go [] args = ret ()"
| "printf_go [c] args = (if c = CHR ''%'' then ret () else consputc (of_char c))"
| "printf_go (c # d # fmt) args =
     (if c \<noteq> CHR ''%'' then bind (consputc (of_char c)) (\<lambda>_. printf_go (d # fmt) args)
      else if d = CHR ''d'' then
        (case args of
           ArgInt x # args \<Rightarrow> bind (printint x 10 True) (\<lambda>_. printf_go fmt args)
         | _ \<Rightarrow> fault ''va_arg'')
      else if d = CHR ''x'' then
        (case args of
           ArgInt x # args \<Rightarrow> bind (printint x 16 True) (\<lambda>_. printf_go fmt args)
         | _ \<Rightarrow> fault ''va_arg'')
      else if d = CHR ''p'' then
        (case args of
           ArgPtr x # args \<Rightarrow> bind (printptr x) (\<lambda>_. printf_go fmt args)
         | _ \<Rightarrow> fault ''va_arg'')
      else if d = CHR ''s'' then
        (case args of
           ArgStr None # args \<Rightarrow> bind (print_bytes (map of_char ''(null)'')) (\<lambda>_. printf_go fmt args)
         | ArgStr (Some bs) # args \<Rightarrow> bind (print_bytes bs) (\<lambda>_. printf_go fmt args)
         | _ \<Rightarrow> fault ''va_arg'')
      else if d = CHR ''%'' then bind (consputc 37) (\<lambda>_. printf_go fmt args)
      else bind (consputc 37) (\<lambda>_. bind (consputc (of_char d)) (\<lambda>_. printf_go fmt args)))"

definition printf :: "string option \<Rightarrow> varg list \<Rightarrow> ('a consoles_scheme, unit) km" where
  "printf fmt args =
     bind (gets pr_locking) (\<lambda>locking. block [
       only_if locking (acquire PrLock),
       (case fmt of None \<Rightarrow> panic ''null fmt'' | Some f \<Rightarrow> printf_go f args),
       only_if locking (release PrLock)])"

text \<open>The body of \<open>panic\<close>; in the rest of the model \<open>panic\<close> ends the execution.\<close>

definition panic_body :: "string \<Rightarrow> ('a consoles_scheme, unit) km" where
  "panic_body msg = block [
     modify (\<lambda>s. s\<lparr>pr_locking := False\<rparr>),
     printf (Some ''panic: '') [],
     printf (Some msg) [],
     printf (Some [CHR 0x0A]) [],
     modify (\<lambda>s. s\<lparr>panicked := True\<rparr>),
     hang]"

definition printfinit :: "('a consoles_scheme, unit) km" where
  "printfinit = block [initlock PrLock ''pr'', modify (\<lambda>s. s\<lparr>pr_locking := True\<rparr>)]"

text \<open>A name is printed up to its terminator, which lies within its 16 bytes.\<close>

definition name_bytes :: "(nat \<Rightarrow> byte) \<Rightarrow> byte list" where
  "name_bytes nm = takeWhile (\<lambda>b. b \<noteq> 0) (map nm [0..<16])"

text \<open>The table \<open>states\<close> has no entry for \<open>USED\<close>.\<close>

definition state_name :: "procstate \<Rightarrow> string" where
  "state_name st = (case st of
     UNUSED \<Rightarrow> ''unused'' | SLEEPING \<Rightarrow> ''sleep '' | RUNNABLE \<Rightarrow> ''runble''
   | RUNNING \<Rightarrow> ''run   '' | ZOMBIE \<Rightarrow> ''zombie'' | USED \<Rightarrow> ''???'')"

definition procdump :: "('a consoles_scheme, unit) km" where
  "procdump =
     bind (printf (Some [CHR 0x0A]) []) (\<lambda>_.
     for_each (\<lambda>p.
       bind (gets (\<lambda>s. proc s p)) (\<lambda>q.
       only_if (p_state q \<noteq> UNUSED) (block [
         printf (Some ''%d %s %s'') [ArgInt (p_pid q),
           ArgStr (Some (map of_char (state_name (p_state q)))), ArgStr (Some (name_bytes (p_name q)))],
         printf (Some [CHR 0x0A]) []]))) [0..<NPROC])"

section \<open>Console\<close>

abbreviation (input) INPUT_BUF :: uint where "INPUT_BUF \<equiv> 128"
definition CONSOLE :: nat where "CONSOLE = 1"

text \<open>Control characters: \<open>C('D')\<close>, \<open>C('H')\<close>, \<open>C('P')\<close>, \<open>C('U')\<close>.\<close>

abbreviation (input) Ctl_D :: int where "Ctl_D \<equiv> 4"
abbreviation (input) Ctl_H :: int where "Ctl_H \<equiv> 8"
abbreviation (input) Ctl_P :: int where "Ctl_P \<equiv> 16"
abbreviation (input) Ctl_U :: int where "Ctl_U \<equiv> 21"

definition consolewrite ::
  "'a consoles_scheme env \<Rightarrow> 'a consoles_scheme source \<Rightarrow> int \<Rightarrow> ('a consoles_scheme, int) km" where
  "consolewrite env src n =
     loop (\<lambda>i.
       if \<not> i < n then ret (Inr i)
       else bind (gets stack_owner) (\<lambda>ow.
         bind (either_copyin (kbuf_dst ow) (source_plus src (nat i)) 1) (\<lambda>r.
         if r = -1 then ret (Inr i)
         else bind (gets (\<lambda>s. kbuf s ow 0)) (\<lambda>c.
           bind (uartputc env (uint c)) (\<lambda>_. ret (Inl (i + 1))))))) 0"

text \<open>Waiting for input: \<open>False\<close> when the process was killed (the lock is then released).\<close>

definition consoleread_wait :: "'a consoles_scheme env \<Rightarrow> ('a consoles_scheme, bool) km" where
  "consoleread_wait env =
     loop (\<lambda>_.
       bind (gets (\<lambda>s. cons_r s = cons_w s)) (\<lambda>empty.
       if \<not> empty then ret (Inr True)
       else bind myproc (\<lambda>mp. deref mp (\<lambda>p.
         bind (gets (\<lambda>s. p_killed (proc s p))) (\<lambda>killed.
         if killed then bind (release ConsLock) (\<lambda>_. ret (Inr False))
         else bind (sleep env ChanConsR ConsLock) (\<lambda>_. ret (Inl ()))))))) ()"

definition consoleread_done :: "uint \<Rightarrow> int \<Rightarrow> ('a consoles_scheme, int) km" where
  "consoleread_done target n =
     bind (release ConsLock) (\<lambda>_. ret (sint (target - word_of_int n)))"

definition consoleread_step ::
  "'a consoles_scheme env \<Rightarrow> uint \<Rightarrow> 'a consoles_scheme dest \<times> int \<Rightarrow>
   ('a consoles_scheme, 'a consoles_scheme dest \<times> int + int) km" where
  "consoleread_step env target = (\<lambda>(dst, n).
     if \<not> n > 0 then bind (consoleread_done target n) (\<lambda>r. ret (Inr r))
     else bind (consoleread_wait env) (\<lambda>ready.
       if \<not> ready then ret (Inr (-1))
       else bind (gets (\<lambda>s. cons_buf s (unat (cons_r s mod INPUT_BUF)))) (\<lambda>c.
         bind (modify (\<lambda>s. s\<lparr>cons_r := cons_r s + 1\<rparr>)) (\<lambda>_.
         if uint c = Ctl_D then
           bind (only_if (word_of_int n < target) (modify (\<lambda>s. s\<lparr>cons_r := cons_r s - 1\<rparr>))) (\<lambda>_.
           bind (consoleread_done target n) (\<lambda>r. ret (Inr r)))
         else bind (either_copyout dst (\<lambda>_ _. c) 1) (\<lambda>r.
           if r = -1 then bind (consoleread_done target n) (\<lambda>r. ret (Inr r))
           else if c = 10 then bind (consoleread_done target (n - 1)) (\<lambda>r. ret (Inr r))
           else ret (Inl (dest_plus dst 1, n - 1)))))))"

definition consoleread ::
  "'a consoles_scheme env \<Rightarrow> 'a consoles_scheme dest \<Rightarrow> int \<Rightarrow> ('a consoles_scheme, int) km" where
  "consoleread env dst n =
     bind (acquire ConsLock) (\<lambda>_. loop (consoleread_step env (word_of_int n)) (dst, n))"

definition cons_kill_line :: "('a consoles_scheme, unit) km" where
  "cons_kill_line =
     while_do (\<lambda>s. cons_e s \<noteq> cons_w s \<and> cons_buf s (unat ((cons_e s - 1) mod INPUT_BUF)) \<noteq> 10)
       (block [modify (\<lambda>s. s\<lparr>cons_e := cons_e s - 1\<rparr>), consputc BACKSPACE])"

definition cons_backspace :: "('a consoles_scheme, unit) km" where
  "cons_backspace =
     bind (gets (\<lambda>s. cons_e s \<noteq> cons_w s)) (\<lambda>b.
     only_if b (block [modify (\<lambda>s. s\<lparr>cons_e := cons_e s - 1\<rparr>), consputc BACKSPACE]))"

definition cons_store :: "int \<Rightarrow> ('a consoles_scheme, unit) km" where
  "cons_store c = modify (\<lambda>s. s\<lparr>
     cons_buf := (cons_buf s)(unat (cons_e s mod INPUT_BUF) := word_of_int c),
     cons_e := cons_e s + 1\<rparr>)"

definition cons_insert :: "int \<Rightarrow> ('a consoles_scheme, unit) km" where
  "cons_insert c0 =
     bind (gets (\<lambda>s. cons_e s - cons_r s < INPUT_BUF)) (\<lambda>room.
     only_if (c0 \<noteq> 0 \<and> room) (
       let c = (if c0 = 13 then 10 else c0) in block [
         consputc c,
         cons_store c,
         bind (gets (\<lambda>s. cons_e s = cons_r s + INPUT_BUF)) (\<lambda>full.
           only_if (c = 10 \<or> c = Ctl_D \<or> full)
             (block [modify (\<lambda>s. s\<lparr>cons_w := cons_e s\<rparr>), wakeup ChanConsR]))]))"

definition consoleintr :: "int \<Rightarrow> ('a consoles_scheme, unit) km" where
  "consoleintr c = block [
     acquire ConsLock,
     (if c = Ctl_P then procdump
      else if c = Ctl_U then cons_kill_line
      else if c = Ctl_H \<or> c = 0x7f then cons_backspace
      else cons_insert c),
     release ConsLock]"

definition consoleinit :: "('a consoles_scheme, unit) km" where
  "consoleinit = block [
     initlock ConsLock ''cons'',
     uartinit,
     modify (\<lambda>s. s\<lparr>devsw_read := (devsw_read s)(CONSOLE := Some ConsoleRead),
       devsw_write := (devsw_write s)(CONSOLE := Some ConsoleWrite)\<rparr>)]"

definition uartintr :: "('a consoles_scheme, unit) km" where
  "uartintr = block [
     loop (\<lambda>_. bind uartgetc (\<lambda>c.
       if c = -1 then ret (Inr ()) else bind (consoleintr c) (\<lambda>_. ret (Inl ())))) (),
     acquire UartTxLock,
     uartstart,
     release UartTxLock]"

section \<open>Interrupt controller\<close>

definition PLIC_SENABLE :: "nat \<Rightarrow> addr" where
  "PLIC_SENABLE hart = PLIC + 0x2080 + of_nat hart * 0x100"

definition PLIC_SPRIORITY :: "nat \<Rightarrow> addr" where
  "PLIC_SPRIORITY hart = PLIC + 0x201000 + of_nat hart * 0x2000"

definition PLIC_SCLAIM :: "nat \<Rightarrow> addr" where
  "PLIC_SCLAIM hart = PLIC + 0x201004 + of_nat hart * 0x2000"

definition plicinit :: "('a consoles_scheme, unit) km" where
  "plicinit = block [
     mmio_write (PLIC + word_of_int (UART0_IRQ * 4)) 1,
     mmio_write (PLIC + word_of_int (VIRTIO0_IRQ * 4)) 1]"

definition plicinithart :: "('a consoles_scheme, unit) km" where
  "plicinithart =
     bind (gets cpuid) (\<lambda>hart. block [
       mmio_write (PLIC_SENABLE hart) (push_bit (nat UART0_IRQ) 1 OR push_bit (nat VIRTIO0_IRQ) 1),
       mmio_write (PLIC_SPRIORITY hart) 0])"

definition plic_claim :: "('a consoles_scheme, int) km" where
  "plic_claim = bind (gets cpuid) (\<lambda>hart. bind (mmio_read (PLIC_SCLAIM hart)) (\<lambda>irq. ret (sint irq)))"

definition plic_complete :: "int \<Rightarrow> ('a consoles_scheme, unit) km" where
  "plic_complete irq = bind (gets cpuid) (\<lambda>hart. mmio_write (PLIC_SCLAIM hart) (word_of_int irq))"

end
