(* ===== verification/Xv6_Sleeplock.thy ===== *)
theory Xv6_Sleeplock
  imports Xv6_Console
begin

text \<open>Sleep locks (\<open>sleeplock.c\<close>): long-term locks whose waiters give up the CPU.\<close>

section \<open>Operations\<close>

text \<open>
  \<open>struct sleeplock\<close>; the spinlock inside it has the same identifier, and so has the channel.
\<close>

record sleeplock =
  slk_locked :: bool
  slk_name :: string
  slk_pid :: int

record sleepers = consoles +
  sleeplk :: "lockid \<Rightarrow> sleeplock"

definition upd_sleeplk :: "lockid \<Rightarrow> (sleeplock \<Rightarrow> sleeplock) \<Rightarrow> ('a sleepers_scheme, unit) km" where
  "upd_sleeplk lk f = modify (\<lambda>s. s\<lparr>sleeplk := (sleeplk s)(lk := f (sleeplk s lk))\<rparr>)"

definition initsleeplock :: "lockid \<Rightarrow> string \<Rightarrow> ('a sleepers_scheme, unit) km" where
  "initsleeplock lk nm = block [
     initlock lk ''sleep lock'',
     upd_sleeplk lk (\<lambda>l. l\<lparr>slk_name := nm, slk_locked := False, slk_pid := 0\<rparr>)]"

text \<open>The \<open>pid\<close> of the running process.\<close>

definition mypid :: "('a procs_scheme, int) km" where
  "mypid = bind myproc (\<lambda>mp. deref mp (\<lambda>p. gets (\<lambda>s. p_pid (proc s p))))"

definition acquiresleep :: "'a sleepers_scheme env \<Rightarrow> lockid \<Rightarrow> ('a sleepers_scheme, unit) km" where
  "acquiresleep env lk = block [
     acquire lk,
     while_do (\<lambda>s. slk_locked (sleeplk s lk)) (sleep env (ChanSleeplock lk) lk),
     upd_sleeplk lk (\<lambda>l. l\<lparr>slk_locked := True\<rparr>),
     bind mypid (\<lambda>pid. upd_sleeplk lk (\<lambda>l. l\<lparr>slk_pid := pid\<rparr>)),
     release lk]"

definition releasesleep :: "lockid \<Rightarrow> ('a sleepers_scheme, unit) km" where
  "releasesleep lk = block [
     acquire lk,
     upd_sleeplk lk (\<lambda>l. l\<lparr>slk_locked := False, slk_pid := 0\<rparr>),
     wakeup (ChanSleeplock lk),
     release lk]"

definition holdingsleep :: "lockid \<Rightarrow> ('a sleepers_scheme, bool) km" where
  "holdingsleep lk =
     bind (acquire lk) (\<lambda>_.
     bind (gets (\<lambda>s. sleeplk s lk)) (\<lambda>l.
     bind (if slk_locked l then bind mypid (\<lambda>pid. ret (slk_pid l = pid)) else ret False) (\<lambda>r.
     bind (release lk) (\<lambda>_. ret r))))"

end
