(* ===== verification/Xv6_Virtio.thy ===== *)
theory Xv6_Virtio
  imports Xv6_Sleeplock
begin

text \<open>
  The driver of the virtio disk (\<open>virtio_disk.c\<close>) and the buffer structure of \<open>buf.h\<close>.

  The queue shared with the device is typed: descriptors, the available ring and the used ring
  are components of \<open>disk\<close>, and the address in a descriptor names the object it points to. The
  device itself is not part of the program. It runs while the requester sleeps and while other
  code runs, that is, inside \<open>env\<close>.
\<close>

section \<open>State\<close>

abbreviation (input) BSIZE :: nat where "BSIZE \<equiv> 1024"
abbreviation (input) NUM :: nat where "NUM \<equiv> 8"

text \<open>\<open>struct buf\<close>; its sleep lock is \<open>SleepBuf i\<close> for buffer \<open>i\<close>. \<open>b_prev\<close> and \<open>b_next\<close> are the LRU list.\<close>

record buf =
  b_valid :: bool
  b_disk :: bool
  b_dev :: uint
  b_blockno :: uint
  b_refcnt :: uint
  b_prev :: nat
  b_next :: nat
  b_data :: "nat \<Rightarrow> byte"

datatype desc_addr = NullAddr | OpsAddr nat | DataAddr nat | StatusAddr nat

record virtq_desc =
  vd_addr :: desc_addr
  vd_len :: uint
  vd_flags :: "16 word"
  vd_next :: "16 word"

abbreviation (input) VRING_DESC_F_NEXT :: "16 word" where "VRING_DESC_F_NEXT \<equiv> 1"
abbreviation (input) VRING_DESC_F_WRITE :: "16 word" where "VRING_DESC_F_WRITE \<equiv> 2"

record virtio_blk_req =
  vr_type :: uint
  vr_reserved :: uint
  vr_sector :: addr

text \<open>
  \<open>struct disk\<close>: \<open>vq_used_idx\<close> and \<open>vq_used_ring\<close> are written by the device, \<open>vq_seen_idx\<close> is the
  driver's own \<open>used_idx\<close>.
\<close>

record vdisk =
  vq_desc :: "nat \<Rightarrow> virtq_desc"
  vq_avail_idx :: "16 word"
  vq_avail_ring :: "nat \<Rightarrow> 16 word"
  vq_used_idx :: "16 word"
  vq_used_ring :: "nat \<Rightarrow> uint"
  vq_free :: "nat \<Rightarrow> bool"
  vq_seen_idx :: "16 word"
  vq_info_b :: "nat \<Rightarrow> nat option"
  vq_info_status :: "nat \<Rightarrow> byte"
  vq_ops :: "nat \<Rightarrow> virtio_blk_req"

record disks = sleepers +
  bufs :: "nat \<Rightarrow> buf"
  disk :: vdisk

definition upd_buf :: "nat \<Rightarrow> (buf \<Rightarrow> buf) \<Rightarrow> ('a disks_scheme, unit) km" where
  "upd_buf b f = modify (\<lambda>s. s\<lparr>bufs := (bufs s)(b := f (bufs s b))\<rparr>)"

definition upd_disk :: "(vdisk \<Rightarrow> vdisk) \<Rightarrow> ('a disks_scheme, unit) km" where
  "upd_disk f = modify (\<lambda>s. s\<lparr>disk := f (disk s)\<rparr>)"

definition upd_desc :: "nat \<Rightarrow> (virtq_desc \<Rightarrow> virtq_desc) \<Rightarrow> ('a disks_scheme, unit) km" where
  "upd_desc i f = upd_disk (\<lambda>d. d\<lparr>vq_desc := (vq_desc d)(i := f (vq_desc d i))\<rparr>)"

section \<open>Initialisation\<close>

definition vio_read :: "addr \<Rightarrow> ('a consoles_scheme, uint) km" where
  "vio_read r = mmio_read (VIRTIO0 + r)"

definition vio_write :: "addr \<Rightarrow> uint \<Rightarrow> ('a consoles_scheme, unit) km" where
  "vio_write r v = mmio_write (VIRTIO0 + r) v"

abbreviation (input) VIRTIO_MMIO_MAGIC_VALUE :: addr where "VIRTIO_MMIO_MAGIC_VALUE \<equiv> 0x000"
abbreviation (input) VIRTIO_MMIO_VERSION :: addr where "VIRTIO_MMIO_VERSION \<equiv> 0x004"
abbreviation (input) VIRTIO_MMIO_DEVICE_ID :: addr where "VIRTIO_MMIO_DEVICE_ID \<equiv> 0x008"
abbreviation (input) VIRTIO_MMIO_VENDOR_ID :: addr where "VIRTIO_MMIO_VENDOR_ID \<equiv> 0x00c"
abbreviation (input) VIRTIO_MMIO_DEVICE_FEATURES :: addr where "VIRTIO_MMIO_DEVICE_FEATURES \<equiv> 0x010"
abbreviation (input) VIRTIO_MMIO_DRIVER_FEATURES :: addr where "VIRTIO_MMIO_DRIVER_FEATURES \<equiv> 0x020"
abbreviation (input) VIRTIO_MMIO_GUEST_PAGE_SIZE :: addr where "VIRTIO_MMIO_GUEST_PAGE_SIZE \<equiv> 0x028"
abbreviation (input) VIRTIO_MMIO_QUEUE_SEL :: addr where "VIRTIO_MMIO_QUEUE_SEL \<equiv> 0x030"
abbreviation (input) VIRTIO_MMIO_QUEUE_NUM_MAX :: addr where "VIRTIO_MMIO_QUEUE_NUM_MAX \<equiv> 0x034"
abbreviation (input) VIRTIO_MMIO_QUEUE_NUM :: addr where "VIRTIO_MMIO_QUEUE_NUM \<equiv> 0x038"
abbreviation (input) VIRTIO_MMIO_QUEUE_PFN :: addr where "VIRTIO_MMIO_QUEUE_PFN \<equiv> 0x040"
abbreviation (input) VIRTIO_MMIO_QUEUE_NOTIFY :: addr where "VIRTIO_MMIO_QUEUE_NOTIFY \<equiv> 0x050"
abbreviation (input) VIRTIO_MMIO_INTERRUPT_STATUS :: addr where "VIRTIO_MMIO_INTERRUPT_STATUS \<equiv> 0x060"
abbreviation (input) VIRTIO_MMIO_INTERRUPT_ACK :: addr where "VIRTIO_MMIO_INTERRUPT_ACK \<equiv> 0x064"
abbreviation (input) VIRTIO_MMIO_STATUS :: addr where "VIRTIO_MMIO_STATUS \<equiv> 0x070"

text \<open>The four identification registers, read in order with short-circuit evaluation.\<close>

primrec vio_identify :: "(addr \<times> uint) list \<Rightarrow> ('a consoles_scheme, bool) km" where
  "vio_identify [] = ret True"
| "vio_identify (rv # rest) =
     bind (vio_read (fst rv)) (\<lambda>v. if v \<noteq> snd rv then ret False else vio_identify rest)"

definition vio_features :: "uint \<Rightarrow> uint" where
  "vio_features f = f AND NOT (push_bit 5 1) AND NOT (push_bit 7 1) AND NOT (push_bit 11 1)
     AND NOT (push_bit 12 1) AND NOT (push_bit 27 1) AND NOT (push_bit 29 1) AND NOT (push_bit 28 1)"

text \<open>\<open>memset(disk.pages, 0, ...)\<close>: descriptors, available and used ring are in these pages.\<close>

definition clear_pages :: "vdisk \<Rightarrow> vdisk" where
  "clear_pages d = d\<lparr>
     vq_desc := (\<lambda>_. \<lparr>vd_addr = NullAddr, vd_len = 0, vd_flags = 0, vd_next = 0\<rparr>),
     vq_avail_idx := 0, vq_avail_ring := (\<lambda>_. 0), vq_used_idx := 0, vq_used_ring := (\<lambda>_. 0)\<rparr>"

definition virtio_disk_init :: "('a disks_scheme, unit) km" where
  "virtio_disk_init = block [
     initlock VdiskLock ''virtio_disk'',
     bind (vio_identify [(VIRTIO_MMIO_MAGIC_VALUE, 0x74726976), (VIRTIO_MMIO_VERSION, 1),
         (VIRTIO_MMIO_DEVICE_ID, 2), (VIRTIO_MMIO_VENDOR_ID, 0x554d4551)])
       (\<lambda>ok. panic_if (\<not> ok) ''could not find virtio disk''),
     vio_write VIRTIO_MMIO_STATUS 1,
     vio_write VIRTIO_MMIO_STATUS 3,
     bind (vio_read VIRTIO_MMIO_DEVICE_FEATURES) (\<lambda>f. vio_write VIRTIO_MMIO_DRIVER_FEATURES (vio_features f)),
     vio_write VIRTIO_MMIO_STATUS 11,
     vio_write VIRTIO_MMIO_STATUS 15,
     vio_write VIRTIO_MMIO_GUEST_PAGE_SIZE 4096,
     vio_write VIRTIO_MMIO_QUEUE_SEL 0,
     bind (vio_read VIRTIO_MMIO_QUEUE_NUM_MAX) (\<lambda>max. block [
       panic_if (max = 0) ''virtio disk has no queue 0'',
       panic_if (max < of_nat NUM) ''virtio disk max queue too short'']),
     vio_write VIRTIO_MMIO_QUEUE_NUM (of_nat NUM),
     upd_disk clear_pages,
     bind (gets (\<lambda>s. code_sym s ''disk.pages'')) (\<lambda>pages.
       vio_write VIRTIO_MMIO_QUEUE_PFN (ucast (drop_bit PGSHIFT pages))),
     for_each (\<lambda>i. upd_disk (\<lambda>d. d\<lparr>vq_free := (vq_free d)(i := True)\<rparr>)) [0..<NUM]]"

section \<open>Descriptors\<close>

definition alloc_desc :: "('a disks_scheme, nat option) km" where
  "alloc_desc =
     scan (\<lambda>i.
       bind (gets (\<lambda>s. vq_free (disk s) i)) (\<lambda>free.
       if free then
         bind (upd_disk (\<lambda>d. d\<lparr>vq_free := (vq_free d)(i := False)\<rparr>)) (\<lambda>_. ret (Some i))
       else ret None)) [0..<NUM]"

definition free_desc :: "nat \<Rightarrow> ('a disks_scheme, unit) km" where
  "free_desc i = block [
     panic_if (i \<ge> NUM) ''free_desc 1'',
     bind (gets (\<lambda>s. vq_free (disk s) i)) (\<lambda>free. panic_if free ''free_desc 2''),
     upd_desc i (\<lambda>_. \<lparr>vd_addr = NullAddr, vd_len = 0, vd_flags = 0, vd_next = 0\<rparr>),
     upd_disk (\<lambda>d. d\<lparr>vq_free := (vq_free d)(i := True)\<rparr>),
     wakeup ChanDiskFree]"

definition free_chain_step :: "nat \<Rightarrow> ('a disks_scheme, nat + unit) km" where
  "free_chain_step i =
     bind (gets (\<lambda>s. vq_desc (disk s) i)) (\<lambda>d.
     bind (free_desc i) (\<lambda>_.
     ret (if vd_flags d AND VRING_DESC_F_NEXT \<noteq> 0 then Inl (unat (vd_next d)) else Inr ())))"

definition free_chain :: "nat \<Rightarrow> ('a disks_scheme, unit) km" where
  "free_chain = loop free_chain_step"

text \<open>\<open>alloc_descs n idx\<close>: allocate \<open>n\<close> more; give back the ones in \<open>idx\<close> on failure.\<close>

primrec alloc_descs :: "nat \<Rightarrow> nat list \<Rightarrow> ('a disks_scheme, nat list option) km" where
  "alloc_descs 0 idx = ret (Some idx)"
| "alloc_descs (Suc n) idx =
     bind alloc_desc (\<lambda>r. case r of
       None \<Rightarrow> bind (for_each free_desc idx) (\<lambda>_. ret None)
     | Some i \<Rightarrow> alloc_descs n (idx @ [i]))"

definition alloc3_desc :: "('a disks_scheme, nat list option) km" where
  "alloc3_desc = alloc_descs 3 []"

section \<open>Transfers\<close>

definition disk_alloc_wait :: "'a disks_scheme env \<Rightarrow> ('a disks_scheme, nat list) km" where
  "disk_alloc_wait env =
     loop (\<lambda>_. bind alloc3_desc (\<lambda>r. case r of
       Some idx \<Rightarrow> ret (Inr idx)
     | None \<Rightarrow> bind (sleep env ChanDiskFree VdiskLock) (\<lambda>_. ret (Inl ())))) ()"

text \<open>Formatting the three descriptors of a request.\<close>

definition disk_format :: "nat \<Rightarrow> bool \<Rightarrow> nat \<Rightarrow> nat \<Rightarrow> nat \<Rightarrow> addr \<Rightarrow> ('a disks_scheme, unit) km" where
  "disk_format b write i0 i1 i2 sector = block [
     upd_disk (\<lambda>d. d\<lparr>vq_ops := (vq_ops d)(i0 :=
       \<lparr>vr_type = (if write then 1 else 0), vr_reserved = 0, vr_sector = sector\<rparr>)\<rparr>),
     upd_desc i0 (\<lambda>_. \<lparr>vd_addr = OpsAddr i0, vd_len = 16, vd_flags = VRING_DESC_F_NEXT,
       vd_next = of_nat i1\<rparr>),
     upd_desc i1 (\<lambda>_. \<lparr>vd_addr = DataAddr b, vd_len = of_nat BSIZE,
       vd_flags = (if write then 0 else VRING_DESC_F_WRITE) OR VRING_DESC_F_NEXT,
       vd_next = of_nat i2\<rparr>),
     upd_disk (\<lambda>d. d\<lparr>vq_info_status := (vq_info_status d)(i0 := 0xff)\<rparr>),
     upd_desc i2 (\<lambda>_. \<lparr>vd_addr = StatusAddr i0, vd_len = 1, vd_flags = VRING_DESC_F_WRITE,
       vd_next = 0\<rparr>)]"

text \<open>Handing the chain to the device.\<close>

definition disk_submit :: "nat \<Rightarrow> nat \<Rightarrow> ('a disks_scheme, unit) km" where
  "disk_submit b i0 = block [
     upd_buf b (\<lambda>x. x\<lparr>b_disk := True\<rparr>),
     upd_disk (\<lambda>d. d\<lparr>vq_info_b := (vq_info_b d)(i0 := Some b)\<rparr>),
     upd_disk (\<lambda>d. d\<lparr>vq_avail_ring := (vq_avail_ring d)(unat (vq_avail_idx d) mod NUM := of_nat i0)\<rparr>),
     upd_disk (\<lambda>d. d\<lparr>vq_avail_idx := vq_avail_idx d + 1\<rparr>),
     vio_write VIRTIO_MMIO_QUEUE_NOTIFY 0]"

definition virtio_disk_rw :: "'a disks_scheme env \<Rightarrow> nat \<Rightarrow> bool \<Rightarrow> ('a disks_scheme, unit) km" where
  "virtio_disk_rw env b write =
     bind (gets (\<lambda>s. ucast (b_blockno (bufs s b) * 2))) (\<lambda>sector.
     bind (acquire VdiskLock) (\<lambda>_.
     bind (disk_alloc_wait env) (\<lambda>idx. block [
       disk_format b write (idx ! 0) (idx ! 1) (idx ! 2) sector,
       disk_submit b (idx ! 0),
       while_do (\<lambda>s. b_disk (bufs s b)) (sleep env (ChanBuf b) VdiskLock),
       upd_disk (\<lambda>d. d\<lparr>vq_info_b := (vq_info_b d)(idx ! 0 := None)\<rparr>),
       free_chain (idx ! 0),
       release VdiskLock])))"

text \<open>One completed request of the used ring.\<close>

definition disk_intr_one :: "('a disks_scheme, unit) km" where
  "disk_intr_one =
     bind (gets (\<lambda>s. unat (vq_used_ring (disk s) (unat (vq_seen_idx (disk s)) mod NUM)))) (\<lambda>id.
     if id \<ge> NUM then fault ''disk.info''
     else block [
       bind (gets (\<lambda>s. vq_info_status (disk s) id)) (\<lambda>st. panic_if (st \<noteq> 0) ''virtio_disk_intr status''),
       bind (gets (\<lambda>s. vq_info_b (disk s) id)) (\<lambda>ob. deref ob (\<lambda>b. block [
         upd_buf b (\<lambda>x. x\<lparr>b_disk := False\<rparr>),
         wakeup (ChanBuf b)])),
       upd_disk (\<lambda>d. d\<lparr>vq_seen_idx := vq_seen_idx d + 1\<rparr>)])"

definition virtio_disk_intr :: "('a disks_scheme, unit) km" where
  "virtio_disk_intr = block [
     acquire VdiskLock,
     bind (vio_read VIRTIO_MMIO_INTERRUPT_STATUS) (\<lambda>v. vio_write VIRTIO_MMIO_INTERRUPT_ACK (v AND 3)),
     while_do (\<lambda>s. vq_seen_idx (disk s) \<noteq> vq_used_idx (disk s)) disk_intr_one,
     release VdiskLock]"

end
