(* ===== verification/Xv6_Bio.thy ===== *)
theory Xv6_Bio
  imports Xv6_Virtio
begin

text \<open>
  The buffer cache (\<open>bio.c\<close>). Buffers are numbered; the list head \<open>bcache.head\<close> is the index
  \<open>NBUF\<close>. The LRU list is kept as the source keeps it, as \<open>prev\<close> and \<open>next\<close> of every buffer.
\<close>

section \<open>Operations\<close>

abbreviation (input) HEAD :: nat where "HEAD \<equiv> NBUF"

text \<open>Putting a buffer right after the head.\<close>

definition lru_push :: "nat \<Rightarrow> (nat \<Rightarrow> buf) \<Rightarrow> nat \<Rightarrow> buf" where
  "lru_push b bs = (
     let bs = bs(b := (bs b)\<lparr>b_next := b_next (bs HEAD)\<rparr>);
         bs = bs(b := (bs b)\<lparr>b_prev := HEAD\<rparr>);
         bs = bs(b_next (bs HEAD) := (bs (b_next (bs HEAD)))\<lparr>b_prev := b\<rparr>)
     in bs(HEAD := (bs HEAD)\<lparr>b_next := b\<rparr>))"

definition lru_unlink :: "nat \<Rightarrow> (nat \<Rightarrow> buf) \<Rightarrow> nat \<Rightarrow> buf" where
  "lru_unlink b bs = (
     let bs = bs(b_next (bs b) := (bs (b_next (bs b)))\<lparr>b_prev := b_prev (bs b)\<rparr>)
     in bs(b_prev (bs b) := (bs (b_prev (bs b)))\<lparr>b_next := b_next (bs b)\<rparr>))"

definition binit :: "('a disks_scheme, unit) km" where
  "binit = block [
     initlock BcacheLock ''bcache'',
     upd_buf HEAD (\<lambda>h. h\<lparr>b_prev := HEAD, b_next := HEAD\<rparr>),
     for_each (\<lambda>b. block [
       initsleeplock (SleepBuf b) ''buffer'',
       modify (\<lambda>s. s\<lparr>bufs := lru_push b (bufs s)\<rparr>)]) [0..<NBUF]]"

text \<open>The search for a cached block, from the most recently used buffer on.\<close>

definition bget_cached :: "uint \<Rightarrow> uint \<Rightarrow> ('a disks_scheme, nat option) km" where
  "bget_cached dev blockno =
     bind (gets (\<lambda>s. b_next (bufs s HEAD))) (loop (\<lambda>b.
       if b = HEAD then ret (Inr None)
       else bind (gets (\<lambda>s. bufs s b)) (\<lambda>x.
         ret (if b_dev x = dev \<and> b_blockno x = blockno then Inr (Some b) else Inl (b_next x)))))"

text \<open>The search for a buffer to recycle, from the least recently used one on.\<close>

definition bget_unused :: "('a disks_scheme, nat option) km" where
  "bget_unused =
     bind (gets (\<lambda>s. b_prev (bufs s HEAD))) (loop (\<lambda>b.
       if b = HEAD then ret (Inr None)
       else bind (gets (\<lambda>s. bufs s b)) (\<lambda>x.
         ret (if b_refcnt x = 0 then Inr (Some b) else Inl (b_prev x)))))"

text \<open>
  What \<open>bget\<close> does under \<open>bcache.lock\<close>: it finds the buffer and counts the new reference. Both ways
  out of it go on with the sleep lock of the buffer.
\<close>

definition bget_select :: "uint \<Rightarrow> uint \<Rightarrow> ('a disks_scheme, nat) km" where
  "bget_select dev blockno =
     bind (acquire BcacheLock) (\<lambda>_.
     bind (bget_cached dev blockno) (\<lambda>r. case r of
       Some b \<Rightarrow> bind (block [
           upd_buf b (\<lambda>x. x\<lparr>b_refcnt := b_refcnt x + 1\<rparr>),
           release BcacheLock]) (\<lambda>_. ret b)
     | None \<Rightarrow> bind bget_unused (\<lambda>r. case r of
         Some b \<Rightarrow> bind (block [
             upd_buf b (\<lambda>x. x\<lparr>b_dev := dev, b_blockno := blockno, b_valid := False, b_refcnt := 1\<rparr>),
             release BcacheLock]) (\<lambda>_. ret b)
       | None \<Rightarrow> panic ''bget: no buffers'')))"

definition bget :: "'a disks_scheme env \<Rightarrow> uint \<Rightarrow> uint \<Rightarrow> ('a disks_scheme, nat) km" where
  "bget env dev blockno =
     bind (bget_select dev blockno) (\<lambda>b.
     bind (acquiresleep env (SleepBuf b)) (\<lambda>_. ret b))"

definition bread :: "'a disks_scheme env \<Rightarrow> uint \<Rightarrow> uint \<Rightarrow> ('a disks_scheme, nat) km" where
  "bread env dev blockno =
     bind (bget env dev blockno) (\<lambda>b.
     bind (gets (\<lambda>s. b_valid (bufs s b))) (\<lambda>valid.
     bind (only_if (\<not> valid) (block [
       virtio_disk_rw env b False,
       upd_buf b (\<lambda>x. x\<lparr>b_valid := True\<rparr>)])) (\<lambda>_.
     ret b)))"

definition bwrite :: "'a disks_scheme env \<Rightarrow> nat \<Rightarrow> ('a disks_scheme, unit) km" where
  "bwrite env b = block [
     bind (holdingsleep (SleepBuf b)) (\<lambda>h. panic_if (\<not> h) ''bwrite''),
     virtio_disk_rw env b True]"

text \<open>The part of \<open>brelse\<close> under \<open>bcache.lock\<close>.\<close>

definition brelse_unref :: "nat \<Rightarrow> ('a disks_scheme, unit) km" where
  "brelse_unref b = block [
     acquire BcacheLock,
     upd_buf b (\<lambda>x. x\<lparr>b_refcnt := b_refcnt x - 1\<rparr>),
     bind (gets (\<lambda>s. b_refcnt (bufs s b))) (\<lambda>n.
       only_if (n = 0) (modify (\<lambda>s. s\<lparr>bufs := lru_push b (lru_unlink b (bufs s))\<rparr>))),
     release BcacheLock]"

definition brelse :: "nat \<Rightarrow> ('a disks_scheme, unit) km" where
  "brelse b = block [
     bind (holdingsleep (SleepBuf b)) (\<lambda>h. panic_if (\<not> h) ''brelse''),
     releasesleep (SleepBuf b),
     brelse_unref b]"

definition bpin :: "nat \<Rightarrow> ('a disks_scheme, unit) km" where
  "bpin b = block [
     acquire BcacheLock,
     upd_buf b (\<lambda>x. x\<lparr>b_refcnt := b_refcnt x + 1\<rparr>),
     release BcacheLock]"

definition bunpin :: "nat \<Rightarrow> ('a disks_scheme, unit) km" where
  "bunpin b = block [
     acquire BcacheLock,
     upd_buf b (\<lambda>x. x\<lparr>b_refcnt := b_refcnt x - 1\<rparr>),
     release BcacheLock]"

section \<open>Integers in blocks\<close>

text \<open>Little-endian integers in the data of a buffer.\<close>

primrec get_le :: "nat \<Rightarrow> (nat \<Rightarrow> byte) \<Rightarrow> nat \<Rightarrow> 'w::len word" where
  "get_le 0 d i = 0"
| "get_le (Suc n) d i = ucast (d i) OR push_bit 8 (get_le n d (Suc i))"

primrec put_le :: "nat \<Rightarrow> (nat \<Rightarrow> byte) \<Rightarrow> nat \<Rightarrow> 'w::len word \<Rightarrow> nat \<Rightarrow> byte" where
  "put_le 0 d i v = d"
| "put_le (Suc n) d i v = (put_le n d (Suc i) (drop_bit 8 v))(i := ucast v)"

definition get16 :: "(nat \<Rightarrow> byte) \<Rightarrow> nat \<Rightarrow> 16 word" where "get16 d i = get_le 2 d i"
definition get32 :: "(nat \<Rightarrow> byte) \<Rightarrow> nat \<Rightarrow> 32 word" where "get32 d i = get_le 4 d i"
definition get64 :: "(nat \<Rightarrow> byte) \<Rightarrow> nat \<Rightarrow> 64 word" where "get64 d i = get_le 8 d i"
definition put16 :: "(nat \<Rightarrow> byte) \<Rightarrow> nat \<Rightarrow> 16 word \<Rightarrow> nat \<Rightarrow> byte" where "put16 d i v = put_le 2 d i v"
definition put32 :: "(nat \<Rightarrow> byte) \<Rightarrow> nat \<Rightarrow> 32 word \<Rightarrow> nat \<Rightarrow> byte" where "put32 d i v = put_le 4 d i v"
definition put64 :: "(nat \<Rightarrow> byte) \<Rightarrow> nat \<Rightarrow> 64 word \<Rightarrow> nat \<Rightarrow> byte" where "put64 d i v = put_le 8 d i v"

definition upd_data :: "nat \<Rightarrow> ((nat \<Rightarrow> byte) \<Rightarrow> nat \<Rightarrow> byte) \<Rightarrow> ('a disks_scheme, unit) km" where
  "upd_data b f = upd_buf b (\<lambda>x. x\<lparr>b_data := f (b_data x)\<rparr>)"

text \<open>\<open>memmove\<close> of a whole block from buffer to buffer.\<close>

definition copy_block :: "nat \<Rightarrow> nat \<Rightarrow> ('a disks_scheme, unit) km" where
  "copy_block d s =
     bind (gets (\<lambda>st. b_data (bufs st s))) (\<lambda>src.
     upd_data d (\<lambda>dst i. if i < BSIZE then src i else dst i))"

end
