(* ===== verification/Xv6_Log.thy ===== *)
theory Xv6_Log
  imports Xv6_Bio
begin

text \<open>The write-ahead log (\<open>log.c\<close>): transactions over several blocks, commit and recovery.\<close>

section \<open>Operations\<close>

text \<open>\<open>struct log\<close> with its in-memory header.\<close>

record klog =
  lg_start :: int
  lg_size :: int
  lg_outstanding :: int
  lg_committing :: bool
  lg_dev :: int
  lh_n :: int
  lh_block :: "nat \<Rightarrow> int"

record logs = disks +
  klog :: klog

definition upd_log :: "(klog \<Rightarrow> klog) \<Rightarrow> ('a logs_scheme, unit) km" where
  "upd_log f = modify (\<lambda>s. s\<lparr>klog := f (klog s)\<rparr>)"

definition log_bread :: "'a logs_scheme env \<Rightarrow> int \<Rightarrow> ('a logs_scheme, nat) km" where
  "log_bread env bno = bind (gets (\<lambda>s. lg_dev (klog s))) (\<lambda>dev. bread env (word_of_int dev) (word_of_int bno))"

definition install_one :: "'a logs_scheme env \<Rightarrow> bool \<Rightarrow> nat \<Rightarrow> ('a logs_scheme, unit) km" where
  "install_one env recovering tail =
     bind (gets (\<lambda>s. lg_start (klog s))) (\<lambda>start.
     bind (log_bread env (start + int tail + 1)) (\<lambda>lbuf.
     bind (gets (\<lambda>s. lh_block (klog s) tail)) (\<lambda>bno.
     bind (log_bread env bno) (\<lambda>dbuf. block [
       copy_block dbuf lbuf,
       bwrite env dbuf,
       only_if (\<not> recovering) (bunpin dbuf),
       brelse lbuf,
       brelse dbuf]))))"

text \<open>The loop bound \<open>log.lh.n\<close> is read again on every round, as in the source.\<close>

definition for_logged :: "(nat \<Rightarrow> ('a logs_scheme, unit) km) \<Rightarrow> ('a logs_scheme, unit) km" where
  "for_logged body =
     loop (\<lambda>i. bind (gets (\<lambda>s. lh_n (klog s))) (\<lambda>n.
       if int i < n then bind (body i) (\<lambda>_. ret (Inl (Suc i))) else ret (Inr ()))) 0"

definition install_trans :: "'a logs_scheme env \<Rightarrow> bool \<Rightarrow> ('a logs_scheme, unit) km" where
  "install_trans env recovering = for_logged (install_one env recovering)"

text \<open>The header block is an \<open>int\<close> count and \<open>LOGSIZE\<close> block numbers.\<close>

definition read_head :: "'a logs_scheme env \<Rightarrow> ('a logs_scheme, unit) km" where
  "read_head env =
     bind (gets (\<lambda>s. lg_start (klog s))) (\<lambda>start.
     bind (log_bread env start) (\<lambda>buf. block [
       bind (gets (\<lambda>s. b_data (bufs s buf))) (\<lambda>d. upd_log (\<lambda>l. l\<lparr>lh_n := sint (get32 d 0)\<rparr>)),
       for_logged (\<lambda>i.
         if i \<ge> LOGSIZE then fault ''log.lh.block''
         else bind (gets (\<lambda>s. b_data (bufs s buf))) (\<lambda>d.
           upd_log (\<lambda>l. l\<lparr>lh_block := (lh_block l)(i := sint (get32 d (4 + 4 * i)))\<rparr>))),
       brelse buf]))"

definition write_head :: "'a logs_scheme env \<Rightarrow> ('a logs_scheme, unit) km" where
  "write_head env =
     bind (gets (\<lambda>s. lg_start (klog s))) (\<lambda>start.
     bind (log_bread env start) (\<lambda>buf. block [
       bind (gets (\<lambda>s. lh_n (klog s))) (\<lambda>n. upd_data buf (\<lambda>d. put32 d 0 (word_of_int n))),
       for_logged (\<lambda>i.
         if i \<ge> LOGSIZE then fault ''log.lh.block''
         else bind (gets (\<lambda>s. lh_block (klog s) i)) (\<lambda>v.
           upd_data buf (\<lambda>d. put32 d (4 + 4 * i) (word_of_int v)))),
       bwrite env buf,
       brelse buf]))"

definition recover_from_log :: "'a logs_scheme env \<Rightarrow> ('a logs_scheme, unit) km" where
  "recover_from_log env = block [
     read_head env,
     install_trans env True,
     upd_log (\<lambda>l. l\<lparr>lh_n := 0\<rparr>),
     write_head env]"

text \<open>\<open>sizeof(struct logheader) >= BSIZE\<close> is \<open>4 + 4 * LOGSIZE \<ge> BSIZE\<close>.\<close>

definition initlog :: "'a logs_scheme env \<Rightarrow> int \<Rightarrow> uint \<Rightarrow> uint \<Rightarrow> ('a logs_scheme, unit) km" where
  "initlog env dev logstart nlog = block [
     panic_if (4 + 4 * LOGSIZE \<ge> BSIZE) ''initlog: too big logheader'',
     initlock LogLock ''log'',
     upd_log (\<lambda>l. l\<lparr>lg_start := sint logstart, lg_size := sint nlog, lg_dev := dev\<rparr>),
     recover_from_log env]"

definition begin_op :: "'a logs_scheme env \<Rightarrow> ('a logs_scheme, unit) km" where
  "begin_op env =
     bind (acquire LogLock) (\<lambda>_.
     loop (\<lambda>_.
       bind (gets klog) (\<lambda>l.
       if lg_committing l then bind (sleep env ChanLog LogLock) (\<lambda>_. ret (Inl ()))
       else if int32 (lh_n l + int32 (int32 (lg_outstanding l + 1) * int MAXOPBLOCKS)) > int LOGSIZE then
         bind (sleep env ChanLog LogLock) (\<lambda>_. ret (Inl ()))
       else bind (block [
           upd_log (\<lambda>l. l\<lparr>lg_outstanding := int32 (lg_outstanding l + 1)\<rparr>),
           release LogLock]) (\<lambda>_. ret (Inr ())))) ())"

definition write_log_one :: "'a logs_scheme env \<Rightarrow> nat \<Rightarrow> ('a logs_scheme, unit) km" where
  "write_log_one env tail =
     bind (gets (\<lambda>s. lg_start (klog s))) (\<lambda>start.
     bind (log_bread env (start + int tail + 1)) (\<lambda>to.
     bind (gets (\<lambda>s. lh_block (klog s) tail)) (\<lambda>bno.
     bind (log_bread env bno) (\<lambda>from. block [
       copy_block to from,
       bwrite env to,
       brelse from,
       brelse to]))))"

definition write_log :: "'a logs_scheme env \<Rightarrow> ('a logs_scheme, unit) km" where
  "write_log env = for_logged (write_log_one env)"

definition commit :: "'a logs_scheme env \<Rightarrow> ('a logs_scheme, unit) km" where
  "commit env =
     bind (gets (\<lambda>s. lh_n (klog s))) (\<lambda>n.
     only_if (n > 0) (block [
       write_log env,
       write_head env,
       install_trans env False,
       upd_log (\<lambda>l. l\<lparr>lh_n := 0\<rparr>),
       write_head env]))"

text \<open>The first critical section of \<open>end_op\<close>; the result tells whether to commit.\<close>

definition end_op_enter :: "('a logs_scheme, bool) km" where
  "end_op_enter =
     bind (block [
       acquire LogLock,
       upd_log (\<lambda>l. l\<lparr>lg_outstanding := int32 (lg_outstanding l - 1)\<rparr>),
       bind (gets (\<lambda>s. lg_committing (klog s))) (\<lambda>c. panic_if c ''log.committing'')]) (\<lambda>_.
     bind (gets (\<lambda>s. lg_outstanding (klog s) = 0)) (\<lambda>do_commit.
     bind (if do_commit then upd_log (\<lambda>l. l\<lparr>lg_committing := True\<rparr>) else wakeup ChanLog) (\<lambda>_.
     bind (release LogLock) (\<lambda>_. ret do_commit))))"

definition end_op :: "'a logs_scheme env \<Rightarrow> ('a logs_scheme, unit) km" where
  "end_op env =
     bind end_op_enter (\<lambda>do_commit.
     only_if do_commit (block [
       commit env,
       acquire LogLock,
       upd_log (\<lambda>l. l\<lparr>lg_committing := False\<rparr>),
       wakeup ChanLog,
       release LogLock]))"

text \<open>The slot of \<open>log_write\<close>: the first with this block number, or the one after the last.\<close>

definition log_slot :: "klog \<Rightarrow> uint \<Rightarrow> nat" where
  "log_slot l bno =
     length (takeWhile (\<lambda>i. word_of_int (lh_block l i) \<noteq> bno) [0..<nat (lh_n l)])"

definition log_write :: "nat \<Rightarrow> ('a logs_scheme, unit) km" where
  "log_write b = block [
     acquire LogLock,
     bind (gets klog) (\<lambda>l. block [
       panic_if (lh_n l \<ge> int LOGSIZE \<or> lh_n l \<ge> int32 (lg_size l - 1)) ''too big a transaction'',
       panic_if (lg_outstanding l < 1) ''log_write outside of trans'']),
     bind (gets (\<lambda>s. (log_slot (klog s) (b_blockno (bufs s b)), b_blockno (bufs s b)))) (\<lambda>(i, bno). block [
       upd_log (\<lambda>l. l\<lparr>lh_block := (lh_block l)(i := sint bno)\<rparr>),
       bind (gets (\<lambda>s. lh_n (klog s))) (\<lambda>n.
         only_if (int i = n) (block [
           bpin b,
           upd_log (\<lambda>l. l\<lparr>lh_n := int32 (lh_n l + 1)\<rparr>)]))]),
     release LogLock]"

end
