(* ===== verification/Xv6_Fs.thy ===== *)
theory Xv6_Fs
  imports Xv6_Log
begin

text \<open>
  The file system (\<open>fs.c\<close>): block allocation, inodes and the inode table, file contents,
  directories and path names. On-disk structures are read and written at their offsets in the
  data of a buffer; in-memory inodes are records.
\<close>

section \<open>State\<close>

definition ROOTINO :: uint where "ROOTINO = 1"
definition FSMAGIC :: uint where "FSMAGIC = 0x10203040"
abbreviation (input) NDIRECT :: nat where "NDIRECT \<equiv> 12"
abbreviation (input) NINDIRECT :: nat where "NINDIRECT \<equiv> 256"
abbreviation (input) MAXFILE :: nat where "MAXFILE \<equiv> 268"
abbreviation (input) IPB :: nat where "IPB \<equiv> 16"
abbreviation (input) BPB :: nat where "BPB \<equiv> 8192"
abbreviation (input) DIRSIZ :: nat where "DIRSIZ \<equiv> 14"
abbreviation (input) DIRENT_SIZE :: nat where "DIRENT_SIZE \<equiv> 16"
abbreviation (input) T_DIR :: "16 word" where "T_DIR \<equiv> 1"
abbreviation (input) T_FILE :: "16 word" where "T_FILE \<equiv> 2"
abbreviation (input) T_DEVICE :: "16 word" where "T_DEVICE \<equiv> 3"

record superblock =
  sb_magic :: uint
  sb_size :: uint
  sb_nblocks :: uint
  sb_ninodes :: uint
  sb_nlog :: uint
  sb_logstart :: uint
  sb_inodestart :: uint
  sb_bmapstart :: uint

text \<open>\<open>struct inode\<close>; its sleep lock is \<open>SleepInode i\<close> for entry \<open>i\<close> of the table.\<close>

record inode =
  i_dev :: uint
  i_inum :: uint
  i_ref :: int
  i_valid :: bool
  i_type :: "16 word"
  i_major :: "16 word"
  i_minor :: "16 word"
  i_nlink :: "16 word"
  i_size :: uint
  i_addrs :: "nat \<Rightarrow> uint"

record fss = logs +
  sb :: superblock
  itable :: "nat \<Rightarrow> inode"

definition upd_inode :: "nat \<Rightarrow> (inode \<Rightarrow> inode) \<Rightarrow> ('a fss_scheme, unit) km" where
  "upd_inode ip f = modify (\<lambda>s. s\<lparr>itable := (itable s)(ip := f (itable s ip))\<rparr>)"

definition IBLOCK :: "uint \<Rightarrow> superblock \<Rightarrow> uint" where
  "IBLOCK i b = i div of_nat IPB + sb_inodestart b"

definition BBLOCK :: "uint \<Rightarrow> superblock \<Rightarrow> uint" where
  "BBLOCK b s = b div of_nat BPB + sb_bmapstart s"

section \<open>Super block\<close>

definition sb_of_bytes :: "(nat \<Rightarrow> byte) \<Rightarrow> superblock" where
  "sb_of_bytes d = \<lparr>sb_magic = get32 d 0, sb_size = get32 d 4, sb_nblocks = get32 d 8,
     sb_ninodes = get32 d 12, sb_nlog = get32 d 16, sb_logstart = get32 d 20,
     sb_inodestart = get32 d 24, sb_bmapstart = get32 d 28\<rparr>"

definition readsb :: "'a fss_scheme env \<Rightarrow> uint \<Rightarrow> ('a fss_scheme, unit) km" where
  "readsb env dev =
     bind (bread env dev 1) (\<lambda>bp. block [
       modify (\<lambda>s. s\<lparr>sb := sb_of_bytes (b_data (bufs s bp))\<rparr>),
       brelse bp])"

definition fsinit :: "'a fss_scheme env \<Rightarrow> int \<Rightarrow> ('a fss_scheme, unit) km" where
  "fsinit env dev =
     bind (readsb env (word_of_int dev)) (\<lambda>_.
     bind (gets sb) (\<lambda>b. block [
       panic_if (sb_magic b \<noteq> FSMAGIC) ''invalid file system'',
       initlog env dev (sb_logstart b) (sb_nlog b)]))"

section \<open>Blocks\<close>

definition bzero :: "'a fss_scheme env \<Rightarrow> uint \<Rightarrow> uint \<Rightarrow> ('a fss_scheme, unit) km" where
  "bzero env dev bno =
     bind (bread env dev bno) (\<lambda>bp. block [
       upd_data bp (\<lambda>d i. if i < BSIZE then 0 else d i),
       log_write bp,
       brelse bp])"

text \<open>Bit \<open>bi\<close> of a bitmap block.\<close>

definition bit_mask :: "nat \<Rightarrow> byte" where
  "bit_mask bi = push_bit (bi mod 8) 1"

definition bit_used :: "(nat \<Rightarrow> byte) \<Rightarrow> nat \<Rightarrow> bool" where
  "bit_used d bi \<longleftrightarrow> d (bi div 8) AND bit_mask bi \<noteq> 0"

definition bit_set :: "nat \<Rightarrow> (nat \<Rightarrow> byte) \<Rightarrow> nat \<Rightarrow> byte" where
  "bit_set bi d = d(bi div 8 := d (bi div 8) OR bit_mask bi)"

definition bit_clear :: "nat \<Rightarrow> (nat \<Rightarrow> byte) \<Rightarrow> nat \<Rightarrow> byte" where
  "bit_clear bi d = d(bi div 8 := d (bi div 8) AND NOT (bit_mask bi))"

text \<open>The inner loop of \<open>balloc\<close>: the first free bit of the bitmap block of blocks \<open>b\<close>, \<open>b+1\<close>, \dots\<close>

definition balloc_find :: "superblock \<Rightarrow> nat \<Rightarrow> (nat \<Rightarrow> byte) \<Rightarrow> nat option" where
  "balloc_find s b d =
     find (\<lambda>bi. \<not> bit_used d bi) [0..<min BPB (unat (sb_size s) - b)]"

definition balloc_block :: "'a fss_scheme env \<Rightarrow> uint \<Rightarrow> nat \<Rightarrow> ('a fss_scheme, uint option) km" where
  "balloc_block env dev b =
     bind (gets (\<lambda>s. BBLOCK (of_nat b) (sb s))) (\<lambda>bno.
     bind (bread env dev bno) (\<lambda>bp.
     bind (gets (\<lambda>s. balloc_find (sb s) b (b_data (bufs s bp)))) (\<lambda>r. case r of
       Some bi \<Rightarrow> bind (block [
           upd_data bp (bit_set bi),
           log_write bp,
           brelse bp,
           bzero env dev (of_nat (b + bi))]) (\<lambda>_. ret (Some (of_nat (b + bi))))
     | None \<Rightarrow> bind (brelse bp) (\<lambda>_. ret None))))"

definition balloc :: "'a fss_scheme env \<Rightarrow> uint \<Rightarrow> ('a fss_scheme, uint) km" where
  "balloc env dev =
     bind (gets (\<lambda>s. unat (sb_size (sb s)))) (\<lambda>size.
     bind (scan (\<lambda>k. balloc_block env dev (k * BPB)) [0..<(size + BPB - 1) div BPB]) (\<lambda>r. case r of
       Some b \<Rightarrow> ret b
     | None \<Rightarrow> panic ''balloc: out of blocks''))"

definition bfree :: "'a fss_scheme env \<Rightarrow> uint \<Rightarrow> uint \<Rightarrow> ('a fss_scheme, unit) km" where
  "bfree env dev b =
     bind (gets (\<lambda>s. BBLOCK b (sb s))) (\<lambda>bno.
     bind (bread env dev bno) (\<lambda>bp.
     let bi = unat b mod BPB in block [
       bind (gets (\<lambda>s. bit_used (b_data (bufs s bp)) bi)) (\<lambda>used. panic_if (\<not> used) ''freeing free block''),
       upd_data bp (bit_clear bi),
       log_write bp,
       brelse bp]))"

section \<open>Inodes\<close>

definition iinit :: "('a fss_scheme, unit) km" where
  "iinit = block [
     initlock ItableLock ''itable'',
     for_each (\<lambda>i. initsleeplock (SleepInode i) ''inode'') [0..<NINODE]]"

text \<open>\<open>struct dinode\<close> at its offset in a block.\<close>

definition dinode_off :: "uint \<Rightarrow> nat" where
  "dinode_off inum = 64 * (unat inum mod IPB)"

definition dinode_to_inode :: "(nat \<Rightarrow> byte) \<Rightarrow> nat \<Rightarrow> inode \<Rightarrow> inode" where
  "dinode_to_inode d o1 x = x\<lparr>i_type := get16 d o1, i_major := get16 d (o1 + 2),
     i_minor := get16 d (o1 + 4), i_nlink := get16 d (o1 + 6), i_size := get32 d (o1 + 8),
     i_addrs := (\<lambda>k. if k \<le> NDIRECT then get32 d (o1 + 12 + 4 * k) else i_addrs x k)\<rparr>"

definition inode_to_dinode :: "inode \<Rightarrow> nat \<Rightarrow> (nat \<Rightarrow> byte) \<Rightarrow> nat \<Rightarrow> byte" where
  "inode_to_dinode x o1 d =
     (let d = put16 d o1 (i_type x);
          d = put16 d (o1 + 2) (i_major x);
          d = put16 d (o1 + 4) (i_minor x);
          d = put16 d (o1 + 6) (i_nlink x);
          d = put32 d (o1 + 8) (i_size x)
      in fold (\<lambda>k d. put32 d (o1 + 12 + 4 * k) (i_addrs x k)) [0..<Suc NDIRECT] d)"

definition iupdate :: "'a fss_scheme env \<Rightarrow> nat \<Rightarrow> ('a fss_scheme, unit) km" where
  "iupdate env ip =
     bind (gets (\<lambda>s. (itable s ip, sb s))) (\<lambda>(x, b).
     bind (bread env (i_dev x) (IBLOCK (i_inum x) b)) (\<lambda>bp.
     bind (gets (\<lambda>s. itable s ip)) (\<lambda>x. block [
       upd_data bp (inode_to_dinode x (dinode_off (i_inum x))),
       log_write bp,
       brelse bp])))"

text \<open>The search of \<open>iget\<close>: the entry with this number, else the first free slot.\<close>

primrec iget_search :: "(nat \<Rightarrow> inode) \<Rightarrow> uint \<Rightarrow> uint \<Rightarrow> nat list \<Rightarrow> nat option \<Rightarrow> nat + nat option" where
  "iget_search t dev inum [] slot = Inr slot"
| "iget_search t dev inum (ip # ips) slot =
     (if i_ref (t ip) > 0 \<and> i_dev (t ip) = dev \<and> i_inum (t ip) = inum then Inl ip
      else iget_search t dev inum ips (if slot = None \<and> i_ref (t ip) = 0 then Some ip else slot))"

definition iget :: "uint \<Rightarrow> uint \<Rightarrow> ('a fss_scheme, nat) km" where
  "iget dev inum =
     bind (acquire ItableLock) (\<lambda>_.
     bind (gets (\<lambda>s. iget_search (itable s) dev inum [0..<NINODE] None)) (\<lambda>r. case r of
       Inl ip \<Rightarrow> bind (block [
           upd_inode ip (\<lambda>x. x\<lparr>i_ref := int32 (i_ref x + 1)\<rparr>),
           release ItableLock]) (\<lambda>_. ret ip)
     | Inr None \<Rightarrow> panic ''iget: no inodes''
     | Inr (Some ip) \<Rightarrow> bind (block [
           upd_inode ip (\<lambda>x. x\<lparr>i_dev := dev, i_inum := inum, i_ref := 1, i_valid := False\<rparr>),
           release ItableLock]) (\<lambda>_. ret ip)))"

definition ialloc_try :: "'a fss_scheme env \<Rightarrow> uint \<Rightarrow> 16 word \<Rightarrow> nat \<Rightarrow> ('a fss_scheme, nat option) km" where
  "ialloc_try env dev type inum =
     bind (gets (\<lambda>s. IBLOCK (of_nat inum) (sb s))) (\<lambda>bno.
     bind (bread env dev bno) (\<lambda>bp.
     let dip = dinode_off (of_nat inum) in
     bind (gets (\<lambda>s. get16 (b_data (bufs s bp)) dip)) (\<lambda>t.
     if t = 0 then
       bind (block [
         upd_data bp (\<lambda>d i. if dip \<le> i \<and> i < dip + 64 then 0 else d i),
         upd_data bp (\<lambda>d. put16 d dip type),
         log_write bp,
         brelse bp]) (\<lambda>_.
       bind (iget dev (of_nat inum)) (\<lambda>ip. ret (Some ip)))
     else bind (brelse bp) (\<lambda>_. ret None))))"

definition ialloc :: "'a fss_scheme env \<Rightarrow> uint \<Rightarrow> 16 word \<Rightarrow> ('a fss_scheme, nat) km" where
  "ialloc env dev type =
     bind (gets (\<lambda>s. unat (sb_ninodes (sb s)))) (\<lambda>n.
     bind (scan (ialloc_try env dev type) [1..<n]) (\<lambda>r. case r of
       Some ip \<Rightarrow> ret ip
     | None \<Rightarrow> panic ''ialloc: no inodes''))"

definition idup :: "nat \<Rightarrow> ('a fss_scheme, nat) km" where
  "idup ip =
     bind (block [
       acquire ItableLock,
       upd_inode ip (\<lambda>x. x\<lparr>i_ref := int32 (i_ref x + 1)\<rparr>),
       release ItableLock]) (\<lambda>_. ret ip)"

definition ilock_load :: "'a fss_scheme env \<Rightarrow> nat \<Rightarrow> ('a fss_scheme, unit) km" where
  "ilock_load env ip =
     bind (gets (\<lambda>s. (itable s ip, sb s))) (\<lambda>(x, b).
     bind (bread env (i_dev x) (IBLOCK (i_inum x) b)) (\<lambda>bp. block [
       bind (gets (\<lambda>s. b_data (bufs s bp))) (\<lambda>d.
         upd_inode ip (\<lambda>x. dinode_to_inode d (dinode_off (i_inum x)) x)),
       brelse bp,
       upd_inode ip (\<lambda>x. x\<lparr>i_valid := True\<rparr>),
       bind (gets (\<lambda>s. i_type (itable s ip))) (\<lambda>t. panic_if (t = 0) ''ilock: no type'')]))"

definition ilock :: "'a fss_scheme env \<Rightarrow> nat option \<Rightarrow> ('a fss_scheme, unit) km" where
  "ilock env ipp = (case ipp of
     None \<Rightarrow> panic ''ilock''
   | Some ip \<Rightarrow> block [
       bind (gets (\<lambda>s. i_ref (itable s ip))) (\<lambda>r. panic_if (r < 1) ''ilock''),
       acquiresleep env (SleepInode ip),
       bind (gets (\<lambda>s. i_valid (itable s ip))) (\<lambda>v. only_if (\<not> v) (ilock_load env ip))])"

definition iunlock :: "nat option \<Rightarrow> ('a fss_scheme, unit) km" where
  "iunlock ipp = (case ipp of
     None \<Rightarrow> panic ''iunlock''
   | Some ip \<Rightarrow> block [
       bind (holdingsleep (SleepInode ip)) (\<lambda>h.
       bind (gets (\<lambda>s. i_ref (itable s ip))) (\<lambda>r. panic_if (\<not> h \<or> r < 1) ''iunlock'')),
       releasesleep (SleepInode ip)])"

definition itrunc_direct :: "'a fss_scheme env \<Rightarrow> nat \<Rightarrow> nat \<Rightarrow> ('a fss_scheme, unit) km" where
  "itrunc_direct env ip i =
     bind (gets (\<lambda>s. itable s ip)) (\<lambda>x.
     only_if (i_addrs x i \<noteq> 0) (block [
       bfree env (i_dev x) (i_addrs x i),
       upd_inode ip (\<lambda>x. x\<lparr>i_addrs := (i_addrs x)(i := 0)\<rparr>)]))"

definition itrunc_indirect :: "'a fss_scheme env \<Rightarrow> nat \<Rightarrow> ('a fss_scheme, unit) km" where
  "itrunc_indirect env ip =
     bind (gets (\<lambda>s. itable s ip)) (\<lambda>x.
     only_if (i_addrs x NDIRECT \<noteq> 0) (
       bind (bread env (i_dev x) (i_addrs x NDIRECT)) (\<lambda>bp. block [
         for_each (\<lambda>j.
           bind (gets (\<lambda>s. get32 (b_data (bufs s bp)) (4 * j))) (\<lambda>a.
           bind (gets (\<lambda>s. i_dev (itable s ip))) (\<lambda>dev.
           only_if (a \<noteq> 0) (bfree env dev a)))) [0..<NINDIRECT],
         brelse bp,
         bind (gets (\<lambda>s. itable s ip)) (\<lambda>x. bfree env (i_dev x) (i_addrs x NDIRECT)),
         upd_inode ip (\<lambda>x. x\<lparr>i_addrs := (i_addrs x)(NDIRECT := 0)\<rparr>)])))"

definition itrunc :: "'a fss_scheme env \<Rightarrow> nat \<Rightarrow> ('a fss_scheme, unit) km" where
  "itrunc env ip = block [
     for_each (itrunc_direct env ip) [0..<NDIRECT],
     itrunc_indirect env ip,
     upd_inode ip (\<lambda>x. x\<lparr>i_size := 0\<rparr>),
     iupdate env ip]"

definition iput :: "'a fss_scheme env \<Rightarrow> nat \<Rightarrow> ('a fss_scheme, unit) km" where
  "iput env ip = block [
     acquire ItableLock,
     bind (gets (\<lambda>s. itable s ip)) (\<lambda>x.
       only_if (i_ref x = 1 \<and> i_valid x \<and> i_nlink x = 0) (block [
         acquiresleep env (SleepInode ip),
         release ItableLock,
         itrunc env ip,
         upd_inode ip (\<lambda>x. x\<lparr>i_type := 0\<rparr>),
         iupdate env ip,
         upd_inode ip (\<lambda>x. x\<lparr>i_valid := False\<rparr>),
         releasesleep (SleepInode ip),
         acquire ItableLock])),
     upd_inode ip (\<lambda>x. x\<lparr>i_ref := int32 (i_ref x - 1)\<rparr>),
     release ItableLock]"

definition iunlockput :: "'a fss_scheme env \<Rightarrow> nat \<Rightarrow> ('a fss_scheme, unit) km" where
  "iunlockput env ip = block [iunlock (Some ip), iput env ip]"

section \<open>Contents\<close>

definition bmap_direct :: "'a fss_scheme env \<Rightarrow> nat \<Rightarrow> nat \<Rightarrow> ('a fss_scheme, uint) km" where
  "bmap_direct env ip k =
     bind (gets (\<lambda>s. itable s ip)) (\<lambda>x.
     if i_addrs x k = 0 then
       bind (balloc env (i_dev x)) (\<lambda>addr.
       bind (upd_inode ip (\<lambda>x. x\<lparr>i_addrs := (i_addrs x)(k := addr)\<rparr>)) (\<lambda>_. ret addr))
     else ret (i_addrs x k))"

definition bmap_indirect :: "'a fss_scheme env \<Rightarrow> nat \<Rightarrow> nat \<Rightarrow> ('a fss_scheme, uint) km" where
  "bmap_indirect env ip bn =
     bind (bmap_direct env ip NDIRECT) (\<lambda>addr.
     bind (gets (\<lambda>s. i_dev (itable s ip))) (\<lambda>dev.
     bind (bread env dev addr) (\<lambda>bp.
     bind (gets (\<lambda>s. get32 (b_data (bufs s bp)) (4 * bn))) (\<lambda>a.
     bind (if a = 0 then
         bind (balloc env dev) (\<lambda>a.
         bind (block [upd_data bp (\<lambda>d. put32 d (4 * bn) a), log_write bp]) (\<lambda>_. ret a))
       else ret a) (\<lambda>a.
     bind (brelse bp) (\<lambda>_. ret a))))))"

definition bmap :: "'a fss_scheme env \<Rightarrow> nat \<Rightarrow> uint \<Rightarrow> ('a fss_scheme, uint) km" where
  "bmap env ip bn =
     (if bn < of_nat NDIRECT then bmap_direct env ip (unat bn)
      else if bn - of_nat NDIRECT < of_nat NINDIRECT then bmap_indirect env ip (unat (bn - of_nat NDIRECT))
      else panic ''bmap: out of range'')"

record stat =
  st_dev :: int
  st_ino :: uint
  st_type :: "16 word"
  st_nlink :: "16 word"
  st_size :: addr

definition stati :: "inode \<Rightarrow> stat" where
  "stati x = \<lparr>st_dev = sint (i_dev x), st_ino = i_inum x, st_type = i_type x, st_nlink = i_nlink x,
     st_size = ucast (i_size x)\<rparr>"

text \<open>The bytes of one round: \<open>min(n - tot, BSIZE - off%BSIZE)\<close>.\<close>

definition io_chunk :: "uint \<Rightarrow> uint \<Rightarrow> uint \<Rightarrow> uint" where
  "io_chunk n tot off = min (n - tot) (of_nat BSIZE - off mod of_nat BSIZE)"

definition file_block :: "'a fss_scheme env \<Rightarrow> nat \<Rightarrow> uint \<Rightarrow> ('a fss_scheme, nat) km" where
  "file_block env ip off =
     bind (bmap env ip (off div of_nat BSIZE)) (\<lambda>addr.
     bind (gets (\<lambda>s. i_dev (itable s ip))) (\<lambda>dev.
     bread env dev addr))"

definition readi_step ::
  "'a fss_scheme env \<Rightarrow> nat \<Rightarrow> uint \<Rightarrow> uint \<times> uint \<times> 'a fss_scheme dest \<Rightarrow>
   ('a fss_scheme, uint \<times> uint \<times> 'a fss_scheme dest + int) km" where
  "readi_step env ip n = (\<lambda>(tot, off, dst).
     if \<not> tot < n then ret (Inr (sint tot))
     else bind (file_block env ip off) (\<lambda>bp.
       let m = io_chunk n tot off in
       bind (either_copyout dst (\<lambda>s i. b_data (bufs s bp) (unat (off mod of_nat BSIZE) + i)) (ucast m)) (\<lambda>r.
       bind (brelse bp) (\<lambda>_.
       ret (if r = -1 then Inr (-1)
         else Inl (tot + m, off + m, dest_plus dst (unat m)))))))"

definition readi ::
  "'a fss_scheme env \<Rightarrow> nat \<Rightarrow> 'a fss_scheme dest \<Rightarrow> uint \<Rightarrow> uint \<Rightarrow> ('a fss_scheme, int) km" where
  "readi env ip dst off n =
     bind (gets (\<lambda>s. i_size (itable s ip))) (\<lambda>size.
     if off > size \<or> off + n < off then ret 0
     else loop (readi_step env ip (if off + n > size then size - off else n)) (0, off, dst))"

text \<open>The loop of \<open>writei\<close> ends with the bytes written and the offset reached.\<close>

definition writei_step ::
  "'a fss_scheme env \<Rightarrow> nat \<Rightarrow> uint \<Rightarrow> uint \<times> uint \<times> 'a fss_scheme source \<Rightarrow>
   ('a fss_scheme, uint \<times> uint \<times> 'a fss_scheme source + uint \<times> uint) km" where
  "writei_step env ip n = (\<lambda>(tot, off, src).
     if \<not> tot < n then ret (Inr (tot, off))
     else bind (file_block env ip off) (\<lambda>bp.
       let m = io_chunk n tot off in
       bind (either_copyin (\<lambda>i v s. s\<lparr>bufs := (bufs s)(bp := (bufs s bp)\<lparr>b_data :=
           (b_data (bufs s bp))(unat (off mod of_nat BSIZE) + i := v)\<rparr>)\<rparr>) src (ucast m)) (\<lambda>r.
       if r = -1 then bind (brelse bp) (\<lambda>_. ret (Inr (tot, off)))
       else bind (block [log_write bp, brelse bp]) (\<lambda>_.
         ret (Inl (tot + m, off + m, source_plus src (unat m)))))))"

definition writei ::
  "'a fss_scheme env \<Rightarrow> nat \<Rightarrow> 'a fss_scheme source \<Rightarrow> uint \<Rightarrow> uint \<Rightarrow> ('a fss_scheme, int) km" where
  "writei env ip src off n =
     bind (gets (\<lambda>s. i_size (itable s ip))) (\<lambda>size.
     if off > size \<or> off + n < off then ret (-1)
     else if off + n > of_nat (MAXFILE * BSIZE) then ret (-1)
     else bind (loop (writei_step env ip n) (0, off, src)) (\<lambda>(tot, off).
       bind (gets (\<lambda>s. i_size (itable s ip))) (\<lambda>size.
       bind (block [
         only_if (off > size) (upd_inode ip (\<lambda>x. x\<lparr>i_size := off\<rparr>)),
         iupdate env ip]) (\<lambda>_.
       ret (sint tot)))))"

section \<open>Directories\<close>

definition namecmp :: "(nat \<Rightarrow> byte) \<Rightarrow> (nat \<Rightarrow> byte) \<Rightarrow> int" where
  "namecmp s t = strncmp s t (of_nat DIRSIZ)"

text \<open>A directory entry in the buffer on the stack: two bytes of inode number, 14 of name.\<close>

definition dirent_inum :: "(nat \<Rightarrow> byte) \<Rightarrow> 16 word" where
  "dirent_inum de = get16 de 0"

definition dirent_name :: "(nat \<Rightarrow> byte) \<Rightarrow> nat \<Rightarrow> byte" where
  "dirent_name de = (\<lambda>i. de (2 + i))"

text \<open>Reading the entry at an offset; a short read panics.\<close>

definition read_dirent :: "'a fss_scheme env \<Rightarrow> nat \<Rightarrow> uint \<Rightarrow> string \<Rightarrow> ('a fss_scheme, nat \<Rightarrow> byte) km" where
  "read_dirent env dp off msg =
     bind (gets stack_owner) (\<lambda>ow.
     bind (readi env dp (KernDst (kbuf_dst ow)) off (of_nat DIRENT_SIZE)) (\<lambda>r.
     if r \<noteq> int DIRENT_SIZE then panic msg else gets (\<lambda>s. kbuf s ow)))"

text \<open>The result is the inode and the offset of the entry.\<close>

definition dirlookup :: "'a fss_scheme env \<Rightarrow> nat \<Rightarrow> (nat \<Rightarrow> byte) \<Rightarrow> ('a fss_scheme, (nat \<times> uint) option) km" where
  "dirlookup env dp name =
     bind (gets (\<lambda>s. i_type (itable s dp))) (\<lambda>t.
     if t \<noteq> T_DIR then panic ''dirlookup not DIR''
     else loop (\<lambda>off.
       bind (gets (\<lambda>s. i_size (itable s dp))) (\<lambda>size.
       if \<not> off < size then ret (Inr None)
       else bind (read_dirent env dp off ''dirlookup read'') (\<lambda>de.
         if dirent_inum de = 0 then ret (Inl (off + of_nat DIRENT_SIZE))
         else if namecmp name (dirent_name de) = 0 then
           bind (gets (\<lambda>s. i_dev (itable s dp))) (\<lambda>dev.
           bind (iget dev (ucast (dirent_inum de))) (\<lambda>ip. ret (Inr (Some (ip, off)))))
         else ret (Inl (off + of_nat DIRENT_SIZE))))) 0)"

text \<open>The entry \<open>dirlink\<close> writes: the rest of the stack buffer is what was read last.\<close>

definition make_dirent :: "(nat \<Rightarrow> byte) \<Rightarrow> (nat \<Rightarrow> byte) \<Rightarrow> uint \<Rightarrow> nat \<Rightarrow> byte" where
  "make_dirent de name inum =
     (let nm = strncpy (dirent_name de) name (int DIRSIZ)
      in put16 (\<lambda>i. if 2 \<le> i then nm (i - 2) else de i) 0 (ucast inum))"

definition dirlink_slot :: "'a fss_scheme env \<Rightarrow> nat \<Rightarrow> ('a fss_scheme, uint) km" where
  "dirlink_slot env dp =
     loop (\<lambda>off.
       bind (gets (\<lambda>s. i_size (itable s dp))) (\<lambda>size.
       if \<not> off < size then ret (Inr off)
       else bind (read_dirent env dp off ''dirlink read'') (\<lambda>de.
         ret (if dirent_inum de = 0 then Inr off else Inl (off + of_nat DIRENT_SIZE))))) 0"

definition dirlink :: "'a fss_scheme env \<Rightarrow> nat \<Rightarrow> (nat \<Rightarrow> byte) \<Rightarrow> uint \<Rightarrow> ('a fss_scheme, int) km" where
  "dirlink env dp name inum =
     bind (dirlookup env dp name) (\<lambda>r. case r of
       Some (ip, _) \<Rightarrow> bind (iput env ip) (\<lambda>_. ret (-1))
     | None \<Rightarrow>
         bind (dirlink_slot env dp) (\<lambda>off.
         bind (gets (\<lambda>s. make_dirent (kbuf s (stack_owner s)) name inum)) (\<lambda>de.
         bind (writei env dp (KernSrc (\<lambda>_. de)) off (of_nat DIRENT_SIZE)) (\<lambda>r.
         if r \<noteq> int DIRENT_SIZE then panic ''dirlink'' else ret 0))))"

section \<open>Path names\<close>

text \<open>
  A path is its bytes up to the terminator. The result is the rest of the path and the updated
  name buffer, or \<open>None\<close> for the null pointer.
\<close>

abbreviation (input) SLASH :: byte where "SLASH \<equiv> 47"

definition skipelem :: "byte list \<Rightarrow> (nat \<Rightarrow> byte) \<Rightarrow> (byte list \<times> (nat \<Rightarrow> byte)) option" where
  "skipelem path name =
     (let path = dropWhile (\<lambda>c. c = SLASH) path in
      if path = [] then None
      else
        let s = path;
            path = dropWhile (\<lambda>c. c \<noteq> SLASH) path;
            len = length s - length path;
            name = (if len \<ge> DIRSIZ then (\<lambda>i. if i < DIRSIZ then s ! i else name i)
                    else (\<lambda>i. if i < len then s ! i else name i)(len := 0))
        in Some (dropWhile (\<lambda>c. c = SLASH) path, name))"

definition namex_step ::
  "'a fss_scheme env \<Rightarrow> bool \<Rightarrow> nat \<times> byte list \<times> (nat \<Rightarrow> byte) \<Rightarrow>
   ('a fss_scheme, nat \<times> byte list \<times> (nat \<Rightarrow> byte) + (nat \<times> (nat \<Rightarrow> byte)) option) km" where
  "namex_step env parent = (\<lambda>(ip, path, name). case skipelem path name of
     None \<Rightarrow>
       if parent then bind (iput env ip) (\<lambda>_. ret (Inr None)) else ret (Inr (Some (ip, name)))
   | Some (path, name) \<Rightarrow>
       bind (ilock env (Some ip)) (\<lambda>_.
       bind (gets (\<lambda>s. i_type (itable s ip))) (\<lambda>t.
       if t \<noteq> T_DIR then bind (iunlockput env ip) (\<lambda>_. ret (Inr None))
       else if parent \<and> path = [] then bind (iunlock (Some ip)) (\<lambda>_. ret (Inr (Some (ip, name))))
       else bind (dirlookup env ip name) (\<lambda>r. case r of
           None \<Rightarrow> bind (iunlockput env ip) (\<lambda>_. ret (Inr None))
         | Some (next, _) \<Rightarrow> bind (iunlockput env ip) (\<lambda>_. ret (Inl (next, path, name)))))))"

definition namex ::
  "'a fss_scheme env \<Rightarrow> byte list \<Rightarrow> bool \<Rightarrow> (nat \<Rightarrow> byte) \<Rightarrow>
   ('a fss_scheme, (nat \<times> (nat \<Rightarrow> byte)) option) km" where
  "namex env path parent name =
     bind (if path \<noteq> [] \<and> hd path = SLASH then iget ROOTDEV ROOTINO
       else bind myproc (\<lambda>mp. deref mp (\<lambda>p.
         bind (gets (\<lambda>s. p_cwd (proc s p))) (\<lambda>cwd. deref cwd idup)))) (\<lambda>ip.
     loop (namex_step env parent) (ip, path, name))"

text \<open>The name buffer of \<open>namei\<close> is not read by anyone.\<close>

definition namei :: "'a fss_scheme env \<Rightarrow> byte list \<Rightarrow> ('a fss_scheme, nat option) km" where
  "namei env path = bind (namex env path False (\<lambda>_. 0)) (\<lambda>r. ret (map_option fst r))"

definition nameiparent ::
  "'a fss_scheme env \<Rightarrow> byte list \<Rightarrow> (nat \<Rightarrow> byte) \<Rightarrow> ('a fss_scheme, (nat \<times> (nat \<Rightarrow> byte)) option) km" where
  "nameiparent env path name = namex env path True name"

end
