(* ===== verification/Xv6_Pipe.thy ===== *)
theory Xv6_Pipe
  imports Xv6_Fs
begin

text \<open>
  Pipes (\<open>pipe.c\<close>). A pipe lives in a page of its own; \<open>pipes\<close> is the typed view of these pages,
  by their address.
\<close>

section \<open>State\<close>

abbreviation (input) PIPESIZE :: uint where "PIPESIZE \<equiv> 512"

record pipe =
  pi_data :: "nat \<Rightarrow> byte"
  pi_nread :: uint
  pi_nwrite :: uint
  pi_readopen :: bool
  pi_writeopen :: bool

record pipes = fss +
  pipes :: "addr \<Rightarrow> pipe"

definition upd_pipe :: "addr \<Rightarrow> (pipe \<Rightarrow> pipe) \<Rightarrow> ('a pipes_scheme, unit) km" where
  "upd_pipe pi f = modify (\<lambda>s. s\<lparr>pipes := (pipes s)(pi := f (pipes s pi))\<rparr>)"

section \<open>Operations\<close>

definition pipe_put :: "byte \<Rightarrow> pipe \<Rightarrow> pipe" where
  "pipe_put ch q = q\<lparr>pi_data := (pi_data q)(unat (pi_nwrite q mod PIPESIZE) := ch),
     pi_nwrite := pi_nwrite q + 1\<rparr>"

definition pipe_get :: "pipe \<Rightarrow> byte \<times> pipe" where
  "pipe_get q = (pi_data q (unat (pi_nread q mod PIPESIZE)), q\<lparr>pi_nread := pi_nread q + 1\<rparr>)"

definition pipe_full :: "pipe \<Rightarrow> bool" where
  "pipe_full q \<longleftrightarrow> pi_nwrite q = pi_nread q + PIPESIZE"

definition pipe_empty :: "pipe \<Rightarrow> bool" where
  "pipe_empty q \<longleftrightarrow> pi_nread q = pi_nwrite q"

definition pipeclose :: "addr \<Rightarrow> bool \<Rightarrow> ('a pipes_scheme, unit) km" where
  "pipeclose pi writable = block [
     acquire (PipeLock pi),
     (if writable then block [upd_pipe pi (\<lambda>q. q\<lparr>pi_writeopen := False\<rparr>), wakeup (ChanPipeRead pi)]
      else block [upd_pipe pi (\<lambda>q. q\<lparr>pi_readopen := False\<rparr>), wakeup (ChanPipeWrite pi)]),
     bind (gets (\<lambda>s. pipes s pi)) (\<lambda>q.
       if \<not> pi_readopen q \<and> \<not> pi_writeopen q then block [release (PipeLock pi), kfree pi]
       else release (PipeLock pi))]"

text \<open>The end of \<open>pipewrite\<close> and \<open>piperead\<close>: wake the other side, release, return the count.\<close>

definition pipe_finish :: "addr \<Rightarrow> chan \<Rightarrow> int \<Rightarrow> ('a pipes_scheme, int) km" where
  "pipe_finish pi chan i = bind (block [wakeup chan, release (PipeLock pi)]) (\<lambda>_. ret i)"

definition pipewrite_step ::
  "'a pipes_scheme env \<Rightarrow> addr \<Rightarrow> nat \<Rightarrow> addr \<Rightarrow> int \<Rightarrow> int \<Rightarrow> ('a pipes_scheme, int + int) km" where
  "pipewrite_step env pi pr addr n i =
     (if \<not> i < n then bind (pipe_finish pi (ChanPipeRead pi) i) (\<lambda>r. ret (Inr r))
      else bind (gets (\<lambda>s. (pipes s pi, proc s pr))) (\<lambda>(q, p).
        if \<not> pi_readopen q \<or> p_killed p then bind (release (PipeLock pi)) (\<lambda>_. ret (Inr (-1)))
        else if pipe_full q then
          bind (block [wakeup (ChanPipeRead pi), sleep env (ChanPipeWrite pi) (PipeLock pi)]) (\<lambda>_.
          ret (Inl i))
        else bind (copyin (p_pagetable p) (kbuf_dst (Some pr)) (addr + word_of_int i) 1) (\<lambda>r.
          if r = -1 then bind (pipe_finish pi (ChanPipeRead pi) i) (\<lambda>r. ret (Inr r))
          else bind (gets (\<lambda>s. kbuf s (Some pr) 0)) (\<lambda>ch.
            bind (upd_pipe pi (pipe_put ch)) (\<lambda>_. ret (Inl (i + 1)))))))"

definition pipewrite ::
  "'a pipes_scheme env \<Rightarrow> addr \<Rightarrow> addr \<Rightarrow> int \<Rightarrow> ('a pipes_scheme, int) km" where
  "pipewrite env pi addr n =
     bind myproc (\<lambda>mp.
     bind (acquire (PipeLock pi)) (\<lambda>_.
     loop (\<lambda>i. deref mp (\<lambda>pr. pipewrite_step env pi pr addr n i)) 0))"

text \<open>Waiting for data: \<open>False\<close> when the process was killed (the lock is then released).\<close>

definition piperead_wait :: "'a pipes_scheme env \<Rightarrow> addr \<Rightarrow> nat \<Rightarrow> ('a pipes_scheme, bool) km" where
  "piperead_wait env pi pr =
     loop (\<lambda>_.
       bind (gets (\<lambda>s. (pipes s pi, proc s pr))) (\<lambda>(q, p).
       if \<not> (pipe_empty q \<and> pi_writeopen q) then ret (Inr True)
       else if p_killed p then bind (release (PipeLock pi)) (\<lambda>_. ret (Inr False))
       else bind (sleep env (ChanPipeRead pi) (PipeLock pi)) (\<lambda>_. ret (Inl ())))) ()"

definition piperead_step ::
  "addr \<Rightarrow> nat \<Rightarrow> addr \<Rightarrow> int \<Rightarrow> int \<Rightarrow> ('a pipes_scheme, int + int) km" where
  "piperead_step pi pr addr n i =
     (if \<not> i < n then ret (Inr i)
      else bind (gets (\<lambda>s. (pipes s pi, proc s pr))) (\<lambda>(q, p).
        if pipe_empty q then ret (Inr i)
        else let (ch, q') = pipe_get q in
          bind (upd_pipe pi (\<lambda>_. q')) (\<lambda>_.
          bind (copyout (p_pagetable p) (addr + word_of_int i) (\<lambda>_ _. ch) 1) (\<lambda>r.
          ret (if r = -1 then Inr i else Inl (i + 1))))))"

definition piperead ::
  "'a pipes_scheme env \<Rightarrow> addr \<Rightarrow> addr \<Rightarrow> int \<Rightarrow> ('a pipes_scheme, int) km" where
  "piperead env pi addr n =
     bind myproc (\<lambda>mp.
     bind (acquire (PipeLock pi)) (\<lambda>_. deref mp (\<lambda>pr.
     bind (piperead_wait env pi pr) (\<lambda>ready.
     if \<not> ready then ret (-1)
     else bind (loop (piperead_step pi pr addr n) 0) (\<lambda>i.
       pipe_finish pi (ChanPipeWrite pi) i)))))"

end
