(* ===== verification/Xv6_File.thy ===== *)
theory Xv6_File
  imports Xv6_Pipe
begin

text \<open>
  Open files (\<open>file.c\<close>, and \<open>pipealloc\<close> of \<open>pipe.c\<close>). A file is an index into the file table; what
  is read or written is chosen by its type.
\<close>

section \<open>Operations\<close>

datatype ftype = FD_NONE | FD_PIPE | FD_INODE | FD_DEVICE

record kfile =
  f_type :: ftype
  f_ref :: int
  f_readable :: bool
  f_writable :: bool
  f_pipe :: addr
  f_ip :: "nat option"
  f_off :: uint
  f_major :: "16 word"

record files = pipes +
  ftable :: "nat \<Rightarrow> kfile"
  started :: bool

definition upd_file :: "nat \<Rightarrow> (kfile \<Rightarrow> kfile) \<Rightarrow> ('a files_scheme, unit) km" where
  "upd_file f g = modify (\<lambda>s. s\<lparr>ftable := (ftable s)(f := g (ftable s f))\<rparr>)"

definition fileinit :: "('a files_scheme, unit) km" where
  "fileinit = initlock FtableLock ''ftable''"

definition filealloc :: "('a files_scheme, nat option) km" where
  "filealloc =
     bind (acquire FtableLock) (\<lambda>_.
     bind (scan (\<lambda>f.
       bind (gets (\<lambda>s. f_ref (ftable s f))) (\<lambda>r.
       if r = 0 then bind (upd_file f (\<lambda>x. x\<lparr>f_ref := 1\<rparr>)) (\<lambda>_. ret (Some f)) else ret None))
       [0..<NFILE]) (\<lambda>r.
     bind (release FtableLock) (\<lambda>_. ret r)))"

definition filedup :: "nat \<Rightarrow> ('a files_scheme, nat) km" where
  "filedup f =
     bind (block [
       acquire FtableLock,
       bind (gets (\<lambda>s. f_ref (ftable s f))) (\<lambda>r. panic_if (r < 1) ''filedup''),
       upd_file f (\<lambda>x. x\<lparr>f_ref := int32 (f_ref x + 1)\<rparr>),
       release FtableLock]) (\<lambda>_. ret f)"

text \<open>What is done with the object of a file whose last reference is gone.\<close>

definition fileclose_object :: "'a files_scheme env \<Rightarrow> kfile \<Rightarrow> ('a files_scheme, unit) km" where
  "fileclose_object env ff =
     (if f_type ff = FD_PIPE then pipeclose (f_pipe ff) (f_writable ff)
      else if f_type ff = FD_INODE \<or> f_type ff = FD_DEVICE then block [
        begin_op env,
        deref (f_ip ff) (iput env),
        end_op env]
      else ret ())"

definition fileclose :: "'a files_scheme env \<Rightarrow> nat \<Rightarrow> ('a files_scheme, unit) km" where
  "fileclose env f =
     bind (block [
       acquire FtableLock,
       bind (gets (\<lambda>s. f_ref (ftable s f))) (\<lambda>r. panic_if (r < 1) ''fileclose''),
       upd_file f (\<lambda>x. x\<lparr>f_ref := int32 (f_ref x - 1)\<rparr>)]) (\<lambda>_.
     bind (gets (\<lambda>s. ftable s f)) (\<lambda>ff.
     if f_ref ff > 0 then release FtableLock
     else block [
       upd_file f (\<lambda>x. x\<lparr>f_ref := 0, f_type := FD_NONE\<rparr>),
       release FtableLock,
       fileclose_object env ff]))"

text \<open>\<open>struct stat\<close> in memory: 24 bytes.\<close>

definition stat_bytes :: "stat \<Rightarrow> nat \<Rightarrow> byte" where
  "stat_bytes st =
     put64 (put16 (put16 (put32 (put32 (\<lambda>_. 0) 0 (word_of_int (st_dev st))) 4 (st_ino st))
       8 (st_type st)) 10 (st_nlink st)) 16 (st_size st)"

definition filestat :: "'a files_scheme env \<Rightarrow> nat \<Rightarrow> addr \<Rightarrow> ('a files_scheme, int) km" where
  "filestat env f addr =
     bind myproc (\<lambda>mp.
     bind (gets (\<lambda>s. ftable s f)) (\<lambda>x.
     if f_type x = FD_INODE \<or> f_type x = FD_DEVICE then
       bind (ilock env (f_ip x)) (\<lambda>_.
       deref (f_ip x) (\<lambda>ip.
       bind (gets (\<lambda>s. stati (itable s ip))) (\<lambda>st.
       bind (iunlock (Some ip)) (\<lambda>_. deref mp (\<lambda>p.
       bind (gets (\<lambda>s. p_pagetable (proc s p))) (\<lambda>pt.
       bind (copyout pt addr (\<lambda>_. stat_bytes st) 24) (\<lambda>r.
       ret (if r < 0 then -1 else 0))))))))
     else ret (-1)))"

text \<open>A major number selects a device when it is in range and the device has the function.\<close>

definition dev_index :: "16 word \<Rightarrow> (nat \<Rightarrow> devfn option) \<Rightarrow> devfn option" where
  "dev_index major sw =
     (if sint major < 0 \<or> sint major \<ge> int NDEV then None else sw (nat (sint major)))"

definition dev_call ::
  "'a files_scheme env \<Rightarrow> devfn \<Rightarrow> addr \<Rightarrow> int \<Rightarrow> ('a files_scheme, int) km" where
  "dev_call env d addr n = (case d of
     ConsoleRead \<Rightarrow> consoleread env (UserDst addr) n
   | ConsoleWrite \<Rightarrow> consolewrite env (UserSrc addr) n)"

definition fileread :: "'a files_scheme env \<Rightarrow> nat \<Rightarrow> addr \<Rightarrow> int \<Rightarrow> ('a files_scheme, int) km" where
  "fileread env f addr n =
     bind (gets (\<lambda>s. (ftable s f, devsw_read s))) (\<lambda>(x, sw).
     if \<not> f_readable x then ret (-1)
     else case f_type x of
       FD_PIPE \<Rightarrow> piperead env (f_pipe x) addr n
     | FD_DEVICE \<Rightarrow> (case dev_index (f_major x) sw of
         None \<Rightarrow> ret (-1) | Some d \<Rightarrow> dev_call env d addr n)
     | FD_INODE \<Rightarrow>
         bind (ilock env (f_ip x)) (\<lambda>_. deref (f_ip x) (\<lambda>ip.
         bind (gets (\<lambda>s. f_off (ftable s f))) (\<lambda>off.
         bind (readi env ip (UserDst addr) off (word_of_int n)) (\<lambda>r.
         bind (block [
           only_if (r > 0) (upd_file f (\<lambda>x. x\<lparr>f_off := f_off x + word_of_int r\<rparr>)),
           iunlock (Some ip)]) (\<lambda>_. ret r)))))
     | FD_NONE \<Rightarrow> panic ''fileread'')"

abbreviation (input) WRITE_MAX :: int where "WRITE_MAX \<equiv> 3072"

definition filewrite_step ::
  "'a files_scheme env \<Rightarrow> nat \<Rightarrow> nat option \<Rightarrow> addr \<Rightarrow> int \<Rightarrow> int \<Rightarrow> ('a files_scheme, int + int) km" where
  "filewrite_step env f ipp addr n i =
     (if \<not> i < n then ret (Inr i)
      else let n1 = min (n - i) WRITE_MAX in
        bind (block [begin_op env, ilock env ipp]) (\<lambda>_. deref ipp (\<lambda>ip.
        bind (gets (\<lambda>s. f_off (ftable s f))) (\<lambda>off.
        bind (writei env ip (UserSrc (addr + word_of_int i)) off (word_of_int n1)) (\<lambda>r.
        bind (block [
          only_if (r > 0) (upd_file f (\<lambda>x. x\<lparr>f_off := f_off x + word_of_int r\<rparr>)),
          iunlock (Some ip),
          end_op env]) (\<lambda>_.
        ret (if r \<noteq> n1 then Inr i else Inl (i + r))))))))"

definition filewrite :: "'a files_scheme env \<Rightarrow> nat \<Rightarrow> addr \<Rightarrow> int \<Rightarrow> ('a files_scheme, int) km" where
  "filewrite env f addr n =
     bind (gets (\<lambda>s. (ftable s f, devsw_write s))) (\<lambda>(x, sw).
     if \<not> f_writable x then ret (-1)
     else case f_type x of
       FD_PIPE \<Rightarrow> pipewrite env (f_pipe x) addr n
     | FD_DEVICE \<Rightarrow> (case dev_index (f_major x) sw of
         None \<Rightarrow> ret (-1) | Some d \<Rightarrow> dev_call env d addr n)
     | FD_INODE \<Rightarrow>
         bind (loop (filewrite_step env f (f_ip x) addr n) 0) (\<lambda>i.
         ret (if i = n then n else -1))
     | FD_NONE \<Rightarrow> panic ''filewrite'')"

subsection \<open>Creating a pipe\<close>

definition pipealloc_bad ::
  "'a files_scheme env \<Rightarrow> addr \<Rightarrow> nat option \<Rightarrow> nat option \<Rightarrow>
   ('a files_scheme, (nat \<times> nat) option) km" where
  "pipealloc_bad env pi f0 f1 =
     bind (block [
       only_if (pi \<noteq> 0) (kfree pi),
       (case f0 of None \<Rightarrow> ret () | Some f \<Rightarrow> fileclose env f),
       (case f1 of None \<Rightarrow> ret () | Some f \<Rightarrow> fileclose env f)]) (\<lambda>_. ret None)"

text \<open>The result is the two files, or \<open>None\<close> for the return value \<open>-1\<close>.\<close>

definition pipealloc :: "'a files_scheme env \<Rightarrow> ('a files_scheme, (nat \<times> nat) option) km" where
  "pipealloc env =
     bind filealloc (\<lambda>f0. case f0 of
       None \<Rightarrow> pipealloc_bad env 0 None None
     | Some r \<Rightarrow> bind filealloc (\<lambda>f1. case f1 of
         None \<Rightarrow> pipealloc_bad env 0 f0 None
       | Some w \<Rightarrow> bind kalloc (\<lambda>pi.
           if pi = 0 then pipealloc_bad env 0 f0 f1
           else bind (block [
               upd_pipe pi (\<lambda>q. q\<lparr>pi_readopen := True, pi_writeopen := True, pi_nwrite := 0, pi_nread := 0\<rparr>),
               initlock (PipeLock pi) ''pipe'',
               upd_file r (\<lambda>x. x\<lparr>f_type := FD_PIPE, f_readable := True, f_writable := False, f_pipe := pi\<rparr>),
               upd_file w (\<lambda>x. x\<lparr>f_type := FD_PIPE, f_readable := False, f_writable := True, f_pipe := pi\<rparr>)])
             (\<lambda>_. ret (Some (r, w))))))"

end
