(* ===== verification/Xv6_Process.thy ===== *)
theory Xv6_Process
  imports Xv6_File
begin

text \<open>
  The operations of \<open>proc.c\<close> that use the file system: the first process, \<open>fork\<close> and \<open>exit\<close>; and
  the program loader (\<open>exec.c\<close>).
\<close>

section \<open>Trapframes\<close>

text \<open>Fields of the trapframe of a process, at their offsets in its page.\<close>

definition tf_get :: "nat \<Rightarrow> addr \<Rightarrow> ('a procs_scheme, addr) km" where
  "tf_get p off = bind (gets (\<lambda>s. p_trapframe (proc s p))) (\<lambda>tf. kload64 (tf + off))"

definition tf_set :: "nat \<Rightarrow> addr \<Rightarrow> addr \<Rightarrow> ('a procs_scheme, unit) km" where
  "tf_set p off v = bind (gets (\<lambda>s. p_trapframe (proc s p))) (\<lambda>tf. kstore64 (tf + off) v)"

text \<open>A string as an array: its characters and then zeros.\<close>

definition str_bytes :: "byte list \<Rightarrow> nat \<Rightarrow> byte" where
  "str_bytes l i = (if i < length l then l ! i else 0)"

section \<open>First process, fork and exit\<close>

definition initcode :: "byte list" where
  "initcode = [
     0x17, 0x05, 0x00, 0x00, 0x13, 0x05, 0x45, 0x02,
     0x97, 0x05, 0x00, 0x00, 0x93, 0x85, 0x35, 0x02,
     0x93, 0x08, 0x70, 0x00, 0x73, 0x00, 0x00, 0x00,
     0x93, 0x08, 0x20, 0x00, 0x73, 0x00, 0x00, 0x00,
     0xef, 0xf0, 0x9f, 0xff, 0x2f, 0x69, 0x6e, 0x69,
     0x74, 0x00, 0x00, 0x24, 0x00, 0x00, 0x00, 0x00,
     0x00, 0x00, 0x00, 0x00]"

definition userinit :: "'a files_scheme env \<Rightarrow> ('a files_scheme, unit) km" where
  "userinit env =
     bind allocproc (\<lambda>r.
     bind (modify (\<lambda>s. s\<lparr>initproc := r\<rparr>)) (\<lambda>_. deref r (\<lambda>p. block [
       bind (gets (\<lambda>s. p_pagetable (proc s p))) (\<lambda>pt. uvminit pt initcode (of_nat (length initcode))),
       upd_proc p (\<lambda>q. q\<lparr>p_sz := PGSIZE\<rparr>),
       tf_set p TF_epc 0,
       tf_set p TF_sp PGSIZE,
       upd_proc p (\<lambda>q. q\<lparr>p_name := safestrcpy (p_name q) (str_bytes (map of_char ''initcode'')) 16\<rparr>),
       bind (namei env (map of_char ''/'')) (\<lambda>ip. upd_proc p (\<lambda>q. q\<lparr>p_cwd := ip\<rparr>)),
       upd_proc p (\<lambda>q. q\<lparr>p_state := RUNNABLE\<rparr>),
       release (ProcLock p)])))"

text \<open>The child shares the open files and the current directory.\<close>

definition fork_files :: "nat \<Rightarrow> nat \<Rightarrow> ('a files_scheme, unit) km" where
  "fork_files p np = block [
     for_each (\<lambda>i.
       bind (gets (\<lambda>s. p_ofile (proc s p) i)) (\<lambda>fo. case fo of
         None \<Rightarrow> ret ()
       | Some f \<Rightarrow> bind (filedup f) (\<lambda>f.
           upd_proc np (\<lambda>q. q\<lparr>p_ofile := (p_ofile q)(i := Some f)\<rparr>)))) [0..<NOFILE],
     bind (gets (\<lambda>s. p_cwd (proc s p))) (\<lambda>cwd. deref cwd (\<lambda>ip.
       bind (idup ip) (\<lambda>ip. upd_proc np (\<lambda>q. q\<lparr>p_cwd := Some ip\<rparr>))))]"

definition fork_child :: "nat \<Rightarrow> nat \<Rightarrow> ('a files_scheme, int) km" where
  "fork_child p np =
     bind (block [
       bind (gets (\<lambda>s. proc s p)) (\<lambda>q0.
         upd_proc np (\<lambda>q. q\<lparr>p_sz := p_sz q0, p_trace_mask := p_trace_mask q0\<rparr>)),
       modify (\<lambda>s. s\<lparr>mem := memmove (mem s) (p_trapframe (proc s np)) (p_trapframe (proc s p)) TF_size\<rparr>),
       tf_set np TF_a0 0,
       fork_files p np,
       bind (gets (\<lambda>s. p_name (proc s p))) (\<lambda>nm.
         upd_proc np (\<lambda>q. q\<lparr>p_name := safestrcpy (p_name q) nm 16\<rparr>))]) (\<lambda>_.
     bind (gets (\<lambda>s. p_pid (proc s np))) (\<lambda>pid.
     bind (block [
       release (ProcLock np),
       acquire WaitLock,
       upd_proc np (\<lambda>q. q\<lparr>p_parent := Some p\<rparr>),
       release WaitLock,
       acquire (ProcLock np),
       upd_proc np (\<lambda>q. q\<lparr>p_state := RUNNABLE\<rparr>),
       release (ProcLock np)]) (\<lambda>_.
     ret pid)))"

definition fork :: "('a files_scheme, int) km" where
  "fork =
     bind myproc (\<lambda>mp.
     bind allocproc (\<lambda>r. case r of
       None \<Rightarrow> ret (-1)
     | Some np \<Rightarrow> deref mp (\<lambda>p.
         bind (gets (\<lambda>s. (proc s p, proc s np))) (\<lambda>(q0, q).
         bind (uvmcopy (p_pagetable q0) (p_pagetable q) (p_sz q0)) (\<lambda>e.
         if e < 0 then bind (block [freeproc np, release (ProcLock np)]) (\<lambda>_. ret (-1))
         else fork_child p np)))))"

definition exit_close :: "'a files_scheme env \<Rightarrow> nat \<Rightarrow> ('a files_scheme, unit) km" where
  "exit_close env p =
     for_each (\<lambda>fd.
       bind (gets (\<lambda>s. p_ofile (proc s p) fd)) (\<lambda>fo. case fo of
         None \<Rightarrow> ret ()
       | Some f \<Rightarrow> block [
           fileclose env f,
           upd_proc p (\<lambda>q. q\<lparr>p_ofile := (p_ofile q)(fd := None)\<rparr>)])) [0..<NOFILE]"

definition exit :: "'a files_scheme env \<Rightarrow> int \<Rightarrow> ('a files_scheme, unit) km" where
  "exit env status =
     bind myproc (\<lambda>mp.
     bind (gets initproc) (\<lambda>init.
     if mp = init then panic ''init exiting''
     else deref mp (\<lambda>p. block [
       exit_close env p,
       begin_op env,
       bind (gets (\<lambda>s. p_cwd (proc s p))) (\<lambda>cwd. deref cwd (iput env)),
       end_op env,
       upd_proc p (\<lambda>q. q\<lparr>p_cwd := None\<rparr>),
       exit_zombie p status,
       sched env,
       panic ''zombie exit''])))"

section \<open>Program loader\<close>

abbreviation (input) ELF_MAGIC :: uint where "ELF_MAGIC \<equiv> 0x464C457F"
abbreviation (input) ELF_PROG_LOAD :: uint where "ELF_PROG_LOAD \<equiv> 1"

text \<open>Fields of \<open>struct elfhdr\<close> (64 bytes) and \<open>struct proghdr\<close> (56 bytes) that are used.\<close>

record elfhdr =
  elf_magic :: uint
  elf_entry :: addr
  elf_phoff :: addr
  elf_phnum :: "16 word"

definition elf_of_bytes :: "(nat \<Rightarrow> byte) \<Rightarrow> elfhdr" where
  "elf_of_bytes d = \<lparr>elf_magic = get32 d 0, elf_entry = get64 d 24, elf_phoff = get64 d 32,
     elf_phnum = get16 d 56\<rparr>"

record proghdr =
  ph_type :: uint
  ph_off :: addr
  ph_vaddr :: addr
  ph_filesz :: addr
  ph_memsz :: addr

definition ph_of_bytes :: "(nat \<Rightarrow> byte) \<Rightarrow> proghdr" where
  "ph_of_bytes d = \<lparr>ph_type = get32 d 0, ph_off = get64 d 8, ph_vaddr = get64 d 16,
     ph_filesz = get64 d 32, ph_memsz = get64 d 40\<rparr>"

definition loadseg_step ::
  "'a fss_scheme env \<Rightarrow> addr \<Rightarrow> addr \<Rightarrow> nat \<Rightarrow> uint \<Rightarrow> uint \<Rightarrow> uint \<Rightarrow> ('a fss_scheme, uint + int) km" where
  "loadseg_step env pagetable va ip offset sz i =
     (if \<not> i < sz then ret (Inr 0)
      else bind (walkaddr pagetable (va + ucast i)) (\<lambda>pa.
        if pa = 0 then panic ''loadseg: address should exist''
        else let n = (if sz - i < 4096 then sz - i else 4096) in
          bind (readi env ip (KernDst (kmem_dst pa)) (offset + i) n) (\<lambda>r.
          ret (if word_of_int r \<noteq> n then Inr (-1) else Inl (i + 4096)))))"

definition loadseg ::
  "'a fss_scheme env \<Rightarrow> addr \<Rightarrow> addr \<Rightarrow> nat \<Rightarrow> uint \<Rightarrow> uint \<Rightarrow> ('a fss_scheme, int) km" where
  "loadseg env pagetable va ip offset sz = loop (loadseg_step env pagetable va ip offset sz) 0"

text \<open>Reading a structure of \<open>n\<close> bytes from the file into the buffer on the stack.\<close>

definition read_struct ::
  "'a fss_scheme env \<Rightarrow> nat \<Rightarrow> uint \<Rightarrow> nat \<Rightarrow> ('a fss_scheme, (nat \<Rightarrow> byte) option) km" where
  "read_struct env ip off n =
     bind (gets stack_owner) (\<lambda>ow.
     bind (readi env ip (KernDst (kbuf_dst ow)) off (of_nat n)) (\<lambda>r.
     if r \<noteq> int n then ret None else gets (\<lambda>s. Some (kbuf s ow))))"

text \<open>
  The loading loop. The result is the size reached and whether all segments were loaded; \<open>goto bad\<close>
  is the result \<open>False\<close>.
\<close>

definition exec_segment ::
  "'a fss_scheme env \<Rightarrow> nat \<Rightarrow> addr \<Rightarrow> proghdr \<Rightarrow> addr \<Rightarrow> ('a fss_scheme, addr \<times> bool) km" where
  "exec_segment env ip pagetable ph sz =
     (if ph_type ph \<noteq> ELF_PROG_LOAD then ret (sz, True)
      else if ph_memsz ph < ph_filesz ph then ret (sz, False)
      else if ph_vaddr ph + ph_memsz ph < ph_vaddr ph then ret (sz, False)
      else bind (uvmalloc pagetable sz (ph_vaddr ph + ph_memsz ph)) (\<lambda>sz1.
        if sz1 = 0 then ret (sz, False)
        else if ph_vaddr ph mod PGSIZE \<noteq> 0 then ret (sz1, False)
        else bind (loadseg env pagetable (ph_vaddr ph) ip (ucast (ph_off ph)) (ucast (ph_filesz ph))) (\<lambda>r.
          ret (sz1, \<not> r < 0))))"

definition exec_load_step ::
  "'a fss_scheme env \<Rightarrow> nat \<Rightarrow> addr \<Rightarrow> elfhdr \<Rightarrow> nat \<times> uint \<times> addr \<Rightarrow>
   ('a fss_scheme, nat \<times> uint \<times> addr + addr \<times> bool) km" where
  "exec_load_step env ip pagetable elf = (\<lambda>(i, off, sz).
     if \<not> i < unat (elf_phnum elf) then ret (Inr (sz, True))
     else bind (read_struct env ip off 56) (\<lambda>d. case d of
       None \<Rightarrow> ret (Inr (sz, False))
     | Some b \<Rightarrow> bind (exec_segment env ip pagetable (ph_of_bytes b) sz) (\<lambda>(sz, ok).
         ret (if ok then Inl (Suc i, off + 56, sz) else Inr (sz, False)))))"

definition exec_bad ::
  "'a fss_scheme env \<Rightarrow> addr \<Rightarrow> addr \<Rightarrow> nat option \<Rightarrow> ('a fss_scheme, int) km" where
  "exec_bad env pagetable sz ipp =
     bind (block [
       only_if (pagetable \<noteq> 0) (proc_freepagetable pagetable sz),
       (case ipp of None \<Rightarrow> ret () | Some ip \<Rightarrow> block [iunlockput env ip, end_op env])]) (\<lambda>_.
     ret (-1))"

text \<open>\<open>strlen\<close> of a kernel string.\<close>

definition kstrlen :: "addr \<Rightarrow> ('a machine_scheme, nat) km" where
  "kstrlen a = (\<lambda>s. case strlen (kmem_src a s) of Some n \<Rightarrow> Done n s | None \<Rightarrow> Forever)"

text \<open>
  Pushing the argument strings: \<open>argv\<close> is the array of \<open>MAXARG\<close> pointers, \<open>ustack\<close> the array of the
  addresses the strings get in the new address space.
\<close>

definition exec_push_step ::
  "addr \<Rightarrow> addr list \<Rightarrow> addr \<Rightarrow> nat \<times> addr \<times> (nat \<Rightarrow> addr) \<Rightarrow>
   ('a kmem_scheme, nat \<times> addr \<times> (nat \<Rightarrow> addr) + (nat \<times> addr \<times> (nat \<Rightarrow> addr)) option) km" where
  "exec_push_step pagetable argv stackbase = (\<lambda>(argc, sp, ustack).
     if argc \<ge> length argv then fault ''argv''
     else if argv ! argc = 0 then ret (Inr (Some (argc, sp, ustack)))
     else if argc \<ge> MAXARG then ret (Inr None)
     else bind (kstrlen (argv ! argc)) (\<lambda>len.
       let sp = sp - of_nat (len + 1); sp = sp - sp mod 16 in
       if sp < stackbase then ret (Inr None)
       else bind (copyout pagetable sp (kmem_src (argv ! argc)) (of_nat (len + 1))) (\<lambda>r.
         ret (if r < 0 then Inr None else Inl (Suc argc, sp, ustack(argc := sp))))))"

definition ustack_bytes :: "(nat \<Rightarrow> addr) \<Rightarrow> nat \<Rightarrow> byte" where
  "ustack_bytes u i = ucast (drop_bit (8 * (i mod 8)) (u (i div 8)))"

text \<open>The part of the path after the last slash.\<close>

definition last_elem :: "byte list \<Rightarrow> byte list" where
  "last_elem path = rev (takeWhile (\<lambda>c. c \<noteq> SLASH) (rev path))"

text \<open>Committing to the new image; the result is \<open>argc\<close>.\<close>

definition exec_commit ::
  "nat \<Rightarrow> byte list \<Rightarrow> addr \<Rightarrow> addr \<Rightarrow> addr \<Rightarrow> addr \<Rightarrow> addr \<Rightarrow> nat \<Rightarrow> ('a procs_scheme, int) km" where
  "exec_commit p path pagetable sz sp pc0 oldsz argc =
     bind (tf_set p TF_a1 sp) (\<lambda>_.
     bind (upd_proc p (\<lambda>q. q\<lparr>p_name := safestrcpy (p_name q) (str_bytes (last_elem path)) 16\<rparr>)) (\<lambda>_.
     bind (gets (\<lambda>s. p_pagetable (proc s p))) (\<lambda>oldpagetable.
     bind (block [
       upd_proc p (\<lambda>q. q\<lparr>p_pagetable := pagetable, p_sz := sz\<rparr>),
       tf_set p TF_epc pc0,
       tf_set p TF_sp sp,
       proc_freepagetable oldpagetable oldsz]) (\<lambda>_.
     ret (int argc)))))"

text \<open>The stack: a guard page, a page with the strings and the array of their addresses.\<close>

definition exec_stack ::
  "'a fss_scheme env \<Rightarrow> nat \<Rightarrow> byte list \<Rightarrow> addr list \<Rightarrow> addr \<Rightarrow> addr \<Rightarrow> addr \<Rightarrow> ('a fss_scheme, int) km" where
  "exec_stack env p path argv pagetable pc0 sz =
     bind (gets (\<lambda>s. p_sz (proc s p))) (\<lambda>oldsz.
     let sz = PGROUNDUP sz in
     bind (uvmalloc pagetable sz (sz + 2 * PGSIZE)) (\<lambda>sz1.
     if sz1 = 0 then exec_bad env pagetable sz None
     else bind (uvmclear pagetable (sz1 - 2 * PGSIZE)) (\<lambda>_.
       let stackbase = sz1 - PGSIZE in
       bind (loop (exec_push_step pagetable argv stackbase) (0, sz1, \<lambda>_. 0)) (\<lambda>r. case r of
         None \<Rightarrow> exec_bad env pagetable sz1 None
       | Some (argc, sp, ustack) \<Rightarrow>
           if argc \<ge> MAXARG then fault ''ustack''
           else
             let ustack = ustack(argc := 0);
                 sp = sp - of_nat ((argc + 1) * 8);
                 sp = sp - sp mod 16 in
             if sp < stackbase then exec_bad env pagetable sz1 None
             else bind (copyout pagetable sp (\<lambda>_. ustack_bytes ustack) (of_nat ((argc + 1) * 8))) (\<lambda>r.
               if r < 0 then exec_bad env pagetable sz1 None
               else exec_commit p path pagetable sz1 sp pc0 oldsz argc)))))"

definition exec :: "'a fss_scheme env \<Rightarrow> byte list \<Rightarrow> addr list \<Rightarrow> ('a fss_scheme, int) km" where
  "exec env path argv =
     bind myproc (\<lambda>mp.
     bind (begin_op env) (\<lambda>_.
     bind (namei env path) (\<lambda>r. case r of
       None \<Rightarrow> bind (end_op env) (\<lambda>_. ret (-1))
     | Some ip \<Rightarrow>
         bind (ilock env (Some ip)) (\<lambda>_.
         bind (read_struct env ip 0 64) (\<lambda>hd. case hd of
           None \<Rightarrow> exec_bad env 0 0 (Some ip)
         | Some b \<Rightarrow>
             let elf = elf_of_bytes b in
             if elf_magic elf \<noteq> ELF_MAGIC then exec_bad env 0 0 (Some ip)
             else deref mp (\<lambda>p.
               bind (proc_pagetable p) (\<lambda>pagetable.
               if pagetable = 0 then exec_bad env 0 0 (Some ip)
               else bind (loop (exec_load_step env ip pagetable elf) (0, ucast (elf_phoff elf), 0)) (\<lambda>(sz, ok).
                 if \<not> ok then exec_bad env pagetable sz (Some ip)
                 else bind (block [iunlockput env ip, end_op env]) (\<lambda>_.
                   exec_stack env p path argv pagetable (elf_entry elf) sz)))))))))"

end
