(* ===== verification/Xv6_Sysfile.thy ===== *)
theory Xv6_Sysfile
  imports Xv6_Process
begin

text \<open>
  System call arguments (\<open>syscall.c\<close>) and the system calls on files (\<open>sysfile.c\<close>). A result is the
  64-bit value that goes into register \<open>a0\<close>.
\<close>

section \<open>Arguments\<close>

text \<open>Fetching functions return their status and the value stored through the pointer.\<close>

definition fetchaddr :: "addr \<Rightarrow> ('a procs_scheme, int \<times> addr) km" where
  "fetchaddr addr =
     bind myproc (\<lambda>mp. deref mp (\<lambda>p.
     bind (gets (\<lambda>s. proc s p)) (\<lambda>q.
     if addr \<ge> p_sz q \<or> addr + 8 > p_sz q then ret (-1, 0)
     else bind (copyin (p_pagetable q) (kbuf_dst (Some p)) addr 8) (\<lambda>r.
       if r \<noteq> 0 then ret (-1, 0)
       else bind (gets (\<lambda>s. get64 (kbuf s (Some p)) 0)) (\<lambda>v. ret (0, v))))))"

text \<open>The buffer is given by how it is written and how it is read back.\<close>

definition fetchstr ::
  "addr \<Rightarrow> (nat \<Rightarrow> byte \<Rightarrow> 'a procs_scheme \<Rightarrow> 'a procs_scheme) \<Rightarrow> ('a procs_scheme \<Rightarrow> nat \<Rightarrow> byte) \<Rightarrow>
   addr \<Rightarrow> ('a procs_scheme, int) km" where
  "fetchstr addr dst src mx =
     bind myproc (\<lambda>mp. deref mp (\<lambda>p.
     bind (gets (\<lambda>s. p_pagetable (proc s p))) (\<lambda>pt.
     bind (copyinstr pt dst addr mx) (\<lambda>err.
     if err < 0 then ret err
     else (\<lambda>s. case strlen (src s) of Some n \<Rightarrow> Done (int n) s | None \<Rightarrow> Forever)))))"

definition argraw :: "int \<Rightarrow> ('a procs_scheme, addr) km" where
  "argraw n =
     bind myproc (\<lambda>mp.
     if 0 \<le> n \<and> n \<le> 5 then deref mp (\<lambda>p. tf_get p (TF_a0 + word_of_int (8 * n)))
     else panic ''argraw'')"

definition argint :: "int \<Rightarrow> ('a procs_scheme, int \<times> int) km" where
  "argint n = bind (argraw n) (\<lambda>v. ret (0, sint (ucast v :: uint)))"

definition argaddr :: "int \<Rightarrow> ('a procs_scheme, int \<times> addr) km" where
  "argaddr n = bind (argraw n) (\<lambda>v. ret (0, v))"

definition argstr ::
  "int \<Rightarrow> (nat \<Rightarrow> byte \<Rightarrow> 'a procs_scheme \<Rightarrow> 'a procs_scheme) \<Rightarrow> ('a procs_scheme \<Rightarrow> nat \<Rightarrow> byte) \<Rightarrow>
   addr \<Rightarrow> ('a procs_scheme, int) km" where
  "argstr n dst src mx =
     bind (argaddr n) (\<lambda>(e, addr). if e < 0 then ret (-1) else fetchstr addr dst src mx)"

text \<open>A path argument in a buffer of \<open>MAXPATH\<close> bytes on the stack: its characters, or \<open>None\<close>.\<close>

definition argpath :: "int \<Rightarrow> ('a procs_scheme, byte list option) km" where
  "argpath n =
     bind (gets stack_owner) (\<lambda>ow.
     bind (argstr n (kbuf_dst ow) (\<lambda>s. kbuf s ow) (of_nat MAXPATH)) (\<lambda>r.
     if r < 0 then ret None else gets (\<lambda>s. Some (map (kbuf s ow) [0..<nat r]))))"

text \<open>\<open>ok m k\<close>: go on with the value when the status is not negative, else return \<open>-1\<close>.\<close>

definition ok :: "('s, int \<times> 'v) km \<Rightarrow> ('v \<Rightarrow> ('s, addr) km) \<Rightarrow> ('s, addr) km" where
  "ok m k = bind m (\<lambda>(e, v). if e < 0 then ret (-1) else k v)"

definition argfd :: "int \<Rightarrow> ('a files_scheme, int \<times> int \<times> nat) km" where
  "argfd n =
     bind (argint n) (\<lambda>(e, fd).
     if e < 0 then ret (-1, 0, 0)
     else if fd < 0 \<or> fd \<ge> int NOFILE then ret (-1, 0, 0)
     else bind myproc (\<lambda>mp. deref mp (\<lambda>p.
       bind (gets (\<lambda>s. p_ofile (proc s p) (nat fd))) (\<lambda>fo. case fo of
         None \<Rightarrow> ret (-1, 0, 0)
       | Some f \<Rightarrow> ret (0, fd, f)))))"

definition fdalloc :: "nat \<Rightarrow> ('a files_scheme, int) km" where
  "fdalloc f =
     bind myproc (\<lambda>mp. deref mp (\<lambda>p.
     bind (scan (\<lambda>fd.
       bind (gets (\<lambda>s. p_ofile (proc s p) fd)) (\<lambda>fo.
       if fo = None then
         bind (upd_proc p (\<lambda>q. q\<lparr>p_ofile := (p_ofile q)(fd := Some f)\<rparr>)) (\<lambda>_. ret (Some (int fd)))
       else ret None)) [0..<NOFILE]) (\<lambda>r.
     ret (case r of Some fd \<Rightarrow> fd | None \<Rightarrow> -1))))"

section \<open>System calls on descriptors\<close>

definition sys_dup :: "('a files_scheme, addr) km" where
  "sys_dup =
     ok (argfd 0) (\<lambda>(_, f).
     bind (fdalloc f) (\<lambda>fd.
     if fd < 0 then ret (-1)
     else bind (filedup f) (\<lambda>_. ret (word_of_int fd))))"

definition sys_read :: "'a files_scheme env \<Rightarrow> ('a files_scheme, addr) km" where
  "sys_read env =
     ok (argfd 0) (\<lambda>(_, f). ok (argint 2) (\<lambda>n. ok (argaddr 1) (\<lambda>p.
     bind (fileread env f p n) (\<lambda>r. ret (word_of_int r)))))"

definition sys_write :: "'a files_scheme env \<Rightarrow> ('a files_scheme, addr) km" where
  "sys_write env =
     ok (argfd 0) (\<lambda>(_, f). ok (argint 2) (\<lambda>n. ok (argaddr 1) (\<lambda>p.
     bind (filewrite env f p n) (\<lambda>r. ret (word_of_int r)))))"

definition set_ofile :: "int \<Rightarrow> nat option \<Rightarrow> ('a files_scheme, unit) km" where
  "set_ofile fd fo =
     bind myproc (\<lambda>mp. deref mp (\<lambda>p. upd_proc p (\<lambda>q. q\<lparr>p_ofile := (p_ofile q)(nat fd := fo)\<rparr>)))"

definition sys_close :: "'a files_scheme env \<Rightarrow> ('a files_scheme, addr) km" where
  "sys_close env =
     ok (argfd 0) (\<lambda>(fd, f).
     bind (block [set_ofile fd None, fileclose env f]) (\<lambda>_. ret 0))"

definition sys_fstat :: "'a files_scheme env \<Rightarrow> ('a files_scheme, addr) km" where
  "sys_fstat env =
     ok (argfd 0) (\<lambda>(_, f). ok (argaddr 1) (\<lambda>st.
     bind (filestat env f st) (\<lambda>r. ret (word_of_int r))))"

section \<open>System calls on names\<close>

text \<open>Ending the transaction with a result.\<close>

definition end_with :: "'a files_scheme env \<Rightarrow> addr \<Rightarrow> ('a files_scheme, addr) km" where
  "end_with env r = bind (end_op env) (\<lambda>_. ret r)"

definition upd_nlink :: "nat \<Rightarrow> (16 word \<Rightarrow> 16 word) \<Rightarrow> ('a fss_scheme, unit) km" where
  "upd_nlink ip f = upd_inode ip (\<lambda>x. x\<lparr>i_nlink := f (i_nlink x)\<rparr>)"

definition sys_link_bad :: "'a files_scheme env \<Rightarrow> nat \<Rightarrow> ('a files_scheme, addr) km" where
  "sys_link_bad env ip =
     bind (block [
       ilock env (Some ip),
       upd_nlink ip (\<lambda>n. n - 1),
       iupdate env ip,
       iunlockput env ip]) (\<lambda>_. end_with env (-1))"

definition sys_link_new :: "'a files_scheme env \<Rightarrow> nat \<Rightarrow> byte list \<Rightarrow> ('a files_scheme, addr) km" where
  "sys_link_new env ip new =
     bind (nameiparent env new (\<lambda>_. 0)) (\<lambda>r. case r of
       None \<Rightarrow> sys_link_bad env ip
     | Some (dp, name) \<Rightarrow>
         bind (ilock env (Some dp)) (\<lambda>_.
         bind (gets (\<lambda>s. (itable s dp, itable s ip))) (\<lambda>(d, x).
         bind (if i_dev d \<noteq> i_dev x then ret (-1) else dirlink env dp name (i_inum x)) (\<lambda>e.
         if e < 0 then bind (iunlockput env dp) (\<lambda>_. sys_link_bad env ip)
         else bind (block [iunlockput env dp, iput env ip]) (\<lambda>_. end_with env 0)))))"

definition sys_link :: "'a files_scheme env \<Rightarrow> ('a files_scheme, addr) km" where
  "sys_link env =
     bind (argpath 0) (\<lambda>o1. case o1 of None \<Rightarrow> ret (-1) | Some old \<Rightarrow>
     bind (argpath 1) (\<lambda>o2. case o2 of None \<Rightarrow> ret (-1) | Some new \<Rightarrow>
     bind (begin_op env) (\<lambda>_.
     bind (namei env old) (\<lambda>r. case r of
       None \<Rightarrow> end_with env (-1)
     | Some ip \<Rightarrow>
         bind (ilock env (Some ip)) (\<lambda>_.
         bind (gets (\<lambda>s. i_type (itable s ip))) (\<lambda>t.
         if t = T_DIR then bind (iunlockput env ip) (\<lambda>_. end_with env (-1))
         else bind (block [
             upd_nlink ip (\<lambda>n. n + 1),
             iupdate env ip,
             iunlock (Some ip)]) (\<lambda>_.
           sys_link_new env ip new)))))))"

definition isdirempty :: "'a fss_scheme env \<Rightarrow> nat \<Rightarrow> ('a fss_scheme, bool) km" where
  "isdirempty env dp =
     loop (\<lambda>off.
       bind (gets (\<lambda>s. i_size (itable s dp))) (\<lambda>size.
       if \<not> off < size then ret (Inr True)
       else bind (read_dirent env dp off ''isdirempty: readi'') (\<lambda>de.
         ret (if dirent_inum de \<noteq> 0 then Inr False else Inl (off + of_nat DIRENT_SIZE)))))
       (of_nat (2 * DIRENT_SIZE))"

definition sys_unlink_bad :: "'a files_scheme env \<Rightarrow> nat \<Rightarrow> ('a files_scheme, addr) km" where
  "sys_unlink_bad env dp = bind (iunlockput env dp) (\<lambda>_. end_with env (-1))"

text \<open>Erasing the entry and dropping the link counts.\<close>

definition sys_unlink_entry ::
  "'a files_scheme env \<Rightarrow> nat \<Rightarrow> nat \<Rightarrow> uint \<Rightarrow> ('a files_scheme, addr) km" where
  "sys_unlink_entry env dp ip off =
     bind (block [
       bind (writei env dp (KernSrc (\<lambda>_ _. 0)) off (of_nat DIRENT_SIZE)) (\<lambda>r.
         panic_if (r \<noteq> int DIRENT_SIZE) ''unlink: writei''),
       bind (gets (\<lambda>s. i_type (itable s ip))) (\<lambda>t.
         only_if (t = T_DIR) (block [upd_nlink dp (\<lambda>n. n - 1), iupdate env dp])),
       iunlockput env dp,
       upd_nlink ip (\<lambda>n. n - 1),
       iupdate env ip,
       iunlockput env ip]) (\<lambda>_.
     end_with env 0)"

definition sys_unlink_found ::
  "'a files_scheme env \<Rightarrow> nat \<Rightarrow> nat \<Rightarrow> uint \<Rightarrow> ('a files_scheme, addr) km" where
  "sys_unlink_found env dp ip off =
     bind (ilock env (Some ip)) (\<lambda>_.
     bind (gets (\<lambda>s. itable s ip)) (\<lambda>x.
     if sint (i_nlink x) < 1 then panic ''unlink: nlink < 1''
     else bind (if i_type x = T_DIR then isdirempty env ip else ret True) (\<lambda>removable.
       if \<not> removable then bind (iunlockput env ip) (\<lambda>_. sys_unlink_bad env dp)
       else sys_unlink_entry env dp ip off)))"

definition sys_unlink :: "'a files_scheme env \<Rightarrow> ('a files_scheme, addr) km" where
  "sys_unlink env =
     bind (argpath 0) (\<lambda>o1. case o1 of None \<Rightarrow> ret (-1) | Some path \<Rightarrow>
     bind (begin_op env) (\<lambda>_.
     bind (nameiparent env path (\<lambda>_. 0)) (\<lambda>r. case r of
       None \<Rightarrow> end_with env (-1)
     | Some (dp, name) \<Rightarrow>
         bind (ilock env (Some dp)) (\<lambda>_.
         if namecmp name (str_bytes (map of_char ''.'')) = 0
           \<or> namecmp name (str_bytes (map of_char ''..'')) = 0 then sys_unlink_bad env dp
         else bind (dirlookup env dp name) (\<lambda>r. case r of
             None \<Rightarrow> sys_unlink_bad env dp
           | Some (ip, off) \<Rightarrow> sys_unlink_found env dp ip off)))))"

section \<open>Creating files\<close>

definition create_new ::
  "'a fss_scheme env \<Rightarrow> nat \<Rightarrow> (nat \<Rightarrow> byte) \<Rightarrow> 16 word \<Rightarrow> 16 word \<Rightarrow> 16 word \<Rightarrow>
   ('a fss_scheme, nat option) km" where
  "create_new env dp name type major minor =
     bind (gets (\<lambda>s. i_dev (itable s dp))) (\<lambda>dev.
     bind (ialloc env dev type) (\<lambda>ip.
     bind (block [
       ilock env (Some ip),
       upd_inode ip (\<lambda>x. x\<lparr>i_major := major, i_minor := minor, i_nlink := 1\<rparr>),
       iupdate env ip,
       only_if (type = T_DIR) (block [
         upd_nlink dp (\<lambda>n. n + 1),
         iupdate env dp,
         bind (gets (\<lambda>s. (i_inum (itable s ip), i_inum (itable s dp)))) (\<lambda>(self, parent).
         bind (dirlink env ip (str_bytes (map of_char ''.'')) self) (\<lambda>r1.
         if r1 < 0 then panic ''create dots''
         else bind (dirlink env ip (str_bytes (map of_char ''..'')) parent) (\<lambda>r2.
           panic_if (r2 < 0) ''create dots'')))]),
       bind (gets (\<lambda>s. i_inum (itable s ip))) (\<lambda>inum.
       bind (dirlink env dp name inum) (\<lambda>r. panic_if (r < 0) ''create: dirlink'')),
       iunlockput env dp]) (\<lambda>_.
     ret (Some ip))))"

definition create ::
  "'a fss_scheme env \<Rightarrow> byte list \<Rightarrow> 16 word \<Rightarrow> 16 word \<Rightarrow> 16 word \<Rightarrow> ('a fss_scheme, nat option) km" where
  "create env path type major minor =
     bind (nameiparent env path (\<lambda>_. 0)) (\<lambda>r. case r of
       None \<Rightarrow> ret None
     | Some (dp, name) \<Rightarrow>
         bind (ilock env (Some dp)) (\<lambda>_.
         bind (dirlookup env dp name) (\<lambda>r. case r of
           Some (ip, _) \<Rightarrow>
             bind (block [iunlockput env dp, ilock env (Some ip)]) (\<lambda>_.
             bind (gets (\<lambda>s. i_type (itable s ip))) (\<lambda>t.
             if type = T_FILE \<and> (t = T_FILE \<or> t = T_DEVICE) then ret (Some ip)
             else bind (iunlockput env ip) (\<lambda>_. ret None)))
         | None \<Rightarrow> create_new env dp name type major minor)))"

abbreviation (input) O_RDONLY :: int where "O_RDONLY \<equiv> 0"
abbreviation (input) O_WRONLY :: int where "O_WRONLY \<equiv> 1"
abbreviation (input) O_RDWR :: int where "O_RDWR \<equiv> 2"
abbreviation (input) O_CREATE :: int where "O_CREATE \<equiv> 0x200"
abbreviation (input) O_TRUNC :: int where "O_TRUNC \<equiv> 0x400"

text \<open>The inode to open, locked; \<open>None\<close> when the call returns \<open>-1\<close>.\<close>

definition open_inode :: "'a files_scheme env \<Rightarrow> byte list \<Rightarrow> int \<Rightarrow> ('a files_scheme, nat option) km" where
  "open_inode env path omode =
     (if omode AND O_CREATE \<noteq> 0 then create env path T_FILE 0 0
      else bind (namei env path) (\<lambda>r. case r of
        None \<Rightarrow> ret None
      | Some ip \<Rightarrow>
          bind (ilock env (Some ip)) (\<lambda>_.
          bind (gets (\<lambda>s. i_type (itable s ip))) (\<lambda>t.
          if t = T_DIR \<and> omode \<noteq> O_RDONLY then bind (iunlockput env ip) (\<lambda>_. ret None)
          else ret (Some ip)))))"

definition open_fail :: "'a files_scheme env \<Rightarrow> nat \<Rightarrow> ('a files_scheme, addr) km" where
  "open_fail env ip = bind (iunlockput env ip) (\<lambda>_. end_with env (-1))"

text \<open>Filling in the file structure; the descriptor is the result of the call.\<close>

definition open_finish ::
  "'a files_scheme env \<Rightarrow> nat \<Rightarrow> nat \<Rightarrow> int \<Rightarrow> int \<Rightarrow> ('a files_scheme, addr) km" where
  "open_finish env ip f fd omode =
     bind (gets (\<lambda>s. itable s ip)) (\<lambda>x.
     bind (block [
       upd_file f (\<lambda>y. if i_type x = T_DEVICE then y\<lparr>f_type := FD_DEVICE, f_major := i_major x\<rparr>
         else y\<lparr>f_type := FD_INODE, f_off := 0\<rparr>),
       upd_file f (\<lambda>y. y\<lparr>f_ip := Some ip, f_readable := (omode AND O_WRONLY = 0),
         f_writable := (omode AND O_WRONLY \<noteq> 0 \<or> omode AND O_RDWR \<noteq> 0)\<rparr>),
       only_if (omode AND O_TRUNC \<noteq> 0 \<and> i_type x = T_FILE) (itrunc env ip),
       iunlock (Some ip)]) (\<lambda>_.
     end_with env (word_of_int fd)))"

definition sys_open :: "'a files_scheme env \<Rightarrow> ('a files_scheme, addr) km" where
  "sys_open env =
     bind (argpath 0) (\<lambda>o1. case o1 of None \<Rightarrow> ret (-1) | Some path \<Rightarrow>
     ok (argint 1) (\<lambda>omode.
     bind (begin_op env) (\<lambda>_.
     bind (open_inode env path omode) (\<lambda>r. case r of
       None \<Rightarrow> end_with env (-1)
     | Some ip \<Rightarrow>
         bind (gets (\<lambda>s. itable s ip)) (\<lambda>x.
         if i_type x = T_DEVICE \<and> (sint (i_major x) < 0 \<or> sint (i_major x) \<ge> int NDEV) then open_fail env ip
         else bind filealloc (\<lambda>fo. case fo of
             None \<Rightarrow> open_fail env ip
           | Some f \<Rightarrow> bind (fdalloc f) (\<lambda>fd.
               if fd < 0 then bind (fileclose env f) (\<lambda>_. open_fail env ip)
               else open_finish env ip f fd omode)))))))"

definition sys_mkdir :: "'a files_scheme env \<Rightarrow> ('a files_scheme, addr) km" where
  "sys_mkdir env =
     bind (begin_op env) (\<lambda>_.
     bind (argpath 0) (\<lambda>o1. case o1 of None \<Rightarrow> end_with env (-1) | Some path \<Rightarrow>
     bind (create env path T_DIR 0 0) (\<lambda>r. case r of
       None \<Rightarrow> end_with env (-1)
     | Some ip \<Rightarrow> bind (iunlockput env ip) (\<lambda>_. end_with env 0))))"

definition sys_mknod :: "'a files_scheme env \<Rightarrow> ('a files_scheme, addr) km" where
  "sys_mknod env =
     bind (begin_op env) (\<lambda>_.
     bind (argpath 0) (\<lambda>o1. case o1 of None \<Rightarrow> end_with env (-1) | Some path \<Rightarrow>
     bind (argint 1) (\<lambda>(e1, major). if e1 < 0 then end_with env (-1) else
     bind (argint 2) (\<lambda>(e2, minor). if e2 < 0 then end_with env (-1) else
     bind (create env path T_DEVICE (word_of_int major) (word_of_int minor)) (\<lambda>r. case r of
       None \<Rightarrow> end_with env (-1)
     | Some ip \<Rightarrow> bind (iunlockput env ip) (\<lambda>_. end_with env 0))))))"

definition sys_chdir :: "'a files_scheme env \<Rightarrow> ('a files_scheme, addr) km" where
  "sys_chdir env =
     bind myproc (\<lambda>mp.
     bind (begin_op env) (\<lambda>_.
     bind (argpath 0) (\<lambda>o1. case o1 of None \<Rightarrow> end_with env (-1) | Some path \<Rightarrow>
     bind (namei env path) (\<lambda>r. case r of
       None \<Rightarrow> end_with env (-1)
     | Some ip \<Rightarrow>
         bind (ilock env (Some ip)) (\<lambda>_.
         bind (gets (\<lambda>s. i_type (itable s ip))) (\<lambda>t.
         if t \<noteq> T_DIR then bind (iunlockput env ip) (\<lambda>_. end_with env (-1))
         else deref mp (\<lambda>p.
           bind (block [
             iunlock (Some ip),
             bind (gets (\<lambda>s. p_cwd (proc s p))) (\<lambda>cwd. deref cwd (iput env)),
             end_op env,
             upd_proc p (\<lambda>q. q\<lparr>p_cwd := Some ip\<rparr>)]) (\<lambda>_.
           ret 0))))))))"

section \<open>Running programs and making pipes\<close>

text \<open>Freeing the argument pages: up to the first null pointer of the array.\<close>

definition free_argv :: "addr list \<Rightarrow> ('a kmem_scheme, unit) km" where
  "free_argv argv = for_each kfree (takeWhile (\<lambda>a. a \<noteq> 0) argv)"

text \<open>Fetching the arguments: the array, and whether the list was complete.\<close>

definition sys_exec_step ::
  "addr \<Rightarrow> nat \<times> addr list \<Rightarrow> ('a procs_scheme, nat \<times> addr list + addr list \<times> bool) km" where
  "sys_exec_step uargv = (\<lambda>(i, argv).
     if i \<ge> MAXARG then ret (Inr (argv, False))
     else bind (fetchaddr (uargv + of_nat (8 * i))) (\<lambda>(e, uarg).
       if e < 0 then ret (Inr (argv, False))
       else if uarg = 0 then ret (Inr (argv[i := 0], True))
       else bind kalloc (\<lambda>pa.
         if pa = 0 then ret (Inr (argv[i := 0], False))
         else bind (fetchstr uarg (kmem_dst pa) (kmem_src pa) PGSIZE) (\<lambda>r.
           ret (if r < 0 then Inr (argv[i := pa], False) else Inl (Suc i, argv[i := pa]))))))"

definition sys_exec :: "'a files_scheme env \<Rightarrow> ('a files_scheme, addr) km" where
  "sys_exec env =
     bind (argpath 0) (\<lambda>o1. case o1 of None \<Rightarrow> ret (-1) | Some path \<Rightarrow>
     ok (argaddr 1) (\<lambda>uargv.
     bind (loop (sys_exec_step uargv) (0, replicate MAXARG 0)) (\<lambda>(argv, complete).
     if \<not> complete then bind (free_argv argv) (\<lambda>_. ret (-1))
     else bind (exec env path argv) (\<lambda>r.
       bind (free_argv argv) (\<lambda>_. ret (word_of_int r))))))"

definition sys_pipe_close :: "'a files_scheme env \<Rightarrow> nat \<Rightarrow> nat \<Rightarrow> ('a files_scheme, addr) km" where
  "sys_pipe_close env rf wrf = bind (block [fileclose env rf, fileclose env wrf]) (\<lambda>_. ret (-1))"

definition sys_pipe :: "'a files_scheme env \<Rightarrow> ('a files_scheme, addr) km" where
  "sys_pipe env =
     bind myproc (\<lambda>mp.
     ok (argaddr 0) (\<lambda>fdarray.
     bind (pipealloc env) (\<lambda>r. case r of None \<Rightarrow> ret (-1) | Some (rf, wrf) \<Rightarrow>
     bind (fdalloc rf) (\<lambda>fd0.
     if fd0 < 0 then sys_pipe_close env rf wrf
     else bind (fdalloc wrf) (\<lambda>fd1.
       if fd1 < 0 then bind (set_ofile fd0 None) (\<lambda>_. sys_pipe_close env rf wrf)
       else deref mp (\<lambda>p.
         bind (gets (\<lambda>s. p_pagetable (proc s p))) (\<lambda>pt.
         bind (copyout pt fdarray (\<lambda>_. int_bytes fd0) 4) (\<lambda>r0.
         bind (if r0 < 0 then ret r0 else copyout pt (fdarray + 4) (\<lambda>_. int_bytes fd1) 4) (\<lambda>r1.
         if r1 < 0 then
           bind (block [set_ofile fd0 None, set_ofile fd1 None]) (\<lambda>_. sys_pipe_close env rf wrf)
         else ret 0)))))))))"

end
