(* ===== verification/Xv6_Trap.thy ===== *)
theory Xv6_Trap
  imports Xv6_Sysfile
begin

text \<open>
  System calls on processes (\<open>sysproc.c\<close>), the dispatch of system calls (\<open>syscall.c\<close>), traps and
  interrupts (\<open>trap.c\<close>), the first steps of a process (\<open>forkret\<close>), and the start of the machine
  (\<open>start.c\<close>, \<open>main.c\<close>).
\<close>

section \<open>System calls on processes\<close>

definition sys_exit :: "'a files_scheme env \<Rightarrow> ('a files_scheme, addr) km" where
  "sys_exit env = ok (argint 0) (\<lambda>n. bind (exit env n) (\<lambda>_. ret 0))"

definition sys_getpid :: "('a procs_scheme, addr) km" where
  "sys_getpid = bind mypid (\<lambda>pid. ret (word_of_int pid))"

definition sys_fork :: "('a files_scheme, addr) km" where
  "sys_fork = bind fork (\<lambda>r. ret (word_of_int r))"

definition sys_wait :: "'a procs_scheme env \<Rightarrow> ('a procs_scheme, addr) km" where
  "sys_wait env = ok (argaddr 0) (\<lambda>p. bind (wait env p) (\<lambda>r. ret (word_of_int r)))"

definition sys_sbrk :: "('a procs_scheme, addr) km" where
  "sys_sbrk =
     ok (argint 0) (\<lambda>n.
     bind myproc (\<lambda>mp. deref mp (\<lambda>p.
     bind (gets (\<lambda>s. sint (ucast (p_sz (proc s p)) :: uint))) (\<lambda>addr.
     bind (growproc n) (\<lambda>r.
     ret (if r < 0 then -1 else word_of_int addr))))))"

text \<open>\<open>ticks - ticks0 < n\<close> compares unsigned values.\<close>

definition sys_sleep_step ::
  "'a procs_scheme env \<Rightarrow> int \<Rightarrow> uint \<Rightarrow> unit \<Rightarrow> ('a procs_scheme, unit + addr) km" where
  "sys_sleep_step env n ticks0 _ =
     bind (gets ticks) (\<lambda>t.
     if \<not> t - ticks0 < word_of_int n then bind (release TicksLock) (\<lambda>_. ret (Inr 0))
     else bind myproc (\<lambda>mp. deref mp (\<lambda>p.
       bind (gets (\<lambda>s. p_killed (proc s p))) (\<lambda>killed.
       if killed then bind (release TicksLock) (\<lambda>_. ret (Inr (-1)))
       else bind (sleep env ChanTicks TicksLock) (\<lambda>_. ret (Inl ()))))))"

definition sys_sleep :: "'a procs_scheme env \<Rightarrow> ('a procs_scheme, addr) km" where
  "sys_sleep env =
     ok (argint 0) (\<lambda>n.
     bind (acquire TicksLock) (\<lambda>_.
     bind (gets ticks) (\<lambda>ticks0.
     loop (sys_sleep_step env n ticks0) ())))"

definition sys_kill :: "('a procs_scheme, addr) km" where
  "sys_kill = ok (argint 0) (\<lambda>pid. bind (kill pid) (\<lambda>r. ret (word_of_int r)))"

definition sys_uptime :: "('a procs_scheme, addr) km" where
  "sys_uptime =
     bind (acquire TicksLock) (\<lambda>_.
     bind (gets ticks) (\<lambda>xticks.
     bind (release TicksLock) (\<lambda>_. ret (ucast xticks))))"

definition sys_trace :: "('a procs_scheme, addr) km" where
  "sys_trace =
     ok (argint 0) (\<lambda>n.
     bind myproc (\<lambda>mp. deref mp (\<lambda>p.
     bind (upd_proc p (\<lambda>q. q\<lparr>p_trace_mask := n\<rparr>)) (\<lambda>_. ret 0))))"

text \<open>\<open>struct psinfo\<close> in the allocated page: four arrays of 64 \<open>int\<close>s, then 64 names of 16 bytes.\<close>

definition kstore32 :: "addr \<Rightarrow> uint \<Rightarrow> ('a machine_scheme, unit) km" where
  "kstore32 a v = (if a < PGSIZE then fault ''null pointer''
     else modify (\<lambda>s. s\<lparr>mem := store32 (mem s) a v\<rparr>))"

definition procstate_int :: "procstate \<Rightarrow> uint" where
  "procstate_int st = (case st of
     UNUSED \<Rightarrow> 0 | USED \<Rightarrow> 1 | SLEEPING \<Rightarrow> 2 | RUNNABLE \<Rightarrow> 3 | RUNNING \<Rightarrow> 4 | ZOMBIE \<Rightarrow> 5)"

definition sys_pinfo_entry :: "addr \<Rightarrow> nat \<Rightarrow> ('a procs_scheme, unit) km" where
  "sys_pinfo_entry psinfo i = block [
     acquire (ProcLock i),
     kstore32 (psinfo + of_nat (4 * i)) 1,
     bind (gets (\<lambda>s. proc s i)) (\<lambda>q. block [
       kstore32 (psinfo + 256 + of_nat (4 * i)) (word_of_int (p_pid q)),
       kstore32 (psinfo + 512 + of_nat (4 * i)) (procstate_int (p_state q)),
       modify (\<lambda>s. s\<lparr>mem := blit (mem s) (psinfo + 1024 + of_nat (16 * i)) 16
         (strncpy (kmem_src (psinfo + 1024 + of_nat (16 * i)) s) (p_name q) 16)\<rparr>),
       bind (countmapped PT_LEVELS (p_pagetable q)) (\<lambda>num_used.
         kstore32 (psinfo + 768 + of_nat (4 * i)) (word_of_int num_used))]),
     release (ProcLock i)]"

definition sys_pinfo :: "('a procs_scheme, addr) km" where
  "sys_pinfo =
     bind kalloc (\<lambda>psinfo.
     bind (argaddr 0) (\<lambda>(e, a).
     bind (kstore64 psinfo a) (\<lambda>_.
     if e < 0 then ret (-1)
     else bind (for_each (sys_pinfo_entry psinfo) [0..<NPROC]) (\<lambda>_. ret 0))))"

section \<open>Dispatch\<close>

text \<open>The table \<open>syscalls\<close>, by number.\<close>

definition syscalls :: "'a files_scheme env \<Rightarrow> int \<Rightarrow> ('a files_scheme, addr) km option" where
  "syscalls env num = map_of [
     (1, sys_fork), (2, sys_exit env), (3, sys_wait env), (4, sys_pipe env), (5, sys_read env),
     (6, sys_kill), (7, sys_exec env), (8, sys_fstat env), (9, sys_chdir env), (10, sys_dup),
     (11, sys_getpid), (12, sys_sbrk), (13, sys_sleep env), (14, sys_uptime), (15, sys_open env),
     (16, sys_write env), (17, sys_mknod env), (18, sys_unlink env), (19, sys_link env),
     (20, sys_mkdir env), (21, sys_close env), (22, sys_trace), (23, sys_pinfo)] num"

definition syscallnum :: "string list" where
  "syscallnum = ['''', ''fork'', ''exit'', ''wait'', ''pipe'', ''read'', ''kill'', ''exec'', ''fstat'',
     ''chdir'', ''dup'', ''getpid'', ''sbrk'', ''sleep'', ''uptime'', ''open'', ''write'', ''mknod'',
     ''unlink'', ''link'', ''mkdir'', ''close'', ''trace'']"

text \<open>
  Whether the call is traced. The shift amount is not checked; the compiled code shifts by its low
  five bits.
\<close>

definition traced :: "int \<Rightarrow> int \<Rightarrow> bool" where
  "traced tm num \<longleftrightarrow> drop_bit (nat (num mod 32)) tm AND 1 \<noteq> 0"

definition syscall_trace :: "nat \<Rightarrow> int \<Rightarrow> ('a consoles_scheme, unit) km" where
  "syscall_trace p num =
     bind (gets (\<lambda>s. proc s p)) (\<lambda>q.
     only_if (traced (p_trace_mask q) num)
       (if num < 0 \<or> num \<ge> int (length syscallnum) then fault ''syscallnum''
        else bind (tf_get p TF_a0) (\<lambda>a0.
          printf (Some ''%d: syscall %s -> %d\<newline>'') [ArgInt (p_pid q),
            ArgStr (Some (map of_char (syscallnum ! nat num))), ArgInt (sint (ucast a0 :: uint))])))"

definition syscall :: "'a files_scheme env \<Rightarrow> ('a files_scheme, unit) km" where
  "syscall env =
     bind myproc (\<lambda>mp. deref mp (\<lambda>p.
     bind (tf_get p TF_a7) (\<lambda>a7.
     let num = sint (ucast a7 :: uint) in block [
       (case syscalls env num of
          Some f \<Rightarrow> bind f (\<lambda>r. tf_set p TF_a0 r)
        | None \<Rightarrow> block [
            bind (gets (\<lambda>s. proc s p)) (\<lambda>q.
              printf (Some ''%d %s: unknown sys call %d\<newline>'')
                [ArgInt (p_pid q), ArgStr (Some (name_bytes (p_name q))), ArgInt num]),
            tf_set p TF_a0 (-1)]),
       syscall_trace p num])))"

section \<open>Traps\<close>

definition trapinit :: "('a machine_scheme, unit) km" where
  "trapinit = initlock TicksLock ''time''"

definition trapinithart :: "('a procs_scheme, unit) km" where
  "trapinithart = bind (gets (\<lambda>s. code_sym s ''kernelvec'')) (\<lambda>a. w_stvec a)"

text \<open>
  The return to user space: the state the assembly code at the trampoline finds, and the address,
  first and second argument of the jump there.
\<close>

definition usertrapret :: "('a procs_scheme, addr \<times> addr \<times> addr) km" where
  "usertrapret =
     bind myproc (\<lambda>mp.
     bind (block [
       intr_off,
       bind (gets (\<lambda>s. TRAMPOLINE + (code_sym s ''uservec'' - trampoline_sym s))) (w_stvec)]) (\<lambda>_.
     deref mp (\<lambda>p.
     bind (block [
       bind (gets r_satp) (tf_set p TF_kernel_satp),
       bind (gets (\<lambda>s. p_kstack (proc s p) + PGSIZE)) (tf_set p TF_kernel_sp),
       bind (gets (\<lambda>s. code_sym s ''usertrap'')) (tf_set p TF_kernel_trap),
       bind (gets (\<lambda>s. of_nat (tp s))) (tf_set p TF_kernel_hartid),
       bind (gets r_sstatus) (\<lambda>x. w_sstatus ((x AND NOT SSTATUS_SPP) OR SSTATUS_SPIE)),
       bind (tf_get p TF_epc) (w_sepc)]) (\<lambda>_.
     bind (gets (\<lambda>s. MAKE_SATP (p_pagetable (proc s p)))) (\<lambda>satp.
     bind (gets (\<lambda>s. TRAMPOLINE + (code_sym s ''userret'' - trampoline_sym s))) (\<lambda>fn.
     ret (fn, TRAPFRAME, satp)))))))"

definition forkret :: "'a fss_scheme env \<Rightarrow> ('a fss_scheme, addr \<times> addr \<times> addr) km" where
  "forkret env =
     bind myproc (\<lambda>mp. deref mp (\<lambda>p.
     bind (release (ProcLock p)) (\<lambda>_.
     bind (gets first) (\<lambda>fst.
     bind (only_if fst (block [
       modify (\<lambda>s. s\<lparr>first := False\<rparr>),
       fsinit env (uint ROOTDEV)])) (\<lambda>_.
     usertrapret)))))"

definition clockintr :: "('a procs_scheme, unit) km" where
  "clockintr = block [
     acquire TicksLock,
     modify (\<lambda>s. s\<lparr>ticks := ticks s + 1\<rparr>),
     wakeup ChanTicks,
     release TicksLock]"

definition devintr_external :: "('a disks_scheme, unit) km" where
  "devintr_external =
     bind plic_claim (\<lambda>irq. block [
       (if irq = UART0_IRQ then uartintr
        else if irq = VIRTIO0_IRQ then virtio_disk_intr
        else only_if (irq \<noteq> 0) (printf (Some ''unexpected interrupt irq=%d\<newline>'') [ArgInt irq])),
       only_if (irq \<noteq> 0) (plic_complete irq)])"

definition devintr :: "('a disks_scheme, int) km" where
  "devintr =
     bind (gets r_scause) (\<lambda>scause.
     if scause AND 0x8000000000000000 \<noteq> 0 \<and> scause AND 0xff = 9 then
       bind devintr_external (\<lambda>_. ret 1)
     else if scause = 0x8000000000000001 then
       bind (block [
         bind (gets cpuid) (\<lambda>c. only_if (c = 0) clockintr),
         bind (gets r_sip) (\<lambda>x. w_sip (x AND NOT 2))]) (\<lambda>_. ret 2)
     else ret 0)"

text \<open>The cause of a user trap: system call, device, or an exception that kills the process.\<close>

definition usertrap_cause :: "'a files_scheme env \<Rightarrow> nat \<Rightarrow> ('a files_scheme, int) km" where
  "usertrap_cause env p =
     bind (gets r_scause) (\<lambda>scause.
     if scause = 8 then
       bind (block [
         bind (gets (\<lambda>s. p_killed (proc s p))) (\<lambda>k. only_if k (exit env (-1))),
         bind (tf_get p TF_epc) (\<lambda>epc. tf_set p TF_epc (epc + 4)),
         intr_on,
         syscall env]) (\<lambda>_. ret 0)
     else bind devintr (\<lambda>which_dev.
       if which_dev \<noteq> 0 then ret which_dev
       else bind (block [
           bind (gets (\<lambda>s. (r_scause s, p_pid (proc s p)))) (\<lambda>(c, pid).
             printf (Some ''usertrap(): unexpected scause %p pid=%d\<newline>'') [ArgPtr c, ArgInt pid]),
           bind (gets (\<lambda>s. (r_sepc s, r_stval s))) (\<lambda>(e, v).
             printf (Some ''            sepc=%p stval=%p\<newline>'') [ArgPtr e, ArgPtr v]),
           upd_proc p (\<lambda>q. q\<lparr>p_killed := True\<rparr>)]) (\<lambda>_. ret 0)))"

definition usertrap :: "'a files_scheme env \<Rightarrow> ('a files_scheme, addr \<times> addr \<times> addr) km" where
  "usertrap env =
     bind (block [
       bind (gets r_sstatus) (\<lambda>x. panic_if (x AND SSTATUS_SPP \<noteq> 0) ''usertrap: not from user mode''),
       trapinithart]) (\<lambda>_.
     bind myproc (\<lambda>mp. deref mp (\<lambda>p.
     bind (bind (gets r_sepc) (tf_set p TF_epc)) (\<lambda>_.
     bind (usertrap_cause env p) (\<lambda>which_dev.
     bind (block [
       bind (gets (\<lambda>s. p_killed (proc s p))) (\<lambda>k. only_if k (exit env (-1))),
       only_if (which_dev = 2) (yield env)]) (\<lambda>_.
     usertrapret))))))"

definition kerneltrap :: "'a disks_scheme env \<Rightarrow> ('a disks_scheme, unit) km" where
  "kerneltrap env =
     bind (gets (\<lambda>s. (r_sepc s, r_sstatus s, r_scause s))) (\<lambda>(sepc, sstatus, scause).
     bind (block [
       panic_if (sstatus AND SSTATUS_SPP = 0) ''kerneltrap: not from supervisor mode'',
       bind (gets intr_get) (\<lambda>i. panic_if i ''kerneltrap: interrupts enabled'')]) (\<lambda>_.
     bind devintr (\<lambda>which_dev. block [
       only_if (which_dev = 0) (block [
         printf (Some ''scause %p\<newline>'') [ArgPtr scause],
         bind (gets (\<lambda>s. (r_sepc s, r_stval s))) (\<lambda>(e, v).
           printf (Some ''sepc=%p stval=%p\<newline>'') [ArgPtr e, ArgPtr v]),
         panic ''kerneltrap'']),
       only_if (which_dev = 2)
         (bind myproc (\<lambda>mp. case mp of
            None \<Rightarrow> ret ()
          | Some p \<Rightarrow> bind (gets (\<lambda>s. p_state (proc s p))) (\<lambda>st. only_if (st = RUNNING) (yield env)))),
       w_sepc sepc,
       w_sstatus sstatus])))"

section \<open>Start of the machine\<close>

definition CLINT_MTIMECMP :: "addr \<Rightarrow> addr" where
  "CLINT_MTIMECMP hartid = CLINT + 0x4000 + 8 * hartid"

definition CLINT_MTIME :: addr where
  "CLINT_MTIME = CLINT + 0xBFF8"

text \<open>
  Timer registers are 64 bits wide; they are accessed in memory. The scratch area of a hart is an
  array of five double words.
\<close>

definition timerinit :: "('a procs_scheme, unit) km" where
  "timerinit =
     bind (gets r_mhartid) (\<lambda>id.
     bind (gets (\<lambda>s. code_sym s ''timer_scratch'' + 40 * id)) (\<lambda>scratch. block [
       bind (kload64 CLINT_MTIME) (\<lambda>t. kstore64 (CLINT_MTIMECMP id) (t + 1000000)),
       kstore64 (scratch + 24) (CLINT_MTIMECMP id),
       kstore64 (scratch + 32) 1000000,
       w_mscratch scratch,
       bind (gets (\<lambda>s. code_sym s ''timervec'')) (w_mtvec),
       bind (gets r_mstatus) (\<lambda>x. w_mstatus (x OR 8)),
       bind (gets r_mie) (\<lambda>x. w_mie (x OR 128))]))"

definition start :: "('a procs_scheme, unit) km" where
  "start = block [
     bind (gets r_mstatus) (\<lambda>x. w_mstatus ((x AND NOT (push_bit 11 3)) OR push_bit 11 1)),
     bind (gets (\<lambda>s. code_sym s ''main'')) (w_mepc),
     w_satp 0,
     w_medeleg 0xffff,
     w_mideleg 0xffff,
     bind (gets r_sie) (\<lambda>x. w_sie (x OR 512 OR 32 OR 2)),
     w_pmpaddr0 0x3fffffffffffff,
     w_pmpcfg0 0xf,
     timerinit,
     bind (gets r_mhartid) w_tp]"

definition main_boot :: "'a files_scheme env \<Rightarrow> ('a files_scheme, unit) km" where
  "main_boot env = block [
     consoleinit,
     printfinit,
     printf (Some ''\<newline>'') [],
     printf (Some ''xv6 kernel is booting\<newline>'') [],
     printf (Some ''\<newline>'') [],
     kinit,
     kvminit,
     kvminithart,
     procinit,
     trapinit,
     trapinithart,
     plicinit,
     plicinithart,
     binit,
     iinit,
     fileinit,
     virtio_disk_init,
     userinit env,
     modify (\<lambda>s. s\<lparr>started := True\<rparr>)]"

text \<open>On another hart \<open>env\<close> is what the others do while it waits for \<open>started\<close>.\<close>

definition main_other :: "'a files_scheme env \<Rightarrow> ('a files_scheme, unit) km" where
  "main_other env = block [
     while_do (\<lambda>s. \<not> started s) (modify env),
     bind (gets cpuid) (\<lambda>c. printf (Some ''hart %d starting\<newline>'') [ArgInt (int c)]),
     kvminithart,
     trapinithart,
     plicinithart]"

definition main :: "'a files_scheme env \<Rightarrow> ('a files_scheme, unit) km" where
  "main env =
     bind (gets cpuid) (\<lambda>c.
     bind (if c = 0 then main_boot env else main_other env) (\<lambda>_.
     scheduler env))"

end
