(* ===== verification/Xv6_List.thy ===== *)
theory Xv6_List
  imports Xv6_Machine
begin

text \<open>
  The intrusive doubly linked lists of \<open>list.c\<close>. A store maps the address of every
  \<open>struct list_head\<close> to its two links; the abstraction of a circular list with head \<open>h\<close> is the
  list of the other nodes, in the order of the \<open>next\<close> links.
\<close>

section \<open>Operations\<close>

record list_head =
  lh_next :: addr
  lh_prev :: addr

type_synonym list_store = "addr \<Rightarrow> list_head"

definition set_next :: "addr \<Rightarrow> addr \<Rightarrow> list_store \<Rightarrow> list_store" where
  "set_next a v st = st(a := (st a)\<lparr>lh_next := v\<rparr>)"

definition set_prev :: "addr \<Rightarrow> addr \<Rightarrow> list_store \<Rightarrow> list_store" where
  "set_prev a v st = st(a := (st a)\<lparr>lh_prev := v\<rparr>)"

definition init_list_head :: "addr \<Rightarrow> list_store \<Rightarrow> list_store" where
  "init_list_head list st = set_prev list list (set_next list list st)"

definition list_add_between :: "addr \<Rightarrow> addr \<Rightarrow> addr \<Rightarrow> list_store \<Rightarrow> list_store" where
  "list_add_between new prev next st =
     set_next prev new (set_prev new prev (set_next new next (set_prev next new st)))"

definition list_del_between :: "addr \<Rightarrow> addr \<Rightarrow> list_store \<Rightarrow> list_store" where
  "list_del_between prev next st = set_next prev next (set_prev next prev st)"

definition list_add :: "addr \<Rightarrow> addr \<Rightarrow> list_store \<Rightarrow> list_store" where
  "list_add head new st = list_add_between new head (lh_next (st head)) st"

definition list_add_tail :: "addr \<Rightarrow> addr \<Rightarrow> list_store \<Rightarrow> list_store" where
  "list_add_tail head new st = list_add_between new (lh_prev (st head)) head st"

definition list_del :: "addr \<Rightarrow> list_store \<Rightarrow> list_store" where
  "list_del entry st =
     set_prev entry entry (set_next entry entry
       (list_del_between (lh_prev (st entry)) (lh_next (st entry)) st))"

definition list_del_init :: "addr \<Rightarrow> list_store \<Rightarrow> list_store" where
  "list_del_init entry st =
     init_list_head entry (list_del_between (lh_prev (st entry)) (lh_next (st entry)) st)"

section \<open>Circular lists\<close>

text \<open>\<open>links st ys\<close>: consecutive nodes of \<open>ys\<close> point at each other.\<close>

fun links :: "list_store \<Rightarrow> addr list \<Rightarrow> bool" where
  "links st (a # b # ys) \<longleftrightarrow> lh_next (st a) = b \<and> lh_prev (st b) = a \<and> links st (b # ys)"
| "links st _ \<longleftrightarrow> True"

definition circular :: "list_store \<Rightarrow> addr \<Rightarrow> addr list \<Rightarrow> bool" where
  "circular st h xs \<longleftrightarrow> links st (h # xs @ [h]) \<and> distinct (h # xs)"

lemmas list_op_defs =
  set_next_def set_prev_def init_list_head_def list_add_between_def list_del_between_def

lemma links_append:
  "links st (xs @ a # ys) \<longleftrightarrow> links st (xs @ [a]) \<and> links st (a # ys)"
proof (induction xs)
  case (Cons x xs)
  then show ?case by (cases xs) auto
qed (cases ys; simp)

lemma links_cong:
  "(\<And>a. a \<in> set (butlast ys) \<Longrightarrow> lh_next (st' a) = lh_next (st a)) \<Longrightarrow>
   (\<And>a. a \<in> set (tl ys) \<Longrightarrow> lh_prev (st' a) = lh_prev (st a)) \<Longrightarrow> links st ys \<Longrightarrow> links st' ys"
proof (induction st ys rule: links.induct)
  case (1 st a b ys)
  then have "links st' (b # ys)" by (cases ys) auto
  with 1 show ?case by simp
qed auto

lemma links_last: "links st (a # xs @ [b]) \<Longrightarrow> lh_prev (st b) = last (a # xs)"
proof (induction xs arbitrary: a)
  case (Cons x xs)
  then show ?case by simp
qed simp

lemma links_first: "links st (a # xs @ [b]) \<Longrightarrow> lh_next (st a) = hd (xs @ [b])"
  by (cases xs) simp_all

text \<open>Insertion between two neighbours of a circular list.\<close>

lemma circular_split:
  assumes "circular st h (xs @ ys)"
  obtains us p n vs where "h # xs = us @ [p]" "ys @ [h] = n # vs" "links st (us @ [p])" "links st (n # vs)"
    "p \<notin> set us" "n \<notin> set xs" "n \<notin> set vs" "p = last (h # xs)" "n = hd (ys @ [h])"
    "p \<notin> set ys"
proof -
  obtain us p where l: "h # xs = us @ [p]" by (metis list.discI rev_exhaust)
  obtain n vs where r: "ys @ [h] = n # vs" by (cases "ys @ [h]") auto
  have eq: "h # (xs @ ys) @ [h] = us @ p # n # vs" using l r by simp
  with assms have old: "links st (us @ [p])" "links st (n # vs)"
    using links_append [of st us p "n # vs"] by (auto simp: circular_def)
  have d: "distinct (us @ [p])" "distinct (n # vs)"
    using assms unfolding l [symmetric] r [symmetric] circular_def by auto
  have "n \<in> set ys \<union> {h}" using r by (cases ys) auto
  moreover have "p \<in> set xs \<union> {h}" using l by (metis Un_insert_right in_set_conv_decomp list.simps(15) sup_bot.right_neutral)
  ultimately have "n \<notin> set xs" "p \<notin> set ys" using assms by (auto simp: circular_def)
  moreover have "p = last (h # xs)" "n = hd (ys @ [h])" unfolding l r by simp_all
  ultimately show ?thesis using that [OF l r old] d by simp
qed

lemma circular_insert:
  assumes "circular st h (xs @ ys)" "new \<notin> set (h # xs @ ys)"
  shows "circular (list_add_between new (last (h # xs)) (hd (ys @ [h])) st) h (xs @ new # ys)"
proof -
  obtain us p n vs where s: "h # xs = us @ [p]" "ys @ [h] = n # vs" "links st (us @ [p])"
    "links st (n # vs)" "p \<notin> set us" "n \<notin> set xs" "n \<notin> set vs" "p = last (h # xs)" "n = hd (ys @ [h])"
    "p \<notin> set ys"
    using circular_split [OF assms(1)] by metis
  let ?st = "list_add_between new p n st"
  have "set (us @ [p]) = insert h (set xs)" "set (n # vs) = insert h (set ys)"
    unfolding s(1,2) [symmetric] by auto
  then have new: "new \<notin> set us" "new \<noteq> p" "new \<noteq> n" "new \<notin> set vs" "new \<notin> set xs" "new \<notin> set ys"
    using assms(2) by auto
  have tx: "tl (us @ [p]) = xs" "butlast (n # vs) = ys"
    using s(1,2) by (metis list.sel(3), metis butlast_snoc)
  have "links ?st (us @ [p])"
    by (rule links_cong [OF _ _ s(3)], unfold tx)
       (use s(5,6) new in \<open>auto simp: list_op_defs\<close>)
  moreover have "links ?st (n # vs)"
    by (rule links_cong [OF _ _ s(4)], unfold tx)
       (use s(7,10) new in \<open>auto simp: list_op_defs\<close>)
  moreover have "lh_next (?st p) = new" "lh_prev (?st new) = p" "lh_next (?st new) = n" "lh_prev (?st n) = new"
    using new by (auto simp: list_op_defs)
  ultimately have "links ?st (us @ p # new # n # vs)"
    using links_append [of ?st us p "new # n # vs"] by simp
  moreover have "h # (xs @ new # ys) @ [h] = us @ p # new # n # vs" using s(1,2) by simp
  ultimately show ?thesis
    using assms by (auto simp: circular_def s(8,9))
qed

text \<open>Removal of a node joins its neighbours.\<close>

lemma circular_remove:
  assumes "circular st h (xs @ x # ys)"
    "\<And>a. a \<noteq> x \<Longrightarrow> st' a = list_del_between (last (h # xs)) (hd (ys @ [h])) st a"
  shows "circular st' h (xs @ ys)"
proof -
  obtain us p n vs where s: "h # xs = us @ [p]" "(x # ys) @ [h] = n # vs" "links st (us @ [p])"
    "links st (n # vs)" "p \<notin> set us" "p = last (h # xs)" "n = hd ((x # ys) @ [h])" "p \<notin> set (x # ys)"
    using circular_split [OF assms(1)] by metis
  obtain m ws where r: "ys @ [h] = m # ws" by (cases "ys @ [h]") auto
  have vs: "n = x" "vs = m # ws" using s(2) r by auto
  have d: "x \<noteq> h" "x \<notin> set xs" "x \<notin> set ys" "h \<notin> set ys" "distinct ys" "set xs \<inter> set ys = {}" "h \<notin> set xs"
    using assms(1) by (auto simp: circular_def)
  have sets: "set (us @ [p]) = insert h (set xs)" "set (m # ws) = insert h (set ys)"
    unfolding s(1) [symmetric] r [symmetric] by auto
  have "distinct (m # ws)" unfolding r [symmetric] using d by auto
  then have m: "m \<notin> set ws" by simp
  have "m \<in> set ys \<union> {h}" using r by (cases ys) auto
  then have mx: "m \<notin> set xs" using d by auto
  have tx: "tl (us @ [p]) = xs" "butlast (m # ws) = ys"
    using s(1) r by (metis list.sel(3), metis butlast_snoc)
  have xx: "x \<notin> set us" "x \<noteq> p" "x \<noteq> m" "x \<notin> set ws" using sets d by auto
  have eq: "st' a = list_del_between p m st a" if "a \<noteq> x" for a
    using assms(2) [OF that] s(6) r by simp
  have nx: "lh_next (st' a) = lh_next (st a)" if "a \<noteq> x" "a \<noteq> p" for a
    using that by (simp add: eq list_op_defs)
  have pv: "lh_prev (st' a) = lh_prev (st a)" if "a \<noteq> x" "a \<noteq> m" for a
    using that by (simp add: eq list_op_defs)
  have "links st' (us @ [p])"
    by (rule links_cong [OF _ _ s(3)], unfold tx)
       (use s(5) mx xx d in \<open>auto intro!: nx pv\<close>)
  moreover have "links st (m # ws)" using s(4) vs by simp
  then have "links st' (m # ws)"
    by (rule links_cong [rotated -1], unfold tx) (use s(8) m xx d in \<open>auto intro!: nx pv\<close>)
  moreover have "lh_next (st' p) = m" "lh_prev (st' m) = p"
    using xx by (auto simp: eq list_op_defs)
  ultimately have "links st' (us @ p # m # ws)"
    using links_append [of st' us p "m # ws"] by simp
  moreover have "h # (xs @ ys) @ [h] = us @ p # m # ws" using s(1) r by simp
  ultimately show ?thesis using assms(1) by (simp add: circular_def)
qed

lemma circular_neighbours:
  assumes "circular st h (xs @ x # ys)"
  shows "lh_prev (st x) = last (h # xs)" "lh_next (st x) = hd (ys @ [h])"
proof -
  have "links st ((h # xs) @ x # ys @ [h])" using assms by (simp add: circular_def)
  then have "links st (h # xs @ [x])" "links st (x # ys @ [h])"
    using links_append [of st "h # xs" x "ys @ [h]"] by simp_all
  then show "lh_prev (st x) = last (h # xs)" "lh_next (st x) = hd (ys @ [h])"
    by (simp_all only: links_last links_first)
qed

lemma circular_ends:
  assumes "circular st h xs"
  shows "lh_next (st h) = hd (xs @ [h])" "lh_prev (st h) = last (h # xs)"
  using assms links_first [of st h xs h] links_last [of st h xs h] by (auto simp: circular_def)

section \<open>Properties\<close>

text \<open>
  C9. On a circular list, \<open>list_add\<close> puts a new node in front, \<open>list_add_tail\<close> puts it at the
  end, and a node that \<open>init_list_head\<close> was applied to is an empty list.
\<close>

theorem list_add_refines:
  assumes "circular st h xs" "new \<notin> set (h # xs)"
  shows "circular (list_add h new st) h (new # xs) \<and> circular (list_add_tail h new st) h (xs @ [new])
    \<and> circular (init_list_head new st) new []"
  using circular_insert [of st h "[]" xs new] circular_insert [of st h xs "[]" new] assms
    circular_ends [OF assms(1)]
  by (simp add: list_add_def list_add_tail_def init_list_head_def set_next_def set_prev_def
      circular_def)

theorem list_add_refines_witness:
  "circular (list_add_tail 8 16 (init_list_head 8 (\<lambda>_. \<lparr>lh_next = 0, lh_prev = 0\<rparr>))) 8 [16]"
proof -
  have "circular (init_list_head 8 (\<lambda>_. \<lparr>lh_next = 0, lh_prev = 0\<rparr>)) 8 []"
    by (simp add: circular_def list_op_defs)
  from list_add_refines [OF this, of 16] show ?thesis by simp
qed

text \<open>
  C10. Deleting a node of a circular list removes exactly that node and leaves it a singleton
  list of its own; \<open>list_del\<close> and \<open>list_del_init\<close> do the same.
\<close>

theorem list_del_refines:
  assumes "circular st h (xs @ x # ys)"
  shows "circular (list_del x st) h (xs @ ys) \<and> circular (list_del x st) x []
    \<and> list_del_init x st = list_del x st"
proof -
  have "circular (list_del x st) h (xs @ ys)"
    by (rule circular_remove [OF assms])
       (simp add: list_del_def circular_neighbours [OF assms] set_prev_def set_next_def)
  then show ?thesis
    by (simp add: list_del_def list_del_init_def init_list_head_def circular_def set_prev_def set_next_def)
qed

theorem list_del_refines_witness:
  "circular (list_del 16 (list_add_tail 8 16 (init_list_head 8 (\<lambda>_. \<lparr>lh_next = 0, lh_prev = 0\<rparr>)))) 8 []"
proof -
  have "circular (list_add_tail 8 16 (init_list_head 8 (\<lambda>_. \<lparr>lh_next = 0, lh_prev = 0\<rparr>))) 8 ([] @ 16 # [])"
    by (simp add: circular_def list_op_defs list_add_tail_def)
  from list_del_refines [OF this] show ?thesis by simp
qed

end
