(* ===== verification/Xv6_Sched.thy ===== *)
theory Xv6_Sched
  imports Xv6_Proc
begin

text \<open>
  What the process operations do: the running process, waking and sleeping, killing, waiting and
  scheduling.
\<close>

section \<open>Critical sections on process state\<close>

lemma proc_lock_simps [simp]:
  "proc (entered lk s) = proc s" "proc (quiet s) = proc s" "proc (pushed s) = proc s"
  "proc_update f (entered lk s) = entered lk (proc_update f s)"
  "proc_update f (quiet s) = quiet (proc_update f s)"
  "cpu_ok (proc_update f s) = cpu_ok s"
  "lock_free lk (proc_update f s) = lock_free lk s"
  "holding lk (proc_update f s) = holding lk s"
  "intr_get (proc_update f s) = intr_get s"
  by (simp_all add: lock_state_defs holding_def mycpu_def cpuid_def)

lemma nextpid_lock_simps [simp]:
  "nextpid (entered lk s) = nextpid s" "nextpid (quiet s) = nextpid s"
  "nextpid_update g (entered lk s) = entered lk (nextpid_update g s)"
  "nextpid_update g (quiet s) = quiet (nextpid_update g s)"
  "cpu_ok (nextpid_update g s) = cpu_ok s"
  "lock_free lk (nextpid_update g s) = lock_free lk s"
  by (simp_all add: lock_state_defs)

lemma procs_sel_lock_simps [simp]:
  "initproc (entered lk s) = initproc s" "initproc (quiet s) = initproc s"
  "ticks (entered lk s) = ticks s" "ticks (quiet s) = ticks s"
  "kbuf (entered lk s) = kbuf s" "kbuf (quiet s) = kbuf s"
  "code_sym (entered lk s) = code_sym s" "code_sym (quiet s) = code_sym s"
  by (simp_all add: lock_state_defs)

lemma c_proc_simps [simp]:
  "c_proc (cpus (pushed s) h) = c_proc (cpus s h)"
  by (simp add: pushed_def saved_intena_def Let_def)

lemma myproc_eq [simp]: "cpu_ok s \<Longrightarrow> myproc s = Done (c_proc (cpus s (tp s))) (quiet s)"
  using pop_off_eq [of s "pushed s"]
  by (simp add: myproc_def km_simps push_off_eq mycpu_def cpuid_def)
     (simp add: pushed_def quiet_def)

lemma myproc_bind [simp]:
  "cpu_ok s \<Longrightarrow> bind myproc f s = f (c_proc (cpus s (tp s))) (quiet s)"
  by (simp add: bind_def myproc_eq)

text \<open>Locks may be released in another order than they were taken.\<close>

lemma entered_swap: "lk \<noteq> lk' \<Longrightarrow> entered lk (entered lk' s) = entered lk' (entered lk s)"
  by (simp add: entered_def pushed_def saved_intena_def Let_def intr_get_def r_sstatus_def r_csr_def
      fun_upd_twist)

section \<open>Waking\<close>

text \<open>
  \<open>procs_ready s\<close>: the CPU is in order and the locks of the other processes are free; \<open>me s\<close> is the
  running process. \<open>woken w c p\<close>: what a wakeup on channel \<open>c\<close> by process \<open>w\<close> makes of process \<open>p\<close>.
\<close>

definition procs_ready :: "'a procs_scheme \<Rightarrow> bool" where
  "procs_ready s \<longleftrightarrow> cpu_ok s \<and>
     (\<forall>p<NPROC. c_proc (cpus s (tp s)) \<noteq> Some p \<longrightarrow> lock_free (ProcLock p) s)"

definition me :: "'a machine_scheme \<Rightarrow> nat option" where
  "me s = c_proc (cpus s (tp s))"

lemma me_simps [simp]:
  "me (quiet s) = me s" "me (entered lk s) = me s" "me (pushed s) = me s"
  "me (s\<lparr>mem := m\<rparr>) = me s"
  by (simp_all add: me_def)

lemma me_proc_simps [simp]: "me (proc_update f s) = me s"
  by (simp add: me_def)

lemma procs_ready_simps [simp]:
  "procs_ready (quiet s) = procs_ready s" "procs_ready (proc_update f s) = procs_ready s"
  by (simp_all add: procs_ready_def)

definition woken :: "nat option \<Rightarrow> chan \<Rightarrow> nat \<Rightarrow> proc \<Rightarrow> proc" where
  "woken w c p q =
     (if w \<noteq> Some p \<and> p_state q = SLEEPING \<and> p_chan q = c then q\<lparr>p_state := RUNNABLE\<rparr> else q)"

definition all_woken :: "nat option \<Rightarrow> chan \<Rightarrow> (nat \<Rightarrow> proc) \<Rightarrow> nat \<Rightarrow> proc" where
  "all_woken w c ps p = (if p < NPROC then woken w c p (ps p) else ps p)"

lemma block_map: "block (map f xs) = for_each f xs"
  by (induction xs) simp_all

lemma wakeup_each: "wakeup c = for_each (wakeup_one c) [0..<NPROC]"
  by (simp only: wakeup_def wakeup_visits_def block_map)

lemma wakeup_one_at:
  assumes "cpu_ok s" "me s \<noteq> Some p \<Longrightarrow> lock_free (ProcLock p) s"
  shows "wakeup_one c p s = Done () (quiet (s\<lparr>proc := (proc s)(p := woken (me s) c p (proc s p))\<rparr>))"
proof (cases "me s = Some p")
  case True
  with assms show ?thesis
    by (simp add: wakeup_one_def only_if_def ret_def woken_def me_def)
next
  case False
  with assms show ?thesis
    by (simp add: wakeup_one_def upd_proc_def km_simps acquire_eq only_if_def woken_def me_def)
qed

lemma wakeup_one_eq:
  "procs_ready s \<Longrightarrow> p < NPROC \<Longrightarrow>
   wakeup_one c p s = Done () (quiet (s\<lparr>proc := (proc s)(p := woken (me s) c p (proc s p))\<rparr>))"
  by (rule wakeup_one_at) (simp_all add: procs_ready_def me_def)

lemma wakeup_fold:
  "0 < n \<Longrightarrow>
   fold (\<lambda>p s. quiet (s\<lparr>proc := (proc s)(p := woken (me s) c p (proc s p))\<rparr>)) [0..<n] s =
   quiet (s\<lparr>proc := (\<lambda>p. if p < n then woken (me s) c p (proc s p) else proc s p)\<rparr>)"
proof (induction n)
  case (Suc n)
  show ?case
  proof (cases "n = 0")
    case True
    then show ?thesis by (simp add: fun_upd_def cong: if_cong)
  next
    case False
    let ?f = "\<lambda>p s. quiet (s\<lparr>proc := (proc s)(p := woken (me s) c p (proc s p))\<rparr>)"
    let ?t = "s\<lparr>proc := (\<lambda>p. if p < n then woken (me s) c p (proc s p) else proc s p)\<rparr>"
    have upd: "(proc ?t)(n := woken (me s) c n (proc ?t n)) =
      (\<lambda>p. if p < Suc n then woken (me s) c p (proc s p) else proc s p)"
      by (auto simp: fun_eq_iff)
    have "fold ?f [0..<Suc n] s = ?f n (quiet ?t)"
      using False Suc.IH by (simp del: fun_upd_apply)
    also have "\<dots> = quiet (s\<lparr>proc := (proc ?t)(n := woken (me s) c n (proc ?t n))\<rparr>)"
      by simp
    finally show ?thesis unfolding upd .
  qed
qed simp

lemma wakeup_eq:
  assumes "procs_ready s"
  shows "wakeup c s = Done () (quiet (s\<lparr>proc := all_woken (me s) c (proc s)\<rparr>))"
proof -
  have "wakeup c s = Done () (fold (\<lambda>p s. quiet (s\<lparr>proc := (proc s)(p := woken (me s) c p (proc s p))\<rparr>))
      [0..<NPROC] s)"
    unfolding wakeup_each
    by (rule for_each_fold [where I = procs_ready, THEN conjunct1])
       (use assms in \<open>simp_all add: wakeup_one_eq\<close>)
  moreover have "0 < NPROC" by (simp add: NPROC_def)
  moreover have "all_woken (me s) c (proc s) =
      (\<lambda>p. if p < NPROC then woken (me s) c p (proc s p) else proc s p)"
    by (simp add: fun_eq_iff all_woken_def)
  ultimately show ?thesis by (simp add: wakeup_fold)
qed

section \<open>Killing\<close>

definition killed_proc :: "proc \<Rightarrow> proc" where
  "killed_proc q = q\<lparr>p_killed := True, p_state := (if p_state q = SLEEPING then RUNNABLE else p_state q)\<rparr>"

text \<open>The entry \<open>kill\<close> chooses: the first with this process identifier.\<close>

definition find_pid :: "int \<Rightarrow> (nat \<Rightarrow> proc) \<Rightarrow> nat option" where
  "find_pid pid ps = find (\<lambda>p. p_pid (ps p) = pid) [0..<NPROC]"

definition all_free :: "'a procs_scheme \<Rightarrow> bool" where
  "all_free s \<longleftrightarrow> cpu_ok s \<and> (\<forall>p<NPROC. lock_free (ProcLock p) s)"

lemma all_free_simps [simp]:
  "all_free (quiet s) = all_free s" "all_free (proc_update f s) = all_free s"
  by (simp_all add: all_free_def)

lemma kill_one_eq:
  assumes "all_free s" "p < NPROC"
  shows "kill_one pid p s =
    (if p_pid (proc s p) = pid
     then Done (Some 0) (quiet (s\<lparr>proc := (proc s)(p := killed_proc (proc s p))\<rparr>))
     else Done None (quiet s))"
  using assms
  by (simp add: kill_one_def upd_proc_def km_simps acquire_eq only_if_def all_free_def killed_proc_def)

lemma kill_eq:
  assumes "all_free s"
  shows "kill pid s = (case find_pid pid (proc s) of
     None \<Rightarrow> Done (-1) (quiet s)
   | Some p \<Rightarrow> Done 0 (quiet (s\<lparr>proc := (proc s)(p := killed_proc (proc s p))\<rparr>)))"
proof -
  have "scan (kill_one pid) [0..<NPROC] s =
    (case find (\<lambda>p. p_pid (proc s p) = pid) [0..<NPROC] of
       None \<Rightarrow> Done None (if [0..<NPROC] = [] then s else quiet s)
     | Some p \<Rightarrow> Done (Some 0) (quiet (s\<lparr>proc := (proc s)(p := killed_proc (proc s p))\<rparr>)))"
    by (rule scan_find) (use assms in \<open>auto simp: kill_one_eq\<close>)
  moreover have "[0..<NPROC] \<noteq> []" by (simp add: NPROC_def)
  ultimately show ?thesis
    by (simp add: kill_def find_pid_def km_simps split: option.split)
qed

section \<open>Giving up the CPU\<close>

text \<open>
  \<open>running p s\<close>: process \<open>p\<close> runs outside of critical sections. Then \<open>entered (ProcLock p) s\<close> is the
  state in which it calls \<open>swtch\<close>, and the same form with a state that agrees on the CPU is the one
  in which it comes back.
\<close>

definition running :: "nat \<Rightarrow> 'a procs_scheme \<Rightarrow> bool" where
  "running p s \<longleftrightarrow> cpu_ok s \<and> c_noff (cpus s (tp s)) = 0 \<and> me s = Some p \<and> lock_free (ProcLock p) s"

definition same_cpu :: "'a machine_scheme \<Rightarrow> 'b machine_scheme \<Rightarrow> bool" where
  "same_cpu s t \<longleftrightarrow> tp t = tp s \<and> csrs t = csrs s \<and> cpus t (tp s) = cpus s (tp s)"

lemma running_simps [simp]:
  "running p (quiet s) = running p s" "running p (proc_update f s) = running p s"
  by (simp_all add: running_def)

lemma sched_enter_eq:
  assumes "running p s" "p_state (proc s p) \<noteq> RUNNING"
  shows "sched_enter (entered (ProcLock p) s) = Done (intr_get s) (entered (ProcLock p) s)"
  using assms
  by (simp add: sched_enter_def running_def me_def deref_def km_simps panic_if_def mycpu_def cpuid_def)

lemma sched_leave_eq:
  assumes "same_cpu s t" "c_noff (cpus s (tp s)) = 0" "intr_get s = i"
  shows "sched_leave i (entered lk t) = Done () (entered lk t)"
proof -
  let ?u = "entered lk t"
  have "intr_get t = intr_get s"
    using assms(1) by (intro intr_get_cong) (simp_all add: same_cpu_def)
  then have "c_intena (cpus ?u (tp ?u)) = i"
    using assms noff_pushed(2) [of t] by (simp add: same_cpu_def)
  then have "(cpus ?u (tp ?u))\<lparr>c_intena := i\<rparr> = cpus ?u (tp ?u)" by simp
  then have "(cpus ?u)(tp ?u := (cpus ?u (tp ?u))\<lparr>c_intena := i\<rparr>) = cpus ?u"
    by (simp only: fun_upd_triv)
  then have "?u\<lparr>cpus := (cpus ?u)(tp ?u := (cpus ?u (tp ?u))\<lparr>c_intena := i\<rparr>)\<rparr> = ?u"
    by (simp only:) simp
  then show ?thesis
    by (simp add: sched_leave_def cpu_update_def modify_def mycpu_def cpuid_def)
qed

lemma sched_eq:
  assumes "running p s" "p_state (proc s p) \<noteq> RUNNING"
    "env (entered (ProcLock p) s) = entered (ProcLock p) t" "same_cpu s t"
  shows "sched env (entered (ProcLock p) s) = Done () (entered (ProcLock p) t)"
proof -
  have "sched_leave (intr_get s) (entered (ProcLock p) t) = Done () (entered (ProcLock p) t)"
    using assms(1,4) by (intro sched_leave_eq) (auto simp: running_def)
  with assms show ?thesis
    by (simp add: sched_def sched_enter_eq modify_def)
qed


text \<open>
  \<open>sleep\<close> with the lock \<open>lk\<close> held: the process is put to sleep on the channel and, when it comes
  back, has the lock again.
\<close>

definition asleep :: "nat \<Rightarrow> chan \<Rightarrow> 'a procs_scheme \<Rightarrow> 'a procs_scheme" where
  "asleep p c s = s\<lparr>proc := (proc s)(p := (proc s p)\<lparr>p_chan := c, p_state := SLEEPING\<rparr>)\<rparr>"

definition unchan :: "nat \<Rightarrow> 'a procs_scheme \<Rightarrow> 'a procs_scheme" where
  "unchan p s = s\<lparr>proc := (proc s)(p := (proc s p)\<lparr>p_chan := NoChan\<rparr>)\<rparr>"

lemma same_cpu_running:
  "same_cpu s t \<Longrightarrow> running p s \<Longrightarrow> lock_free (ProcLock p) t \<Longrightarrow> running p t"
  using intr_get_cong [of t s] by (auto simp: same_cpu_def running_def cpu_ok_def me_def)

lemma sleep_eq:
  assumes run: "running p s" and lk: "lock_free lk s" "lk \<noteq> ProcLock p"
    and env: "env (entered (ProcLock p) (asleep p c s)) = entered (ProcLock p) t"
    and t: "same_cpu s t" "lock_free (ProcLock p) t" "lock_free lk t"
  shows "sleep env c lk (entered lk s) = Done () (entered lk (unchan p t))"
proof -
  have ok: "cpu_ok s" "me s = Some p" "lock_free (ProcLock p) s" using run by (auto simp: running_def)
  have t': "cpu_ok t" using same_cpu_running [OF t(1) run t(2)] by (simp add: running_def)
  have run': "running p (asleep p c s)" using run by (simp add: asleep_def)
  have "same_cpu (asleep p c s) t" using t(1) by (simp add: same_cpu_def asleep_def)
  with run' env have sched: "sched env (entered (ProcLock p) (asleep p c s)) = Done () (entered (ProcLock p) t)"
    by (intro sched_eq) (simp_all add: asleep_def)
  have swap: "entered (ProcLock p) (entered lk s) = entered lk (entered (ProcLock p) s)"
    by (rule entered_swap) (use lk in simp)
  show ?thesis
    using ok lk t t' sched
    by (simp add: sleep_def sleep_enter_def sleep_leave_def deref_def me_def [symmetric] km_simps acquire_eq swap upd_proc_def
        asleep_def unchan_def)
qed

section \<open>One process on one CPU\<close>

text \<open>
  The scheduling state machine. A step is what one hart does between two points at which it holds
  no process lock: the scheduler looks at an entry and switches to it if it is runnable, the
  running process yields, sleeps or exits and the hart is back in its scheduler, or the code on the
  hart wakes or kills processes. The two halves of \<open>sched\<close> and of the scheduler's visit are joined
  at the switch.
\<close>

definition leave_cpu :: "nat \<Rightarrow> ('a procs_scheme, unit) km" where
  "leave_cpu p = bind sched_enter (\<lambda>_. scheduler_rest True p)"

inductive sched_step :: "'a procs_scheme \<Rightarrow> 'a procs_scheme \<Rightarrow> bool" where
  pick: "p < NPROC \<Longrightarrow> c_proc (cpus s h) = None \<Longrightarrow>
    scheduler_pick p (on_hart h s) = Done True t \<Longrightarrow>
    block [sched_leave i, release (ProcLock p)] t = Done () u \<Longrightarrow> sched_step s u"
| pass: "p < NPROC \<Longrightarrow> c_proc (cpus s h) = None \<Longrightarrow>
    scheduler_pick p (on_hart h s) = Done False t \<Longrightarrow>
    scheduler_rest False p t = Done () u \<Longrightarrow> sched_step s u"
| yields: "c_proc (cpus s h) = Some p \<Longrightarrow>
    block (yield_enter p @ [leave_cpu p]) (on_hart h s) = Done () u \<Longrightarrow>
    sched_step s u"
| sleeps: "c_proc (cpus s h) = Some p \<Longrightarrow>
    block (acquire lk # sleep_enter c lk p @ [leave_cpu p]) (on_hart h s) = Done () u \<Longrightarrow>
    sched_step s u"
| exits: "c_proc (cpus s h) = Some p \<Longrightarrow>
    block [exit_zombie p x, leave_cpu p] (on_hart h s) = Done () u \<Longrightarrow>
    sched_step s u"
| wakes: "wakeup c (on_hart h s) = Done () u \<Longrightarrow> sched_step s u"
| kills: "kill pid (on_hart h s) = Done r u \<Longrightarrow> sched_step s u"

text \<open>The invariant: the running processes are those on a CPU, each on one.\<close>

definition one_cpu :: "'a procs_scheme \<Rightarrow> bool" where
  "one_cpu s \<longleftrightarrow>
     (\<forall>p. p_state (proc s p) = RUNNING \<longleftrightarrow> (\<exists>h. c_proc (cpus s h) = Some p))
     \<and> (\<forall>h k p. c_proc (cpus s h) = Some p \<longrightarrow> c_proc (cpus s k) = Some p \<longrightarrow> h = k)"

text \<open>Locking changes neither the process table nor who runs where.\<close>

definition same_sched :: "'a procs_scheme \<Rightarrow> 'a procs_scheme \<Rightarrow> bool" where
  "same_sched s t \<longleftrightarrow> proc t = proc s \<and> tp t = tp s \<and> (\<forall>h. c_proc (cpus t h) = c_proc (cpus s h))"

lemma same_sched_refl [simp]: "same_sched s s"
  by (simp add: same_sched_def)

lemma same_sched_primitives [keeps_intros]:
  "keeps (same_sched s) (lock_update lk f)" "keeps (same_sched s) (w_csr r x)"
  "(\<And>c. c_proc (g c) = c_proc c) \<Longrightarrow> keeps (same_sched s) (cpu_update g)"
  by (auto simp: same_sched_def keeps_def lock_update_def w_csr_def cpu_update_def km_simps mycpu_def
      cpuid_def)

lemma same_sched_locking [keeps_intros]:
  "keeps (same_sched s) push_off" "keeps (same_sched s) pop_off"
  unfolding push_off_def pop_off_def intr_off_def intr_on_def w_sstatus_def
  by (auto intro!: keeps_intros)

lemma same_sched_locks [keeps_intros]:
  "keeps (same_sched s) (acquire lk)" "keeps (same_sched s) (release lk)"
  unfolding acquire_def release_def acquire_enter_def acquire_spin_def acquire_record_def
    test_and_set_def release_check_def release_store_def
  by (auto intro!: keeps_intros)

text \<open>Nor does waking or killing change who runs.\<close>

definition same_running :: "'a procs_scheme \<Rightarrow> 'a procs_scheme \<Rightarrow> bool" where
  "same_running s t \<longleftrightarrow> tp t = tp s \<and> (\<forall>h. c_proc (cpus t h) = c_proc (cpus s h))
     \<and> (\<forall>p. p_state (proc t p) = RUNNING \<longleftrightarrow> p_state (proc s p) = RUNNING)"

lemma same_running_refl [simp]: "same_running s s"
  by (simp add: same_running_def)

lemma same_sched_same_running:
  assumes "\<And>s. keeps (same_sched s) m"
  shows "keeps (same_running s) m"
  unfolding keeps_def
proof (intro allI impI)
  fix u assume u: "same_running s u"
  have "same_sched u v \<Longrightarrow> same_running s v" for v
    using u by (simp add: same_running_def same_sched_def)
  moreover have "case m u of Done _ t \<Rightarrow> same_sched u t | Stop _ t \<Rightarrow> same_sched u t | Forever \<Rightarrow> True"
    using assms [of u] by (simp add: keeps_def same_sched_def)
  ultimately show "case m u of Done _ t \<Rightarrow> same_running s t | Stop _ t \<Rightarrow> same_running s t | Forever \<Rightarrow> True"
    by (simp split: outcome.splits)
qed

lemma same_running_locking [keeps_intros]:
  "keeps (same_running s) (acquire lk)" "keeps (same_running s) (release lk)"
  "keeps (same_running s) push_off" "keeps (same_running s) pop_off"
  by (intro same_sched_same_running keeps_intros)+

lemma same_running_upd [keeps_intros]:
  "(\<And>q. p_state (f q) = p_state q) \<Longrightarrow> keeps (same_running s) (upd_proc p f)"
  by (simp add: keeps_def upd_proc_def km_simps same_running_def)

lemma same_running_move:
  assumes "same_running s u" "p_state (proc u p) \<noteq> RUNNING" "p_state q \<noteq> RUNNING"
  shows "same_running s (u\<lparr>proc := (proc u)(p := q)\<rparr>)"
proof -
  have "p_state (proc s p) \<noteq> RUNNING" using assms(1,2) by (simp add: same_running_def)
  with assms show ?thesis by (simp add: same_running_def)
qed

lemma keeps_gets_bind:
  assumes "\<And>s. P s \<Longrightarrow> case m (f s) s of Done _ t \<Rightarrow> P t | Stop _ t \<Rightarrow> P t | Forever \<Rightarrow> True"
  shows "keeps P (bind (gets f) m)"
  using assms by (simp add: keeps_def km_simps)

lemma same_running_wakeup [keeps_intros]: "keeps (same_running s) (wakeup c)"
proof -
  have test: "keeps (same_running s) (bind (gets (\<lambda>s. proc s p)) (\<lambda>q. only_if (p_state q = SLEEPING \<and> p_chan q = c)
      (upd_proc p (\<lambda>q. q\<lparr>p_state := RUNNABLE\<rparr>))))" for p
    by (rule keeps_gets_bind) (auto simp: only_if_def upd_proc_def km_simps intro: same_running_move)
  have "keeps (same_running s) myproc"
    unfolding myproc_def by (intro keeps_intros)
  then have "keeps (same_running s) (wakeup_one c p)" for p
    unfolding wakeup_one_def using test [of p]
    by (intro keeps_bind keeps_only_if keeps_block) (auto intro: same_running_locking)
  then show ?thesis unfolding wakeup_each by (intro keeps_intros)
qed

lemma killed_proc_simps:
  "p_state q = SLEEPING \<Longrightarrow> killed_proc q = q\<lparr>p_killed := True, p_state := RUNNABLE\<rparr>"
  "p_state q \<noteq> SLEEPING \<Longrightarrow> killed_proc q = q\<lparr>p_killed := True\<rparr>"
  by (simp_all add: killed_proc_def)

lemma same_running_killed: "same_running s u \<Longrightarrow> same_running s (u\<lparr>proc := (proc u)(p := killed_proc (proc u p))\<rparr>)"
  by (cases "p_state (proc u p) = SLEEPING")
     (auto simp: killed_proc_def intro: same_running_move, simp add: same_running_def)

lemma same_running_kill [keeps_intros]: "keeps (same_running s) (kill pid)"
proof -
  have "keeps (same_running s) (bind (gets (\<lambda>s. proc s p)) (\<lambda>q.
     if p_pid q = pid then
       bind (block [
         upd_proc p (\<lambda>q. q\<lparr>p_killed := True\<rparr>),
         only_if (p_state q = SLEEPING) (upd_proc p (\<lambda>q. q\<lparr>p_state := RUNNABLE\<rparr>)),
         release (ProcLock p)]) (\<lambda>_. ret (Some (0 :: int)))
     else bind (release (ProcLock p)) (\<lambda>_. ret None)))" for p
  proof (rule keeps_gets_bind)
    fix u :: "'a procs_scheme" assume u: "same_running s u"
    let ?v = "u\<lparr>proc := (proc u)(p := killed_proc (proc u p))\<rparr>"
    have rel: "case bind (release (ProcLock p)) (\<lambda>_. ret x) w of
        Done _ t \<Rightarrow> same_running s t | Stop _ t \<Rightarrow> same_running s t | Forever \<Rightarrow> True"
      if "same_running s w" for x :: "int option" and w
    proof -
      have "keeps (same_running s) (bind (release (ProcLock p)) (\<lambda>_. ret x))"
        by (intro keeps_intros)
      with that show ?thesis by (simp add: keeps_def)
    qed
    from rel [OF u, of None] rel [OF same_running_killed [OF u], of "Some 0" p]
    show "case (if p_pid (proc u p) = pid then
       bind (block [
         upd_proc p (\<lambda>q. q\<lparr>p_killed := True\<rparr>),
         only_if (p_state (proc u p) = SLEEPING) (upd_proc p (\<lambda>q. q\<lparr>p_state := RUNNABLE\<rparr>)),
         release (ProcLock p)]) (\<lambda>_. ret (Some (0 :: int)))
     else bind (release (ProcLock p)) (\<lambda>_. ret None)) u of
        Done _ t \<Rightarrow> same_running s t | Stop _ t \<Rightarrow> same_running s t | Forever \<Rightarrow> True"
      by (cases "p_state (proc u p) = SLEEPING")
         (simp_all add: killed_proc_simps only_if_def upd_proc_def km_simps)
  qed
  then have "keeps (same_running s) (kill_one pid p)" for p
    unfolding kill_one_def by (rule keeps_bind [OF same_running_locking(1)])
  then show ?thesis unfolding kill_def by (intro keeps_intros)
qed

lemma same_running_reparent [keeps_intros]: "keeps (same_running s) (reparent p)"
  unfolding reparent_def by (auto intro!: keeps_intros split: prod.split)

text \<open>The effect of each part of a step on the table and on who runs where.\<close>

lemma scheduler_pick_Done:
  assumes "scheduler_pick p s = Done b t"
  shows "tp t = tp s"
    and "\<not> b \<Longrightarrow> same_sched s t"
    and "b \<Longrightarrow> p_state (proc s p) = RUNNABLE"
    and "b \<Longrightarrow> proc t = (proc s)(p := (proc s p)\<lparr>p_state := RUNNING\<rparr>)"
    and "b \<Longrightarrow> (\<lambda>h. c_proc (cpus t h)) = (\<lambda>h. c_proc (cpus s h))(tp s := Some p)"
proof -
  from assms obtain u where u: "acquire (ProcLock p) s = Done () u"
    by (auto simp: scheduler_pick_def bind_eq_Done)
  have same: "same_sched s u"
    by (rule keepsD [OF same_sched_locks(1) same_sched_refl u])
  with assms u show "tp t = tp s" "\<not> b \<Longrightarrow> same_sched s t" "b \<Longrightarrow> p_state (proc s p) = RUNNABLE"
    "b \<Longrightarrow> proc t = (proc s)(p := (proc s p)\<lparr>p_state := RUNNING\<rparr>)"
    "b \<Longrightarrow> (\<lambda>h. c_proc (cpus t h)) = (\<lambda>h. c_proc (cpus s h))(tp s := Some p)"
    by (auto simp: scheduler_pick_def km_simps upd_proc_def cpu_update_def mycpu_def cpuid_def
        same_sched_def fun_eq_iff split: if_splits)
qed

lemma leave_cpu_Done:
  assumes "leave_cpu p s = Done () t"
  shows "proc t = proc s" "tp t = tp s"
    "(\<lambda>h. c_proc (cpus t h)) = (\<lambda>h. c_proc (cpus s h))(tp s := None)"
proof -
  have k: "keeps (same_sched s) sched_enter"
    unfolding sched_enter_def myproc_def deref_def by (auto intro!: keeps_intros split: option.split)
  from assms obtain i u where u: "sched_enter s = Done i u"
    and t: "release (ProcLock p) (u\<lparr>cpus := (cpus u)(tp u := (cpus u (tp u))\<lparr>c_proc := None\<rparr>)\<rparr>) = Done () t"
    by (auto simp: leave_cpu_def scheduler_rest_def only_if_def scheduler_back_def cpu_update_def km_simps mycpu_def cpuid_def
        split: outcome.splits)
  have same: "same_sched s u" by (rule keepsD [OF k same_sched_refl u])
  have "same_sched (u\<lparr>cpus := (cpus u)(tp u := (cpus u (tp u))\<lparr>c_proc := None\<rparr>)\<rparr>) t"
    by (rule keepsD [OF same_sched_locks(2) same_sched_refl t])
  with same show "proc t = proc s" "tp t = tp s"
    "(\<lambda>h. c_proc (cpus t h)) = (\<lambda>h. c_proc (cpus s h))(tp s := None)"
    by (auto simp: same_sched_def fun_eq_iff)
qed

text \<open>
  What a step amounts to: the running process of a hart leaves it in another state, an idle hart
  takes a process that was not running, or nothing changes in who runs where.
\<close>

lemma same_running_Done:
  assumes "keeps (same_running s) m" "m s = Done x t"
  shows "same_running s t"
  by (rule keepsD [OF assms(1) same_running_refl assms(2)])

lemma one_cpu_same: "same_running s t \<Longrightarrow> one_cpu s \<Longrightarrow> one_cpu t"
  by (simp add: one_cpu_def same_running_def)

lemma one_cpu_on_hart [simp]: "one_cpu (on_hart h s) = one_cpu s"
  by (simp add: one_cpu_def on_hart_def)

lemma one_cpu_leave:
  assumes "one_cpu s" "c_proc (cpus s (tp s)) = Some p" "same_running s u" "p_state q \<noteq> RUNNING"
    "proc t = (proc u)(p := q)" "(\<lambda>h. c_proc (cpus t h)) = (\<lambda>h. c_proc (cpus u h))(tp s := None)"
  shows "one_cpu t"
proof -
  have c: "c_proc (cpus t h) = (if h = tp s then None else c_proc (cpus s h))" for h
    using assms(3,6) by (auto simp: same_running_def fun_eq_iff)
  have r: "p_state (proc t k) = RUNNING \<longleftrightarrow> k \<noteq> p \<and> p_state (proc s k) = RUNNING" for k
    using assms(3-5) by (auto simp: same_running_def)
  have s: "p_state (proc s k) = RUNNING \<longleftrightarrow> (\<exists>h. c_proc (cpus s h) = Some k)" for k
    using assms(1) by (simp add: one_cpu_def)
  have uniq: "c_proc (cpus s h) = Some k \<Longrightarrow> c_proc (cpus s i) = Some k \<Longrightarrow> h = i" for h i k
    using assms(1) unfolding one_cpu_def by blast
  have p: "c_proc (cpus s h) = Some p \<Longrightarrow> h = tp s" for h
    by (rule uniq [OF _ assms(2)])
  have "c_proc (cpus t h) = Some k \<longleftrightarrow> k \<noteq> p \<and> c_proc (cpus s h) = Some k" for h k
  proof (cases "h = tp s")
    case True
    with c [of h] assms(2) show ?thesis by auto
  next
    case False
    with c [of h] p [of h] show ?thesis by (cases "k = p") auto
  qed
  then have "p_state (proc t k) = RUNNING \<longleftrightarrow> (\<exists>h. c_proc (cpus t h) = Some k)" for k
    unfolding r s by simp
  moreover have "c_proc (cpus t h) = Some k \<Longrightarrow> c_proc (cpus t i) = Some k \<Longrightarrow> h = i" for h i k
    unfolding c by (auto intro: uniq split: if_splits)
  ultimately show ?thesis by (simp add: one_cpu_def)
qed

lemma one_cpu_take:
  assumes "one_cpu s" "c_proc (cpus s (tp s)) = None" "p_state (proc s p) \<noteq> RUNNING"
    "proc t = (proc s)(p := (proc s p)\<lparr>p_state := RUNNING\<rparr>)"
    "(\<lambda>h. c_proc (cpus t h)) = (\<lambda>h. c_proc (cpus s h))(tp s := Some p)"
  shows "one_cpu t"
proof -
  have c: "c_proc (cpus t h) = (if h = tp s then Some p else c_proc (cpus s h))" for h
    using assms(5) by (auto simp: fun_eq_iff)
  have r: "p_state (proc t k) = RUNNING \<longleftrightarrow> k = p \<or> p_state (proc s k) = RUNNING" for k
    using assms(4) by simp
  have s: "p_state (proc s k) = RUNNING \<longleftrightarrow> (\<exists>h. c_proc (cpus s h) = Some k)" for k
    using assms(1) by (simp add: one_cpu_def)
  have uniq: "c_proc (cpus s h) = Some k \<Longrightarrow> c_proc (cpus s i) = Some k \<Longrightarrow> h = i" for h i k
    using assms(1) unfolding one_cpu_def by blast
  have off: "c_proc (cpus s h) \<noteq> Some p" for h
    using assms(3) s [of p] by blast
  have "c_proc (cpus t h) = Some k \<longleftrightarrow> (k = p \<and> h = tp s) \<or> c_proc (cpus s h) = Some k" for h k
    using c [of h] assms(2) by auto
  then have "p_state (proc t k) = RUNNING \<longleftrightarrow> (\<exists>h. c_proc (cpus t h) = Some k)" for k
    unfolding r s by auto
  moreover have "c_proc (cpus t h) = Some k \<Longrightarrow> c_proc (cpus t i) = Some k \<Longrightarrow> h = i" for h i k
    unfolding c using off by (auto intro: uniq split: if_splits)
  ultimately show ?thesis by (simp add: one_cpu_def)
qed

lemma one_cpu_gone:
  assumes "one_cpu s" "c_proc (cpus s (tp s)) = Some p" "same_running s v"
    "p_state q \<noteq> RUNNING"
    "same_sched (v\<lparr>proc := (proc v)(p := q)\<rparr>) w" "leave_cpu p w = Done () u"
  shows "one_cpu u"
proof (rule one_cpu_leave [OF assms(1-4)])
  show "proc u = (proc v)(p := q)"
    using leave_cpu_Done(1) [OF assms(6)] assms(5) by (simp add: same_sched_def)
  have "tp w = tp s" using assms(3,5) by (simp add: same_sched_def same_running_def)
  then show "(\<lambda>h. c_proc (cpus u h)) = (\<lambda>h. c_proc (cpus v h))(tp s := None)"
    using leave_cpu_Done(3) [OF assms(6)] assms(5) by (auto simp: same_sched_def fun_eq_iff)
qed

lemma one_cpu_step: "sched_step s u \<Longrightarrow> one_cpu s \<Longrightarrow> one_cpu u"
proof (induction rule: sched_step.induct)
  case (pick p s h t i u)
  have "keeps (same_running t) (block [sched_leave i, release (ProcLock p)])"
    unfolding sched_leave_def
    by (intro same_sched_same_running) (auto intro!: keeps_intros)
  then have "same_running t u" using pick by (intro same_running_Done)
  moreover have "one_cpu t"
  proof (rule one_cpu_take)
    show "one_cpu (on_hart h s)" using pick by simp
    show "c_proc (cpus (on_hart h s) (tp (on_hart h s))) = None" using pick by simp
    show "p_state (proc (on_hart h s) p) \<noteq> RUNNING"
      using scheduler_pick_Done(3) [OF pick(3)] by simp
  qed (use scheduler_pick_Done(4,5) [OF pick(3)] in simp_all)
  ultimately show ?case by (rule one_cpu_same)
next
  case (pass p s h t u)
  have "same_sched (on_hart h s) t" using scheduler_pick_Done(2) [OF pass(3)] by simp
  moreover have "same_sched t u" 
    by (rule keepsD [OF same_sched_locks(2) same_sched_refl])
       (use pass(4) in \<open>simp add: scheduler_rest_def only_if_def km_simps split: outcome.splits\<close>)
  ultimately have "same_running (on_hart h s) u" by (simp add: same_sched_def same_running_def)
  with pass show ?case by (auto intro: one_cpu_same)
next
  case (yields s h p u)
  from yields(2) obtain v where v: "acquire (ProcLock p) (on_hart h s) = Done () v"
    and u: "leave_cpu p (v\<lparr>proc := (proc v)(p := (proc v p)\<lparr>p_state := RUNNABLE\<rparr>)\<rparr>) = Done () u"
    by (auto simp: yield_enter_def bind_eq_Done upd_proc_def modify_def ret_def)
  show ?case
    by (rule one_cpu_gone [OF _ _ same_running_Done [OF same_running_locking(1) v] _ same_sched_refl u])
       (use yields in simp_all)
next
  case (sleeps s h p lk c u)
  let ?pre = "block [acquire lk, acquire (ProcLock p), release lk]"
  from sleeps obtain v where v: "?pre (on_hart h s) = Done () v"
    and u: "leave_cpu p (v\<lparr>proc := (proc v)(p := (proc v p)\<lparr>p_chan := c, p_state := SLEEPING\<rparr>)\<rparr>) = Done () u"
    by (auto simp: sleep_enter_def bind_eq_Done upd_proc_def modify_def ret_def)
  have k: "keeps (same_running (on_hart h s)) ?pre" by (auto intro!: keeps_intros)
  show ?case
    by (rule one_cpu_gone [OF _ _ same_running_Done [OF k v] _ same_sched_refl u])
       (use sleeps in simp_all)
next
  case (exits s h p x u)
  let ?pre = "block [acquire WaitLock, reparent p,
      bind (gets (\<lambda>s. p_parent (proc s p))) (\<lambda>parent. wakeup (chan_of_proc parent)), acquire (ProcLock p)]"
  from exits obtain v w where v: "?pre (on_hart h s) = Done () v"
    and w: "release WaitLock (v\<lparr>proc := (proc v)(p := (proc v p)\<lparr>p_xstate := x, p_state := ZOMBIE\<rparr>)\<rparr>) = Done () w"
    and u: "leave_cpu p w = Done () u"
    by (auto simp: exit_zombie_def bind_eq_Done upd_proc_def modify_def ret_def)
  have k: "keeps (same_running (on_hart h s)) ?pre" by (auto intro!: keeps_intros)
  show ?case
    by (rule one_cpu_gone [OF _ _ same_running_Done [OF k v] _
          keepsD [OF same_sched_locks(2) same_sched_refl w] u]) (use exits in simp_all)
next
  case (wakes c h s u)
  from one_cpu_same [OF same_running_Done [OF same_running_wakeup wakes(1)]] wakes(2)
  show ?case by simp
next
  case (kills pid h s r u)
  from one_cpu_same [OF same_running_Done [OF same_running_kill kills(1)]] kills(2)
  show ?case by simp
qed

text \<open>Runs start with idle CPUs and no process running.\<close>

inductive sched_reach :: "'a procs_scheme \<Rightarrow> bool" where
  start: "(\<And>h. c_proc (cpus s h) = None) \<Longrightarrow> (\<And>p. p_state (proc s p) \<noteq> RUNNING) \<Longrightarrow> sched_reach s"
| step: "sched_reach s \<Longrightarrow> sched_step s t \<Longrightarrow> sched_reach t"

lemma sched_reach_one_cpu: "sched_reach s \<Longrightarrow> one_cpu s"
proof (induction rule: sched_reach.induct)
  case (start s)
  then show ?case by (simp add: one_cpu_def)
next
  case (step s t)
  then show ?case using one_cpu_step by blast
qed

text \<open>Setting the process of this CPU inside a critical section.\<close>

definition on_cpu :: "nat option \<Rightarrow> 'a machine_scheme \<Rightarrow> 'a machine_scheme" where
  "on_cpu x s = s\<lparr>cpus := (cpus s)(tp s := (cpus s (tp s))\<lparr>c_proc := x\<rparr>)\<rparr>"

lemma cpu_update_swap:
  "c\<lparr>c_noff := n, c_proc := x\<rparr> = c\<lparr>c_proc := x, c_noff := n\<rparr>"
  "c\<lparr>c_intena := i, c_proc := x\<rparr> = c\<lparr>c_proc := x, c_intena := i\<rparr>"
  "s\<lparr>locks := l, cpus := d\<rparr> = s\<lparr>cpus := d, locks := l\<rparr>"
  by simp_all

lemma on_cpu_simps [simp]:
  "on_cpu x (entered lk s) = entered lk (on_cpu x s)" "on_cpu x (quiet s) = quiet (on_cpu x s)"
  "cpu_ok (on_cpu x s) = cpu_ok s" "lock_free lk (on_cpu x s) = lock_free lk s"
  "tp (on_cpu x s) = tp s" "intr_get (on_cpu x s) = intr_get s"
  "c_noff (cpus (on_cpu x s) h) = c_noff (cpus s h)"
  "c_proc (cpus (on_cpu x s) h) = (if h = tp s then x else c_proc (cpus s h))"
  by (simp_all add: on_cpu_def lock_state_defs cpu_update_swap)

lemma proc_on_cpu [simp]: "proc (on_cpu x s) = proc s"
  by (simp add: on_cpu_def)

lemma cpu_update_proc: "cpu_update (\<lambda>c. c\<lparr>c_proc := x\<rparr>) s = Done () (on_cpu x s)"
  by (simp add: cpu_update_def km_simps mycpu_def cpuid_def on_cpu_def)

definition set_running :: "nat \<Rightarrow> 'a procs_scheme \<Rightarrow> 'a procs_scheme" where
  "set_running p s = s\<lparr>proc := (proc s)(p := (proc s p)\<lparr>p_state := RUNNING\<rparr>)\<rparr>"

lemma scheduler_pick_eq:
  assumes "lock_free (ProcLock p) s" "p_state (proc s p) = RUNNABLE"
  shows "scheduler_pick p s = Done True (entered (ProcLock p) (on_cpu (Some p) (set_running p s)))"
  using assms
  by (simp add: scheduler_pick_def km_simps acquire_eq upd_proc_def cpu_update_proc set_running_def)

lemma sched_step_pick:
  assumes "p < NPROC" "c_proc (cpus s h) = None" "cpu_ok (on_hart h s)" "lock_free (ProcLock p) s"
    "p_state (proc s p) = RUNNABLE" "c_noff (cpus s h) = 0"
  shows "sched_step s (quiet (on_cpu (Some p) (set_running p (on_hart h s))))"
proof (rule sched_step.pick [where i = "intr_get (on_hart h s)"])
  let ?s = "on_hart h s"
  have lf: "lock_free (ProcLock p) ?s" using assms(4) by (simp add: lock_free_def)
  show "scheduler_pick p ?s = Done True (entered (ProcLock p) (on_cpu (Some p) (set_running p ?s)))"
    using lf assms(5) by (intro scheduler_pick_eq) (simp_all add: on_hart_def)
  have "sched_leave (intr_get ?s) (entered (ProcLock p) (on_cpu (Some p) (set_running p ?s))) =
      Done () (entered (ProcLock p) (on_cpu (Some p) (set_running p ?s)))"
    by (rule sched_leave_eq [where s = "on_cpu (Some p) (set_running p ?s)"])
       (use assms(6) in \<open>simp_all add: same_cpu_def set_running_def\<close>)
  with lf assms(3) show "block [sched_leave (intr_get ?s), release (ProcLock p)]
      (entered (ProcLock p) (on_cpu (Some p) (set_running p ?s))) =
    Done () (quiet (on_cpu (Some p) (set_running p ?s)))"
    by (simp add: set_running_def)
qed (use assms in simp_all)

section \<open>Concrete states\<close>

text \<open>A booted machine with no process, and one with a runnable process.\<close>

definition free_slot :: proc where
  "free_slot = \<lparr>p_state = UNUSED, p_chan = NoChan, p_killed = False, p_xstate = 0, p_pid = 0,
     p_parent = None, p_kstack = 0, p_sz = 0, p_pagetable = 0, p_trapframe = 0,
     p_context = \<lparr>ctx_ra = 0, ctx_sp = 0, ctx_s = (\<lambda>_. 0)\<rparr>, p_ofile = (\<lambda>_. None), p_cwd = None,
     p_name = (\<lambda>_. 0), p_trace_mask = 0\<rparr>"

definition boot_procs :: procs where
  "boot_procs = \<lparr>tp = 0, csrs = (\<lambda>_ _. 0),
     cpus = (\<lambda>_. \<lparr>c_proc = None, c_noff = 0, c_intena = False\<rparr>),
     locks = (\<lambda>_. \<lparr>sl_locked = 0, sl_name = [], sl_cpu = None\<rparr>),
     mem = (\<lambda>_. 0), end_sym = 0x80027000, etext_sym = 0x80008000, trampoline_sym = 0x80007000,
     freelist = 0, kernel_pagetable = 0, count = 0,
     proc = (\<lambda>_. free_slot), initproc = None, nextpid = 1, first = True, ticks = 0,
     kbuf = (\<lambda>_ _. 0), code_sym = (\<lambda>_. 0x80000000)\<rparr>"

definition one_runnable :: procs where
  "one_runnable = boot_procs\<lparr>proc := (\<lambda>_. free_slot)(3 := free_slot\<lparr>p_state := RUNNABLE, p_pid := 1\<rparr>)\<rparr>"

lemma boot_procs_ok [simp]:
  "cpu_ok (on_hart h boot_procs)" "cpu_ok boot_procs" "lock_free lk boot_procs"
  "c_proc (cpus boot_procs h) = None" "c_noff (cpus boot_procs h) = 0" "tp boot_procs = 0"
  "me boot_procs = None" "proc boot_procs = (\<lambda>_. free_slot)"
  by (simp_all add: cpu_ok_def lock_free_def boot_procs_def on_hart_def me_def)

lemma one_runnable_reach:
  "sched_reach (quiet (on_cpu (Some 3) (set_running 3 (on_hart 0 one_runnable))))"
proof (rule sched_reach.step)
  show "sched_reach one_runnable"
    by (rule sched_reach.start) (simp_all add: one_runnable_def free_slot_def)
  show "sched_step one_runnable (quiet (on_cpu (Some 3) (set_running 3 (on_hart 0 one_runnable))))"
    by (rule sched_step_pick)
       (simp_all add: one_runnable_def NPROC_def cpu_ok_def on_hart_def boot_procs_def lock_free_def)
qed

section \<open>Properties\<close>

text \<open>
  C15. However harts schedule, yield, sleep, exit, wake and kill, in every reachable state a process
  is marked running exactly when it is on exactly one CPU.
\<close>

theorem running_on_one_cpu:
  assumes "sched_reach s"
  shows "p_state (proc s p) = RUNNING \<longleftrightarrow> (\<exists>!h. c_proc (cpus s h) = Some p)"
  using sched_reach_one_cpu [OF assms] unfolding one_cpu_def by blast

theorem running_on_one_cpu_witness:
  "\<exists>s :: procs. sched_reach s \<and> p_state (proc s 3) = RUNNING \<and> (\<exists>!h. c_proc (cpus s h) = Some 3)
     \<and> p_state (proc s 4) \<noteq> RUNNING"
proof -
  let ?s = "quiet (on_cpu (Some 3) (set_running 3 (on_hart 0 one_runnable)))"
  have "p_state (proc ?s 3) = RUNNING" "p_state (proc ?s 4) \<noteq> RUNNING"
    by (simp_all add: set_running_def one_runnable_def on_hart_def free_slot_def)
  with running_on_one_cpu [OF one_runnable_reach, of 3] one_runnable_reach show ?thesis by blast
qed

text \<open>
  C16. \<open>wakeup\<close> makes runnable exactly the processes other than the caller that sleep on the channel,
  and changes nothing else of any process, of memory or of the locks.
\<close>

theorem wakeup_exactly_sleepers:
  assumes "procs_ready s"
  shows "\<exists>t. wakeup c s = Done () t \<and> locks t = locks s \<and> mem t = mem s \<and> csrs t = csrs s
    \<and> (\<forall>p. proc t p =
      (if p < NPROC \<and> me s \<noteq> Some p \<and> p_state (proc s p) = SLEEPING \<and> p_chan (proc s p) = c
       then (proc s p)\<lparr>p_state := RUNNABLE\<rparr> else proc s p))"
  using wakeup_eq [OF assms, of c] by (simp add: all_woken_def woken_def)

theorem wakeup_exactly_sleepers_witness:
  "\<exists>t. wakeup ChanTicks (asleep 2 ChanTicks (asleep 5 ChanLog boot_procs)) = Done () t
     \<and> p_state (proc t 2) = RUNNABLE \<and> p_state (proc t 5) = SLEEPING \<and> p_state (proc t 6) = UNUSED"
proof -
  let ?s = "asleep 2 ChanTicks (asleep 5 ChanLog boot_procs)"
  have "procs_ready ?s" "me ?s = None"
    by (simp_all add: procs_ready_def asleep_def)
  moreover have "p_state (proc ?s 2) = SLEEPING" "p_chan (proc ?s 2) = ChanTicks"
    "p_state (proc ?s 5) = SLEEPING" "p_chan (proc ?s 5) = ChanLog" "p_state (proc ?s 6) = UNUSED"
    by (simp_all add: asleep_def free_slot_def)
  moreover have "2 < NPROC" by (simp add: NPROC_def)
  ultimately show ?thesis
    using wakeup_exactly_sleepers [of ?s ChanTicks] by auto
qed

text \<open>
  C17. Every outcome of \<open>kill\<close>: the first process with this identifier is marked killed and woken
  if it sleeps, and the result is 0; without such a process nothing changes and the result is -1.
\<close>

theorem kill_outcomes:
  assumes "all_free s"
  shows "\<exists>t. kill pid s = Done (if \<exists>p<NPROC. p_pid (proc s p) = pid then 0 else -1) t \<and> locks t = locks s
    \<and> (\<forall>p. proc t p =
      (if p < NPROC \<and> p_pid (proc s p) = pid \<and> (\<forall>k<p. p_pid (proc s k) \<noteq> pid)
       then (proc s p)\<lparr>p_killed := True,
         p_state := (if p_state (proc s p) = SLEEPING then RUNNABLE else p_state (proc s p))\<rparr>
       else proc s p))"
proof (cases "find_pid pid (proc s)")
  case None
  then have "p_pid (proc s p) \<noteq> pid" if "p < NPROC" for p
    using that by (simp add: find_pid_def find_None_iff)
  then show ?thesis
    using kill_eq [OF assms, of pid] None by auto
next
  case (Some k)
  then obtain i where i: "i < NPROC" "p_pid (proc s i) = pid" "k = i" "\<And>j. j < i \<Longrightarrow> p_pid (proc s j) \<noteq> pid"
    by (auto simp: find_pid_def find_Some_iff)
  then have "p < NPROC \<and> p_pid (proc s p) = pid \<and> (\<forall>j<p. p_pid (proc s j) \<noteq> pid) \<longleftrightarrow> p = k" for p
    by (metis linorder_neqE_nat)
  with i kill_eq [OF assms, of pid] Some show ?thesis
    by (auto simp: killed_proc_def)
qed

theorem kill_outcomes_witness:
  "\<exists>t. kill 0 boot_procs = Done 0 t \<and> p_killed (proc t 0) \<and> \<not> p_killed (proc t 1)"
proof -
  have "all_free boot_procs" by (simp add: all_free_def)
  moreover have "p_pid free_slot = 0" "\<not> p_killed free_slot" "0 < NPROC"
    by (simp_all add: free_slot_def NPROC_def)
  ultimately show ?thesis
    using kill_outcomes [of boot_procs 0] by auto
qed

end
