(* ===== verification/Xv6_Frame.thy ===== *)
theory Xv6_Frame
  imports Xv6_Vm
begin

text \<open>
  Layering: an operation on memory, page tables or locks leaves the state of every later component
  alone. The state of the later components is the extension of the record, so each statement is
  that the extension is kept.
\<close>

lemma machine_more_locking [keeps_intros]:
  "keeps (\<lambda>s. machine.more s = m) (lock_update lk f)" "keeps (\<lambda>s. machine.more s = m) (w_csr r x)"
  "keeps (\<lambda>s. machine.more s = m) (cpu_update g)"
  by (simp_all add: keeps_def lock_update_def w_csr_def cpu_update_def km_simps)

lemma machine_more_memory [keeps_intros]:
  "keeps (\<lambda>s. machine.more s = m) (kload64 a)" "keeps (\<lambda>s. machine.more s = m) (kstore64 a v)"
  by (simp_all add: keeps_def kload64_def kstore64_def km_simps)

lemma machine_more_off [keeps_intros]:
  "keeps (\<lambda>s. machine.more s = m) push_off" "keeps (\<lambda>s. machine.more s = m) pop_off"
  unfolding push_off_def pop_off_def intr_off_def intr_on_def w_sstatus_def
  by (auto intro!: keeps_intros)

lemma machine_more_locks [keeps_intros]:
  "keeps (\<lambda>s. machine.more s = m) (acquire lk)" "keeps (\<lambda>s. machine.more s = m) (release lk)"
  "keeps (\<lambda>s. machine.more s = m) (initlock lk nm)"
  unfolding acquire_def release_def acquire_enter_def acquire_spin_def acquire_record_def initlock_def
    test_and_set_def release_check_def release_store_def
  by (auto intro!: keeps_intros)

text \<open>What is kept of a component is kept of everything computed from it.\<close>

lemma keeps_view:
  assumes "\<And>x. keeps (\<lambda>s. v s = x) m" "\<And>s. P s = Q (v s)"
  shows "keeps P m"
  unfolding keeps_def
proof (intro allI impI)
  fix s assume "P s"
  have "case m s of Done _ t \<Rightarrow> v t = v s | Stop _ t \<Rightarrow> v t = v s | Forever \<Rightarrow> True"
    using assms(1) [of "v s"] by (simp add: keeps_def)
  with \<open>P s\<close> show "case m s of Done _ t \<Rightarrow> P t | Stop _ t \<Rightarrow> P t | Forever \<Rightarrow> True"
    by (simp add: assms(2) split: outcome.splits)
qed

lemma kmem_more_of_machine:
  fixes f :: "('a kmem_scheme, 'b) km"
  assumes "\<And>x. keeps (\<lambda>s. machine.more s = x) f"
  shows "keeps (\<lambda>s. kmem.more s = m) f"
proof (rule keeps_view [OF assms])
  fix s :: "'a kmem_scheme"
  show "(kmem.more s = m) = (kmem.more (machine.extend reset_machine (machine.more s)) = m)"
    by (cases s) (simp add: machine.defs)
qed

lemma kmem_more_base [keeps_intros]:
  "keeps (\<lambda>s. kmem.more s = m) (acquire lk)" "keeps (\<lambda>s. kmem.more s = m) (release lk)"
  "keeps (\<lambda>s. kmem.more s = m) (kload64 a)" "keeps (\<lambda>s. kmem.more s = m) (kstore64 a v)"
  "keeps (\<lambda>s. kmem.more s = m) (initlock lk nm)"
  by (intro kmem_more_of_machine keeps_intros)+

lemma kmem_more_mem [keeps_intros]:
  "keeps (\<lambda>s. kmem.more s = m) (modify (mem_update g))"
  "keeps (\<lambda>s. kmem.more s = m) (modify (\<lambda>s. s\<lparr>mem := h s\<rparr>))"
  "keeps (\<lambda>s. kmem.more s = m) (modify (freelist_update k))"
  by (simp_all add: keeps_def km_simps)

lemma kmem_more_kalloc [keeps_intros]:
  "keeps (\<lambda>s. kmem.more s = m) kalloc" "keeps (\<lambda>s. kmem.more s = m) (kfree pa)"
  "keeps (\<lambda>s. kmem.more s = m) (fill_page pa c)"
  unfolding kalloc_def kfree_def fill_page_def
  by (auto intro!: keeps_intros)

lemma kmem_more_walk [keeps_intros]:
  "keeps (\<lambda>s. kmem.more s = m) (walk_from n pt va alloc)"
  by (induction n arbitrary: pt) (auto intro!: keeps_intros)

lemma kmem_more_map [keeps_intros]:
  "keeps (\<lambda>s. kmem.more s = m) (walk pt va alloc)" "keeps (\<lambda>s. kmem.more s = m) (walkaddr pt va)"
  "keeps (\<lambda>s. kmem.more s = m) (mappages pt va sz pa perm)"
  "keeps (\<lambda>s. kmem.more s = m) (uvmunmap pt va n do_free)"
  unfolding walk_def walkaddr_def mappages_def mappages_step_def uvmunmap_def uvmunmap_step_def Let_def
  by (auto intro!: keeps_intros split: prod.split)

lemma kmem_more_freewalk [keeps_intros]: "keeps (\<lambda>s. kmem.more s = m) (freewalk d pt)"
  by (induction d arbitrary: pt) (auto intro!: keeps_intros simp: keeps_def [of _ "\<lambda>s. Forever"])

lemma kmem_more_uvm [keeps_intros]:
  "keeps (\<lambda>s. kmem.more s = m) uvmcreate" "keeps (\<lambda>s. kmem.more s = m) (uvmdealloc pt osz nsz)"
  "keeps (\<lambda>s. kmem.more s = m) (uvmfree pt sz)" "keeps (\<lambda>s. kmem.more s = m) (uvmclear pt va)"
  unfolding uvmcreate_def uvmdealloc_def uvmfree_def uvmclear_def Let_def
  by (auto intro!: keeps_intros)

lemma kmem_more_uvm_grow [keeps_intros]:
  "keeps (\<lambda>s. kmem.more s = m) (uvmalloc pt osz nsz)" "keeps (\<lambda>s. kmem.more s = m) (uvminit pt src sz1)"
  "keeps (\<lambda>s. kmem.more s = m) (uvmcopy old new sz)"
  "keeps (\<lambda>s. kmem.more s = m) (copyout pt va src2 len)"
  unfolding uvmalloc_def uvmalloc_step_def uvminit_def uvmcopy_def uvmcopy_step_def uvmcopy_err_def
    copyout_def copyout_step_def Let_def
  by (auto intro!: keeps_intros split: prod.split)

text \<open>The same for the extension of \<open>vm\<close>, where the state of processes and all later components is.\<close>

lemma vm_more_of_kmem:
  fixes f :: "('a vm_scheme, 'b) km"
  assumes "\<And>x. keeps (\<lambda>s. kmem.more s = x) f"
  shows "keeps (\<lambda>s. vm.more s = m) f"
proof (rule keeps_view [OF assms])
  fix s :: "'a vm_scheme"
  let ?r = "kmem.truncate (machine.extend reset_machine \<lparr>freelist = 0, \<dots> = ()\<rparr>)"
  show "(vm.more s = m) = (vm.more (kmem.extend ?r (kmem.more s)) = m)"
    by (cases s) (simp add: kmem.defs)
qed

lemma vm_more_base [keeps_intros]:
  "keeps (\<lambda>s. vm.more s = m) (acquire lk)" "keeps (\<lambda>s. vm.more s = m) (release lk)"
  "keeps (\<lambda>s. vm.more s = m) (kload64 a)" "keeps (\<lambda>s. vm.more s = m) (kstore64 a v)"
  "keeps (\<lambda>s. vm.more s = m) (initlock lk nm)"
  "keeps (\<lambda>s. vm.more s = m) kalloc" "keeps (\<lambda>s. vm.more s = m) (kfree pa)"
  "keeps (\<lambda>s. vm.more s = m) (mappages pt va sz pa perm)"
  "keeps (\<lambda>s. vm.more s = m) (uvmunmap pt va n do_free)"
  "keeps (\<lambda>s. vm.more s = m) uvmcreate" "keeps (\<lambda>s. vm.more s = m) (uvmfree pt sz)"
  "keeps (\<lambda>s. vm.more s = m) (uvmalloc pt osz nsz)" "keeps (\<lambda>s. vm.more s = m) (uvmdealloc pt osz nsz)"
  "keeps (\<lambda>s. vm.more s = m) (uvmcopy old new sz)" "keeps (\<lambda>s. vm.more s = m) (uvminit pt src sz1)"
  "keeps (\<lambda>s. vm.more s = m) (copyout pt va src2 len)"
  by (intro vm_more_of_kmem keeps_intros)+

end
