(* ===== verification/Xv6_Proctable.thy ===== *)
theory Xv6_Proctable
  imports Xv6_Sched Xv6_Frame
begin

text \<open>
  The life of a process table entry: allocation with a fresh identifier, release, exit and the
  parent's wait.
\<close>

section \<open>Allocation and release\<close>

text \<open>Operations on memory and locks leave the process table alone.\<close>

definition same_procs :: "'a procs_scheme \<Rightarrow> 'a procs_scheme \<Rightarrow> bool" where
  "same_procs s t \<longleftrightarrow> vm.more t = vm.more s"

lemma same_procsD:
  assumes "same_procs s t"
  shows "proc t = proc s" "nextpid t = nextpid s" "initproc t = initproc s" "code_sym t = code_sym s"
  using assms by (cases s, cases t, simp add: same_procs_def)+

lemma same_procs_refl [simp]: "same_procs s s"
  by (simp add: same_procs_def)

lemma same_procs_trans: "same_procs s t \<Longrightarrow> same_procs t u \<Longrightarrow> same_procs s u"
  by (simp add: same_procs_def)

lemma same_procs_Done:
  assumes "keeps (\<lambda>u. vm.more u = vm.more s) f" "f s = Done a t"
  shows "same_procs s t"
  unfolding same_procs_def by (rule keepsD [OF assms(1) _ assms(2)]) simp

lemma vm_more_proc_pagetable [keeps_intros]:
  "keeps (\<lambda>s. vm.more s = m) (proc_pagetable p)"
  "keeps (\<lambda>s. vm.more s = m) (proc_freepagetable pt sz)"
  unfolding proc_pagetable_def proc_freepagetable_def by (auto intro!: keeps_intros)

definition freed :: "proc \<Rightarrow> proc" where
  "freed q = q\<lparr>p_trapframe := 0, p_pagetable := 0, p_sz := 0, p_pid := 0, p_parent := None,
     p_name := (p_name q)(0 := 0), p_chan := NoChan, p_killed := False, p_xstate := 0,
     p_state := UNUSED\<rparr>"

lemma freeproc_Done:
  assumes "freeproc p s = Done () t"
  shows "proc t = (proc s)(p := freed (proc s p))" "nextpid t = nextpid s" "initproc t = initproc s"
proof -
  let ?a = "bind (gets (\<lambda>s. p_trapframe (proc s p))) (\<lambda>tf. only_if (tf \<noteq> 0) (kfree tf))"
  let ?b = "bind (gets (\<lambda>s. proc s p)) (\<lambda>q.
       only_if (p_pagetable q \<noteq> 0) (proc_freepagetable (p_pagetable q) (p_sz q)))"
  from assms obtain u v where u: "?a s = Done () u"
    and v: "?b (u\<lparr>proc := (proc u)(p := (proc u p)\<lparr>p_trapframe := 0\<rparr>)\<rparr>) = Done () v"
    and t: "t = v\<lparr>proc := (proc v)(p := (proc v p)\<lparr>p_pagetable := 0, p_sz := 0, p_pid := 0, p_parent := None,
       p_name := (p_name (proc v p))(0 := 0), p_chan := NoChan, p_killed := False, p_xstate := 0,
       p_state := UNUSED\<rparr>)\<rparr>"
    by (auto simp: freeproc_def bind_eq_Done upd_proc_def modify_def ret_def)
  have a: "keeps (\<lambda>w. vm.more w = m) ?a" and b: "keeps (\<lambda>w. vm.more w = m) ?b" for m
    by (auto intro!: keeps_intros)
  note same_procs_Done [OF a u]
  moreover note same_procs_Done [OF b v]
  ultimately show "proc t = (proc s)(p := freed (proc s p))" "nextpid t = nextpid s" "initproc t = initproc s"
    by (simp_all add: t same_procsD freed_def)
qed

lemma allocpid_Done:
  assumes "allocpid s = Done pid t"
  shows "pid = nextpid s" "nextpid t = int32 (nextpid s + 1)" "proc t = proc s" "initproc t = initproc s"
proof -
  from assms obtain u where u: "acquire PidLock s = Done () u" and pid: "pid = nextpid u"
    and t: "release PidLock (u\<lparr>nextpid := int32 (nextpid u + 1)\<rparr>) = Done () t"
    by (auto simp: allocpid_def bind_eq_Done modify_def gets_def ret_def)
  note same_procs_Done [OF vm_more_base(1) u]
  moreover note same_procs_Done [OF vm_more_base(2) t]
  ultimately show "pid = nextpid s" "nextpid t = int32 (nextpid s + 1)" "proc t = proc s" "initproc t = initproc s"
    by (simp_all add: same_procsD pid)
qed

lemma allocproc_search_Done:
  assumes "allocproc_search s = Done r t"
  shows "same_procs s t" "r = Some p \<Longrightarrow> p < NPROC \<and> p_state (proc s p) = UNUSED"
proof -
  let ?f = "\<lambda>p. bind (acquire (ProcLock p)) (\<lambda>_.
       bind (gets (\<lambda>s. p_state (proc s p))) (\<lambda>st.
       if st = UNUSED then ret (Some p)
       else bind (release (ProcLock p)) (\<lambda>_. ret None)))"
  have "same_procs s t \<and> (r = Some p \<longrightarrow> p \<in> set ps \<and> p_state (proc s p) = UNUSED)"
    if "scan ?f ps s = Done r t" for ps
    using that
  proof (induction ps arbitrary: s)
    case (Cons q ps)
    from Cons.prems obtain x u where x: "?f q s = Done x u"
      and rest: "(case x of None \<Rightarrow> scan ?f ps | Some y \<Rightarrow> ret (Some y)) u = Done r t"
      unfolding scan.simps bind_eq_Done [of "?f q"] by blast
    have k: "keeps (\<lambda>w. vm.more w = m) (?f q)" for m by (auto intro!: keeps_intros)
    note same = same_procs_Done [OF k x]
    from x obtain w where w: "acquire (ProcLock q) s = Done () w"
      and test: "x = Some y \<Longrightarrow> y = q \<and> p_state (proc w q) = UNUSED" for y
      by (fastforce simp: bind_eq_Done gets_def ret_def split: if_splits)
    have "proc w = proc s"
      by (rule same_procsD(1) [OF same_procs_Done [OF vm_more_base(1) w]])
    with Cons.IH [of u] rest test same show ?case
      by (cases x) (auto simp: ret_def same_procsD intro: same_procs_trans)
  qed (simp add: ret_def)
  from this [of "[0..<NPROC]"] assms
  show "same_procs s t" "r = Some p \<Longrightarrow> p < NPROC \<and> p_state (proc s p) = UNUSED"
    by (simp_all add: allocproc_search_def)
qed

text \<open>
  The entry \<open>allocproc\<close> returns. Its \<open>killed\<close> flag, name and open files are those the entry had
  before; nothing resets them here.
\<close>

definition allocated :: "int \<Rightarrow> addr \<Rightarrow> addr \<Rightarrow> addr \<Rightarrow> proc \<Rightarrow> proc" where
  "allocated pid tf pt ra q = q\<lparr>p_pid := pid, p_state := USED, p_trapframe := tf, p_pagetable := pt,
     p_context := \<lparr>ctx_ra = ra, ctx_sp = p_kstack q + PGSIZE, ctx_s = (\<lambda>_. 0)\<rparr>\<rparr>"

lemma allocproc_fail_Done:
  assumes "allocproc_fail p s = Done r t"
  shows "r = None" "proc t = (proc s)(p := freed (proc s p))" "nextpid t = nextpid s"
proof -
  from assms obtain u where u: "freeproc p s = Done () u" and t: "release (ProcLock p) u = Done () t"
    and "r = None"
    by (auto simp: allocproc_fail_def bind_eq_Done ret_def)
  then show "r = None" by simp
  from same_procsD [OF same_procs_Done [OF vm_more_base(2) t]] freeproc_Done [OF u]
  show "proc t = (proc s)(p := freed (proc s p))" "nextpid t = nextpid s" by simp_all
qed

definition alloc_result ::
  "nat \<Rightarrow> 'a procs_scheme \<Rightarrow> nat option \<Rightarrow> 'a procs_scheme \<Rightarrow> bool" where
  "alloc_result p s r t \<longleftrightarrow> nextpid t = int32 (nextpid s + 1) \<and>
     (r = None \<and> proc t = (proc s)(p := freed (proc t p)) \<or>
      r = Some p \<and> (\<exists>tf pt ra. tf \<noteq> 0 \<and> pt \<noteq> 0 \<and>
        proc t = (proc s)(p := allocated (nextpid s) tf pt ra (proc s p))))"

lemma freed_freed [simp]: "freed (freed q) = freed q"
  by (simp add: freed_def)

lemma alloc_result_fail:
  assumes "allocproc_fail p v = Done r t" "proc v = (proc s)(p := q)" "nextpid v = int32 (nextpid s + 1)"
  shows "alloc_result p s r t"
  using allocproc_fail_Done [OF assms(1)] assms(2,3) by (simp add: alloc_result_def)

text \<open>The rest of the work once the trapframe page is there, and once the page table is there.\<close>

lemma allocproc_context:
  assumes "(if pt = 0 then allocproc_fail p
       else bind (gets (\<lambda>s. code_sym s ''forkret'')) (\<lambda>forkret.
         bind (upd_proc p (\<lambda>q. q\<lparr>p_context :=
           \<lparr>ctx_ra = forkret, ctx_sp = p_kstack q + PGSIZE, ctx_s = (\<lambda>_. 0)\<rparr>\<rparr>)) (\<lambda>_.
         ret (Some p)))) w = Done r t"
    "proc w = (proc s)(p := (proc s p)\<lparr>p_pid := nextpid s, p_state := USED, p_trapframe := tf, p_pagetable := pt\<rparr>)"
    "nextpid w = int32 (nextpid s + 1)" "tf \<noteq> 0"
  shows "alloc_result p s r t"
proof (cases "pt = 0")
  case True
  with assms show ?thesis by (auto intro: alloc_result_fail)
next
  case False
  with assms(1) have r: "r = Some p" and t: "t = w\<lparr>proc := (proc w)(p := (proc w p)\<lparr>p_context :=
      \<lparr>ctx_ra = code_sym w ''forkret'', ctx_sp = p_kstack (proc w p) + PGSIZE, ctx_s = (\<lambda>_. 0)\<rparr>\<rparr>)\<rparr>"
    by (auto simp: upd_proc_def km_simps)
  have "proc t = (proc s)(p := allocated (nextpid s) tf pt (code_sym w ''forkret'') (proc s p))"
    using assms(2) by (simp add: t allocated_def)
  with False assms(3,4) r t show ?thesis unfolding alloc_result_def by auto
qed

lemma allocproc_found_Done:
  assumes "allocproc_found p s = Done r t"
  shows "alloc_result p s r t"
proof -
  define k where "k pt = (if pt = 0 then allocproc_fail p
       else bind (gets (\<lambda>s. code_sym s ''forkret'')) (\<lambda>forkret.
         bind (upd_proc p (\<lambda>q. q\<lparr>p_context :=
           \<lparr>ctx_ra = forkret, ctx_sp = p_kstack q + PGSIZE, ctx_s = (\<lambda>_. 0)\<rparr>\<rparr>)) (\<lambda>_.
         ret (Some p))) :: ('a procs_scheme, nat option) km)" for pt :: addr
  from assms obtain pid u tf v where u: "allocpid s = Done pid u"
    and v: "kalloc (u\<lparr>proc := (proc u)(p := (proc u p)\<lparr>p_pid := pid, p_state := USED\<rparr>)\<rparr>) = Done tf v"
    and rest: "(if tf = 0 then allocproc_fail p
       else bind (proc_pagetable p) (\<lambda>pt. bind (upd_proc p (\<lambda>q. q\<lparr>p_pagetable := pt\<rparr>)) (\<lambda>_. k pt)))
      (v\<lparr>proc := (proc v)(p := (proc v p)\<lparr>p_trapframe := tf\<rparr>)\<rparr>) = Done r t"
    unfolding allocproc_found_def upd_proc_def k_def by (auto simp: bind_eq_Done modify_def)
  define v' where "v' = v\<lparr>proc := (proc v)(p := (proc v p)\<lparr>p_trapframe := tf\<rparr>)\<rparr>"
  have pv: "proc v' = (proc s)(p := (proc s p)\<lparr>p_pid := nextpid s, p_state := USED, p_trapframe := tf\<rparr>)"
    and nv: "nextpid v' = int32 (nextpid s + 1)"
    using allocpid_Done [OF u] same_procsD [OF same_procs_Done [OF vm_more_base(6) v]]
    by (simp_all add: v'_def)
  show ?thesis
  proof (cases "tf = 0")
    case True
    with rest have "allocproc_fail p v' = Done r t" by (simp add: v'_def)
    then show ?thesis by (rule alloc_result_fail [OF _ pv nv])
  next
    case False
    with rest obtain pt w where w: "proc_pagetable p v' = Done pt w"
      and rest: "k pt (w\<lparr>proc := (proc w)(p := (proc w p)\<lparr>p_pagetable := pt\<rparr>)\<rparr>) = Done r t"
      by (auto simp: bind_eq_Done upd_proc_def modify_def v'_def)
    note w = same_procsD [OF same_procs_Done [OF vm_more_proc_pagetable(1) w]]
    show ?thesis
      by (rule allocproc_context [OF rest [unfolded k_def]]) (use w pv nv False in simp_all)
  qed
qed

section \<open>Fresh identifiers\<close>

text \<open>
  \<open>pids_ok\<close>: the processes in use have positive identifiers below the next one, no two the same.
\<close>

definition pids_ok :: "'a procs_scheme \<Rightarrow> bool" where
  "pids_ok s \<longleftrightarrow> 0 < nextpid s
     \<and> (\<forall>p<NPROC. p_state (proc s p) \<noteq> UNUSED \<longrightarrow> 0 < p_pid (proc s p) \<and> p_pid (proc s p) < nextpid s)
     \<and> (\<forall>p<NPROC. \<forall>q<NPROC. p_state (proc s p) \<noteq> UNUSED \<longrightarrow> p_state (proc s q) \<noteq> UNUSED \<longrightarrow>
          p_pid (proc s p) = p_pid (proc s q) \<longrightarrow> p = q)"

lemma freed_state [simp]: "p_state (freed q) = UNUSED" "p_pid (freed q) = 0"
  by (simp_all add: freed_def)

lemma pids_ok_free:
  assumes "pids_ok s" "proc t = (proc s)(p := freed q)" "nextpid s \<le> nextpid t"
  shows "pids_ok t"
  using assms unfolding pids_ok_def by (auto split: if_splits)

lemma pids_ok_alloc:
  assumes "pids_ok s" "proc t = (proc s)(p := allocated (nextpid s) tf pt ra q)" "nextpid t = nextpid s + 1"
  shows "pids_ok t"
  using assms unfolding pids_ok_def by (auto simp: allocated_def split: if_splits)

lemma allocproc_Done:
  assumes "allocproc s = Done r t"
  shows "same_procs s t \<and> r = None \<or> (\<exists>p<NPROC. p_state (proc s p) = UNUSED \<and> alloc_result p s r t)"
proof -
  from assms obtain x u where x: "allocproc_search s = Done x u"
    and rest: "(case x of None \<Rightarrow> ret None | Some p \<Rightarrow> allocproc_found p) u = Done r t"
    by (auto simp: allocproc_def bind_eq_Done)
  note same = allocproc_search_Done(1) [OF x]
  show ?thesis
  proof (cases x)
    case None
    with rest same show ?thesis by (simp add: ret_def)
  next
    case (Some p)
    with rest have "alloc_result p u r t" by (auto intro: allocproc_found_Done)
    with same_procsD [OF same] have "alloc_result p s r t" by (simp add: alloc_result_def)
    with allocproc_search_Done(2) [OF x Some] show ?thesis by blast
  qed
qed

section \<open>Waiting\<close>

text \<open>
  Whether the exit status can be stored at the address given to \<open>wait\<close>: its four bytes are in pages
  that are mapped for the user; no address means that the status is not wanted.
\<close>

definition status_fits :: "memory \<Rightarrow> addr \<Rightarrow> addr \<Rightarrow> bool" where
  "status_fits m pt addr \<longleftrightarrow> addr = 0 \<or> (\<forall>k<4. user_page m pt (addr + of_nat k) \<noteq> 0)"

lemma copyout_status:
  fixes s :: "'a procs_scheme"
  assumes "uvm_ok (mem s) pt"
  shows "\<exists>r m'. copyout pt addr (\<lambda>s. int_bytes (p_xstate (proc s np))) 4 s = Done r (s\<lparr>mem := m'\<rparr>)
    \<and> (r < 0 \<longleftrightarrow> \<not> (\<forall>k<4. user_page (mem s) pt (addr + of_nat k) \<noteq> 0))"
proof -
  have src: "kernel_source pt (\<lambda>s :: 'a procs_scheme. int_bytes (p_xstate (proc s np))) s"
    by (simp add: kernel_source_def)
  have four: "unat (4 :: addr) = 4" and record_simp: "s\<lparr>mem := mem s\<rparr> = s" by simp_all
  obtain r m' k where r: "copyout pt addr (\<lambda>s. int_bytes (p_xstate (proc s np))) 4 s = Done r (s\<lparr>mem := m'\<rparr>)"
    "if r = 0 then k = 4 \<and> (\<forall>x. within k addr x \<longrightarrow> user_page (mem s) pt x \<noteq> 0)
       else r = -1 \<and> k < 4 \<and> user_page (mem s) pt (addr + of_nat k) = 0"
    using copyout_loop [OF src user_same_refl [OF assms], of addr 0 4, unfolded four]
    by (simp only: copyout_def record_simp) blast
  have "within 4 addr (addr + of_nat k)" if "k < 4" for k
    using that by (simp add: within_def unat_of_nat take_bit_nat_eq_self)
  with r show ?thesis by (intro exI [of _ r] exI [of _ m']) (auto split: if_splits)
qed

text \<open>Locks leave memory alone.\<close>

lemma mem_locks [keeps_intros]:
  "keeps (\<lambda>s. mem s = m) (acquire lk)" "keeps (\<lambda>s. mem s = m) (release lk)"
  unfolding acquire_def acquire_spin_def release_def
  by (auto simp: spinlock_defs intro!: keeps_intros)

lemma mem_Done: "keeps (\<lambda>u. mem u = mem s) f \<Longrightarrow> f s = Done a t \<Longrightarrow> mem t = mem s"
  using keepsD [of "\<lambda>u. mem u = mem s" f s a t] by simp

text \<open>The answer \<open>x\<close> of \<open>wait\<close> for the exited child \<open>np\<close>, depending on whether the status fits.\<close>

definition reaped :: "bool \<Rightarrow> nat \<Rightarrow> int \<Rightarrow> 'a procs_scheme \<Rightarrow> 'a procs_scheme \<Rightarrow> bool" where
  "reaped ok np x s t \<longleftrightarrow>
     (if ok then x = p_pid (proc s np) \<and> proc t = (proc s)(np := freed (proc s np))
      else x = -1 \<and> proc t = proc s)"

lemma wait_child_zombie:
  assumes "(if addr \<noteq> 0 then copyout pt addr (\<lambda>s. int_bytes (p_xstate (proc s np))) 4 else ret 0) u = Done e v"
    "(if e < 0 then bind (block [release (ProcLock np), release WaitLock]) (\<lambda>_. ret (Some (-1)))
       else bind (block [freeproc np, release (ProcLock np), release WaitLock]) (\<lambda>_.
         ret (Some (p_pid (proc u np))))) v = Done r t"
    "addr = 0 \<or> uvm_ok (mem u) pt"
  shows "\<exists>x. r = Some x \<and> reaped (status_fits (mem u) pt addr) np x u t"
proof -
  have e: "e < 0 \<longleftrightarrow> \<not> status_fits (mem u) pt addr" and v: "proc v = proc u"
    using assms(1,3) copyout_status [of u pt addr np] by (auto simp: ret_def status_fits_def split: if_splits)
  have k: "keeps (\<lambda>s. vm.more s = m) (block [release (ProcLock np), release WaitLock])" for m
    by (auto intro!: keeps_intros)
  show ?thesis
  proof (cases "e < 0")
    case True
    with assms(2) obtain r': "r = Some (-1)" and t: "block [release (ProcLock np), release WaitLock] v = Done () t"
      by (auto simp: bind_eq_Done [of "block _"] ret_def simp del: block.simps)
    with True e v same_procsD(1) [OF same_procs_Done [OF k t]] show ?thesis by (simp add: reaped_def)
  next
    case False
    with assms(2) obtain w where r': "r = Some (p_pid (proc u np))" and w: "freeproc np v = Done () w"
      and t: "block [release (ProcLock np), release WaitLock] w = Done () t"
      by (auto simp: bind_eq_Done ret_def)
    with False e v freeproc_Done [OF w] same_procsD(1) [OF same_procs_Done [OF k t]] show ?thesis
      by (simp add: reaped_def)
  qed
qed

lemma wait_child_Done:
  assumes "wait_child addr p np s = Done r t" "addr = 0 \<or> uvm_ok (mem s) (p_pagetable (proc s p))"
  shows "if p_state (proc s np) = ZOMBIE
    then \<exists>x. r = Some x \<and> reaped (status_fits (mem s) (p_pagetable (proc s p)) addr) np x s t
    else r = None \<and> proc t = proc s \<and> mem t = mem s"
proof -
  from assms(1) obtain u where u: "acquire (ProcLock np) s = Done () u"
    and rest: "(if p_state (proc u np) = ZOMBIE then
       bind (gets (\<lambda>s. p_pagetable (proc s p))) (\<lambda>pt.
       bind (if addr \<noteq> 0 then copyout pt addr (\<lambda>s. int_bytes (p_xstate (proc s np))) 4 else ret 0) (\<lambda>e.
       if e < 0 then bind (block [release (ProcLock np), release WaitLock]) (\<lambda>_. ret (Some (-1)))
       else bind (block [freeproc np, release (ProcLock np), release WaitLock]) (\<lambda>_.
         ret (Some (p_pid (proc u np))))))
     else bind (release (ProcLock np)) (\<lambda>_. ret None)) u = Done r t"
    by (auto simp: wait_child_def bind_eq_Done gets_def)
  have same: "proc u = proc s" "mem u = mem s"
    using same_procsD(1) [OF same_procs_Done [OF vm_more_base(1) u]] mem_Done [OF mem_locks(1) u] by simp_all
  show ?thesis
  proof (cases "p_state (proc s np) = ZOMBIE")
    case False
    with rest same have r: "r = None" and t: "release (ProcLock np) u = Done () t"
      by (auto simp: bind_eq_Done ret_def)
    with False same same_procsD(1) [OF same_procs_Done [OF vm_more_base(2) t]] mem_Done [OF mem_locks(2) t]
    show ?thesis by simp
  next
    case True
    with rest same obtain e v
      where v: "(if addr \<noteq> 0 then copyout (p_pagetable (proc s p)) addr (\<lambda>s. int_bytes (p_xstate (proc s np))) 4
          else ret 0) u = Done e v"
      and rest: "(if e < 0 then bind (block [release (ProcLock np), release WaitLock]) (\<lambda>_. ret (Some (-1)))
       else bind (block [freeproc np, release (ProcLock np), release WaitLock]) (\<lambda>_.
         ret (Some (p_pid (proc u np))))) v = Done r t"
      by (auto simp: bind_eq_Done gets_def)
    have eq: "reaped ok np x u t = reaped ok np x s t" for ok x by (simp add: reaped_def same)
    have "addr = 0 \<or> uvm_ok (mem u) (p_pagetable (proc s p))" using assms(2) same by simp
    from wait_child_zombie [OF v rest this, unfolded eq same] True show ?thesis by simp
  qed
qed

text \<open>A child that has exited.\<close>

definition zombie_child :: "nat \<Rightarrow> (nat \<Rightarrow> proc) \<Rightarrow> nat \<Rightarrow> bool" where
  "zombie_child p ps np \<longleftrightarrow> p_parent (ps np) = Some p \<and> p_state (ps np) = ZOMBIE"

lemma wait_from_Done:
  assumes "wait_from addr p hk nps s = Done r t" "addr = 0 \<or> uvm_ok (mem s) (p_pagetable (proc s p))"
  shows "case find (zombie_child p (proc s)) nps of
      None \<Rightarrow> r = Inl (hk \<or> (\<exists>np\<in>set nps. p_parent (proc s np) = Some p)) \<and> proc t = proc s
    | Some np \<Rightarrow> \<exists>x. r = Inr x \<and> reaped (status_fits (mem s) (p_pagetable (proc s p)) addr) np x s t"
  using assms
proof (induction nps arbitrary: hk s)
  case (Cons a nps)
  show ?case
  proof (cases "p_parent (proc s a) = Some p")
    case False
    with Cons.prems have "wait_from addr p hk nps s = Done r t" by (simp add: bind_def gets_def)
    from Cons.IH [OF this Cons.prems(2)] False show ?thesis
      by (simp add: zombie_child_def split: option.splits)
  next
    case True
    with Cons.prems obtain y u where y: "wait_child addr p a s = Done y u"
      and rest: "(case y of Some x \<Rightarrow> ret (Inr x) | None \<Rightarrow> wait_from addr p True nps) u = Done r t"
      by (auto simp: gets_def bind_def split: outcome.splits)
    note c = wait_child_Done [OF y Cons.prems(2)]
    show ?thesis
    proof (cases "p_state (proc s a) = ZOMBIE")
      case zombie: True
      with c rest True show ?thesis by (auto simp: zombie_child_def ret_def)
    next
      case False
      with c rest have u: "wait_from addr p True nps u = Done r t" "proc u = proc s" "mem u = mem s" by auto
      have eq: "reaped ok np x u t = reaped ok np x s t" for ok np x by (simp add: reaped_def u)
      from Cons.IH [OF u(1), unfolded u(2,3) eq] Cons.prems(2) True False show ?thesis
        by (simp add: zombie_child_def split: option.splits)
    qed
  qed
qed (simp add: ret_def)

text \<open>
  C18. One pass of \<open>wait\<close> over the table. If a child has exited, the first such child decides: when
  the exit status is not wanted or its four bytes are mapped for the caller, the pass returns the
  child's identifier and frees exactly that entry; otherwise it returns -1 and changes no entry.
  Without an exited child no entry changes and the pass reports whether there is any child.
\<close>

theorem wait_reaps_first_zombie:
  assumes "wait_scan addr p s = Done r t" "addr = 0 \<or> uvm_ok (mem s) (p_pagetable (proc s p))"
  shows "if \<exists>np<NPROC. zombie_child p (proc s) np
    then \<exists>np<NPROC. zombie_child p (proc s) np \<and> (\<forall>k<np. \<not> zombie_child p (proc s) k)
      \<and> (if addr = 0 \<or> (\<forall>k<4. user_page (mem s) (p_pagetable (proc s p)) (addr + of_nat k) \<noteq> 0)
         then r = Inr (p_pid (proc s np)) \<and> proc t = (proc s)(np := freed (proc s np))
         else r = Inr (-1) \<and> proc t = proc s)
    else r = Inl (\<exists>np<NPROC. p_parent (proc s np) = Some p) \<and> proc t = proc s"
proof (cases "find (zombie_child p (proc s)) [0..<NPROC]")
  case None
  with wait_from_Done [OF assms(1) [unfolded wait_scan_def] assms(2)] show ?thesis
    by (auto simp: find_None_iff)
next
  case (Some np)
  then have np: "np < NPROC" "zombie_child p (proc s) np" "\<forall>k<np. \<not> zombie_child p (proc s) k"
    by (auto simp: find_Some_iff)
  with Some wait_from_Done [OF assms(1) [unfolded wait_scan_def] assms(2)] show ?thesis
    by (auto simp: status_fits_def reaped_def)
qed

text \<open>
  A parent, entry 1, with an exited child, entry 2; the parent has the page at address 0 mapped, and
  holds \<open>wait_lock\<close>.
\<close>

definition family :: procs where
  "family = boot_procs\<lparr>mem := demo_mem,
     proc := (\<lambda>_. free_slot)(1 := free_slot\<lparr>p_state := RUNNING, p_pid := 6, p_pagetable := 0x80100000\<rparr>,
     2 := free_slot\<lparr>p_state := ZOMBIE, p_pid := 7, p_parent := Some 1, p_xstate := 9\<rparr>)\<rparr>"

lemma family_simps [simp]:
  "cpu_ok family" "lock_free lk family" "p_parent (proc family 0) = None" "p_parent (proc family (Suc 0)) = None"
  "p_parent (proc family 2) = Some 1" "p_state (proc family 2) = ZOMBIE" "p_pid (proc family 2) = 7"
  "p_trapframe (proc family 2) = 0" "p_pagetable (proc family 2) = 0"
  "p_pagetable (proc family (Suc 0)) = 0x80100000" "mem family = demo_mem"
  by (simp_all add: family_def free_slot_def)

lemma family_wait: "[0..<NPROC] = 0 # 1 # 2 # [3..<NPROC]"
  by (simp add: NPROC_def upt_conv_Cons)

lemma family_zombie: "zombie_child (Suc 0) (proc family) np \<longleftrightarrow> np = 2"
  by (simp add: zombie_child_def family_def free_slot_def)

lemma family_unmapped: "\<exists>r t. wait_scan 0x5000 1 (entered WaitLock family) = Done r t"
proof -
  let ?s = "entered (ProcLock 2) (entered WaitLock family)"
  have "uvm_ok (mem ?s) 0x80100000" using demo_uvm_ok by (simp add: demo_kmem_def entered_def pushed_def)
  moreover have "user_page (mem ?s) 0x80100000 (0x5000 + of_nat 0) = 0"
    by (simp add: entered_def pushed_def demo_user_page within_def)
  ultimately obtain r m' where "copyout 0x80100000 0x5000 (\<lambda>s. int_bytes (p_xstate (proc s 2))) 4 ?s = Done r (?s\<lparr>mem := m'\<rparr>)"
    "r < 0" using copyout_status [of ?s "0x80100000" "0x5000" 2] by fastforce
  then show ?thesis
    by (simp add: wait_scan_def family_wait wait_child_def km_simps acquire_eq)
qed

theorem wait_reaps_first_zombie_witness:
  "(\<exists>t. wait_scan 0 1 (entered WaitLock family) = Done (Inr 7) t \<and> p_state (proc t 2) = UNUSED
      \<and> p_state (proc t 1) = RUNNING)
   \<and> (\<exists>t. wait_scan 0x5000 1 (entered WaitLock family) = Done (Inr (-1)) t \<and> p_state (proc t 2) = ZOMBIE)"
proof
  have ex: "\<exists>np<NPROC. zombie_child 1 (proc (entered WaitLock family)) np"
    by (simp add: family_zombie NPROC_def)
  have "\<exists>r t. wait_scan 0 1 (entered WaitLock family) = Done r t"
    by (simp add: wait_scan_def family_wait wait_child_def km_simps acquire_eq freeproc_def upd_proc_def)
  then obtain r t where t: "wait_scan 0 1 (entered WaitLock family) = Done r t" by blast
  from wait_reaps_first_zombie [OF t, unfolded if_P [OF ex]]
  have "r = Inr 7" "proc t = (proc family)(2 := freed (proc family 2))" by (auto simp: family_zombie)
  moreover have "p_state (proc family 1) = RUNNING" by (simp add: family_def)
  ultimately show "\<exists>t. wait_scan 0 1 (entered WaitLock family) = Done (Inr 7) t \<and> p_state (proc t 2) = UNUSED
      \<and> p_state (proc t 1) = RUNNING" using t by auto
  obtain r t where t: "wait_scan 0x5000 1 (entered WaitLock family) = Done r t" using family_unmapped by blast
  have ok: "uvm_ok (mem (entered WaitLock family)) (p_pagetable (proc (entered WaitLock family) 1))"
    using demo_uvm_ok by (simp add: demo_kmem_def entered_def pushed_def)
  have no: "\<not> (\<forall>k<4. user_page (mem (entered WaitLock family)) (p_pagetable (proc (entered WaitLock family) 1))
      (0x5000 + of_nat k) \<noteq> 0)"
    by (auto simp: entered_def pushed_def demo_user_page within_def intro: exI [of _ 0])
  from wait_reaps_first_zombie [OF t, unfolded if_P [OF ex]] ok no
  have "r = Inr (-1)" "proc t = proc family" by (auto simp: family_zombie)
  with t show "\<exists>t. wait_scan 0x5000 1 (entered WaitLock family) = Done (Inr (-1)) t \<and> p_state (proc t 2) = ZOMBIE"
    by auto
qed

section \<open>Reparenting\<close>

text \<open>
  The children of \<open>p\<close> get the parent \<open>i\<close>, which is woken if there is a child. \<open>reparented\<close> is the
  table after the entries below \<open>n\<close> have been visited.
\<close>

definition adopted :: "nat \<Rightarrow> nat option \<Rightarrow> proc \<Rightarrow> proc" where
  "adopted p i q = (if p_parent q = Some p then q\<lparr>p_parent := i\<rparr> else q)"

definition reparented :: "nat option \<Rightarrow> nat \<Rightarrow> nat option \<Rightarrow> nat \<Rightarrow> (nat \<Rightarrow> proc) \<Rightarrow> nat \<Rightarrow> proc" where
  "reparented w p i n ps =
     (if \<exists>c<n. p_parent (ps c) = Some p then all_woken w (chan_of_proc i) else id)
       (\<lambda>k. if k < n then adopted p i (ps k) else ps k)"

lemma woken_simps [simp]:
  "p_parent (woken w c k q) = p_parent q" "woken w c k (q\<lparr>p_parent := i\<rparr>) = (woken w c k q)\<lparr>p_parent := i\<rparr>"
  "woken w c k (woken w c k q) = woken w c k q" "p_pid (woken w c k q) = p_pid q"
  by (simp_all add: woken_def)

lemma reparented_parent:
  "p_parent (reparented w p i n ps k) =
     (if k < n \<and> p_parent (ps k) = Some p then i else p_parent (ps k))"
  by (simp add: reparented_def all_woken_def adopted_def)

lemma reparented_Suc:
  "reparented w p i (Suc n) ps =
    (if p_parent (ps n) = Some p
     then all_woken w (chan_of_proc i)
       ((reparented w p i n ps)(n := (reparented w p i n ps n)\<lparr>p_parent := i\<rparr>))
     else reparented w p i n ps)"
  by (rule ext) (auto simp: reparented_def all_woken_def adopted_def less_Suc_eq)

definition reparent_child :: "nat \<Rightarrow> nat \<Rightarrow> ('a procs_scheme, unit) km" where
  "reparent_child p pp =
     bind (gets (\<lambda>s. (p_parent (proc s pp), initproc s))) (\<lambda>(parent, init).
       only_if (parent = Some p) (block [
         upd_proc pp (\<lambda>q. q\<lparr>p_parent := init\<rparr>),
         wakeup (chan_of_proc init)]))"

lemma reparent_for_each: "reparent p = for_each (reparent_child p) [0..<NPROC]"
  by (simp add: reparent_def reparent_child_def [abs_def])

lemma reparent_upto:
  assumes "procs_ready (entered WaitLock s)" "cpu_ok s"
  shows "for_each (reparent_child p) [0..<n] (entered WaitLock s) =
    Done () (entered WaitLock (s\<lparr>proc := reparented (me s) p (initproc s) n (proc s)\<rparr>))"
proof (induction n)
  case 0
  have "reparented (me s) p (initproc s) 0 (proc s) = proc s" by (simp add: reparented_def)
  then show ?case by (simp add: ret_def)
next
  case (Suc n)
  let ?t = "s\<lparr>proc := reparented (me s) p (initproc s) n (proc s)\<rparr>"
  have ready: "procs_ready (entered WaitLock (s\<lparr>proc := ps\<rparr>))" for ps
    using assms(1) by (simp flip: proc_lock_simps(4))
  have "reparent_child p n (entered WaitLock ?t) =
    Done () (entered WaitLock (s\<lparr>proc := reparented (me s) p (initproc s) (Suc n) (proc s)\<rparr>))"
    using assms(2)
    by (simp add: reparent_child_def reparented_parent reparented_Suc km_simps upd_proc_def
        wakeup_eq [OF ready])
  with Suc.IH show ?case by (simp add: for_each_append)
qed

lemma reparent_eq:
  assumes "procs_ready s" "lock_free WaitLock s"
  shows "reparent p (entered WaitLock s) =
    Done () (entered WaitLock (s\<lparr>proc := reparented (me s) p (initproc s) NPROC (proc s)\<rparr>))"
proof -
  have "procs_ready (entered WaitLock s)" "cpu_ok s" using assms by (auto simp: procs_ready_def)
  then show ?thesis unfolding reparent_for_each by (rule reparent_upto)
qed

section \<open>Allocation\<close>

text \<open>With seven free pages and a free entry, \<open>allocproc\<close> succeeds.\<close>

lemma kmem_procs_simps [simp]:
  "kmem_ready (s\<lparr>proc := ps\<rparr>) = kmem_ready s" "kmem_inv xs (s\<lparr>proc := ps\<rparr>) = kmem_inv xs s"
  "kmem_ready (s\<lparr>nextpid := n\<rparr>) = kmem_ready s" "kmem_inv xs (s\<lparr>nextpid := n\<rparr>) = kmem_inv xs s"
  by (simp_all add: kmem_ready_def kmem_inv_def kpage_def lock_state_defs)

lemma kmem_entered:
  "kmem_ready s \<Longrightarrow> lk \<noteq> KmemLock \<Longrightarrow> kmem_ready (entered lk s)" "kmem_inv xs (entered lk s) = kmem_inv xs s"
  by (simp_all add: kmem_ready_def) (simp_all add: kmem_inv_def kpage_def lock_state_defs)

lemma map_new_page:
  assumes "tables_ok xs 2 p s" "page_aligned va" "unat va + 4096 \<le> 2 ^ 38" "2 < length xs"
    "\<And>va'. va' < MAXVA \<Longrightarrow> within 4096 va va' \<Longrightarrow> \<not> valid_pte (leaf (mem s) va' 2 p)"
  shows "\<exists>t ys. mappages p va PGSIZE pa perm s = Done 0 t \<and> tables_ok ys 2 p t \<and> length xs \<le> length ys + 2
    \<and> maps_from va 1 pa perm p (mem s) (mem t)"
proof -
  obtain i where i: "unat va = 4096 * i" using assms(2) by (rule page_alignedE)
  then have "(unat va + 4096 - 1) div 4096 - unat va div 4096 = 0" by simp
  then have mp: "mappages p va PGSIZE pa perm s = loop (mappages_step p perm (va + of_nat (4096 * 0))) (va, pa) s"
    using mappages_eq [of PGSIZE va p pa perm s] assms(3) PGROUNDDOWN_aligned [OF assms(2)] by auto
  obtain r t ys k where "mappages p va PGSIZE pa perm s = Done r t" "tables_ok ys 2 p t" "length xs \<le> length ys + 2"
    "maps_from va k pa perm p (mem s) (mem t)" "r = 0 \<and> k = 1 \<or> r = -1 \<and> ys = []"
    unfolding mp using mappages_loop [OF assms(1,2), of 0 perm pa] assms(3,5) by auto
  then show ?thesis using assms(4) by auto
qed

lemma proc_pagetable_succeeds:
  assumes "kmem_ready s" "kmem_inv (x # xs) s" "4 < length xs"
  shows "\<exists>t. proc_pagetable p s = Done x t"
proof -
  have x: "x \<noteq> 0" using kpages.frees_nonnull [OF assms(2)] by simp
  obtain t where t: "uvmcreate s = Done x t" "tables_ok xs 2 x t" "\<And>va. leaf (mem t) va 2 x = 0"
    using uvmcreate_empty [OF assms(1,2)] by blast
  have "page_aligned TRAMPOLINE" "page_aligned TRAPFRAME" by (simp_all add: page_aligned_def)
  note al = this
  obtain u ys where u: "mappages x TRAMPOLINE PGSIZE (trampoline_sym t) (PTE_R OR PTE_X) t = Done 0 u"
    "tables_ok ys 2 x u" "length xs \<le> length ys + 2"
    "maps_from TRAMPOLINE 1 (trampoline_sym t) (PTE_R OR PTE_X) x (mem t) (mem u)"
    using map_new_page [OF t(2) al(1), of "trampoline_sym t" "PTE_R OR PTE_X"] assms(3) t(3) by auto
  have "\<not> within 4096 TRAMPOLINE va" if "within 4096 TRAPFRAME va" for va
    using that within_range [of TRAPFRAME 4096 va] within_range [of TRAMPOLINE 4096 va] by simp
  then have "leaf (mem u) va 2 x = 0" if "va < MAXVA" "within 4096 TRAPFRAME va" for va
    using that u(4) t(3) by (simp add: maps_from_def)
  then obtain v zs where "mappages x TRAPFRAME PGSIZE (p_trapframe (proc u p)) (PTE_R OR PTE_W) u = Done 0 v"
    using map_new_page [OF u(2) al(2), of "p_trapframe (proc u p)" "PTE_R OR PTE_W"] assms(3) u(3) by auto
  with t(1) u(1) x show ?thesis by (simp add: proc_pagetable_def km_simps)
qed

lemma allocproc_succeeds:
  assumes "lock_free (ProcLock 0) s" "lock_free PidLock s" "kmem_ready s" "kmem_inv xs s" "7 \<le> length xs"
    "p_state (proc s 0) = UNUSED"
  shows "\<exists>t. allocproc s = Done (Some 0) t"
proof -
  let ?u = "entered (ProcLock 0) s"
  have ok: "cpu_ok s" using assms(3) by (simp add: kmem_ready_def)
  have upt: "[0..<NPROC] = 0 # [1..<NPROC]" by (simp add: NPROC_def upt_conv_Cons)
  have search: "allocproc_search s = Done (Some 0) ?u"
    using assms(1,6) by (simp add: allocproc_search_def upt km_simps acquire_eq)
  have pid: "allocpid ?u = Done (nextpid s) (entered (ProcLock 0) (s\<lparr>nextpid := int32 (nextpid s + 1)\<rparr>))"
    using assms(1,2) ok by (simp add: allocpid_def km_simps acquire_eq)
  define v where "v = entered (ProcLock 0) (s\<lparr>nextpid := int32 (nextpid s + 1),
    proc := (proc s)(0 := (proc s 0)\<lparr>p_pid := nextpid s, p_state := USED\<rparr>)\<rparr>)"
  have "7 \<le> length xs" "kmem_ready v" "kmem_inv xs v" using assms(3-5) by (simp_all add: v_def kmem_entered)
  then obtain tf x ys where v: "kmem_ready v" "kmem_inv (tf # x # ys) v" "4 < length ys"
    by (cases xs; cases "tl xs") auto
  let ?w = "quiet (v\<lparr>freelist := load64 (mem v) tf, mem := memset (mem v) tf 5 4096\<rparr>)"
  have alloc: "kalloc v = Done tf ?w" by (rule kalloc_head [OF v(1,2)])
  have w: "kmem_ready (?w\<lparr>proc := ps\<rparr>)" "kmem_inv (x # ys) (?w\<lparr>proc := ps\<rparr>)" for ps
    using v(1) kmem_inv_alloc [OF v(2)] by simp_all
  obtain t where t: "proc_pagetable 0 (?w\<lparr>proc := (proc ?w)(0 := (proc ?w 0)\<lparr>p_trapframe := tf\<rparr>)\<rparr>) = Done x t"
    using proc_pagetable_succeeds [OF w v(3)] by blast
  have nz: "tf \<noteq> 0" "x \<noteq> 0" using kpages.frees_nonnull [OF v(2)] by simp_all
  have "allocproc_found 0 ?u = (if tf = 0 then allocproc_fail 0 else bind (proc_pagetable 0) (\<lambda>pt.
       bind (upd_proc 0 (\<lambda>q. q\<lparr>p_pagetable := pt\<rparr>)) (\<lambda>_.
       if pt = 0 then allocproc_fail 0
       else bind (gets (\<lambda>s. code_sym s ''forkret'')) (\<lambda>forkret.
         bind (upd_proc 0 (\<lambda>q. q\<lparr>p_context :=
           \<lparr>ctx_ra = forkret, ctx_sp = p_kstack q + PGSIZE, ctx_s = (\<lambda>_. 0)\<rparr>\<rparr>)) (\<lambda>_.
         ret (Some 0))))))
      (?w\<lparr>proc := (proc ?w)(0 := (proc ?w 0)\<lparr>p_trapframe := tf\<rparr>)\<rparr>)"
    using pid alloc unfolding v_def by (simp add: allocproc_found_def bind_def upd_proc_def modify_def)
  with t nz have "\<exists>t. allocproc_found 0 ?u = Done (Some 0) t"
    by (simp add: bind_def upd_proc_def modify_def gets_def ret_def)
  with search show ?thesis by (simp add: allocproc_def bind_def)
qed

text \<open>
  C19. \<open>allocproc\<close> keeps the identifiers of the live processes positive, below \<open>nextpid\<close> and
  distinct as long as \<open>nextpid\<close> has not reached the largest \<open>int\<close>, from where it wraps around to a
  negative number, as it counts in 32 bits; the process it returns was free, is in use, has the identifier \<open>nextpid\<close>,
  larger than that of every other process, and no other entry changes.
\<close>

theorem allocproc_fresh_pid:
  assumes "pids_ok s" "allocproc s = Done r t"
  shows "(nextpid s < 2 ^ 31 - 1 \<longrightarrow> pids_ok t)
    \<and> (\<forall>p. r = Some p \<longrightarrow> p < NPROC \<and> p_state (proc s p) = UNUSED \<and> p_state (proc t p) = USED
        \<and> p_pid (proc t p) = nextpid s
        \<and> nextpid t = int32 (nextpid s + 1)
        \<and> p_trapframe (proc t p) \<noteq> 0 \<and> p_pagetable (proc t p) \<noteq> 0
        \<and> (\<forall>q<NPROC. q \<noteq> p \<longrightarrow> proc t q = proc s q \<and>
             (p_state (proc t q) \<noteq> UNUSED \<longrightarrow> p_pid (proc t q) < p_pid (proc t p))))"
  using allocproc_Done [OF assms(2)]
proof (elim disjE exE conjE)
  assume same: "same_procs s t" and "r = None"
  from same_procsD(1,2) [OF same] assms(1) \<open>r = None\<close> show ?thesis by (simp add: pids_ok_def)
next
  fix p assume p: "p < NPROC" "p_state (proc s p) = UNUSED" and "alloc_result p s r t"
  then consider q where "r = None" "proc t = (proc s)(p := freed q)" "nextpid t = int32 (nextpid s + 1)"
    | tf pt ra where "r = Some p" "tf \<noteq> 0" "pt \<noteq> 0" "nextpid t = int32 (nextpid s + 1)"
        "proc t = (proc s)(p := allocated (nextpid s) tf pt ra (proc s p))"
    unfolding alloc_result_def by blast
  moreover have next_pid: "int32 (nextpid s + 1) = nextpid s + 1" if "nextpid s < 2 ^ 31 - 1"
    using that assms(1) by (intro int32_small) (simp_all add: pids_ok_def)
  ultimately show ?thesis
  proof cases
    case 1
    from pids_ok_free [OF assms(1) 1(2)] 1(3) next_pid have "pids_ok t" if "nextpid s < 2 ^ 31 - 1" using that by simp
    with 1(1) show ?thesis by simp
  next
    case 2
    from pids_ok_alloc [OF assms(1) 2(5)] 2(4) next_pid have "pids_ok t" if "nextpid s < 2 ^ 31 - 1" using that by simp
    moreover have "p_pid (proc s q) < nextpid s" if "q < NPROC" "p_state (proc s q) \<noteq> UNUSED" for q
      using assms(1) that by (simp add: pids_ok_def)
    ultimately show ?thesis using 2 p by (simp add: allocated_def)
  qed
qed

text \<open>
  The entry that \<open>allocproc\<close> takes keeps the mark that \<open>kill\<close> left on it while it was free.
\<close>

lemma allocproc_keeps_killed:
  assumes "allocproc s = Done (Some p) t"
  shows "p_killed (proc t p) = p_killed (proc s p)"
  using allocproc_Done [OF assms]
  by (auto simp: alloc_result_def allocated_def)

text \<open>
  C20. \<open>kill(0)\<close> succeeds whenever an entry of the table is free: it marks a free entry as killed, and
  when \<open>allocproc\<close> hands out that entry, the new process is already killed.
\<close>

theorem kill_zero_marks_free_entry:
  assumes "all_free s" "pids_ok s" "\<forall>p<NPROC. p_state (proc s p) = UNUSED \<longrightarrow> p_pid (proc s p) = 0"
    "k < NPROC" "p_state (proc s k) = UNUSED"
  shows "\<exists>t p. kill 0 s = Done 0 t \<and> p < NPROC \<and> p_state (proc t p) = UNUSED \<and> p_killed (proc t p)
    \<and> (\<forall>u. allocproc t = Done (Some p) u \<longrightarrow> p_killed (proc u p))"
proof (cases "find_pid 0 (proc s)")
  case None
  with assms(3-5) show ?thesis by (auto simp: find_pid_def find_None_iff)
next
  case (Some p)
  then have p: "p < NPROC" "p_pid (proc s p) = 0" by (auto simp: find_pid_def find_Some_iff)
  with assms(2) have "p_state (proc s p) = UNUSED" unfolding pids_ok_def by fastforce
  moreover have "kill 0 s = Done 0 (quiet (s\<lparr>proc := (proc s)(p := killed_proc (proc s p))\<rparr>))"
    using kill_eq [OF assms(1), of 0] Some by simp
  ultimately show ?thesis using p
    by (intro exI [of _ "quiet (s\<lparr>proc := (proc s)(p := killed_proc (proc s p))\<rparr>)"] exI [of _ p])
       (auto simp: killed_proc_def allocproc_keeps_killed)
qed

lemma boot_pids_ok: "pids_ok boot_procs"
  by (simp add: pids_ok_def free_slot_def) (simp add: boot_procs_def)

text \<open>A machine with free memory and no process.\<close>

lemma roomy_exists:
  "\<exists>(s :: procs) xs. (\<forall>lk. lock_free lk s) \<and> kmem_ready s \<and> kmem_inv xs s \<and> 7 \<le> length xs
     \<and> proc s = (\<lambda>_. free_slot) \<and> nextpid s = 1"
proof -
  obtain t :: kmem and p xs where t: "tables_ok xs 2 p t" "7 < length xs" using fresh_table_exists by blast
  let ?s = "boot_procs\<lparr>mem := mem t, freelist := freelist t, end_sym := 0x80000000\<rparr>"
  have inv: "kmem_inv xs t" using t(1) by (simp add: tables_ok_def)
  have "kpage ?s x" if "x \<in> set xs" for x
    using inv that by (auto simp: kmem_inv_def kpage_def intro: order_trans)
  with inv have "kmem_inv xs ?s" by (simp add: kmem_inv_def)
  moreover have "lock_free lk ?s" for lk by (simp add: boot_procs_def lock_free_def)
  moreover have "kmem_ready ?s" by (simp add: boot_procs_def kmem_ready_def lock_state_defs)
  moreover have "proc ?s = (\<lambda>_. free_slot)" "nextpid ?s = 1" by (simp_all add: boot_procs_def)
  ultimately show ?thesis using t(2) by (intro exI [of _ ?s] exI [of _ xs]) simp
qed

lemma roomy_pids_ok: "proc s = (\<lambda>_. free_slot) \<Longrightarrow> nextpid s = 1 \<Longrightarrow> pids_ok s"
  by (simp add: pids_ok_def free_slot_def)

theorem allocproc_fresh_pid_witness:
  "\<exists>s t :: procs. pids_ok s \<and> allocproc s = Done (Some 0) t \<and> pids_ok t \<and> p_state (proc t 0) = USED
     \<and> p_pid (proc t 0) = 1 \<and> nextpid t = 2 \<and> p_pagetable (proc t 0) \<noteq> 0"
proof -
  obtain s :: procs and xs where s: "\<forall>lk. lock_free lk s" "kmem_ready s" "kmem_inv xs s" "7 \<le> length xs"
    "proc s = (\<lambda>_. free_slot)" "nextpid s = 1" using roomy_exists by blast
  obtain t where t: "allocproc s = Done (Some 0) t"
    using allocproc_succeeds [of s xs] s by (auto simp: free_slot_def)
  have ok: "pids_ok s" by (rule roomy_pids_ok [OF s(5,6)])
  have "int32 2 = 2" by (rule int32_small) simp_all
  with allocproc_fresh_pid [OF ok t] s(6) ok t show ?thesis by auto
qed

theorem kill_zero_marks_free_entry_witness:
  "\<exists>s t u :: procs. kill 0 s = Done 0 t \<and> p_state (proc t 0) = UNUSED \<and> p_killed (proc t 0)
     \<and> allocproc t = Done (Some 0) u \<and> p_killed (proc u 0)"
proof -
  obtain s :: procs and xs where s: "\<forall>lk. lock_free lk s" "kmem_ready s" "kmem_inv xs s" "7 \<le> length xs"
    "proc s = (\<lambda>_. free_slot)" "nextpid s = 1" using roomy_exists by blast
  have ok: "all_free s" using s(1,2) by (simp add: all_free_def kmem_ready_def)
  have upt: "[0..<NPROC] = 0 # [1..<NPROC]" by (simp add: NPROC_def upt_conv_Cons)
  have "find_pid 0 (proc s) = Some 0" by (simp add: find_pid_def s(5) upt free_slot_def)
  with kill_eq [OF ok, of 0]
  have k: "kill 0 s = Done 0 (quiet (s\<lparr>proc := (proc s)(0 := killed_proc (proc s 0))\<rparr>))" by simp
  let ?t = "quiet (s\<lparr>proc := (proc s)(0 := killed_proc (proc s 0))\<rparr>)"
  have t0: "p_state (proc ?t 0) = UNUSED" by (simp add: s(5) killed_proc_def free_slot_def)
  obtain u where u: "allocproc ?t = Done (Some 0) u"
    using allocproc_succeeds [of ?t xs] s t0 by auto
  have dead: "p = 0" if "p_killed (proc ?t p)" for p
    using that by (simp add: s(5) free_slot_def split: if_splits)
  have "\<exists>t p. kill 0 s = Done 0 t \<and> p < NPROC \<and> p_state (proc t p) = UNUSED \<and> p_killed (proc t p)
    \<and> (\<forall>u. allocproc t = Done (Some p) u \<longrightarrow> p_killed (proc u p))"
    by (rule kill_zero_marks_free_entry [OF ok roomy_pids_ok [OF s(5,6)], of 0])
       (simp_all add: s(5) free_slot_def NPROC_def)
  then obtain p where "p_killed (proc ?t p)" "\<forall>u. allocproc ?t = Done (Some p) u \<longrightarrow> p_killed (proc u p)"
    using k by auto
  with dead u have "p_killed (proc ?t 0)" "p_killed (proc u 0)" by blast+
  with k t0 u show ?thesis by blast
qed

end
