(* ===== verification/Xv6_Exit.thy ===== *)
theory Xv6_Exit
  imports Xv6_Proctable Xv6_Process
begin

text \<open>
  The end of a process: what \<open>exit\<close> (kernel/proc.c) leaves behind when it has closed the files of
  the process and switches to the scheduler for the last time.
\<close>

lemma procs_ready_wait_lock: "procs_ready s \<Longrightarrow> procs_ready (entered WaitLock s)"
  by (simp add: procs_ready_def)

lemma exit_zombie_eq:
  assumes "procs_ready s" "lock_free WaitLock s" "lock_free (ProcLock p) s"
    and ps: "ps = reparented (me s) p (initproc s) NPROC (proc s)"
    and qs: "qs = all_woken (me s) (chan_of_proc (p_parent (ps p))) ps"
  shows "exit_zombie p status s =
    Done () (entered (ProcLock p) (s\<lparr>proc := qs(p := (qs p)\<lparr>p_xstate := status, p_state := ZOMBIE\<rparr>)\<rparr>))"
proof -
  have ok: "cpu_ok s" using assms(1) by (simp add: procs_ready_def)
  have ready: "procs_ready (entered WaitLock (s\<lparr>proc := ps\<rparr>))"
    by (rule procs_ready_wait_lock) (simp add: assms(1))
  let ?q = "(qs p)\<lparr>p_xstate := status, p_state := ZOMBIE\<rparr>"
  have swap: "entered (ProcLock p) (entered WaitLock u) = entered WaitLock (entered (ProcLock p) u)"
    for u :: "'a procs_scheme" by (rule entered_swap) simp
  show ?thesis
    using assms(2,3) ok
    by (simp add: exit_zombie_def km_simps acquire_eq reparent_eq [OF assms(1,2), of p, folded ps]
        wakeup_eq [OF ready] upd_proc_def swap flip: qs)
qed

text \<open>
  C21. When a process other than init exits, it becomes a zombie with its exit status and its lock
  held, so that nobody reaps it before the switch; \<open>wait_lock\<close> is free again; every child has init
  as its parent and no process has the exiting process as parent; and a parent that sleeps in
  \<open>wait\<close> is runnable.
\<close>

theorem exit_leaves_no_orphans:
  assumes "procs_ready s" "lock_free WaitLock s" "lock_free (ProcLock p) s" "me s = Some p" "p < NPROC"
    "initproc s = Some i" "i \<noteq> p"
  shows "\<exists>t. exit_zombie p status s = Done () t
    \<and> p_state (proc t p) = ZOMBIE \<and> p_xstate (proc t p) = status
    \<and> holding (ProcLock p) t \<and> lock_free WaitLock t
    \<and> (\<forall>k<NPROC. p_parent (proc t k) =
          (if p_parent (proc s k) = Some p then Some i else p_parent (proc s k)))
    \<and> (\<forall>k<NPROC. p_parent (proc t k) \<noteq> Some p)
    \<and> (\<forall>w<NPROC. p_parent (proc s p) = Some w \<and> w \<noteq> p \<and> p_state (proc s w) = SLEEPING
          \<and> p_chan (proc s w) = ChanProc w \<longrightarrow> p_state (proc t w) = RUNNABLE)"
proof -
  define ps where "ps = reparented (me s) p (initproc s) NPROC (proc s)"
  define qs where "qs = all_woken (me s) (chan_of_proc (p_parent (ps p))) ps"
  let ?q = "(qs p)\<lparr>p_xstate := status, p_state := ZOMBIE\<rparr>"
  have parent: "p_parent (ps k) = (if p_parent (proc s k) = Some p then Some i else p_parent (proc s k))"
    if "k < NPROC" for k
    using that by (simp add: ps_def reparented_parent assms(6))
  have wake: "p_state (qs w) = RUNNABLE"
    if "w < NPROC" "p_parent (proc s p) = Some w" "w \<noteq> p" "p_state (proc s w) = SLEEPING"
      "p_chan (proc s w) = ChanProc w" for w
  proof -
    have "p_state (ps w) = RUNNABLE \<or> p_state (ps w) = SLEEPING \<and> p_chan (ps w) = ChanProc w"
      using that by (simp add: ps_def reparented_def all_woken_def woken_def adopted_def)
    moreover have "p_parent (ps p) = Some w" using that assms(5) by (simp add: parent)
    ultimately show ?thesis
      using that assms(4) by (auto simp: qs_def all_woken_def woken_def chan_of_proc_def)
  qed
  have "p_parent (qs k) = p_parent (ps k)" for k
    by (simp add: qs_def all_woken_def)
  then show ?thesis
    using exit_zombie_eq [OF assms(1-3) ps_def qs_def, of status] assms(2,7) wake
    by (auto simp: parent)
qed

text \<open>Process 1, child of 3 and parent of 2; process 3 waits for a child; init is process 0.\<close>

definition exiting :: procs where
  "exiting = on_cpu (Some 1) (boot_procs\<lparr>initproc := Some 0, proc := (\<lambda>_. free_slot)(
     1 := free_slot\<lparr>p_state := RUNNING, p_pid := 6, p_parent := Some 3\<rparr>,
     2 := free_slot\<lparr>p_state := RUNNABLE, p_pid := 7, p_parent := Some 1\<rparr>,
     3 := free_slot\<lparr>p_state := SLEEPING, p_pid := 2, p_chan := ChanProc 3\<rparr>)\<rparr>)"

lemma exiting_simps [simp]:
  "cpu_ok exiting" "lock_free lk exiting" "me exiting = Some 1" "initproc exiting = Some 0"
  by (simp_all add: exiting_def cpu_ok_def on_cpu_def boot_procs_def lock_free_def me_def intr_get_def
      r_sstatus_def r_csr_def)

theorem exit_leaves_no_orphans_witness:
  "\<exists>t. exit_zombie 1 5 exiting = Done () t \<and> p_state (proc t 1) = ZOMBIE \<and> p_xstate (proc t 1) = 5
     \<and> p_parent (proc t 2) = Some 0 \<and> p_state (proc t 3) = RUNNABLE"
proof -
  have "procs_ready exiting" by (simp add: procs_ready_def)
  moreover have "2 < NPROC" "3 < NPROC" "1 < NPROC" by (simp_all add: NPROC_def)
  moreover have "p_parent (proc exiting 2) = Some 1" "p_parent (proc exiting 1) = Some 3"
    "p_state (proc exiting 3) = SLEEPING" "p_chan (proc exiting 3) = ChanProc 3"
    by (simp_all add: exiting_def on_cpu_def)
  ultimately show ?thesis
    using exit_leaves_no_orphans [of exiting 1 0 5] by auto
qed

end
