(* ===== verification/Xv6_Ring.thy ===== *)
theory Xv6_Ring
  imports Xv6_Prelude
begin

text \<open>
  Ring buffers. The kernel has three of them (pipes, serial output, console input), all with the
  same representation: an array and two free-running counters, read and write, whose slot is the
  counter modulo the size. \<open>ring\<close> gives the queue such a buffer stands for; \<open>bounded_fifo\<close> is the
  contract of a bounded queue and what clients may conclude from it.
\<close>

section \<open>The queue in a ring\<close>

definition ring :: "'w :: len word \<Rightarrow> (nat \<Rightarrow> 'b) \<Rightarrow> 'w word \<Rightarrow> 'w word \<Rightarrow> 'b list" where
  "ring sz buf r w = map (\<lambda>i. buf (unat ((r + of_nat i) mod sz))) [0..<unat (w - r)]"

lemma length_ring [simp]: "length (ring sz buf r w) = unat (w - r)"
  by (simp add: ring_def)

lemma ring_empty [simp]: "ring sz buf r w = [] \<longleftrightarrow> r = w"
  by (auto simp: ring_def unat_eq_0)

lemma unat_succ_diff:
  fixes w r n :: "'w :: len word"
  assumes "unat (w - r) < unat n"
  shows "unat (w + 1 - r) = Suc (unat (w - r))"
proof -
  have "unat (x + 1) = Suc (unat x)" if "Suc (unat x) < 2 ^ LENGTH('w)" for x :: "'w word"
    using that by (simp add: unat_word_ariths)
  moreover have "Suc (unat (w - r)) < 2 ^ LENGTH('w)"
    using assms unsigned_less [of n, where 'a = nat] by linarith
  ultimately have "unat (w - r + 1) = Suc (unat (w - r))" by blast
  then show ?thesis by (simp add: algebra_simps)
qed

text \<open>
  Slots of counters less than the size apart differ, also when the counters wrap, because the size
  divides the number of counter values.
\<close>

lemma slot_eq:
  fixes r sz :: "'w :: len word"
  assumes "unat sz dvd 2 ^ LENGTH('w)"
  shows "unat ((r + of_nat i) mod sz) = (unat r + i) mod unat sz"
  using assms by (simp add: unat_mod unat_word_ariths unat_of_nat mod_add_right_eq mod_mod_cancel)

lemma slot_neq:
  fixes r sz :: "'w :: len word"
  assumes "unat sz dvd 2 ^ LENGTH('w)" "i < j" "j - i < unat sz"
  shows "unat ((r + of_nat i) mod sz) \<noteq> unat ((r + of_nat j) mod sz)"
proof
  assume "unat ((r + of_nat i) mod sz) = unat ((r + of_nat j) mod sz)"
  then have "(unat r + j) mod unat sz = (unat r + i) mod unat sz"
    by (simp add: slot_eq [OF assms(1)])
  then have "unat sz dvd (unat r + j) - (unat r + i)"
    by (simp add: mod_eq_dvd_iff_nat assms(2) less_imp_le)
  with assms(2,3) show False by (auto dest: dvd_imp_le)
qed

lemma ring_put:
  fixes r w sz :: "'w :: len word"
  assumes "unat sz dvd 2 ^ LENGTH('w)" "unat (w - r) < unat sz"
  shows "ring sz (buf(unat (w mod sz) := c)) r (w + 1) = ring sz buf r w @ [c]"
proof -
  have "unat ((r + of_nat i) mod sz) \<noteq> unat (w mod sz)" if "i < unat (w - r)" for i
  proof -
    have "unat ((r + of_nat i) mod sz) \<noteq> unat ((r + of_nat (unat (w - r))) mod sz)"
      by (rule slot_neq [OF assms(1) that]) (use assms(2) in linarith)
    then show ?thesis by simp
  qed
  then show ?thesis
    unfolding ring_def unat_succ_diff [OF assms(2)] by simp
qed

lemma ring_get:
  fixes r w sz :: "'w :: len word"
  assumes "r \<noteq> w"
  shows "ring sz buf r w = buf (unat (r mod sz)) # ring sz buf (r + 1) w"
proof -
  have "unat (w - r) = Suc (unat (w - (r + 1)))"
    using assms unat_minus_one [of "w - r"] by (simp add: algebra_simps unat_gt_0)
  then show ?thesis
    unfolding ring_def by (simp add: map_upt_Suc add_ac del: upt_Suc)
qed

lemma ring_unput:
  fixes r w sz :: "'w :: len word"
  assumes "r \<noteq> w"
  shows "ring sz buf r (w - 1) = butlast (ring sz buf r w)"
proof -
  have n: "unat (w - r) = Suc (unat (w - 1 - r))"
    using assms unat_minus_one [of "w - r"] by (simp add: algebra_simps unat_gt_0)
  show ?thesis unfolding ring_def n by simp
qed

lemma ring_last:
  fixes r w sz :: "'w :: len word"
  assumes "r \<noteq> w"
  shows "last (ring sz buf r w) = buf (unat ((w - 1) mod sz))"
proof -
  have n: "unat (w - r) = Suc (unat (w - 1 - r))"
    using assms unat_minus_one [of "w - r"] by (simp add: algebra_simps unat_gt_0)
  show ?thesis unfolding ring_def n by simp
qed

text \<open>A third counter between the two cuts the queue.\<close>

lemma ring_append:
  fixes r w e sz :: "'w :: len word"
  assumes "unat (w - r) + unat (e - w) < 2 ^ LENGTH('w)"
  shows "unat (e - r) = unat (w - r) + unat (e - w)" "ring sz buf r e = ring sz buf r w @ ring sz buf w e"
proof -
  have "e - r = (w - r) + (e - w)" by simp
  then show n: "unat (e - r) = unat (w - r) + unat (e - w)"
    using assms by (metis unat_add_lem)
  have "r + of_nat (unat (w - r) + i) = w + of_nat i" for i :: nat by simp
  then show "ring sz buf r e = ring sz buf r w @ ring sz buf w e"
    unfolding ring_def n by (auto simp: upt_add_eq_append [OF le0] map_add_upt [symmetric] simp del: of_nat_add
      intro!: nth_equalityI)
qed

text \<open>The counters are a full ring apart exactly when the ring is full.\<close>

lemma ring_full:
  fixes r w sz :: "'w :: len word"
  shows "w = r + sz \<longleftrightarrow> unat (w - r) = unat sz"
proof -
  have "w = r + sz \<longleftrightarrow> w - r = sz" by (auto simp: algebra_simps)
  then show ?thesis by (simp add: word_eq_iff_unsigned)
qed

section \<open>Bounded queues\<close>

text \<open>
  A run of operations as a client performs them: a put waits while the queue is full and a get
  while it is empty, which here means that the operation has no effect. The result is what was
  accepted, what was delivered and the final queue.
\<close>

datatype 'a qop = Put 'a | Get

primrec run_queue ::
  "('s \<Rightarrow> bool) \<Rightarrow> ('s \<Rightarrow> bool) \<Rightarrow> ('a \<Rightarrow> 's \<Rightarrow> 's) \<Rightarrow> ('s \<Rightarrow> 'a \<times> 's) \<Rightarrow> 'a qop list \<Rightarrow> 's \<Rightarrow>
   'a list \<times> 'a list \<times> 's" where
  "run_queue full emp put get [] s = ([], [], s)"
| "run_queue full emp put get (q # qs) s = (case q of
     Put a \<Rightarrow> if full s then run_queue full emp put get qs s
       else (case run_queue full emp put get qs (put a s) of (ins, outs, t) \<Rightarrow> (a # ins, outs, t))
   | Get \<Rightarrow> if emp s then run_queue full emp put get qs s
       else (case get s of (a, u) \<Rightarrow>
         case run_queue full emp put get qs u of (ins, outs, t) \<Rightarrow> (ins, a # outs, t)))"

locale bounded_fifo =
  fixes inv :: "'s \<Rightarrow> bool" and items :: "'s \<Rightarrow> 'a list" and cap :: nat
    and full emp :: "'s \<Rightarrow> bool" and put :: "'a \<Rightarrow> 's \<Rightarrow> 's" and get :: "'s \<Rightarrow> 'a \<times> 's"
  assumes cap_bound: "inv s \<Longrightarrow> length (items s) \<le> cap"
    and full_iff: "inv s \<Longrightarrow> full s \<longleftrightarrow> length (items s) = cap"
    and empty_iff: "inv s \<Longrightarrow> emp s \<longleftrightarrow> items s = []"
    and put_items: "inv s \<Longrightarrow> \<not> full s \<Longrightarrow> inv (put a s) \<and> items (put a s) = items s @ [a]"
    and get_items: "inv s \<Longrightarrow> \<not> emp s \<Longrightarrow> get s = (a, t) \<Longrightarrow> inv t \<and> items s = a # items t"
begin

lemma run_fifo:
  assumes "inv s" "run_queue full emp put get qs s = (ins, outs, t)"
  shows "inv t \<and> items s @ ins = outs @ items t"
  using assms
proof (induction qs arbitrary: s ins outs)
  case (Cons q qs)
  show ?case
  proof (cases q)
    case (Put a)
    with Cons.prems put_items [of s a] show ?thesis
      by (auto split: if_splits prod.splits dest: Cons.IH)
  next
    case Get
    with Cons.prems get_items [of s] show ?thesis
      by (auto split: if_splits prod.splits dest: Cons.IH)
  qed
qed simp

end

end
