(* ===== verification/Xv6_Demo.thy ===== *)
theory Xv6_Demo
  imports Xv6_File Xv6_Sched
begin

text \<open>
  A concrete state of the whole kernel at boot: no process, no lock held, an empty buffer cache and
  a super block for a disk of 1000 blocks. The examples of the other theories start from it.
\<close>

definition free_buf :: buf where
  "free_buf = \<lparr>b_valid = False, b_disk = False, b_dev = 0, b_blockno = 0, b_refcnt = 0,
     b_prev = 0, b_next = 0, b_data = (\<lambda>_. 0)\<rparr>"

definition free_inode :: inode where
  "free_inode = \<lparr>i_dev = 0, i_inum = 0, i_ref = 0, i_valid = False, i_type = 0, i_major = 0,
     i_minor = 0, i_nlink = 0, i_size = 0, i_addrs = (\<lambda>_. 0)\<rparr>"

definition free_file :: kfile where
  "free_file = \<lparr>f_type = FD_NONE, f_ref = 0, f_readable = False, f_writable = False, f_pipe = 0,
     f_ip = None, f_off = 0, f_major = 0\<rparr>"

definition free_pipe :: pipe where
  "free_pipe = \<lparr>pi_data = (\<lambda>_. 0), pi_nread = 0, pi_nwrite = 0, pi_readopen = True, pi_writeopen = True\<rparr>"

definition free_disk :: vdisk where
  "free_disk = \<lparr>vq_desc = (\<lambda>_. \<lparr>vd_addr = NullAddr, vd_len = 0, vd_flags = 0, vd_next = 0\<rparr>),
     vq_avail_idx = 0, vq_avail_ring = (\<lambda>_. 0), vq_used_idx = 0, vq_used_ring = (\<lambda>_. 0),
     vq_free = (\<lambda>_. True), vq_seen_idx = 0, vq_info_b = (\<lambda>_. None), vq_info_status = (\<lambda>_. 0),
     vq_ops = (\<lambda>_. \<lparr>vr_type = 0, vr_reserved = 0, vr_sector = 0\<rparr>)\<rparr>"

definition boot_files :: files where
  "boot_files = \<lparr>tp = 0, csrs = (\<lambda>_ _. 0),
     cpus = (\<lambda>_. \<lparr>c_proc = None, c_noff = 0, c_intena = False\<rparr>),
     locks = (\<lambda>_. \<lparr>sl_locked = 0, sl_name = [], sl_cpu = None\<rparr>),
     mem = (\<lambda>_. 0), end_sym = 0x80027000, etext_sym = 0x80008000, trampoline_sym = 0x80007000,
     freelist = 0, kernel_pagetable = 0, count = 0,
     proc = (\<lambda>_. free_slot), initproc = None, nextpid = 1, first = True, ticks = 0,
     kbuf = (\<lambda>_ _. 0), code_sym = (\<lambda>_. 0x80000000),
     mmio_in = (\<lambda>_ _. 0), mmio_count = 0, mmio_out = [], uart_tx_buf = (\<lambda>_. 0), uart_tx_w = 0,
     uart_tx_r = 0, panicked = False, pr_locking = True, cons_buf = (\<lambda>_. 0), cons_r = 0, cons_w = 0,
     cons_e = 0, devsw_read = (\<lambda>_. None), devsw_write = (\<lambda>_. None),
     sleeplk = (\<lambda>_. \<lparr>slk_locked = False, slk_name = [], slk_pid = 0\<rparr>),
     bufs = (\<lambda>_. free_buf), disk = free_disk,
     klog = \<lparr>lg_start = 2, lg_size = 30, lg_outstanding = 0, lg_committing = False, lg_dev = 1,
       lh_n = 0, lh_block = (\<lambda>_. 0)\<rparr>,
     sb = \<lparr>sb_magic = 0x10203040, sb_size = 1000, sb_nblocks = 954, sb_ninodes = 200, sb_nlog = 30,
       sb_logstart = 2, sb_inodestart = 32, sb_bmapstart = 45\<rparr>,
     itable = (\<lambda>_. free_inode), pipes = (\<lambda>_. free_pipe), ftable = (\<lambda>_. free_file), started = True\<rparr>"

lemma boot_files_ok [simp]:
  "cpu_ok boot_files" "lock_free lk boot_files" "c_proc (cpus boot_files h) = None"
  "c_noff (cpus boot_files h) = 0" "tp boot_files = 0" "me boot_files = None"
  "proc boot_files = (\<lambda>_. free_slot)" "csrs boot_files = (\<lambda>_ _. 0)" "\<not> intr_get boot_files"
  by (simp_all add: cpu_ok_def lock_free_def boot_files_def me_def intr_get_def r_sstatus_def r_csr_def)

lemma boot_files_fields [simp]:
  "uart_tx_r boot_files = 0" "uart_tx_w boot_files = 0" "cons_r boot_files = 0" "cons_w boot_files = 0"
  "cons_e boot_files = 0" "\<not> panicked boot_files" "sleeplk boot_files = (\<lambda>_. \<lparr>slk_locked = False, slk_name = [], slk_pid = 0\<rparr>)"
  "bufs boot_files = (\<lambda>_. free_buf)" "disk boot_files = free_disk" "itable boot_files = (\<lambda>_. free_inode)"
  "pipes boot_files = (\<lambda>_. free_pipe)" "ftable boot_files = (\<lambda>_. free_file)"
  by (simp_all add: boot_files_def)

end
