(* ===== verification/Xv6_Pipeio.thy ===== *)
theory Xv6_Pipeio
  imports Xv6_Pipe Xv6_Ring Xv6_Demo
begin

text \<open>
  What pipes (kernel/pipe.c) deliver: the bytes between the counters are a bounded queue, whatever
  the counters have wrapped to; \<open>piperead\<close> moves its front to the memory of the reader and
  \<open>pipewrite\<close> appends bytes of the memory of the writer.
\<close>

section \<open>The queue of a pipe\<close>

definition pipe_items :: "pipe \<Rightarrow> byte list" where
  "pipe_items q = ring PIPESIZE (pi_data q) (pi_nread q) (pi_nwrite q)"

definition pipe_ok :: "pipe \<Rightarrow> bool" where
  "pipe_ok q \<longleftrightarrow> unat (pi_nwrite q - pi_nread q) \<le> 512"

lemma pipesize: "unat (512 :: uint) dvd 2 ^ LENGTH(32)" "unat (512 :: uint) = 512"
  by simp_all

interpretation pipe_queue: bounded_fifo pipe_ok pipe_items 512 pipe_full pipe_empty pipe_put pipe_get
proof unfold_locales
  fix q assume ok: "pipe_ok q"
  show "length (pipe_items q) \<le> 512" using ok by (simp add: pipe_items_def pipe_ok_def)
  show full: "pipe_full q \<longleftrightarrow> length (pipe_items q) = 512"
    using ring_full [of "pi_nwrite q" "pi_nread q" 512] by (simp add: pipe_full_def pipe_items_def)
  show "pipe_empty q \<longleftrightarrow> pipe_items q = []" by (simp add: pipe_empty_def pipe_items_def)
  show "pipe_ok (pipe_put a q) \<and> pipe_items (pipe_put a q) = pipe_items q @ [a]" if "\<not> pipe_full q" for a
  proof -
    have room: "unat (pi_nwrite q - pi_nread q) < unat (512 :: uint)"
      using ok that full by (simp add: pipe_ok_def pipe_items_def)
    from ring_put [OF pipesize(1) room] unat_succ_diff [OF room] room show ?thesis
      by (simp add: pipe_put_def pipe_items_def pipe_ok_def)
  qed
  show "pipe_ok t \<and> pipe_items q = a # pipe_items t" if "\<not> pipe_empty q" "pipe_get q = (a, t)" for a t
    using ok that ring_get [of "pi_nread q" "pi_nwrite q" 512 "pi_data q"]
    by (auto simp: pipe_empty_def pipe_get_def pipe_items_def pipe_ok_def dest: arg_cong [of _ _ length])
qed

text \<open>
  C22. A pipe is a first-in first-out queue of at most 512 bytes: after any sequence of puts and
  gets, from any counter values, the bytes delivered followed by those still in the pipe are the
  initial contents followed by the bytes accepted, so none is lost, repeated or reordered.
\<close>

theorem pipe_fifo:
  assumes "pipe_ok q" "run_queue pipe_full pipe_empty pipe_put pipe_get ops q = (ins, outs, q')"
  shows "pipe_items q @ ins = outs @ pipe_items q' \<and> length (pipe_items q') \<le> 512"
  using pipe_queue.run_fifo [OF assms] pipe_queue.cap_bound by blast

text \<open>A pipe whose write counter is about to wrap.\<close>

definition wrapping_pipe :: pipe where
  "wrapping_pipe = \<lparr>pi_data = (\<lambda>_. 0), pi_nread = - 1, pi_nwrite = - 1, pi_readopen = True,
     pi_writeopen = True\<rparr>"

theorem pipe_fifo_witness:
  "fst (snd (run_queue pipe_full pipe_empty pipe_put pipe_get [Put 7, Put 8, Get, Get] wrapping_pipe)) = [7, 8]"
proof -
  obtain ins outs q where r: "run_queue pipe_full pipe_empty pipe_put pipe_get [Put 7, Put 8, Get, Get]
      wrapping_pipe = (ins, outs, q)"
    by (metis prod_cases3)
  then have run: "ins = [7, 8]" "pipe_items q = []"
    by (auto simp: wrapping_pipe_def pipe_full_def pipe_empty_def pipe_put_def pipe_get_def pipe_items_def)
  have "pipe_ok wrapping_pipe" "pipe_items wrapping_pipe = []"
    by (simp_all add: pipe_ok_def pipe_items_def wrapping_pipe_def)
  with pipe_fifo [OF _ r] run show ?thesis unfolding r by simp
qed

section \<open>Reading\<close>

lemma user_same_trans: "user_same p m0 m \<Longrightarrow> user_same p m m' \<Longrightarrow> user_same p m0 m'"
  by (simp add: user_same_def)

lemma copyout_byte:
  assumes "uvm_ok (mem s) p"
  shows "\<exists>m'. copyout p va (\<lambda>_ _. c) 1 s = Done (if user_page (mem s) p va = 0 then -1 else 0) (s\<lparr>mem := m'\<rparr>)
    \<and> user_same p (mem s) m'
    \<and> (\<forall>x. user_byte m' p x =
         (if x = va \<and> user_page (mem s) p va \<noteq> 0 then Some c else user_byte (mem s) p x))"
proof -
  have "kernel_source p (\<lambda>_ _. c) s" by (simp add: kernel_source_def)
  from copyout_loop [OF this user_same_refl [OF assms], of va 0 1]
  obtain r m' k where l: "loop (copyout_step p (\<lambda>_ _. c)) (va, 0, 1) (s\<lparr>mem := mem s\<rparr>) = Done r (s\<lparr>mem := m'\<rparr>)"
      "user_same p (mem s) m'" "k \<le> unat (1 :: addr)"
    and b: "\<forall>x. user_byte m' p x = (if within k va x then Some c else user_byte (mem s) p x)"
    and r: "if r = 0 then k = unat (1 :: addr) \<and> (\<forall>x. within k va x \<longrightarrow> user_page (mem s) p x \<noteq> 0)
       else r = -1 \<and> k < unat (1 :: addr) \<and> user_page (mem s) p (va + of_nat k) = 0" by blast
  have w: "within 1 va x \<longleftrightarrow> x = va" "\<not> within 0 va x" for x by (auto simp: within_def unat_eq_0)
  show ?thesis
  proof (cases "user_page (mem s) p va = 0")
    case True
    with r w have "r = -1 \<and> k = 0" by (auto split: if_splits)
    with True l b w show ?thesis by (auto simp: copyout_def)
  next
    case False
    with r have "r = 0 \<and> k = 1" by (auto split: if_splits)
    with False l b w show ?thesis by (auto simp: copyout_def)
  qed
qed

definition piped :: "addr \<Rightarrow> memory \<Rightarrow> pipe \<Rightarrow> 'a pipes_scheme \<Rightarrow> 'a pipes_scheme" where
  "piped pi m q s = s\<lparr>mem := m, pipes := (pipes s)(pi := q)\<rparr>"

lemma piped_simps [simp]:
  "mem (piped pi m q s) = m" "pipes (piped pi m q s) pi = q" "proc (piped pi m q s) = proc s"
  "piped pi m' q' (piped pi m q s) = piped pi m' q' s" "piped pi (mem s) (pipes s pi) s = s"
  by (simp_all add: piped_def)

lemma piperead_step_eq:
  assumes ok: "pipe_ok (pipes s pi)" "uvm_ok (mem s) (p_pagetable (proc s pr))"
    and items: "pipe_items (pipes s pi) = c # cs" and i: "i < n"
  shows "\<exists>m' q'. piperead_step pi pr addr n i s =
      Done (if user_page (mem s) (p_pagetable (proc s pr)) (addr + word_of_int i) = 0 then Inr i else Inl (i + 1))
        (piped pi m' q' s)
    \<and> pipe_ok q' \<and> pipe_items q' = cs
    \<and> user_same (p_pagetable (proc s pr)) (mem s) m'
    \<and> (\<forall>x. user_byte m' (p_pagetable (proc s pr)) x =
         (if x = addr + word_of_int i \<and> user_page (mem s) (p_pagetable (proc s pr)) (addr + word_of_int i) \<noteq> 0
          then Some c else user_byte (mem s) (p_pagetable (proc s pr)) x))"
proof -
  let ?pt = "p_pagetable (proc s pr)" and ?va = "addr + word_of_int i"
  obtain c' q' where get: "pipe_get (pipes s pi) = (c', q')" by fastforce
  have ne: "\<not> pipe_empty (pipes s pi)" using pipe_queue.empty_iff [OF ok(1)] items by simp
  from pipe_queue.get_items [OF ok(1) ne get] items
  have q': "pipe_ok q'" "c' = c" "pipe_items q' = cs" by auto
  let ?u = "s\<lparr>pipes := (pipes s)(pi := q')\<rparr>"
  have "uvm_ok (mem ?u) ?pt" using ok(2) by simp
  from copyout_byte [OF this, of ?va c]
  obtain m' where m': "copyout ?pt ?va (\<lambda>_ _. c) 1 ?u = Done (if user_page (mem s) ?pt ?va = 0 then -1 else 0) (?u\<lparr>mem := m'\<rparr>)"
    "user_same ?pt (mem s) m'"
    "\<forall>x. user_byte m' ?pt x = (if x = ?va \<and> user_page (mem s) ?pt ?va \<noteq> 0 then Some c else user_byte (mem s) ?pt x)"
    by auto
  have "?u\<lparr>mem := m'\<rparr> = piped pi m' q' s" by (simp add: piped_def)
  with m'(1) i ne get q'(2) have "piperead_step pi pr addr n i s =
      Done (if user_page (mem s) ?pt ?va = 0 then Inr i else Inl (i + 1)) (piped pi m' q' s)"
    by (simp add: piperead_step_def km_simps upd_pipe_def)
  with q' m'(2,3) show ?thesis by blast
qed

text \<open>
  What a read of at most \<open>n\<close> bytes to address \<open>va\<close> moves: \<open>k\<close> bytes, fewer than \<open>n\<close> and than the
  pipe holds only when the next address is not mapped; the byte fetched for that address is gone.
\<close>

definition moved :: "addr \<Rightarrow> addr \<Rightarrow> nat \<Rightarrow> nat \<Rightarrow> byte list \<Rightarrow> byte list \<Rightarrow> memory \<Rightarrow> memory \<Rightarrow> bool" where
  "moved pt va n k xs ys m m' \<longleftrightarrow> k \<le> n \<and> k \<le> length xs \<and> user_same pt m m'
     \<and> (\<forall>x. user_byte m' pt x = (if within k va x then Some (xs ! unat (x - va)) else user_byte m pt x))
     \<and> (if k < n \<and> k < length xs then user_page m pt (va + of_nat k) = 0 \<and> ys = drop (Suc k) xs
        else ys = drop k xs)"

lemma moved_none: "uvm_ok m pt \<Longrightarrow> n = 0 \<or> xs = [] \<Longrightarrow> moved pt va n 0 xs xs m m"
  by (auto simp: moved_def user_same_refl within_def)

lemma moved_fault:
  assumes "user_page m pt va = 0" "0 < n" "user_same pt m m'" "\<forall>x. user_byte m' pt x = user_byte m pt x"
  shows "moved pt va n 0 (c # cs) cs m m'"
  using assms by (auto simp: moved_def within_def)

lemma within_Suc_front:
  fixes va x :: addr
  assumes "k < 2 ^ 63"
  shows "within (Suc k) va x \<longleftrightarrow> x = va \<or> within k (va + 1) x"
    "within k (va + 1) x \<Longrightarrow> x \<noteq> va \<and> unat (x - va) = Suc (unat (x - (va + 1)))"
proof -
  have n: "unat (x - va) = Suc (unat (x - (va + 1)))" if "x \<noteq> va"
    using that unat_minus_one [of "x - va"] by (simp add: algebra_simps unat_gt_0)
  have "unat (- 1 :: addr) = 2 ^ 64 - 1" by (simp add: unsigned_minus_1_eq_mask mask_eq_exp_minus_1)
  with assms have 1: "\<not> within k (va + 1) va" by (simp add: within_def)
  show "within (Suc k) va x \<longleftrightarrow> x = va \<or> within k (va + 1) x"
    using n by (cases "x = va") (auto simp: within_def)
  show "x \<noteq> va \<and> unat (x - va) = Suc (unat (x - (va + 1)))" if "within k (va + 1) x"
    using that 1 n by auto
qed

lemma moved_Suc:
  assumes rest: "moved pt (va + 1) n k cs ys m1 m'" and k: "k < 2 ^ 63"
    and one: "user_same pt m m1" "\<forall>x. user_byte m1 pt x = (if x = va then Some c else user_byte m pt x)"
  shows "moved pt va (Suc n) (Suc k) (c # cs) ys m m'"
proof -
  have same: "user_same pt m m'" using one(1) rest user_same_trans unfolding moved_def by blast
  have page: "user_page m1 pt = user_page m pt" using one(1) by (simp add: user_same_def)
  have "user_byte m' pt x = (if within (Suc k) va x then Some ((c # cs) ! unat (x - va)) else user_byte m pt x)" for x
    using rest one(2) within_Suc_front [OF k, of va x] by (auto simp: moved_def)
  with rest same page show ?thesis by (auto simp: moved_def add_ac)
qed

lemma piperead_loop:
  assumes "pipe_ok (pipes s pi)" "uvm_ok (mem s) (p_pagetable (proc s pr))"
  shows "\<exists>k m' q'. loop (piperead_step pi pr addr n) i s = Done (i + int k) (piped pi m' q' s)
    \<and> pipe_ok q' \<and> moved (p_pagetable (proc s pr)) (addr + word_of_int i) (nat (n - i)) k
         (pipe_items (pipes s pi)) (pipe_items q') (mem s) m'"
  using assms
proof (induction "pipe_items (pipes s pi)" arbitrary: s i)
  case Nil
  then have "piperead_step pi pr addr n i s = Done (Inr i) s"
    using pipe_queue.empty_iff [OF Nil(2)] by (simp add: piperead_step_def km_simps)
  then have "loop (piperead_step pi pr addr n) i s = Done (i + int 0) (piped pi (mem s) (pipes s pi) s)"
    by (subst loop_unfold) simp
  with Nil show ?case by (metis moved_none)
next
  case (Cons c cs)
  let ?pt = "p_pagetable (proc s pr)" and ?va = "addr + word_of_int i"
  show ?case
  proof (cases "i < n")
    case False
    then have "piperead_step pi pr addr n i s = Done (Inr i) s" by (simp add: piperead_step_def ret_def)
    then have "loop (piperead_step pi pr addr n) i s = Done (i + int 0) (piped pi (mem s) (pipes s pi) s)"
      by (subst loop_unfold) simp
    moreover have "nat (n - i) = 0" using False by simp
    ultimately show ?thesis using Cons(3,4) by (metis moved_none)
  next
    case True
    from piperead_step_eq [OF Cons(3,4) Cons(2) [symmetric] True, of addr] obtain m1 q1 where
      step: "piperead_step pi pr addr n i s = Done (if user_page (mem s) ?pt ?va = 0 then Inr i else Inl (i + 1)) (piped pi m1 q1 s)"
      and q1: "pipe_ok q1" "pipe_items q1 = cs" and same: "user_same ?pt (mem s) m1"
      and bytes: "\<forall>x. user_byte m1 ?pt x = (if x = ?va \<and> user_page (mem s) ?pt ?va \<noteq> 0 then Some c else user_byte (mem s) ?pt x)"
      by blast
    show ?thesis
    proof (cases "user_page (mem s) ?pt ?va = 0")
      case fault: True
      then have "loop (piperead_step pi pr addr n) i s = Done (i + int 0) (piped pi m1 q1 s)"
        by (subst loop_unfold) (simp add: step)
      moreover have "moved ?pt ?va (nat (n - i)) 0 (c # cs) cs (mem s) m1"
        by (rule moved_fault) (use fault same bytes True in auto)
      ultimately show ?thesis using q1 Cons(2) by metis
    next
      case False
      let ?s = "piped pi m1 q1 s"
      have "cs = pipe_items (pipes ?s pi)" "pipe_ok (pipes ?s pi)" "uvm_ok (mem ?s) (p_pagetable (proc ?s pr))"
        using q1 same by (simp_all add: user_same_def)
      from Cons(1) [OF this, of "i + 1"] obtain k m' q' where
        rest: "loop (piperead_step pi pr addr n) (i + 1) ?s = Done (i + 1 + int k) (piped pi m' q' ?s)"
          "pipe_ok q'" "moved ?pt (addr + word_of_int (i + 1)) (nat (n - (i + 1))) k cs (pipe_items q') m1 m'"
        using q1 by auto
      have "k \<le> 512" using rest(3) q1 pipe_queue.cap_bound [OF q1(1)] by (simp add: moved_def)
      moreover have "addr + word_of_int (i + 1) = ?va + 1" "nat (n - i) = Suc (nat (n - (i + 1)))"
        using True by (simp_all add: algebra_simps)
      ultimately have "moved ?pt ?va (nat (n - i)) (Suc k) (c # cs) (pipe_items q') (mem s) m'"
        using rest(3) same bytes False by (auto intro!: moved_Suc simp: add_ac)
      moreover have "loop (piperead_step pi pr addr n) i s = Done (i + int (Suc k)) (piped pi m' q' s)"
        by (subst loop_unfold) (use False step rest(1) in simp)
      ultimately show ?thesis using rest(2) Cons(2) by metis
    qed
  qed
qed

lemma pipes_lock_simps [simp]:
  "pipes (entered lk s) = pipes s" "pipes (quiet s) = pipes s" "pipes (proc_update f s) = pipes s"
  by (simp_all add: lock_state_defs)

lemma piped_lock_simps [simp]:
  "piped pi m q (entered lk s) = entered lk (piped pi m q s)" "piped pi m q (quiet s) = quiet (piped pi m q s)"
  "cpu_ok (piped pi m q s) = cpu_ok s" "lock_free lk (piped pi m q s) = lock_free lk s"
  "me (piped pi m q s) = me s" "procs_ready (piped pi m q s) = procs_ready s"
  "locks (piped pi m q s) = locks s" "c_proc (cpus (piped pi m q s) h) = c_proc (cpus s h)"
  "tp (piped pi m q s) = tp s"
  by (simp_all add: piped_def lock_state_defs cpu_ok_def lock_free_def me_def procs_ready_def)

lemma procs_ready_pipe_lock: "procs_ready s \<Longrightarrow> procs_ready (entered (PipeLock pi) s)"
  by (simp add: procs_ready_def)

text \<open>The common end: the other side is woken and the lock released.\<close>

lemma pipe_finish_eq:
  assumes "procs_ready s" "lock_free (PipeLock pi) s"
  shows "pipe_finish pi c i (entered (PipeLock pi) s) =
    Done i (quiet (s\<lparr>proc := all_woken (me s) c (proc s)\<rparr>))"
proof -
  have "cpu_ok s" using assms(1) by (simp add: procs_ready_def)
  with assms show ?thesis
    by (simp add: pipe_finish_def km_simps wakeup_eq [OF procs_ready_pipe_lock])
qed

lemma piperead_eq:
  assumes "procs_ready s" "lock_free (PipeLock pi) s" "me s = Some pr"
    "pipe_ok (pipes s pi)" "pipe_items (pipes s pi) \<noteq> [] \<or> \<not> pi_writeopen (pipes s pi)"
    "uvm_ok (mem s) pt" "pt = p_pagetable (proc s pr)"
  shows "\<exists>k t. piperead env pi addr n s = Done (int k) t
    \<and> moved pt addr (nat n) k (pipe_items (pipes s pi)) (pipe_items (pipes t pi)) (mem s) (mem t)
    \<and> pipe_ok (pipes t pi) \<and> locks t = locks s \<and> proc t = all_woken (Some pr) (ChanPipeWrite pi) (proc s)"
proof -
  have ok: "cpu_ok s" "c_proc (cpus s (tp s)) = Some pr"
    using assms(1,3) by (auto simp: procs_ready_def me_def)
  have wait: "piperead_wait env pi pr (entered (PipeLock pi) s) = Done True (entered (PipeLock pi) s)"
    unfolding piperead_wait_def using assms(4,5) pipe_queue.empty_iff [OF assms(4)]
    by (subst loop_unfold) (simp add: km_simps)
  obtain k m' q' where l: "loop (piperead_step pi pr addr n) 0 (entered (PipeLock pi) s) =
      Done (int k) (entered (PipeLock pi) (piped pi m' q' s))"
    "pipe_ok q'" "moved pt addr (nat n) k (pipe_items (pipes s pi)) (pipe_items q') (mem s) m'"
    using piperead_loop [of "entered (PipeLock pi) s" pi pr addr n 0] assms(4,6,7) by auto
  have "piperead env pi addr n s =
      Done (int k) (quiet ((piped pi m' q' s)\<lparr>proc := all_woken (Some pr) (ChanPipeWrite pi) (proc s)\<rparr>))"
    using ok assms(1,2,3) wait l(1)
    by (simp add: piperead_def deref_def pipe_finish_eq)
  with l(2,3) show ?thesis by auto
qed

section \<open>Writing\<close>

lemma copyin_byte:
  assumes "uvm_ok (mem s) p"
  shows "copyin p (kbuf_dst ow) va 1 s =
    (if user_page (mem s) p va = 0 then Done (-1) s
     else Done 0 (kbuf_dst ow 0 (user_bytes (mem s) p va 0) s))"
proof -
  have "kernel_dest p (kbuf_dst ow) (mem s)" by (simp add: kernel_dest_def kbuf_dst_def)
  from copyin_loop [OF assms this same_user_refl, of va 0 1] obtain r k where
    l: "loop (copyin_step p (kbuf_dst ow)) (va, 0, 1) s = Done r (deliver (kbuf_dst ow) 0 (user_bytes (mem s) p va) k s)"
    and r: "if r = 0 then k = unat (1 :: addr) \<and> (\<forall>x. within k va x \<longrightarrow> user_page (mem s) p x \<noteq> 0)
       else r = -1 \<and> k < unat (1 :: addr) \<and> user_page (mem s) p (va + of_nat k) = 0" by blast
  have "within 1 va va" by (simp add: within_def)
  with r l show ?thesis by (auto simp: copyin_def deliver_def split: if_splits)
qed

definition queued :: "addr \<Rightarrow> nat \<Rightarrow> byte \<Rightarrow> pipe \<Rightarrow> 'a pipes_scheme \<Rightarrow> 'a pipes_scheme" where
  "queued pi pr b q s = s\<lparr>kbuf := (kbuf s)(Some pr := (kbuf s (Some pr))(0 := b)), pipes := (pipes s)(pi := q)\<rparr>"

lemma queued_simps [simp]:
  "mem (queued pi pr b q s) = mem s" "pipes (queued pi pr b q s) pi = q" "proc (queued pi pr b q s) = proc s"
  "queued pi pr b' q' (queued pi pr b q s) = queued pi pr b' q' s"
  "queued pi pr (kbuf s (Some pr) 0) (pipes s pi) s = s"
  "queued pi pr b q (entered lk s) = entered lk (queued pi pr b q s)"
  "cpu_ok (queued pi pr b q s) = cpu_ok s" "lock_free lk (queued pi pr b q s) = lock_free lk s"
  "me (queued pi pr b q s) = me s" "procs_ready (queued pi pr b q s) = procs_ready s"
  "locks (queued pi pr b q s) = locks s"
  by (simp_all add: queued_def lock_state_defs me_def procs_ready_def)

text \<open>
  What a write of at most \<open>n\<close> bytes from address \<open>va\<close> appends: \<open>k\<close> bytes, fewer than \<open>n\<close> only when
  the next address is not mapped.
\<close>

definition appended :: "addr \<Rightarrow> addr \<Rightarrow> nat \<Rightarrow> nat \<Rightarrow> byte list \<Rightarrow> byte list \<Rightarrow> memory \<Rightarrow> bool" where
  "appended pt va n k xs ys m \<longleftrightarrow> k \<le> n \<and> ys = xs @ map (user_bytes m pt va) [0..<k]
     \<and> (\<forall>j<k. user_page m pt (va + of_nat j) \<noteq> 0) \<and> (k < n \<longrightarrow> user_page m pt (va + of_nat k) = 0)"

lemma appended_Suc:
  assumes "appended pt (va + 1) n k (xs @ [user_bytes m pt va 0]) ys m" "user_page m pt va \<noteq> 0"
  shows "appended pt va (Suc n) (Suc k) xs ys m"
proof -
  have "user_bytes m pt (va + 1) i = user_bytes m pt va (Suc i)" for i
    using user_bytes_shift [of m pt va 1 i] by simp
  then have "map (user_bytes m pt va) [0..<Suc k] = user_bytes m pt va 0 # map (user_bytes m pt (va + 1)) [0..<k]"
    by (simp add: map_upt_Suc del: upt_Suc)
  moreover have "user_page m pt (va + of_nat j) \<noteq> 0" if "j < Suc k" for j
    using that assms by (cases j) (auto simp: appended_def add_ac)
  ultimately show ?thesis using assms by (auto simp: appended_def add_ac)
qed

text \<open>A write that may go on: the read end is open, the writer is not killed.\<close>

definition may_write :: "addr \<Rightarrow> nat \<Rightarrow> 'a pipes_scheme \<Rightarrow> bool" where
  "may_write pi pr s \<longleftrightarrow> pipe_ok (pipes s pi) \<and> pi_readopen (pipes s pi) \<and> \<not> p_killed (proc s pr)
     \<and> uvm_ok (mem s) (p_pagetable (proc s pr))"

lemma pipewrite_step_eq:
  fixes addr :: addr
  assumes "may_write pi pr s" "i < n" "length (pipe_items (pipes s pi)) < 512"
  defines "va \<equiv> addr + word_of_int i" and "pt \<equiv> p_pagetable (proc s pr)"
  shows "pipewrite_step env pi pr addr n i s =
    (if user_page (mem s) pt va = 0
     then bind (pipe_finish pi (ChanPipeRead pi) i) (\<lambda>r. ret (Inr r)) s
     else Done (Inl (i + 1)) (queued pi pr (user_bytes (mem s) pt va 0)
       (pipe_put (user_bytes (mem s) pt va 0) (pipes s pi)) s))"
proof -
  have "\<not> pipe_full (pipes s pi)"
    using assms(1,3) pipe_queue.full_iff [of "pipes s pi"] by (simp add: may_write_def)
  with assms show ?thesis
    by (simp add: pipewrite_step_def may_write_def copyin_byte km_simps upd_pipe_def kbuf_dst_def queued_def)
qed

lemma pipewrite_loop:
  assumes "may_write pi pr s" "length (pipe_items (pipes s pi)) + nat (n - i) \<le> 512"
  shows "\<exists>k b q'. loop (pipewrite_step env pi pr addr n) i s =
      pipe_finish pi (ChanPipeRead pi) (i + int k) (queued pi pr b q' s)
    \<and> pipe_ok q' \<and> appended (p_pagetable (proc s pr)) (addr + word_of_int i) (nat (n - i)) k
         (pipe_items (pipes s pi)) (pipe_items q') (mem s)"
  using assms
proof (induction "nat (n - i)" arbitrary: i s)
  case 0
  then have "pipewrite_step env pi pr addr n i s =
      bind (pipe_finish pi (ChanPipeRead pi) i) (\<lambda>r. ret (Inr r)) s"
    by (simp add: pipewrite_step_def)
  from loop_leave [where f = "pipewrite_step env pi pr addr n" and m = "pipe_finish pi (ChanPipeRead pi) i", OF this]
  have "loop (pipewrite_step env pi pr addr n) i s =
      pipe_finish pi (ChanPipeRead pi) (i + int 0) (queued pi pr (kbuf s (Some pr) 0) (pipes s pi) s)"
    by simp
  with 0 show ?case by (fastforce simp: appended_def may_write_def)
next
  case (Suc m)
  let ?pt = "p_pagetable (proc s pr)" and ?va = "addr + word_of_int i"
  let ?b = "user_bytes (mem s) ?pt ?va 0"
  have i: "i < n" and room: "length (pipe_items (pipes s pi)) < 512" using Suc(2,4) by linarith+
  have ok: "pipe_ok (pipes s pi)" using Suc(3) by (simp add: may_write_def)
  note step = pipewrite_step_eq [OF Suc(3) i room, of env addr]
  show ?case
  proof (cases "user_page (mem s) ?pt ?va = 0")
    case True
    from loop_leave [where f = "pipewrite_step env pi pr addr n" and m = "pipe_finish pi (ChanPipeRead pi) i",
        OF step [unfolded if_P [OF True]]]
    have "loop (pipewrite_step env pi pr addr n) i s =
      pipe_finish pi (ChanPipeRead pi) (i + int 0) (queued pi pr (kbuf s (Some pr) 0) (pipes s pi) s)"
      by simp
    moreover have "appended ?pt ?va (nat (n - i)) 0 (pipe_items (pipes s pi)) (pipe_items (pipes s pi)) (mem s)"
      using True by (simp add: appended_def)
    ultimately show ?thesis using ok by blast
  next
    case False
    let ?s = "queued pi pr ?b (pipe_put ?b (pipes s pi)) s"
    have nf: "\<not> pipe_full (pipes s pi)" using pipe_queue.full_iff [OF ok] room by simp
    note put = pipe_queue.put_items [OF ok nf, of ?b]
    have "m = nat (n - (i + 1))" using Suc(2) by linarith
    moreover have "may_write pi pr ?s"
      using Suc(3) put by (simp add: may_write_def pipe_put_def)
    moreover have "length (pipe_items (pipes ?s pi)) + nat (n - (i + 1)) \<le> 512"
      using Suc(2,4) put i by simp
    ultimately obtain k b q' where rest:
      "loop (pipewrite_step env pi pr addr n) (i + 1) ?s =
        pipe_finish pi (ChanPipeRead pi) (i + 1 + int k) (queued pi pr b q' ?s)" "pipe_ok q'"
      "appended ?pt (addr + word_of_int (i + 1)) (nat (n - (i + 1))) k (pipe_items (pipes s pi) @ [?b]) (pipe_items q') (mem s)"
      using Suc(1) [of "i + 1" ?s] put by auto
    have "nat (n - i) = Suc (nat (n - (i + 1)))" using i by linarith
    with rest(3) False have "appended ?pt ?va (nat (n - i)) (Suc k) (pipe_items (pipes s pi)) (pipe_items q') (mem s)"
      by (auto intro!: appended_Suc simp: add_ac)
    moreover have "loop (pipewrite_step env pi pr addr n) i s =
        pipe_finish pi (ChanPipeRead pi) (i + int (Suc k)) (queued pi pr b q' s)"
      by (subst loop_unfold) (use False step rest(1) in \<open>simp add: add_ac\<close>)
    ultimately show ?thesis using rest(2) by blast
  qed
qed

text \<open>
  A write of bytes for which there is room does not block; the readers that sleep on the pipe are
  runnable afterwards.
\<close>

lemma pipewrite_eq:
  assumes "procs_ready s" "lock_free (PipeLock pi) s" "me s = Some pr" "may_write pi pr s"
    "length (pipe_items (pipes s pi)) + nat n \<le> 512" "pt = p_pagetable (proc s pr)"
  shows "\<exists>k t. pipewrite env pi addr n s = Done (int k) t
    \<and> appended pt addr (nat n) k (pipe_items (pipes s pi)) (pipe_items (pipes t pi)) (mem s)
    \<and> pipe_ok (pipes t pi) \<and> mem t = mem s \<and> locks t = locks s
    \<and> proc t = all_woken (Some pr) (ChanPipeRead pi) (proc s)"
proof -
  have ok: "cpu_ok s" "c_proc (cpus s (tp s)) = Some pr"
    using assms(1,3) by (auto simp: procs_ready_def me_def)
  obtain k b q' where l: "loop (pipewrite_step env pi pr addr n) 0 (entered (PipeLock pi) s) =
      pipe_finish pi (ChanPipeRead pi) (int k) (entered (PipeLock pi) (queued pi pr b q' s))"
    "pipe_ok q'" "appended pt addr (nat n) k (pipe_items (pipes s pi)) (pipe_items q') (mem s)"
    using pipewrite_loop [of pi pr "entered (PipeLock pi) s" n 0 env addr] assms(4-6)
    by (auto simp: may_write_def)
  have "pipewrite env pi addr n s =
      Done (int k) (quiet ((queued pi pr b q' s)\<lparr>proc := all_woken (Some pr) (ChanPipeRead pi) (proc s)\<rparr>))"
    using ok assms(1,2,3) l(1)
    by (simp add: pipewrite_def deref_def pipe_finish_eq)
  with l(2,3) show ?thesis by auto
qed

section \<open>Properties\<close>

text \<open>
  C23. \<open>piperead\<close> on a pipe that holds bytes, or whose write end is closed, does not block: it moves
  the front of the queue to the reader's memory, as many bytes as are there and as were asked for,
  and leaves the rest in the pipe; it stops early only at an unmapped address, and then the byte
  fetched for that address is lost. The writers that sleep on the pipe are runnable and the lock is
  free again.
\<close>

theorem piperead_moves_front:
  assumes "procs_ready s" "lock_free (PipeLock pi) s" "me s = Some pr"
    "pipe_ok (pipes s pi)" "pipe_items (pipes s pi) \<noteq> [] \<or> \<not> pi_writeopen (pipes s pi)"
    "uvm_ok (mem s) pt" "pt = p_pagetable (proc s pr)"
  shows "\<exists>k t. piperead env pi addr n s = Done (int k) t
    \<and> moved pt addr (nat n) k (pipe_items (pipes s pi)) (pipe_items (pipes t pi)) (mem s) (mem t)
    \<and> pipe_ok (pipes t pi) \<and> locks t = locks s \<and> proc t = all_woken (Some pr) (ChanPipeWrite pi) (proc s)"
  using assms by (rule piperead_eq)

text \<open>
  A kernel in which process 2 runs, with one page of user memory at address 0, and the pipe at
  \<open>0x80200000\<close> holds the bytes 7 and 8, its write counter wrapped around.
\<close>

definition piping :: files where
  "piping = on_cpu (Some 2) (boot_files\<lparr>mem := demo_mem,
     proc := (\<lambda>_. free_slot)(2 := free_slot\<lparr>p_state := RUNNING, p_pid := 6, p_pagetable := 0x80100000\<rparr>),
     pipes := (\<lambda>_. wrapping_pipe)(0x80200000 := pipe_put 8 (pipe_put 7 wrapping_pipe))\<rparr>)"

lemma piping_simps [simp]:
  "mem piping = demo_mem" "pipes piping = (\<lambda>_. wrapping_pipe)(0x80200000 := pipe_put 8 (pipe_put 7 wrapping_pipe))"
  "p_pagetable (proc piping 2) = 0x80100000" "\<not> p_killed (proc piping 2)" "me piping = Some 2"
  "cpu_ok piping" "lock_free lk piping" "procs_ready piping"
  by (simp_all add: piping_def on_cpu_def boot_files_def cpu_ok_def lock_free_def me_def intr_get_def
      r_sstatus_def r_csr_def procs_ready_def free_slot_def)

lemma wrapping_ok:
  "pipe_ok wrapping_pipe" "pipe_items wrapping_pipe = []"
  "pipe_ok (pipe_put 8 (pipe_put 7 wrapping_pipe))" "pipe_items (pipe_put 8 (pipe_put 7 wrapping_pipe)) = [7, 8]"
  by (simp_all add: pipe_ok_def pipe_items_def wrapping_pipe_def pipe_put_def ring_def upt_rec)

lemma piping_uvm_ok: "uvm_ok demo_mem 0x80100000"
  using demo_uvm_ok by (simp add: demo_kmem_def)

theorem piperead_moves_front_witness:
  "\<exists>k t. piperead (\<lambda>s. s) 0x80200000 100 1 piping = Done (int k) t
    \<and> moved 0x80100000 100 1 k [7, 8] (pipe_items (pipes t 0x80200000)) demo_mem (mem t)"
proof -
  have items: "pipe_items (pipes piping 0x80200000) = [7, 8]" by (simp add: wrapping_ok)
  have ok: "pipe_ok (pipes piping 0x80200000)"
    "pipe_items (pipes piping 0x80200000) \<noteq> [] \<or> \<not> pi_writeopen (pipes piping 0x80200000)"
    "uvm_ok (mem piping) 0x80100000" "0x80100000 = p_pagetable (proc piping 2)"
    by (simp_all add: wrapping_ok piping_uvm_ok)
  have "nat 1 = 1" "mem piping = demo_mem" by simp_all
  then show ?thesis
    using piperead_moves_front [OF piping_simps(8,7,5) ok, of "\<lambda>s. s" 100 1] unfolding items by metis
qed

text \<open>
  C24. What is written to a pipe is what is read from it: a write of \<open>n\<close> bytes to an empty pipe
  returns \<open>n\<close>, and when some process later reads \<open>n\<close> bytes, whatever else has changed, it gets
  exactly the bytes that the writer's memory held, in order, and the pipe is empty again.
\<close>

theorem pipe_transfer:
  fixes s :: "'a pipes_scheme"
  assumes "procs_ready s" "lock_free (PipeLock pi) s" "me s = Some pr" "may_write pi pr s"
    "pipe_items (pipes s pi) = []" "0 < n" "n \<le> 512"
    "\<forall>j<n. user_page (mem s) (p_pagetable (proc s pr)) (a + of_nat j) \<noteq> 0"
  shows "\<exists>t. pipewrite env pi a (int n) s = Done (int n) t \<and>
    (\<forall>(u :: 'a pipes_scheme) rd pt b. pipes u pi = pipes t pi \<and> procs_ready u \<and> lock_free (PipeLock pi) u \<and> me u = Some rd
       \<and> pt = p_pagetable (proc u rd) \<and> uvm_ok (mem u) pt \<and> (\<forall>j<n. user_page (mem u) pt (b + of_nat j) \<noteq> 0) \<longrightarrow>
     (\<exists>v. piperead env' pi b (int n) u = Done (int n) v \<and> pipe_items (pipes v pi) = []
       \<and> (\<forall>j<n. user_byte (mem v) pt (b + of_nat j) =
             user_byte (mem s) (p_pagetable (proc s pr)) (a + of_nat j))))"
proof -
  let ?pt = "p_pagetable (proc s pr)"
  obtain k t where w: "pipewrite env pi a (int n) s = Done (int k) t" "pipe_ok (pipes t pi)"
    "appended ?pt a n k [] (pipe_items (pipes t pi)) (mem s)"
    using pipewrite_eq [OF assms(1-4), of "int n" ?pt env a] assms(5,7) by auto
  with assms(8) have k: "k = n" and items: "pipe_items (pipes t pi) = map (user_bytes (mem s) ?pt a) [0..<n]"
    by (auto simp: appended_def le_less)
  have byte: "Some (user_bytes (mem s) ?pt a j) = user_byte (mem s) ?pt (a + of_nat j)" if "j < n" for j
    using assms(8) that by (auto simp: user_bytes_def user_byte_def Let_def)
  have "\<exists>v. piperead env' pi b (int n) u = Done (int n) v \<and> pipe_items (pipes v pi) = []
       \<and> (\<forall>j<n. user_byte (mem v) pt (b + of_nat j) = user_byte (mem s) ?pt (a + of_nat j))"
    if u: "pipes u pi = pipes t pi" "procs_ready u" "lock_free (PipeLock pi) u" "me u = Some rd"
      "pt = p_pagetable (proc u rd)" "uvm_ok (mem u) pt" "\<forall>j<n. user_page (mem u) pt (b + of_nat j) \<noteq> 0"
    for u :: "'a pipes_scheme" and rd pt b
  proof -
    have "pipe_ok (pipes u pi)" "pipe_items (pipes u pi) \<noteq> [] \<or> \<not> pi_writeopen (pipes u pi)"
      using w(2) items assms(6) u(1) by auto
    from piperead_eq [OF u(2-4) this u(6,5), of env' b "int n"] obtain l v where
      v: "piperead env' pi b (int n) u = Done (int l) v"
        "moved pt b n l (pipe_items (pipes t pi)) (pipe_items (pipes v pi)) (mem u) (mem v)"
      using u(1) by auto
    with u(7) items have l: "l = n" by (auto simp: moved_def le_less split: if_splits)
    have "within n b (b + of_nat j) \<and> unat (of_nat j :: addr) = j" if "j < n" for j
      using that assms(7) by (simp add: within_def unat_of_nat_small)
    with v l items byte show ?thesis by (auto simp: moved_def)
  qed
  with w(1) k show ?thesis by blast
qed

theorem pipe_transfer_witness:
  "\<exists>t v. pipewrite (\<lambda>s. s) 0 4 2 piping = Done 2 t
     \<and> piperead (\<lambda>s. s) 0 100 2 (piping\<lparr>pipes := (pipes piping)(0 := pipes t 0)\<rparr>) = Done 2 v
     \<and> user_byte (mem v) 0x80100000 101 = user_byte demo_mem 0x80100000 5"
proof -
  have mapped: "\<forall>j<2. user_page demo_mem 0x80100000 (c + of_nat j) \<noteq> 0" if "c = 4 \<or> c = 100" for c :: addr
    using that by (auto simp: demo_user_page less_2_cases_iff within_def)
  have ok: "procs_ready piping" "lock_free (PipeLock 0) piping" "me piping = Some 2" "may_write 0 2 piping"
    "pipe_items (pipes piping 0) = []"
    "\<forall>j<2. user_page (mem piping) (p_pagetable (proc piping 2)) (4 + of_nat j) \<noteq> 0"
    using mapped [of 4] by (simp_all add: may_write_def wrapping_ok piping_uvm_ok) (simp add: wrapping_pipe_def)
  have 2: "0 < (2 :: nat)" "2 \<le> (512 :: nat)" by simp_all
  from pipe_transfer [OF ok(1-5) 2 ok(6), of "\<lambda>s. s" "\<lambda>s. s"]
  obtain t where t: "pipewrite (\<lambda>s. s) 0 4 (int 2) piping = Done (int 2) t"
    and rd: "\<And>(u :: files) rd pt b. pipes u 0 = pipes t 0 \<and> procs_ready u \<and> lock_free (PipeLock 0) u \<and> me u = Some rd
       \<and> pt = p_pagetable (proc u rd) \<and> uvm_ok (mem u) pt \<and> (\<forall>j<2. user_page (mem u) pt (b + of_nat j) \<noteq> 0) \<Longrightarrow>
     \<exists>v. piperead (\<lambda>s. s) 0 b (int 2) u = Done (int 2) v \<and> pipe_items (pipes v 0) = []
       \<and> (\<forall>j<2. user_byte (mem v) pt (b + of_nat j) =
             user_byte (mem piping) (p_pagetable (proc piping 2)) (4 + of_nat j))" by blast
  let ?u = "piping\<lparr>pipes := (pipes piping)(0 := pipes t 0)\<rparr>"
  have "?u = piped 0 (mem piping) (pipes t 0) piping" by (simp add: piped_def)
  then have "procs_ready ?u" "lock_free (PipeLock 0) ?u" "me ?u = Some 2" by (simp_all del: piping_simps(1,2))
  moreover have "pipes ?u 0 = pipes t 0" "0x80100000 = p_pagetable (proc ?u 2)" "uvm_ok (mem ?u) 0x80100000"
    "\<forall>j<2. user_page (mem ?u) 0x80100000 (100 + of_nat j) \<noteq> 0"
    using mapped [of 100] by (simp_all add: piping_uvm_ok)
  ultimately obtain v where v: "piperead (\<lambda>s. s) 0 100 (int 2) ?u = Done (int 2) v"
      "\<forall>j<2. user_byte (mem v) 0x80100000 (100 + of_nat j) = user_byte (mem piping) (p_pagetable (proc piping 2)) (4 + of_nat j)"
    using rd [of ?u 2 "0x80100000" 100] by blast
  from v(2) [rule_format, of 1] have "user_byte (mem v) 0x80100000 101 = user_byte demo_mem 0x80100000 5" by simp
  with t v(1) show ?thesis by (intro exI [of _ t] exI [of _ v]) simp
qed

end
