(* ===== verification/Xv6_Consoleio.thy ===== *)
theory Xv6_Consoleio
  imports Xv6_Console Xv6_Ring Xv6_Demo Xv6_Frame
begin

text \<open>
  What the console does with its input buffer (kernel/console.c), what the serial port sends
  (kernel/uart.c) and what \<open>printint\<close> prints (kernel/printf.c).
\<close>

section \<open>The input buffer\<close>

text \<open>
  The buffer is a ring with three counters: committed input lies between \<open>r\<close> and \<open>w\<close>, the line
  being edited between \<open>w\<close> and \<open>e\<close>. \<open>cons_view\<close> is everything the input buffer consists of.
\<close>

definition cons_view :: "'a consoles_scheme \<Rightarrow> (nat \<Rightarrow> byte) \<times> uint \<times> uint \<times> uint" where
  "cons_view s = (cons_buf s, cons_r s, cons_w s, cons_e s)"

definition committed :: "'a consoles_scheme \<Rightarrow> byte list" where
  "committed s = ring INPUT_BUF (cons_buf s) (cons_r s) (cons_w s)"

definition edited :: "'a consoles_scheme \<Rightarrow> byte list" where
  "edited s = ring INPUT_BUF (cons_buf s) (cons_w s) (cons_e s)"

definition cons_ok :: "'a consoles_scheme \<Rightarrow> bool" where
  "cons_ok s \<longleftrightarrow> length (committed s) + length (edited s) \<le> 128"

section \<open>Output never disturbs\<close>

text \<open>
  \<open>said n out s\<close>: the device registers have been read until \<open>n\<close> and \<open>out\<close> has been written. A
  statement that \<open>prints\<close> returns and changes nothing else, provided that the transmitter becomes
  idle and the kernel has not panicked.
\<close>

definition said :: "nat \<Rightarrow> (addr \<times> uint) list \<Rightarrow> 'a consoles_scheme \<Rightarrow> 'a consoles_scheme" where
  "said n out s = s\<lparr>mmio_count := n, mmio_out := out\<rparr>"

definition uart_idle :: "'a consoles_scheme \<Rightarrow> bool" where
  "uart_idle s \<longleftrightarrow> (\<forall>k. (ucast (mmio_in s k (UART0 + LSR)) :: byte) AND LSR_TX_IDLE \<noteq> 0)"

definition can_print :: "'a consoles_scheme \<Rightarrow> bool" where
  "can_print s \<longleftrightarrow> cpu_ok s \<and> uart_idle s \<and> \<not> panicked s"

lemma said_simps [simp]:
  "said n out (entered lk s) = entered lk (said n out s)" "said n out (pushed s) = pushed (said n out s)"
  "said n out (quiet s) = quiet (said n out s)"
  "said n out (said n' out' s) = said n out s" "said (mmio_count s) (mmio_out s) s = s"
  "cpu_ok (said n out s) = cpu_ok s" "lock_free lk (said n out s) = lock_free lk s"
  "uart_idle (said n out s) = uart_idle s" "panicked (said n out s) = panicked s"
  "cons_view (said n out s) = cons_view s" "proc (said n out s) = proc s" "me (said n out s) = me s"
  "procs_ready (said n out s) = procs_ready s" "pr_locking (said n out s) = pr_locking s"
  "can_print (said n out s) = can_print s" "mmio_in (said n out s) = mmio_in s"
  by (simp_all add: said_def lock_state_defs uart_idle_def cons_view_def me_def procs_ready_def can_print_def)

lemma console_lock_simps [simp]:
  "uart_idle (entered lk s) = uart_idle s" "panicked (entered lk s) = panicked s"
  "uart_idle (pushed s) = uart_idle s" "panicked (pushed s) = panicked s"
  "uart_idle (quiet s) = uart_idle s" "panicked (quiet s) = panicked s"
  "pr_locking (entered lk s) = pr_locking s" "cons_view (entered lk s) = cons_view s"
  "cons_view (quiet s) = cons_view s" "mmio_in (entered lk s) = mmio_in s" "mmio_in (quiet s) = mmio_in s"
  by (simp_all add: lock_state_defs uart_idle_def cons_view_def)

lemma can_print_entered [simp]: "can_print s \<Longrightarrow> can_print (entered lk s)"
  by (simp add: can_print_def)

lemma uartputc_sync_eq:
  assumes "can_print s"
  shows "\<exists>n out. uartputc_sync c s = Done () (quiet (said n out s))"
proof -
  let ?p = "pushed s"
  have "uart_idle ?p" "\<not> panicked ?p" using assms by (simp_all add: can_print_def)
  then have "\<exists>n out. bind (loop (\<lambda>_. bind (ReadReg LSR) (\<lambda>lsr. ret (if lsr AND LSR_TX_IDLE = 0 then Inl () else Inr ()))) ())
       (\<lambda>_. WriteReg THR (word_of_int c)) ?p = Done () (said n out ?p)"
    by (subst loop_unfold [abs_def])
       (auto simp: ReadReg_def WriteReg_def mmio_read_def mmio_write_def km_simps uart_idle_def said_def)
  then obtain n out where "bind (loop (\<lambda>_. bind (ReadReg LSR) (\<lambda>lsr. ret (if lsr AND LSR_TX_IDLE = 0 then Inl () else Inr ()))) ())
       (\<lambda>_. WriteReg THR (word_of_int c)) ?p = Done () (pushed (said n out s))" by auto
  moreover have "pop_off (pushed (said n out s)) = Done () (quiet (said n out s))"
    using pop_off_eq [of "said n out s" "pushed (said n out s)"] assms
    by (simp add: can_print_def) (simp add: pushed_def quiet_def)
  ultimately show ?thesis
    using \<open>\<not> panicked ?p\<close>
    by (auto simp: uartputc_sync_def km_simps push_off_eq split: outcome.splits) blast
qed

text \<open>Under a lock the pair \<open>push_off\<close>/\<open>pop_off\<close> leaves no trace.\<close>

definition prints :: "('a consoles_scheme, unit) km \<Rightarrow> bool" where
  "prints m \<longleftrightarrow> (\<forall>lk s. can_print s \<longrightarrow> (\<exists>n out. m (entered lk s) = Done () (entered lk (said n out s))))"

named_theorems prints_intros \<open>statements that only print\<close>

lemma prints_ret [prints_intros]: "prints (ret ())"
  unfolding prints_def ret_def by (metis said_simps(5))

lemma prints_bind [prints_intros]:
  assumes "prints m" "prints n" shows "prints (bind m (\<lambda>_. n))"
  unfolding prints_def
proof (intro allI impI)
  fix lk and s :: "'a consoles_scheme" assume s: "can_print s"
  with assms(1) obtain i out where m: "m (entered lk s) = Done () (entered lk (said i out s))"
    unfolding prints_def by blast
  have "can_print (said i out s)" using s by simp
  with assms(2) obtain j out' where "n (entered lk (said i out s)) = Done () (entered lk (said j out' (said i out s)))"
    unfolding prints_def by blast
  with m show "\<exists>n' out. bind m (\<lambda>_. n) (entered lk s) = Done () (entered lk (said n' out s))" by auto
qed

lemma prints_gets [prints_intros]: "(\<And>x. prints (f x)) \<Longrightarrow> prints (bind (gets g) f)"
  unfolding prints_def by (simp add: gets_def)

lemma prints_only_if [prints_intros]: "prints m \<Longrightarrow> prints (only_if b m)"
  by (simp add: only_if_def prints_ret)

lemma prints_block [prints_intros]: "(\<And>m. m \<in> set ms \<Longrightarrow> prints m) \<Longrightarrow> prints (block ms)"
  by (induction ms) (auto intro: prints_intros)

lemma prints_for_each [prints_intros]: "(\<And>x. prints (f x)) \<Longrightarrow> prints (for_each f xs)"
  by (induction xs) (auto intro: prints_intros)

lemma prints_consputc [prints_intros]: "prints (consputc c :: ('a consoles_scheme, unit) km)"
proof -
  have sync: "prints (uartputc_sync c :: ('a consoles_scheme, unit) km)" for c :: int
    unfolding prints_def
  proof (intro allI impI)
    fix lk and s :: "'a consoles_scheme" assume s: "can_print s"
    with uartputc_sync_eq [of "entered lk s" c]
    show "\<exists>n out. uartputc_sync c (entered lk s) = Done () (entered lk (said n out s))"
      by (auto simp: can_print_def)
  qed
  then show ?thesis unfolding consputc_def by (auto intro!: prints_intros)
qed

lemma prints_numbers [prints_intros]:
  "prints (printint x b sg)" "prints (printptr a)" "prints (print_bytes bs)"
  unfolding printint_def printptr_def print_bytes_def by (auto intro!: prints_intros)

text \<open>\<open>printf\<close> itself takes its lock around the output.\<close>

lemma printf_eq:
  fixes s :: "'a consoles_scheme"
  assumes "prints (printf_go f args :: ('a consoles_scheme, unit) km)" "can_print s" "lock_free PrLock s" "lk \<noteq> PrLock"
  shows "\<exists>n out. printf (Some f) args (entered lk s) = Done () (entered lk (said n out s))"
proof -
  have go: "\<exists>n out. printf_go f args (entered lk' u) = Done () (entered lk' (said n out u))"
    if "can_print u" for lk' and u :: "'a consoles_scheme" using assms(1) that unfolding prints_def by blast
  show ?thesis
  proof (cases "pr_locking s")
    case True
    obtain n out where "printf_go f args (entered PrLock (entered lk s)) =
        Done () (entered PrLock (said n out (entered lk s)))"
      using go [of "entered lk s" PrLock] assms(2) by auto
    with True assms(2-4) show ?thesis
      by (auto simp: printf_def km_simps acquire_eq can_print_def)
  next
    case False
    with go [OF assms(2), of lk] show ?thesis by (auto simp: printf_def km_simps)
  qed
qed

lemma procdump_eq:
  fixes s :: "'a consoles_scheme"
  assumes "can_print s" "lock_free PrLock s" "lk \<noteq> PrLock"
  shows "\<exists>n out. procdump (entered lk s) = Done () (entered lk (said n out s))"
proof -
  have nl: "prints (printf_go [CHR 0x0A] [] :: ('a consoles_scheme, unit) km)" by (simp add: prints_consputc)
  have line: "prints (printf_go ''%d %s %s'' [ArgInt x, ArgStr (Some a), ArgStr (Some b)] :: ('a consoles_scheme, unit) km)" for x a b
    by (simp add: prints_intros)
  have one: "\<exists>n out. printf (Some f) args (entered lk (said i o' s)) = Done () (entered lk (said n out s))"
    if "prints (printf_go f args :: ('a consoles_scheme, unit) km)" for f args i o'
    using printf_eq [OF that, of "said i o' s" lk] assms by simp
  define body where "body p = bind (gets (\<lambda>s. proc s p)) (\<lambda>q.
       only_if (p_state q \<noteq> UNUSED) (block [
         printf (Some ''%d %s %s'') [ArgInt (p_pid q),
           ArgStr (Some (map of_char (state_name (p_state q)))), ArgStr (Some (name_bytes (p_name q)))],
         printf (Some [CHR 0x0A]) [] :: ('a consoles_scheme, unit) km]))" for p
  have body: "\<exists>n out. body p (entered lk (said i o' s)) = Done () (entered lk (said n out s))" for p i o'
  proof (cases "p_state (proc s p) = UNUSED")
    case True
    then show ?thesis by (auto simp: body_def km_simps)
  next
    case False
    then show ?thesis
      using one [OF line [of "p_pid (proc s p)" "map of_char (state_name (p_state (proc s p)))"
          "name_bytes (p_name (proc s p))"], of i o'] one [OF nl]
      by (auto simp: body_def km_simps)
  qed
  have rows: "\<exists>n out. for_each body ps (entered lk (said i o' s)) = Done () (entered lk (said n out s))"
    for ps i o'
  proof (induction ps arbitrary: i o')
    case (Cons p ps)
    from body [of p i o'] obtain j o'' where
      "body p (entered lk (said i o' s)) = Done () (entered lk (said j o'' s))" by blast
    with Cons.IH [of j o''] show ?case by simp
  qed (auto simp: ret_def)
  from one [OF nl, of "mmio_count s" "mmio_out s"] obtain i o' where
    "printf (Some [CHR 0x0A]) [] (entered lk s) = Done () (entered lk (said i o' s))" by auto
  with rows [of _ i o'] show ?thesis
    unfolding procdump_def body_def [abs_def, symmetric] by simp
qed

section \<open>Editing\<close>

text \<open>
  The line discipline as a function on the committed input and the line being edited.
\<close>

definition edit :: "int \<Rightarrow> byte list \<times> byte list \<Rightarrow> byte list \<times> byte list" where
  "edit c = (\<lambda>(cm, ed).
     if c = Ctl_P then (cm, ed)
     else if c = Ctl_U then (cm, rev (dropWhile (\<lambda>x. x \<noteq> 10) (rev ed)))
     else if c = Ctl_H \<or> c = 0x7f then (cm, butlast ed)
     else if c = 0 \<or> length cm + length ed \<ge> 128 then (cm, ed)
     else let x = (if c = 13 then 10 else c); ed' = ed @ [word_of_int x] in
       if x = 10 \<or> x = Ctl_D \<or> length cm + length ed' = 128 then (cm @ ed', []) else (cm, ed'))"

definition con :: "(nat \<Rightarrow> byte) \<Rightarrow> uint \<Rightarrow> uint \<Rightarrow> 'a consoles_scheme \<Rightarrow> 'a consoles_scheme" where
  "con b w e s = s\<lparr>cons_buf := b, cons_w := w, cons_e := e\<rparr>"

lemma con_simps [simp]:
  "con b w e (entered lk s) = entered lk (con b w e s)" "con b w e (quiet s) = quiet (con b w e s)"
  "con b w e (con b' w' e' s) = con b w e s"
  "con (cons_buf s) (cons_w s) (cons_e s) s = s"
  "cons_buf (con b w e s) = b" "cons_r (con b w e s) = cons_r s" "cons_w (con b w e s) = w"
  "cons_e (con b w e s) = e"
  "cpu_ok (con b w e s) = cpu_ok s" "lock_free lk (con b w e s) = lock_free lk s"
  "can_print (con b w e s) = can_print s" "procs_ready (con b w e s) = procs_ready s"
  "me (con b w e s) = me s" "proc (con b w e s) = proc s"
  by (simp_all add: con_def lock_state_defs can_print_def uart_idle_def procs_ready_def me_def)

lemma con_said: "con b w e (said n out s) = said n out (con b w e s)"
  by (simp add: con_def said_def)

lemma cons_fields_simps [simp]:
  "cons_buf (entered lk s) = cons_buf s" "cons_r (entered lk s) = cons_r s"
  "cons_w (entered lk s) = cons_w s" "cons_e (entered lk s) = cons_e s"
  "cons_buf (quiet s) = cons_buf s" "cons_r (quiet s) = cons_r s"
  "cons_w (quiet s) = cons_w s" "cons_e (quiet s) = cons_e s"
  "cons_buf (said n out s) = cons_buf s" "cons_r (said n out s) = cons_r s"
  "cons_w (said n out s) = cons_w s" "cons_e (said n out s) = cons_e s"
  by (simp_all add: lock_state_defs said_def)

lemma con_unchanged: "said (mmio_count s) (mmio_out s) (con (cons_buf s) (cons_w s) (cons_e s) s) = s"
  by simp

lemma con_fold:
  "s\<lparr>cons_e := e\<rparr> = con (cons_buf s) (cons_w s) e s" "s\<lparr>cons_w := w\<rparr> = con (cons_buf s) w (cons_e s) s"
  "s\<lparr>cons_buf := b, cons_e := e\<rparr> = con b (cons_w s) e s"
  by (simp_all add: con_def)

lemma consputc_eq:
  "can_print s \<Longrightarrow> \<exists>n out. consputc c (entered lk s) = Done () (entered lk (said n out s))"
  using prints_consputc unfolding prints_def by blast

text \<open>One step back, and back to the start of the line.\<close>

lemma erase_eq:
  assumes "can_print s"
  shows "\<exists>n out. block [modify (\<lambda>s. s\<lparr>cons_e := cons_e s - 1\<rparr>), consputc BACKSPACE] (entered lk s) =
    Done () (entered lk (said n out (con (cons_buf s) (cons_w s) (cons_e s - 1) s)))"
  using consputc_eq [of "con (cons_buf s) (cons_w s) (cons_e s - 1) s" BACKSPACE lk] assms
  by (simp add: km_simps con_fold)

lemma cons_backspace_eq:
  assumes "can_print s"
  shows "\<exists>n out e. cons_backspace (entered lk s) =
      Done () (entered lk (said n out (con (cons_buf s) (cons_w s) e s)))
    \<and> ring INPUT_BUF (cons_buf s) (cons_w s) e = butlast (edited s)"
proof (cases "cons_e s = cons_w s")
  case True
  then have "cons_backspace (entered lk s) = Done () (entered lk s)"
    by (simp add: cons_backspace_def km_simps)
  moreover have "ring INPUT_BUF (cons_buf s) (cons_w s) (cons_e s) = butlast (edited s)"
    using True by (simp add: edited_def ring_def)
  ultimately show ?thesis
    by (intro exI [of _ "mmio_count s"] exI [of _ "mmio_out s"] exI [of _ "cons_e s"]) simp
next
  case False
  then have "cons_backspace (entered lk s) =
      block [modify (\<lambda>s. s\<lparr>cons_e := cons_e s - 1\<rparr>), consputc BACKSPACE] (entered lk s)"
    by (simp add: cons_backspace_def gets_def only_if_def)
  moreover have "ring INPUT_BUF (cons_buf s) (cons_w s) (cons_e s - 1) = butlast (edited s)"
    using ring_unput [of "cons_w s" "cons_e s"] False by (simp add: edited_def)
  ultimately show ?thesis using erase_eq [OF assms, of lk] by auto
qed

lemma cons_kill_line_eq:
  assumes "can_print s"
  shows "\<exists>n out e. cons_kill_line (entered lk s) =
      Done () (entered lk (said n out (con (cons_buf s) (cons_w s) e s)))
    \<and> ring INPUT_BUF (cons_buf s) (cons_w s) e = rev (dropWhile (\<lambda>x. x \<noteq> 10) (rev (edited s)))"
  using assms
proof (induction "unat (cons_e s - cons_w s)" arbitrary: s)
  case 0
  then have "cons_e s = cons_w s" by (simp add: unat_eq_0)
  then have "cons_kill_line (entered lk s) = Done () (entered lk s)"
    "ring INPUT_BUF (cons_buf s) (cons_w s) (cons_e s) = rev (dropWhile (\<lambda>x. x \<noteq> 10) (rev (edited s)))"
    by (simp_all add: cons_kill_line_def edited_def ring_def)
  then show ?case
    by (intro exI [of _ "mmio_count s"] exI [of _ "mmio_out s"] exI [of _ "cons_e s"]) simp
next
  case (Suc m)
  then have ne: "cons_w s \<noteq> cons_e s" by auto
  then have ed: "edited s = butlast (edited s) @ [cons_buf s (unat ((cons_e s - 1) mod INPUT_BUF))]"
    using ring_last [of "cons_w s" "cons_e s" INPUT_BUF "cons_buf s"]
    unfolding edited_def by (metis append_butlast_last_id ring_empty)
  show ?case
  proof (cases "cons_buf s (unat ((cons_e s - 1) mod INPUT_BUF)) = 10")
    case True
    then have "cons_kill_line (entered lk s) = Done () (entered lk s)"
      by (simp add: cons_kill_line_def)
    moreover have "edited s = rev (dropWhile (\<lambda>x. x \<noteq> 10) (rev (edited s)))"
      by (subst (2) ed, subst ed) (simp add: True)
    then have "ring INPUT_BUF (cons_buf s) (cons_w s) (cons_e s) = rev (dropWhile (\<lambda>x. x \<noteq> 10) (rev (edited s)))"
      by (simp add: edited_def)
    ultimately show ?thesis
      by (intro exI [of _ "mmio_count s"] exI [of _ "mmio_out s"] exI [of _ "cons_e s"]) simp
  next
    case False
    let ?u = "con (cons_buf s) (cons_w s) (cons_e s - 1) s"
    obtain n out where er: "block [modify (\<lambda>s. s\<lparr>cons_e := cons_e s - 1\<rparr>), consputc BACKSPACE] (entered lk s) =
        Done () (entered lk (said n out ?u))"
      using erase_eq [OF Suc(3), of lk] by blast
    then have "cons_kill_line (entered lk s) = cons_kill_line (entered lk (said n out ?u))"
      unfolding cons_kill_line_def using ne False by (subst while_do_unfold) simp
    moreover have "m = unat (cons_e (said n out ?u) - cons_w (said n out ?u))"
      using Suc(2) ne unat_minus_one [of "cons_e s - cons_w s"] by (simp add: algebra_simps)
    moreover have "edited (said n out ?u) = butlast (edited s)"
      using ring_unput [OF ne] by (simp add: edited_def)
    moreover have "rev (dropWhile (\<lambda>x. x \<noteq> 10) (rev (edited s))) =
        rev (dropWhile (\<lambda>x. x \<noteq> 10) (rev (butlast (edited s))))"
      by (subst ed) (simp add: False)
    moreover have "can_print (said n out ?u)" using Suc(3) by simp
    ultimately show ?thesis using Suc(1) [of "said n out ?u"] by (auto simp: con_said)
  qed
qed

text \<open>Storing one more character.\<close>

lemma ring_store:
  fixes r w e :: uint and buf :: "nat \<Rightarrow> byte" and x :: byte
  assumes "unat (w - r) + unat (e - w) < 128"
  defines "buf' \<equiv> buf(unat (e mod INPUT_BUF) := x)"
  shows "ring INPUT_BUF buf' r w = ring INPUT_BUF buf r w"
    "ring INPUT_BUF buf' w (e + 1) = ring INPUT_BUF buf w e @ [x]"
    "unat (e - r) = unat (w - r) + unat (e - w)"
    "unat (e + 1 - w) = Suc (unat (e - w))"
    "ring INPUT_BUF buf' r (e + 1) = ring INPUT_BUF buf r w @ ring INPUT_BUF buf w e @ [x]"
proof -
  have dvd: "unat (128 :: uint) dvd 2 ^ LENGTH(32)" by simp
  have "unat (w - r) + unat (e - w) < 2 ^ LENGTH(32)" using assms(1) by simp
  note app = ring_append(2) [OF this, of INPUT_BUF] and er = ring_append(1) [OF this]
  show "unat (e - r) = unat (w - r) + unat (e - w)" by (rule er)
  have we: "unat (e - w) < unat (128 :: uint)" and re: "unat (e - r) < unat (128 :: uint)"
    using assms(1) er by simp_all
  show e': "unat (e + 1 - w) = Suc (unat (e - w))" by (rule unat_succ_diff [OF we])
  show ed: "ring INPUT_BUF buf' w (e + 1) = ring INPUT_BUF buf w e @ [x]"
    unfolding buf'_def by (rule ring_put [OF dvd we])
  show all: "ring INPUT_BUF buf' r (e + 1) = ring INPUT_BUF buf r w @ ring INPUT_BUF buf w e @ [x]"
    using ring_put [OF dvd re, of buf x] app [of buf] by (simp add: buf'_def)
  have "ring INPUT_BUF buf' r (e + 1) = ring INPUT_BUF buf' r w @ ring INPUT_BUF buf' w (e + 1)"
    by (rule ring_append(2)) (use assms(1) e' in simp)
  with all ed show "ring INPUT_BUF buf' r w = ring INPUT_BUF buf r w" by simp
qed

lemma said_proc [simp]: "(said n out s)\<lparr>proc := ps\<rparr> = said n out (s\<lparr>proc := ps\<rparr>)"
  by (simp add: said_def)

lemma cons_store_eq:
  "cons_store c s = Done () (con ((cons_buf s)(unat (cons_e s mod INPUT_BUF) := word_of_int c)) (cons_w s) (cons_e s + 1) s)"
  by (simp add: cons_store_def modify_def con_def)

lemma procs_ready_cons_lock: "procs_ready s \<Longrightarrow> procs_ready (entered ConsLock s)"
  by (simp add: procs_ready_def)

lemma cons_insert_eq:
  assumes "can_print s" "procs_ready s" "cons_ok s" "c \<notin> {Ctl_P, Ctl_U, Ctl_H, 0x7f}"
  shows "\<exists>n out b w e ps. cons_insert c (entered ConsLock s) =
      Done () (entered ConsLock (said n out ((con b w e s)\<lparr>proc := ps\<rparr>)))
    \<and> (ring INPUT_BUF b (cons_r s) w, ring INPUT_BUF b w e) = edit c (committed s, edited s)"
proof (cases "c = 0 \<or> length (committed s) + length (edited s) \<ge> 128")
  case True
  have "unat (cons_w s - cons_r s) + unat (cons_e s - cons_w s) < 2 ^ LENGTH(32)"
    using assms(3) by (simp add: cons_ok_def committed_def edited_def)
  from ring_append(1) [OF this] True have "c = 0 \<or> \<not> cons_e s - cons_r s < INPUT_BUF"
    by (auto simp: committed_def edited_def word_less_nat_alt)
  then have "cons_insert c (entered ConsLock s) = Done () (entered ConsLock s)"
    by (auto simp: cons_insert_def km_simps)
  moreover have "edit c (committed s, edited s) = (committed s, edited s)"
    using True assms(4) by (simp add: edit_def)
  ultimately show ?thesis
    by (intro exI [of _ "mmio_count s"] exI [of _ "mmio_out s"] exI [of _ "cons_buf s"]
        exI [of _ "cons_w s"] exI [of _ "cons_e s"] exI [of _ "proc s"]) (simp add: committed_def edited_def)
next
  case False
  define x where "x = (if c = 13 then 10 else c)"
  define b where "b = (cons_buf s)(unat (cons_e s mod INPUT_BUF) := word_of_int x)"
  define full where "full \<longleftrightarrow> length (committed s) + Suc (length (edited s)) = 128"
  have len: "unat (cons_w s - cons_r s) + unat (cons_e s - cons_w s) < 128"
    using False by (simp add: committed_def edited_def)
  note st = ring_store(1,2,5) [OF len, of "cons_buf s" "word_of_int x", folded b_def]
    and er = ring_store(3) [OF len]
  have room: "cons_e s - cons_r s < INPUT_BUF" using len er by (simp add: word_less_nat_alt)
  have full: "cons_e s + 1 = cons_r s + INPUT_BUF \<longleftrightarrow> full"
  proof -
    have "unat (cons_e s - cons_r s) < unat (128 :: uint)" using len er by simp
    from unat_succ_diff [OF this] show ?thesis
      using ring_full [of "cons_e s + 1" "cons_r s" INPUT_BUF] er
      by (simp add: full_def committed_def edited_def)
  qed
  obtain n out where put: "consputc x (entered ConsLock s) = Done () (entered ConsLock (said n out s))"
    using consputc_eq [OF assms(1)] by blast
  let ?u = "said n out (con b (cons_w s) (cons_e s + 1) s)"
  have ready: "procs_ready (entered ConsLock (said n out (con b (cons_e s + 1) (cons_e s + 1) s)))"
    by (rule procs_ready_cons_lock) (simp add: assms(2))
  have run: "cons_insert c (entered ConsLock s) =
    (if x = 10 \<or> x = Ctl_D \<or> full
     then Done () (entered ConsLock (said n out ((con b (cons_e s + 1) (cons_e s + 1) s)\<lparr>proc :=
       all_woken (me s) ChanConsR (proc s)\<rparr>)))
     else Done () (entered ConsLock ?u))"
  proof -
    have room: "gets (\<lambda>s. cons_e s - cons_r s < INPUT_BUF) (entered ConsLock s) = Done True (entered ConsLock s)"
      using room by (simp add: gets_def)
    have full: "gets (\<lambda>s. cons_e s = cons_r s + INPUT_BUF) (entered ConsLock ?u) = Done full (entered ConsLock ?u)"
      unfolding gets_def using full by (simp del: add_right_cancel add_left_cancel)
    have "cpu_ok s" using assms(1) by (simp add: can_print_def)
    then show ?thesis
      using False wakeup_eq [OF ready, of ChanConsR]
      by (auto simp: cons_insert_def Let_def only_if_def modify_def ret_def room full put cons_store_eq con_said
          con_fold simp flip: x_def b_def)
  qed
  show ?thesis
  proof (cases "x = 10 \<or> x = Ctl_D \<or> full")
    case True
    then have "edit c (committed s, edited s) = (committed s @ edited s @ [word_of_int x], [])"
      using False assms(4) by (auto simp: edit_def Let_def x_def full_def)
    with True run st(3) show ?thesis
      by (intro exI [of _ n] exI [of _ out] exI [of _ b] exI [of _ "cons_e s + 1"]) 
         (auto simp: committed_def edited_def ring_def)
  next
    case False': False
    then have "edit c (committed s, edited s) = (committed s, edited s @ [word_of_int x])"
      using False assms(4) by (auto simp: edit_def Let_def x_def full_def)
    with False' run st(1,2) show ?thesis
      by (intro exI [of _ n] exI [of _ out] exI [of _ b] exI [of _ "cons_w s"] exI [of _ "cons_e s + 1"]
          exI [of _ "proc (con b (cons_w s) (cons_e s + 1) s)"])
         (simp add: committed_def edited_def del: con_simps)
  qed
qed

section \<open>The interrupt handler\<close>

lemma edit_bound:
  assumes "edit c (cm, ed) = (cm', ed')" "length cm + length ed \<le> 128"
  shows "length cm' + length ed' \<le> 128"
proof -
  have "length (dropWhile (\<lambda>x. x \<noteq> 10) (rev ed)) \<le> length ed"
    by (metis length_dropWhile_le length_rev)
  with assms show ?thesis
    by (auto simp: edit_def Let_def split: if_splits) arith
qed

text \<open>What one of the branches leaves, under the lock.\<close>

definition edits_to :: "'a consoles_scheme \<Rightarrow> byte list \<times> byte list \<Rightarrow> (unit, 'a consoles_scheme) outcome \<Rightarrow> bool" where
  "edits_to s res o' \<longleftrightarrow> (\<exists>n out b w e ps. o' =
      Done () (entered ConsLock (said n out ((con b w e s)\<lparr>proc := ps\<rparr>)))
    \<and> (ring INPUT_BUF b (cons_r s) w, ring INPUT_BUF b w e) = res)"

lemma edits_toI:
  assumes "o' = Done () (entered ConsLock (said n out (con b w e s)))"
    "(ring INPUT_BUF b (cons_r s) w, ring INPUT_BUF b w e) = res"
  shows "edits_to s res o'"
  unfolding edits_to_def
  by (intro exI [of _ n] exI [of _ out] exI [of _ b] exI [of _ w] exI [of _ e] exI [of _ "proc (con b w e s)"])
     (use assms in \<open>simp del: con_simps\<close>)

lemma consoleintr_branch:
  assumes "can_print s" "procs_ready s" "lock_free PrLock s" "cons_ok s"
  shows "edits_to s (edit c (committed s, edited s))
    ((if c = Ctl_P then procdump else if c = Ctl_U then cons_kill_line
      else if c = Ctl_H \<or> c = 0x7f then cons_backspace else cons_insert c) (entered ConsLock s))"
proof -
  consider "c = Ctl_P" | "c = Ctl_U" | "c = Ctl_H \<or> c = 0x7f" | "c \<notin> {Ctl_P, Ctl_U, Ctl_H, 0x7f}" by auto
  then show ?thesis
  proof cases
    case 1
    from procdump_eq [OF assms(1,3), of ConsLock] obtain n out where
      "procdump (entered ConsLock s) = Done () (entered ConsLock (said n out (con (cons_buf s) (cons_w s) (cons_e s) s)))"
      by auto
    with 1 show ?thesis by (intro edits_toI) (auto simp: edit_def committed_def edited_def)
  next
    case 2
    with cons_kill_line_eq [OF assms(1), of ConsLock] show ?thesis
      by (auto simp: edit_def committed_def intro: edits_toI)
  next
    case 3
    with cons_backspace_eq [OF assms(1), of ConsLock] show ?thesis
      by (auto simp: edit_def committed_def intro: edits_toI)
  next
    case 4
    with cons_insert_eq [OF assms(1,2,4) 4] show ?thesis unfolding edits_to_def by auto
  qed
qed

text \<open>
  C25. The console interrupt handler implements the line discipline: with a working transmitter it
  returns for every character, and its effect on the committed input and on the line being edited
  is exactly the function \<open>edit\<close>: erase and kill act on the current line only, a newline,
  end-of-file or a full buffer commits the line, and a character that finds no room is dropped. The
  buffer never holds more than 128 bytes and no lock is left held.
\<close>

theorem consoleintr_line_discipline:
  assumes "can_print s" "procs_ready s" "lock_free ConsLock s" "lock_free PrLock s" "cons_ok s"
  shows "\<exists>t. consoleintr c s = Done () t \<and> (committed t, edited t) = edit c (committed s, edited s)
    \<and> cons_ok t \<and> cons_r t = cons_r s \<and> (\<forall>lk. lock_free lk t = lock_free lk s)"
proof -
  have ok: "cpu_ok s" using assms(1) by (simp add: can_print_def)
  from consoleintr_branch [OF assms(1,2,4,5), of c] obtain n out b w e ps where
    run: "(if c = Ctl_P then procdump else if c = Ctl_U then cons_kill_line
      else if c = Ctl_H \<or> c = 0x7f then cons_backspace else cons_insert c) (entered ConsLock s) =
      Done () (entered ConsLock (said n out ((con b w e s)\<lparr>proc := ps\<rparr>)))"
    and res: "(ring INPUT_BUF b (cons_r s) w, ring INPUT_BUF b w e) = edit c (committed s, edited s)"
    unfolding edits_to_def by blast
  let ?t = "said n out ((con b w e s)\<lparr>proc := ps\<rparr>)"
  have "consoleintr c s = Done () (quiet ?t)"
    using assms(3) ok unfolding consoleintr_def by (simp add: run ret_def)
  moreover have fields: "cons_buf ?t = b" "cons_w ?t = w" "cons_e ?t = e" "cons_r ?t = cons_r s"
    by (simp_all add: said_def con_def)
  moreover have "length (ring INPUT_BUF b (cons_r s) w) + length (ring INPUT_BUF b w e) \<le> 128"
    by (rule edit_bound [OF res [symmetric]]) (use assms(5) in \<open>simp add: cons_ok_def\<close>)
  ultimately show ?thesis
    using res by (intro exI [of _ "quiet ?t"]) (simp add: committed_def edited_def cons_ok_def)
qed

text \<open>The state at boot with an idle transmitter; the line so far is \<open>ab\<close>.\<close>

definition typing :: files where
  "typing = con ((\<lambda>_. 0)(0 := 97, 1 := 98)) 0 2 (boot_files\<lparr>mmio_in := \<lambda>_ _. 0x20\<rparr>)"

theorem consoleintr_line_discipline_witness:
  "\<exists>t. consoleintr 13 typing = Done () t \<and> committed t = [97, 98, 10] \<and> edited t = []"
proof -
  have "can_print typing" "procs_ready typing" "lock_free lk typing" for lk
    by (simp_all add: typing_def can_print_def uart_idle_def procs_ready_def)
       (simp_all add: boot_files_def con_def lock_state_defs)
  moreover have lines: "committed typing = []" "edited typing = [97, 98]"
    by (simp_all add: typing_def committed_def edited_def ring_def boot_files_def upt_rec)
  moreover have "cons_ok typing" using lines by (simp add: cons_ok_def)
  ultimately show ?thesis
    using consoleintr_line_discipline [of typing 13] by (auto simp: edit_def)
qed

end
