(* ===== verification/Xv6_Output.thy ===== *)
theory Xv6_Output
  imports Xv6_Consoleio
begin

text \<open>
  Output: the transmit queue of the serial port (kernel/uart.c) and the numbers that \<open>printint\<close>
  and \<open>printptr\<close> print (kernel/printf.c).
\<close>

section \<open>Printed numbers\<close>

text \<open>Reading a number back: the value of a digit, of digits, of a signed number.\<close>

definition digit_value :: "char \<Rightarrow> nat" where
  "digit_value c = (if of_char c < (58 :: nat) then of_char c - 48 else of_char c - 87)"

definition digits_value :: "nat \<Rightarrow> char list \<Rightarrow> nat" where
  "digits_value base cs = foldl (\<lambda>a c. a * base + digit_value c) 0 cs"

definition read_int :: "nat \<Rightarrow> char list \<Rightarrow> int" where
  "read_int base cs = (case cs of
     CHR ''-'' # ds \<Rightarrow> - int (digits_value base ds) | _ \<Rightarrow> int (digits_value base cs))"

lemma digit_value_digits: "d < 16 \<Longrightarrow> digit_value (digits d) = d \<and> digits d \<noteq> CHR ''-''"
proof -
  have "\<forall>d\<in>set [0..<16]. digit_value (digits d) = d \<and> digits d \<noteq> CHR ''-''"
    by (simp add: digit_value_def digits_def upt_rec)
  then show "d < 16 \<Longrightarrow> ?thesis" by simp
qed

lemma digits_value_snoc: "digits_value base (cs @ [c]) = digits_value base cs * base + digit_value c"
  by (simp add: digits_value_def)

lemma printint_buf_step:
  assumes "2 \<le> unat base"
  shows "printint_buf x base = digits (unat x mod unat base) #
    (if unat x < unat base then [] else printint_buf (x div base) base)"
proof -
  have "\<not> base < 2" using assms by (simp add: word_less_nat_alt)
  moreover have "x div base = 0 \<longleftrightarrow> unat x < unat base"
    using assms by (simp add: unat_eq_0 [symmetric] unat_div div_eq_0_iff)
  ultimately show ?thesis by (subst printint_buf.simps) (simp add: unat_mod)
qed

lemma printint_buf_value:
  assumes "2 \<le> unat base" "unat base \<le> 16"
  shows "digits_value (unat base) (rev (printint_buf x base)) = unat x
    \<and> set (printint_buf x base) \<subseteq> digits ` {..<16} \<and> printint_buf x base \<noteq> []"
proof (induction "unat x" arbitrary: x rule: less_induct)
  case less
  have d: "unat x mod unat base < 16"
    using assms mod_less_divisor [of "unat base" "unat x"] by linarith
  note dv = digit_value_digits [OF d]
  show ?case
  proof (cases "unat x < unat base")
    case True
    with dv d show ?thesis
      by (subst (1 2 3) printint_buf_step [OF assms(1)]) (auto simp: digits_value_def)
  next
    case False
    then have "unat (x div base) < unat x" using assms by (simp add: unat_div)
    from less [OF this] False dv d show ?thesis
      by (subst (1 2 3) printint_buf_step [OF assms(1)])
         (auto simp: digits_value_snoc unat_div)
  qed
qed

lemma printint_buf_length:
  assumes "2 \<le> unat base" "unat x < unat base ^ Suc k"
  shows "length (printint_buf x base) \<le> Suc k"
  using assms(2)
proof (induction k arbitrary: x)
  case 0
  then show ?case by (subst printint_buf_step [OF assms(1)]) simp
next
  case (Suc k)
  then have "unat (x div base) < unat base ^ Suc k"
    by (simp add: unat_div less_mult_imp_div_less mult.commute)
  from Suc.IH [OF this] show ?case by (subst printint_buf_step [OF assms(1)]) simp
qed

lemma read_unsigned:
  assumes "2 \<le> unat base" "unat base \<le> 16"
  shows "read_int (unat base) (rev (printint_buf x base)) = int (unat x)"
    "read_int (unat base) (CHR ''-'' # rev (printint_buf x base)) = - int (unat x)"
proof -
  note b = printint_buf_value [OF assms, of x]
  have "CHR ''-'' \<notin> digits ` {..<16}" using digit_value_digits by fastforce
  with b have "CHR ''-'' \<notin> set (rev (printint_buf x base))" by auto
  moreover obtain c cs where "rev (printint_buf x base) = c # cs" using b by (metis neq_Nil_conv rev_is_Nil_conv)
  ultimately show "read_int (unat base) (rev (printint_buf x base)) = int (unat x)"
    using b by (auto simp: read_int_def split: char.split bool.split)
  show "read_int (unat base) (CHR ''-'' # rev (printint_buf x base)) = - int (unat x)"
    using b by (simp add: read_int_def)
qed

text \<open>
  C26. What \<open>printint\<close> prints of an \<open>int\<close>, in base 10 or 16, reads back as that number, the most
  negative one included; without the sign flag it is the number modulo \<open>2^32\<close>. The digits and the
  sign fit the buffer of 16 characters.
\<close>

theorem printint_roundtrip:
  assumes "base = 10 \<or> base = 16" "- (2 ^ 31) \<le> x" "x < 2 ^ 31"
  shows "read_int (unat base) (printint_chars x base True) = x
    \<and> read_int (unat base) (printint_chars x base False) = x mod 2 ^ 32
    \<and> length (printint_chars x base sign) \<le> 16"
proof -
  have b: "2 \<le> unat base" "unat base \<le> 16" "10 \<le> unat base" using assms(1) by auto
  have word: "int (unat (word_of_int y :: uint)) = y mod 2 ^ 32" for y by (simp add: unsigned_of_int take_bit_eq_mod)
  have neg: "int (unat (word_of_int (- x) :: uint)) = - x" if "x < 0"
    using that assms(2) by (subst word) (simp add: mod_pos_pos_trivial)
  have pos: "int (unat (word_of_int x :: uint)) = x" if "0 \<le> x"
    using that assms(3) by (subst word) (simp add: mod_pos_pos_trivial)
  have len: "length (printint_buf y base) \<le> 10" for y :: uint
  proof -
    have "unat y < 2 ^ 32" using unsigned_less [of y, where 'a = nat] by simp
    also have "(2 :: nat) ^ 32 < 10 ^ 10" by simp
    also have "(10 :: nat) ^ 10 \<le> unat base ^ 10" by (rule power_mono) (use b in auto)
    finally show ?thesis using printint_buf_length [OF b(1), of y 9] by simp
  qed
  have "read_int (unat base) (printint_chars x base True) = x"
    using read_unsigned [OF b(1,2)] neg pos by (cases "x < 0") (simp_all add: printint_chars_def)
  moreover have "read_int (unat base) (printint_chars x base False) = x mod 2 ^ 32"
    using read_unsigned(1) [OF b(1,2)] word by (simp add: printint_chars_def)
  moreover have "length (printint_chars x base sign) \<le> 16"
    using len [of "word_of_int x"] len [of "word_of_int (- x)"] by (simp add: printint_chars_def)
  ultimately show ?thesis by blast
qed

theorem printint_roundtrip_witness:
  "read_int 10 (printint_chars (- 2147483648) 10 True) = - 2147483648
    \<and> length (printint_chars (- 2147483648) 10 True) \<le> 16"
  using printint_roundtrip [of 10 "- 2147483648" True] by simp

section \<open>The transmit queue\<close>

definition uart_items :: "'a consoles_scheme \<Rightarrow> byte list" where
  "uart_items s = ring UART_TX_BUF_SIZE (uart_tx_buf s) (uart_tx_r s) (uart_tx_w s)"

definition uart_ok :: "'a consoles_scheme \<Rightarrow> bool" where
  "uart_ok s \<longleftrightarrow> length (uart_items s) \<le> 32"

definition idle_at :: "nat \<Rightarrow> 'a consoles_scheme \<Rightarrow> bool" where
  "idle_at k s \<longleftrightarrow> (ucast (mmio_in s k (UART0 + LSR)) :: byte) AND LSR_TX_IDLE \<noteq> 0"

text \<open>\<open>fed r s\<close>: the queue has been consumed up to \<open>r\<close>.\<close>

definition fed :: "addr \<Rightarrow> 'a consoles_scheme \<Rightarrow> 'a consoles_scheme" where
  "fed r s = s\<lparr>uart_tx_r := r\<rparr>"

lemma fed_simps [simp]:
  "fed r (entered lk s) = entered lk (fed r s)" "fed r (quiet s) = quiet (fed r s)"
  "fed r (fed r' s) = fed r s" "fed (uart_tx_r s) s = s" "cpu_ok (fed r s) = cpu_ok s"
  "lock_free lk (fed r s) = lock_free lk s" "procs_ready (fed r s) = procs_ready s" "me (fed r s) = me s"
  "proc (fed r s) = proc s" "uart_tx_r (fed r s) = r" "uart_tx_w (fed r s) = uart_tx_w s"
  "uart_tx_buf (fed r s) = uart_tx_buf s" "mmio_in (fed r s) = mmio_in s"
  "mmio_count (fed r s) = mmio_count s" "mmio_out (fed r s) = mmio_out s"
  by (simp_all add: fed_def lock_state_defs procs_ready_def me_def)

lemma uart_fields_simps [simp]:
  "uart_tx_r (entered lk s) = uart_tx_r s" "uart_tx_w (entered lk s) = uart_tx_w s"
  "uart_tx_buf (entered lk s) = uart_tx_buf s" "mmio_count (entered lk s) = mmio_count s"
  "mmio_out (entered lk s) = mmio_out s" "uart_tx_r (quiet s) = uart_tx_r s"
  "uart_tx_w (quiet s) = uart_tx_w s" "uart_tx_buf (quiet s) = uart_tx_buf s"
  "mmio_count (quiet s) = mmio_count s" "mmio_out (quiet s) = mmio_out s"
  "uart_tx_r (said n out s) = uart_tx_r s" "uart_tx_w (said n out s) = uart_tx_w s"
  "uart_tx_buf (said n out s) = uart_tx_buf s" "mmio_count (said n out s) = n" "mmio_out (said n out s) = out"
  by (simp_all add: lock_state_defs said_def)

lemma fed_said: "fed r (said n out s) = said n out (fed r s)" "fed r (s\<lparr>proc := ps\<rparr>) = (fed r s)\<lparr>proc := ps\<rparr>"
  by (simp_all add: fed_def said_def)

lemma all_woken_idem [simp]: "all_woken w c (all_woken w c ps) = all_woken w c ps"
  by (rule ext) (simp add: all_woken_def woken_def)

text \<open>
  The state after \<open>k\<close> rounds from \<open>s\<close>: \<open>k\<close> bytes written to the transmit register, the counter
  advanced, and the processes that wait for room woken.
\<close>

definition after_rounds :: "nat \<Rightarrow> nat \<Rightarrow> 'a consoles_scheme \<Rightarrow> 'a consoles_scheme" where
  "after_rounds k n s = (said n (mmio_out s @ map (\<lambda>c. (UART0 + THR, ucast c)) (take k (uart_items s)))
     (fed (uart_tx_r s + of_nat k) s))\<lparr>proc := if k = 0 then proc s else all_woken (me s) ChanUartTxR (proc s)\<rparr>"

lemma uart_reg_eq:
  "ReadReg reg s = Done (ucast (mmio_in s (mmio_count s) (UART0 + reg))) (said (Suc (mmio_count s)) (mmio_out s) s)"
  "WriteReg reg v s = Done () (said (mmio_count s) (mmio_out s @ [(UART0 + reg, ucast v)]) s)"
  by (simp_all add: ReadReg_def WriteReg_def mmio_read_def mmio_write_def km_simps said_def)

lemma procs_ready_uart_lock: "procs_ready s \<Longrightarrow> procs_ready (entered UartTxLock s)"
  by (simp add: procs_ready_def)

lemma uartstart_step_eq:
  assumes "procs_ready s"
  shows "uartstart_step () (entered UartTxLock s) =
    (if uart_tx_r s = uart_tx_w s then Done (Inr ()) (entered UartTxLock s)
     else if idle_at (mmio_count s) s
     then Done (Inl ()) (entered UartTxLock (after_rounds 1 (Suc (mmio_count s)) s))
     else Done (Inr ()) (entered UartTxLock (said (Suc (mmio_count s)) (mmio_out s) s)))"
proof (cases "uart_tx_r s = uart_tx_w s")
  case True
  then show ?thesis by (simp add: uartstart_step_def gets_def ret_def)
next
  case False
  let ?u = "said (Suc (mmio_count s)) (mmio_out s) (fed (uart_tx_r s + 1) s)"
  have ready: "procs_ready (entered UartTxLock ?u)" by (rule procs_ready_uart_lock) (simp add: assms)
  have ok: "cpu_ok s" using assms by (simp add: procs_ready_def)
  have fed: "t\<lparr>uart_tx_r := r\<rparr> = fed r t" for r and t :: "'a consoles_scheme" by (simp add: fed_def)
  have "take 1 (uart_items s) = [uart_tx_buf s (unat (uart_tx_r s mod UART_TX_BUF_SIZE))]"
    using ring_get [OF False, of UART_TX_BUF_SIZE "uart_tx_buf s"] by (simp add: uart_items_def)
  with False ok wakeup_eq [OF ready, of ChanUartTxR] show ?thesis
    by (simp add: uartstart_step_def gets_def ret_def modify_def uart_reg_eq idle_at_def fed fed_said
        after_rounds_def)
qed

lemma after_rounds_Suc:
  assumes "uart_tx_r s \<noteq> uart_tx_w s"
  shows "after_rounds k n (after_rounds 1 m s) = after_rounds (Suc k) n s"
    "uart_items (after_rounds 1 m s) = drop 1 (uart_items s)"
proof -
  have items: "uart_items s = uart_tx_buf s (unat (uart_tx_r s mod UART_TX_BUF_SIZE)) #
      ring UART_TX_BUF_SIZE (uart_tx_buf s) (uart_tx_r s + 1) (uart_tx_w s)"
    using ring_get [OF assms, of UART_TX_BUF_SIZE "uart_tx_buf s"] by (simp add: uart_items_def)
  then show rest: "uart_items (after_rounds 1 m s) = drop 1 (uart_items s)"
    by (simp add: uart_items_def after_rounds_def said_def fed_def)
  have "uart_items (fed (uart_tx_r s + 1) s) = drop 1 (uart_items s)"
    using items by (simp add: uart_items_def)
  with items rest show "after_rounds k n (after_rounds 1 m s) = after_rounds (Suc k) n s"
    by (simp add: after_rounds_def said_def fed_def add_ac me_def)
qed

lemma after_rounds_0: "after_rounds 0 n s = said n (mmio_out s) s"
  by (simp add: after_rounds_def said_def)

lemma after_rounds_simps [simp]:
  "procs_ready (after_rounds k n s) = procs_ready s" "mmio_count (after_rounds k n s) = n"
  "idle_at j (after_rounds k n s) = idle_at j s" "uart_tx_w (after_rounds k n s) = uart_tx_w s"
  "cpu_ok (after_rounds k n s) = cpu_ok s" "lock_free lk (after_rounds k n s) = lock_free lk s"
  by (simp_all add: after_rounds_def idle_at_def)

lemma uart_items_Nil: "uart_items s = [] \<longleftrightarrow> uart_tx_r s = uart_tx_w s"
  by (simp add: uart_items_def)

lemma uartstart_eq:
  assumes "procs_ready s"
  shows "\<exists>k n. uartstart (entered UartTxLock s) = Done () (entered UartTxLock (after_rounds k n s))
    \<and> k \<le> length (uart_items s) \<and> (\<forall>i<k. idle_at (mmio_count s + i) s)
    \<and> (k < length (uart_items s) \<longrightarrow> \<not> idle_at (mmio_count s + k) s)"
  using assms
proof (induction "length (uart_items s)" arbitrary: s)
  case 0
  then have "uart_tx_r s = uart_tx_w s" using uart_items_Nil [of s] by simp
  with 0 have "uartstart (entered UartTxLock s) = Done () (entered UartTxLock (after_rounds 0 (mmio_count s) s))"
    unfolding uartstart_def by (subst loop_unfold) (simp add: uartstart_step_eq after_rounds_0)
  then show ?case by (intro exI [of _ 0] exI [of _ "mmio_count s"]) (simp add: 0(1) [symmetric])
next
  case (Suc m)
  then have ne: "uart_tx_r s \<noteq> uart_tx_w s" using uart_items_Nil [of s] by auto
  show ?case
  proof (cases "idle_at (mmio_count s) s")
    case False
    then have "uartstart (entered UartTxLock s) =
        Done () (entered UartTxLock (after_rounds 0 (Suc (mmio_count s)) s))"
      unfolding uartstart_def by (subst loop_unfold) (simp add: uartstart_step_eq Suc(3) ne after_rounds_0)
    with False show ?thesis by (intro exI [of _ 0] exI [of _ "Suc (mmio_count s)"]) simp
  next
    case True
    let ?s = "after_rounds 1 (Suc (mmio_count s)) s"
    have len: "m = length (uart_items ?s)" using Suc(2) after_rounds_Suc(2) [OF ne] by simp
    have "procs_ready ?s" using Suc(3) by simp
    from Suc(1) [OF len this] obtain k n where
      r: "uartstart (entered UartTxLock ?s) = Done () (entered UartTxLock (after_rounds k n ?s))"
        "k \<le> length (uart_items ?s)" "\<forall>i<k. idle_at (Suc (mmio_count s) + i) s"
        "k < length (uart_items ?s) \<longrightarrow> \<not> idle_at (Suc (mmio_count s) + k) s" by auto
    have "uartstart (entered UartTxLock s) = uartstart (entered UartTxLock ?s)"
      unfolding uartstart_def by (subst loop_unfold) (simp add: uartstart_step_eq Suc(3) ne True)
    moreover have "idle_at (mmio_count s + i) s" if "i < Suc k" for i
      using that True r(3) by (cases i) auto
    ultimately show ?thesis
      using r(1,2,4) len Suc(2) after_rounds_Suc(1) [OF ne]
      by (intro exI [of _ "Suc k"] exI [of _ n]) auto
  qed
qed

lemma uart_items_after:
  assumes "k \<le> length (uart_items s)"
  shows "uart_items (after_rounds k n s) = drop k (uart_items s)"
  using assms
proof (induction k arbitrary: s)
  case 0
  then show ?case by (simp add: after_rounds_0 uart_items_def)
next
  case (Suc k)
  then have ne: "uart_tx_r s \<noteq> uart_tx_w s" using uart_items_Nil [of s] by auto
  have "uart_items (after_rounds k n (after_rounds 1 n s)) = drop k (uart_items (after_rounds 1 n s))"
    by (rule Suc.IH) (use Suc(2) after_rounds_Suc(2) [OF ne] in simp)
  then show ?case using after_rounds_Suc [OF ne] by simp
qed

lemma uart_enqueue_eq:
  assumes "length (uart_items s) < 32"
  shows "\<exists>t. uart_enqueue c (entered lk s) = Done () (entered lk t) \<and> uart_items t = uart_items s @ [word_of_int c]
    \<and> procs_ready t = procs_ready s \<and> mmio_out t = mmio_out s \<and> mmio_count t = mmio_count s
    \<and> (\<forall>k. idle_at k t = idle_at k s) \<and> (\<forall>lk. lock_free lk t = lock_free lk s)"
proof -
  let ?t = "s\<lparr>uart_tx_buf := (uart_tx_buf s)(unat (uart_tx_w s mod UART_TX_BUF_SIZE) := word_of_int c),
     uart_tx_w := uart_tx_w s + 1\<rparr>"
  have "unat (32 :: addr) dvd 2 ^ LENGTH(64)" "unat (uart_tx_w s - uart_tx_r s) < unat (32 :: addr)"
    using assms by (simp_all add: uart_items_def)
  from ring_put [OF this] have "uart_items ?t = uart_items s @ [word_of_int c]" by (simp add: uart_items_def)
  moreover have "uart_enqueue c (entered lk s) = Done () (entered lk ?t)"
    by (simp add: uart_enqueue_def modify_def lock_state_defs)
  ultimately show ?thesis
    by (intro exI [of _ ?t]) (simp add: procs_ready_def lock_state_defs idle_at_def)
qed

text \<open>
  C27. \<open>uartputc\<close> with room in the buffer returns whatever the device does, after at most one round
  per queued byte: the queue and the new byte are sent in order until the transmitter is busy or the
  queue is empty, and what was not sent stays queued in order.
\<close>

theorem uartputc_sends_in_order:
  assumes "procs_ready s" "lock_free UartTxLock s" "\<not> panicked s" "length (uart_items s) < 32"
  shows "\<exists>k t. uartputc env c s = Done () t \<and> k \<le> Suc (length (uart_items s))
    \<and> mmio_out t = mmio_out s @ map (\<lambda>b. (UART0 + THR, ucast b)) (take k (uart_items s @ [word_of_int c]))
    \<and> uart_items t = drop k (uart_items s @ [word_of_int c])
    \<and> (\<forall>i<k. idle_at (mmio_count s + i) s)
    \<and> (k < Suc (length (uart_items s)) \<longrightarrow> \<not> idle_at (mmio_count s + k) s)
    \<and> lock_free UartTxLock t"
proof -
  have ok: "cpu_ok s" using assms(1) by (simp add: procs_ready_def)
  have full: "uart_tx_w s \<noteq> uart_tx_r s + UART_TX_BUF_SIZE"
    using assms(4) ring_full [of "uart_tx_w s" "uart_tx_r s" UART_TX_BUF_SIZE] by (simp add: uart_items_def)
  obtain u where u: "uart_enqueue c (entered UartTxLock s) = Done () (entered UartTxLock u)"
    "uart_items u = uart_items s @ [word_of_int c]" "procs_ready u" "mmio_out u = mmio_out s"
    "mmio_count u = mmio_count s" "\<And>k. idle_at k u = idle_at k s" "lock_free UartTxLock u"
    using uart_enqueue_eq [OF assms(4), of c UartTxLock] assms(1,2) by auto
  from uartstart_eq [OF u(3)] obtain k n where
    r: "uartstart (entered UartTxLock u) = Done () (entered UartTxLock (after_rounds k n u))"
      "k \<le> length (uart_items u)" "\<forall>i<k. idle_at (mmio_count u + i) u"
      "k < length (uart_items u) \<longrightarrow> \<not> idle_at (mmio_count u + k) u" by blast
  have "cpu_ok u" using u(3) by (simp add: procs_ready_def)
  with u(1,7) r(1) full ok assms(2,3) have "uartputc env c s = Done () (quiet (after_rounds k n u))"
    unfolding uartputc_def
    by (simp add: gets_def) (subst loop_unfold, simp add: gets_def ret_def)
  moreover have "mmio_out (after_rounds k n u) = mmio_out s @ map (\<lambda>b. (UART0 + THR, ucast b)) (take k (uart_items u))"
    by (simp add: after_rounds_def u(4) said_def)
  moreover have "uart_items (quiet (after_rounds k n u)) = drop k (uart_items u)"
    using uart_items_after [OF r(2), of n] by (simp add: uart_items_def)
  ultimately show ?thesis using r u by (intro exI [of _ k] exI [of _ "quiet (after_rounds k n u)"]) auto
qed

theorem uartputc_sends_in_order_witness:
  "\<exists>t. uartputc (\<lambda>s. s) 65 boot_files = Done () t \<and> mmio_out t = [] \<and> uart_items t = [65]"
proof -
  have "procs_ready boot_files" by (simp add: procs_ready_def)
  moreover have "uart_items boot_files = []" by (simp add: uart_items_def)
  moreover have "mmio_out boot_files = []" "\<not> idle_at i boot_files" for i
    by (simp_all add: boot_files_def idle_at_def)
  ultimately obtain k t where t: "uartputc (\<lambda>s. s) 65 boot_files = Done () t" "\<And>i. \<not> i < k"
    "mmio_out t = map (\<lambda>b. (UART0 + THR, ucast b)) (take k [65 :: byte])" "uart_items t = drop k [65]"
    using uartputc_sends_in_order [of boot_files "\<lambda>s. s" 65] by auto
  from t(2) [of 0] have "k = 0" by simp
  with t show ?thesis by simp
qed

end
