(* ===== verification/Xv6_Wakeup.thy ===== *)
theory Xv6_Wakeup
  imports Xv6_Sched
begin

text \<open>
  No wakeup is lost (kernel/proc.c, \<open>sleep\<close> and \<open>wakeup\<close>). A process waits for a condition in the
  usual way, testing it under a lock and sleeping on a channel; on another hart the condition is
  set under the same lock and the channel is woken. The steps of the two are the statements of the
  lists \<open>sleep_enter\<close> and \<open>sleep_leave\<close>, of which \<open>sleep\<close> consists, the parts of the scheduler, and the
  visits \<open>wakeup_visits\<close> of which \<open>wakeup\<close> consists; they are interleaved arbitrarily.
\<close>

section \<open>Locking on one hart among others\<close>

text \<open>
  \<open>hart_ok n j s\<close>: hart \<open>j\<close> is inside \<open>n\<close> critical sections. \<open>lock_is lk o s\<close>: the lock is free or
  held by a hart. \<open>hart_eff h s t\<close>: only registers of hart \<open>h\<close> and locks differ.
\<close>

definition hart_ok :: "int \<Rightarrow> nat \<Rightarrow> 'a machine_scheme \<Rightarrow> bool" where
  "hart_ok n j s \<longleftrightarrow> c_noff (cpus s j) = n \<and> (0 < n \<longrightarrow> \<not> intr_get (on_hart j s))"

definition lock_is :: "lockid \<Rightarrow> nat option \<Rightarrow> 'a machine_scheme \<Rightarrow> bool" where
  "lock_is lk x s \<longleftrightarrow> (sl_locked (locks s lk) \<noteq> 0) = (x \<noteq> None) \<and> sl_cpu (locks s lk) = x"

definition hart_eff :: "nat \<Rightarrow> 'a procs_scheme \<Rightarrow> 'a procs_scheme \<Rightarrow> bool" where
  "hart_eff h s t \<longleftrightarrow> (\<forall>j. j \<noteq> h \<longrightarrow> cpus t j = cpus s j \<and> csrs t j = csrs s j)
     \<and> (\<forall>j. c_proc (cpus t j) = c_proc (cpus s j)) \<and> proc t = proc s"

lemma lock_is_free: "lock_is lk None s = lock_free lk s"
  by (auto simp: lock_is_def lock_free_def)

lemma lock_is_locks: "locks t lk = locks s lk \<Longrightarrow> lock_is lk x t = lock_is lk x s"
  by (simp add: lock_is_def)

lemma hart_ok_cong:
  "cpus t j = cpus s j \<Longrightarrow> csrs t j = csrs s j \<Longrightarrow> hart_ok n j t = hart_ok n j s"
  by (simp add: hart_ok_def intr_get_def on_hart_def r_sstatus_def r_csr_def)

lemma hart_ok_other: "hart_eff h s t \<Longrightarrow> j \<noteq> h \<Longrightarrow> hart_ok n j t = hart_ok n j s"
  by (rule hart_ok_cong) (simp_all add: hart_eff_def)

lemma acquire_Done:
  assumes "acquire lk s = Done () t"
  shows "sl_locked (locks s lk) = 0" "t = entered lk s"
proof -
  have h: "holding lk (pushed s) = holding lk s" by (simp add: holding_def mycpu_def cpuid_def)
  show free: "sl_locked (locks s lk) = 0"
  proof (rule ccontr)
    assume "sl_locked (locks s lk) \<noteq> 0"
    with assms show False
      by (auto simp: acquire_def acquire_enter_def push_off_eq h km_simps acquire_spin_held split: if_splits)
  qed
  with assms h show "t = entered lk s"
    by (auto simp: acquire_def acquire_enter_def push_off_eq km_simps acquire_spin_free acquire_record_def
        mycpu_def cpuid_def lock_update_def entered_def holding_def split: if_splits)
qed

lemma acquire_hart:
  assumes "acquire lk (on_hart h s) = Done () t" "hart_ok n h s" "0 \<le> n" "lock_is lk x s"
  shows "x = None" "hart_eff h s t" "hart_ok (n + 1) h t" "lock_is lk (Some h) t"
    "\<And>l. l \<noteq> lk \<Longrightarrow> locks t l = locks s l"
proof -
  note a = acquire_Done [OF assms(1)]
  show "x = None" using a(1) assms(4) by (simp add: lock_is_def on_hart_def)
  have tp: "on_hart h t = t" by (simp add: a(2) on_hart_def)
  show "hart_eff h s t" "lock_is lk (Some h) t" "\<And>l. l \<noteq> lk \<Longrightarrow> locks t l = locks s l"
    by (simp_all add: a(2) hart_eff_def lock_is_def on_hart_def entered_def pushed_def saved_intena_def Let_def)
  have "c_noff (cpus t h) = n + 1"
    using assms(2) noff_pushed(1) [of "on_hart h s"] by (simp add: a(2) hart_ok_def on_hart_def)
  then show "hart_ok (n + 1) h t" unfolding hart_ok_def tp by (simp add: a(2))
qed

lemma acquire_enabled: "lock_is lk None s \<Longrightarrow> \<exists>t. acquire lk (on_hart h s) = Done () t"
  using acquire_eq [of lk "on_hart h s"] by (simp add: lock_is_free lock_free_def)

lemma release_hart:
  assumes "lock_is lk (Some h) s" "hart_ok n h s" "1 \<le> n"
  shows "\<exists>t. release lk (on_hart h s) = Done () t \<and> hart_eff h s t \<and> hart_ok (n - 1) h t
    \<and> lock_is lk None t \<and> (\<forall>l. l \<noteq> lk \<longrightarrow> locks t l = locks s l)"
proof -
  let ?s = "on_hart h s"
  have i: "\<not> intr_get (s\<lparr>tp := h, locks := l\<rparr>)" for l
    using assms(2,3) by (simp add: hart_ok_def intr_get_def on_hart_def r_sstatus_def r_csr_def)
  have n: "c_noff (cpus s h) = n" "1 \<le> c_noff (cpus s h)" using assms(2,3) by (auto simp: hart_ok_def)
  define c where "c = (cpus s h)\<lparr>c_noff := n - 1\<rparr>"
  define u where "u = s\<lparr>tp := h, locks := (locks s)(lk := (locks s lk)\<lparr>sl_cpu := None, sl_locked := 0\<rparr>),
     cpus := (cpus s)(h := c)\<rparr>"
  define t where "t = (if n = 1 \<and> c_intena c
     then u\<lparr>csrs := (csrs s)(h := (csrs s h)(Sstatus := csrs s h Sstatus OR SSTATUS_SIE))\<rparr> else u)"
  have "release lk ?s = Done () t"
    using assms(1) n i
    by (auto simp: release_def spinlock_defs km_simps holding_def on_hart_def lock_is_def t_def u_def c_def
        r_sstatus_def r_csr_def)
  moreover have "hart_eff h s t \<and> lock_is lk None t \<and> (\<forall>l. l \<noteq> lk \<longrightarrow> locks t l = locks s l)"
    by (simp add: t_def u_def c_def hart_eff_def lock_is_def)
  moreover have "hart_ok (n - 1) h t"
    using i n by (auto simp: hart_ok_def t_def u_def c_def intr_get_def on_hart_def r_sstatus_def r_csr_def)
  ultimately show ?thesis by blast
qed

lemma hart_ok_cpu_ok: "hart_ok n h s \<Longrightarrow> 0 \<le> n \<Longrightarrow> cpu_ok (on_hart h s)"
  by (auto simp: hart_ok_def cpu_ok_def on_hart_def)

lemma quiet_hart:
  "hart_eff h s (quiet (on_hart h s))" "hart_ok n h (quiet (on_hart h s)) = hart_ok n h s"
  "locks (quiet (on_hart h s)) = locks s"
  by (simp_all add: hart_eff_def hart_ok_def quiet_def on_hart_def saved_intena_def Let_def intr_get_def
      r_sstatus_def r_csr_def)

text \<open>Visiting one entry of the table in \<open>wakeup\<close>.\<close>

lemma on_hart_proc: "on_hart h (s\<lparr>proc := ps\<rparr>) = (on_hart h s)\<lparr>proc := ps\<rparr>"
  by (simp add: on_hart_def)

lemma wakeup_one_enabled:
  assumes "hart_ok n h s" "0 \<le> n" "c_proc (cpus s h) = Some w" "i \<noteq> w \<Longrightarrow> lock_is (ProcLock i) None s"
  shows "wakeup_one c i (on_hart h s) =
    Done () (quiet (on_hart h (s\<lparr>proc := (proc s)(i := woken (Some w) c i (proc s i))\<rparr>)))"
proof -
  have me: "me (on_hart h s) = Some w" using assms(3) by (simp add: me_def on_hart_def)
  have "lock_free (ProcLock i) (on_hart h s)" if "i \<noteq> w"
    using assms(4) [OF that] by (simp add: lock_is_free lock_free_def)
  then have "wakeup_one c i (on_hart h s) = Done () (quiet ((on_hart h s)\<lparr>proc :=
      (proc (on_hart h s))(i := woken (me (on_hart h s)) c i (proc (on_hart h s) i))\<rparr>))"
    using me by (intro wakeup_one_at [OF hart_ok_cpu_ok [OF assms(1,2)]]) auto
  then show ?thesis by (simp add: me on_hart_proc) (simp add: on_hart_def)
qed

lemma wakeup_one_Done:
  assumes "wakeup_one c i (on_hart h s) = Done () t" "hart_ok n h s" "0 \<le> n"
    "c_proc (cpus s h) = Some w" "i \<noteq> w" "lock_is (ProcLock i) x s"
  shows "x = None"
proof -
  have "myproc (on_hart h s) = Done (Some w) (quiet (on_hart h s))"
    using myproc_eq [OF hart_ok_cpu_ok [OF assms(2,3)]] assms(4) by (simp add: on_hart_def)
  with assms(1,5) obtain u where "acquire (ProcLock i) (quiet (on_hart h s)) = Done () u"
    by (auto simp: wakeup_one_def only_if_def bind_eq_Done)
  from acquire_Done(1) [OF this] assms(6) show ?thesis by (simp add: lock_is_def on_hart_def)
qed

text \<open>Leaving the CPU for the scheduler of the hart, which goes on behind its switch.\<close>

definition switch_out :: "nat \<Rightarrow> ('a procs_scheme, bool) km" where
  "switch_out p = bind sched_enter (\<lambda>i. bind (scheduler_rest True p) (\<lambda>_. ret i))"

lemma on_cpu_hart:
  "on_hart h (on_cpu x (on_hart h s)) = on_cpu x (on_hart h s)"
  "hart_ok n h (on_cpu x (on_hart h s)) = hart_ok n h s" "locks (on_cpu x (on_hart h s)) = locks s"
  "cpus (on_cpu x (on_hart h s)) j = (if j = h then (cpus s h)\<lparr>c_proc := x\<rparr> else cpus s j)"
  "csrs (on_cpu x (on_hart h s)) = csrs s"
  by (simp_all add: on_hart_def on_cpu_def hart_ok_def intr_get_def r_sstatus_def r_csr_def)

lemma proc_on_hart [simp]: "proc (on_hart h s) = proc s"
  by (simp add: on_hart_def)

lemma switch_out_hart:
  assumes "c_proc (cpus s h) = Some p" "lock_is (ProcLock p) (Some h) s" "hart_ok 1 h s"
    "p_state (proc s p) \<noteq> RUNNING"
  shows "\<exists>t i. switch_out p (on_hart h s) = Done i t \<and> hart_eff h (on_cpu None (on_hart h s)) t
    \<and> hart_ok 0 h t \<and> lock_is (ProcLock p) None t \<and> (\<forall>l. l \<noteq> ProcLock p \<longrightarrow> locks t l = locks s l)"
proof -
  let ?u = "on_hart h s"
  have ok: "cpu_ok ?u" using hart_ok_cpu_ok [OF assms(3)] by simp
  have n: "c_noff (cpus ?u (tp ?u)) = 1" "\<not> intr_get ?u" using assms(3) by (auto simp: hart_ok_def on_hart_def)
  have q: "quiet ?u = ?u" by (rule quiet_nested [OF ok]) (use n in simp)
  have "holding (ProcLock p) ?u" using assms(2) by (simp add: holding_def lock_is_def on_hart_def mycpu_def cpuid_def)
  then have enter: "sched_enter ?u = Done (c_intena (cpus s h)) ?u"
    using ok n q assms(1,4)
    by (simp add: sched_enter_def deref_def km_simps mycpu_def cpuid_def)
  have "lock_is (ProcLock p) (Some h) (on_cpu None ?u)" "hart_ok 1 h (on_cpu None ?u)"
    using assms(2,3) by (simp_all add: on_cpu_hart lock_is_def)
  from release_hart [OF this] show ?thesis
    by (auto simp: switch_out_def scheduler_rest_def only_if_def enter scheduler_back_def cpu_update_proc on_cpu_hart ret_def)
qed

lemma pick_hart:
  assumes "scheduler_pick p (on_hart j s) = Done True t" "hart_ok 0 j s" "lock_is (ProcLock p) x s"
  shows "x = None" "p_state (proc s p) = RUNNABLE"
    "hart_eff j (on_cpu (Some p) (on_hart j (s\<lparr>proc := (proc s)(p := (proc s p)\<lparr>p_state := RUNNING\<rparr>)\<rparr>))) t"
    "hart_ok 1 j t" "lock_is (ProcLock p) (Some j) t" "\<And>l. l \<noteq> ProcLock p \<Longrightarrow> locks t l = locks s l"
proof -
  from assms(1) obtain u where u: "acquire (ProcLock p) (on_hart j s) = Done () u"
    and rest: "p_state (proc u p) = RUNNABLE"
      "t = on_cpu (Some p) (u\<lparr>proc := (proc u)(p := (proc u p)\<lparr>p_state := RUNNING\<rparr>)\<rparr>)"
    by (auto simp: scheduler_pick_def bind_eq_Done gets_def upd_proc_def modify_def cpu_update_proc ret_def
        split: if_splits)
  note a = acquire_hart [OF u assms(2) _ assms(3)]
  have proc: "proc u = proc s" using a(2) by (simp add: hart_eff_def)
  have tp: "tp u = j" using acquire_Done(2) [OF u] by (simp add: on_hart_def)
  show "x = None" "p_state (proc s p) = RUNNABLE" using a(1) rest(1) proc by simp_all
  show "\<And>l. l \<noteq> ProcLock p \<Longrightarrow> locks t l = locks s l" "lock_is (ProcLock p) (Some j) t"
    using a(4,5) by (simp_all add: rest(2) on_cpu_def lock_is_def)
  show "hart_ok 1 j t" using a(3) tp
    by (simp add: rest(2) hart_ok_def on_cpu_def on_hart_def intr_get_def r_sstatus_def r_csr_def)
  show "hart_eff j (on_cpu (Some p) (on_hart j (s\<lparr>proc := (proc s)(p := (proc s p)\<lparr>p_state := RUNNING\<rparr>)\<rparr>))) t"
    using a(2) tp proc by (auto simp: rest(2) hart_eff_def on_cpu_def on_hart_def)
qed

lemma pick_enabled:
  "lock_is (ProcLock p) None s \<Longrightarrow> p_state (proc s p) = RUNNABLE \<Longrightarrow>
   \<exists>t. scheduler_pick p (on_hart j s) = Done True t"
  using scheduler_pick_eq [of p "on_hart j s"] by (auto simp: lock_is_free lock_free_def)

lemma sched_leave_hart:
  assumes "lock_is (ProcLock p) (Some h) s" "hart_ok 1 h s"
  shows "\<exists>t. sched_leave i (on_hart h s) = Done () t \<and> hart_eff h s t \<and> hart_ok 1 h t \<and> locks t = locks s"
  using assms(2)
  by (simp add: sched_leave_def cpu_update_def km_simps mycpu_def cpuid_def hart_eff_def hart_ok_def on_hart_def
      intr_get_def r_sstatus_def r_csr_def)

lemma upd_proc_hart:
  assumes "upd_proc p f (on_hart h s) = Done () t" "hart_ok n h s"
  shows "hart_eff h (s\<lparr>proc := (proc s)(p := f (proc s p))\<rparr>) t" "hart_ok n h t" "locks t = locks s"
  using assms
  by (auto simp: upd_proc_def modify_def hart_eff_def hart_ok_def on_hart_def intr_get_def r_sstatus_def r_csr_def)

section \<open>The race\<close>

text \<open>
  Where the sleeper and the waker are. \<open>S_enter i\<close> and \<open>S_leave i\<close>: in \<open>sleep\<close>, before the statement
  with this number. \<open>S_off\<close> is a sleeper that is on no CPU, \<open>S_back\<close> one that the scheduler has
  chosen; both carry the interrupt flag that \<open>sched\<close> saved.
\<close>

datatype spc = S_lock | S_test | S_enter nat | S_off bool | S_back bool | S_leave nat | S_done

datatype wpc = W_lock | W_set | W_scan nat | W_unlock | W_done

type_synonym 'a race = "'a procs_scheme \<times> bool \<times> spc \<times> nat \<times> wpc"

text \<open>
  One step: process \<open>p\<close> on hart \<open>h\<close> runs \<open>acquire(lk); while(!cond) sleep(c, lk)\<close>, hart \<open>k\<close> runs
  \<open>acquire(lk); cond = 1; wakeup(c); release(lk)\<close>. A hart that spins on a lock takes no step.
\<close>

inductive race_step :: "nat \<Rightarrow> chan \<Rightarrow> lockid \<Rightarrow> nat \<Rightarrow> 'a race \<Rightarrow> 'a race \<Rightarrow> bool"
  for p c lk k where
  s_lock: "acquire lk (on_hart h s) = Done () t \<Longrightarrow> race_step p c lk k (s, b, S_lock, h, w) (t, b, S_test, h, w)"
| s_test: "race_step p c lk k (s, b, S_test, h, w) (s, b, if b then S_done else S_enter 0, h, w)"
| s_enter: "i < length (sleep_enter c lk p :: ('a procs_scheme, unit) km list) \<Longrightarrow>
    (sleep_enter c lk p ! i) (on_hart h s) = Done () t \<Longrightarrow>
    race_step p c lk k (s, b, S_enter i, h, w) (t, b, S_enter (Suc i), h, w)"
| s_switch: "i = length (sleep_enter c lk p :: ('a procs_scheme, unit) km list) \<Longrightarrow>
    switch_out p (on_hart h s) = Done x t \<Longrightarrow>
    race_step p c lk k (s, b, S_enter i, h, w) (t, b, S_off x, h, w)"
| s_pick: "c_proc (cpus s j) = None \<Longrightarrow> scheduler_pick p (on_hart j s) = Done True t \<Longrightarrow>
    race_step p c lk k (s, b, S_off x, h, w) (t, b, S_back x, j, w)"
| s_back: "sched_leave x (on_hart h s) = Done () t \<Longrightarrow>
    race_step p c lk k (s, b, S_back x, h, w) (t, b, S_leave 0, h, w)"
| s_leave: "i < length (sleep_leave lk p :: ('a procs_scheme, unit) km list) \<Longrightarrow>
    (sleep_leave lk p ! i) (on_hart h s) = Done () t \<Longrightarrow>
    race_step p c lk k (s, b, S_leave i, h, w) (t, b, S_leave (Suc i), h, w)"
| s_return: "i = length (sleep_leave lk p :: ('a procs_scheme, unit) km list) \<Longrightarrow>
    race_step p c lk k (s, b, S_leave i, h, w) (s, b, S_test, h, w)"
| w_lock: "acquire lk (on_hart k s) = Done () t \<Longrightarrow> race_step p c lk k (s, b, sp, h, W_lock) (t, b, sp, h, W_set)"
| w_set: "race_step p c lk k (s, b, sp, h, W_set) (s, True, sp, h, W_scan 0)"
| w_scan: "i < length (wakeup_visits c :: ('a procs_scheme, unit) km list) \<Longrightarrow>
    (wakeup_visits c ! i) (on_hart k s) = Done () t \<Longrightarrow>
    race_step p c lk k (s, b, sp, h, W_scan i) (t, b, sp, h, W_scan (Suc i))"
| w_end: "i = length (wakeup_visits c :: ('a procs_scheme, unit) km list) \<Longrightarrow>
    race_step p c lk k (s, b, sp, h, W_scan i) (s, b, sp, h, W_unlock)"
| w_unlock: "release lk (on_hart k s) = Done () t \<Longrightarrow>
    race_step p c lk k (s, b, sp, h, W_unlock) (t, b, sp, h, W_done)"

lemma visits_simps [simp]:
  "length (wakeup_visits c) = NPROC" "i < NPROC \<Longrightarrow> wakeup_visits c ! i = wakeup_one c i"
  by (simp_all add: wakeup_visits_def)

lemma enter_simps [simp]:
  "length (sleep_enter c lk p) = 4"
  "sleep_enter c lk p ! 0 = acquire (ProcLock p)" "sleep_enter c lk p ! Suc 0 = release lk"
  "sleep_enter c lk p ! 2 = upd_proc p (\<lambda>q. q\<lparr>p_chan := c\<rparr>)"
  "sleep_enter c lk p ! 3 = upd_proc p (\<lambda>q. q\<lparr>p_state := SLEEPING\<rparr>)"
  by (simp_all add: sleep_enter_def)

lemma leave_simps [simp]:
  "length (sleep_leave lk p) = 3"
  "sleep_leave lk p ! 0 = upd_proc p (\<lambda>q. q\<lparr>p_chan := NoChan\<rparr>)"
  "sleep_leave lk p ! Suc 0 = release (ProcLock p)" "sleep_leave lk p ! 2 = acquire lk"
  by (simp_all add: sleep_leave_def)

lemma less_4_cases: "i < 4 \<Longrightarrow> i = 0 \<or> i = Suc 0 \<or> i = 2 \<or> i = (3 :: nat)"
  by linarith

lemma less_3_cases: "i < 3 \<Longrightarrow> i = 0 \<or> i = Suc 0 \<or> i = (2 :: nat)"
  by linarith

text \<open>What each place means: the locks held, the nesting depth, and whether the condition is set.\<close>

fun s_has_lk :: "spc \<Rightarrow> bool" where
  "s_has_lk S_test = True" | "s_has_lk (S_enter i) = (i \<le> 1)" | "s_has_lk (S_leave i) = (3 \<le> i)"
| "s_has_lk S_done = True" | "s_has_lk _ = False"

fun s_has_p :: "spc \<Rightarrow> bool" where
  "s_has_p (S_enter i) = (1 \<le> i)" | "s_has_p (S_back _) = True" | "s_has_p (S_leave i) = (i \<le> 1)"
| "s_has_p _ = False"

fun s_off :: "spc \<Rightarrow> bool" where
  "s_off (S_off _) = True" | "s_off _ = False"

definition s_depth :: "spc \<Rightarrow> int" where
  "s_depth sp = of_bool (s_has_lk sp) + of_bool (s_has_p sp)"

fun w_has_lk :: "wpc \<Rightarrow> bool" where
  "w_has_lk w = (w \<noteq> W_lock \<and> w \<noteq> W_done)"

fun w_has_set :: "wpc \<Rightarrow> bool" where
  "w_has_set w = (w \<noteq> W_lock \<and> w \<noteq> W_set)"

text \<open>The waker has not yet visited entry \<open>p\<close>.\<close>

fun early :: "nat \<Rightarrow> wpc \<Rightarrow> bool" where
  "early p (W_scan i) = (i \<le> p)" | "early p w = (w = W_lock \<or> w = W_set)"

definition holder :: "spc \<Rightarrow> nat \<Rightarrow> wpc \<Rightarrow> nat \<Rightarrow> nat option" where
  "holder sp h w k = (if s_has_lk sp then Some h else if w_has_lk w then Some k else None)"

text \<open>The state of the process, at each place of the sleeper.\<close>

definition sleeper_ok :: "nat \<Rightarrow> chan \<Rightarrow> proc \<Rightarrow> bool \<Rightarrow> spc \<Rightarrow> wpc \<Rightarrow> bool" where
  "sleeper_ok p c q b sp w = (case sp of
     S_enter i \<Rightarrow> i \<le> 4 \<and> p_state q = (if i = 4 then SLEEPING else RUNNING)
       \<and> (if i \<le> 1 then \<not> b else early p w) \<and> (3 \<le> i \<longrightarrow> p_chan q = c)
   | S_off _ \<Rightarrow> p_state q = SLEEPING \<and> p_chan q = c \<and> early p w \<or> p_state q = RUNNABLE \<and> b
   | S_back _ \<Rightarrow> p_state q = RUNNING \<and> b
   | S_leave i \<Rightarrow> i \<le> 3 \<and> p_state q = RUNNING \<and> b
   | S_done \<Rightarrow> p_state q = RUNNING \<and> b
   | _ \<Rightarrow> p_state q = RUNNING)"

definition race_inv :: "nat \<Rightarrow> chan \<Rightarrow> lockid \<Rightarrow> nat \<Rightarrow> 'a race \<Rightarrow> bool" where
  "race_inv p c lk k = (\<lambda>(s, b, sp, h, w).
     (\<exists>x. c_proc (cpus s k) = Some x \<and> x \<noteq> p) \<and> hart_ok (of_bool (w_has_lk w)) k s
   \<and> (\<forall>j. c_proc (cpus s j) = None \<longrightarrow> hart_ok 0 j s)
   \<and> (if s_off sp then \<exists>j. c_proc (cpus s j) = None
      else c_proc (cpus s h) = Some p \<and> hart_ok (s_depth sp) h s)
   \<and> (\<forall>i. i \<noteq> p \<longrightarrow> lock_is (ProcLock i) None s)
   \<and> lock_is (ProcLock p) (if s_has_p sp then Some h else None) s
   \<and> \<not> (s_has_lk sp \<and> w_has_lk w) \<and> lock_is lk (holder sp h w k) s
   \<and> b = w_has_set w \<and> sleeper_ok p c (proc s p) b sp w)"

definition race_start :: "nat \<Rightarrow> lockid \<Rightarrow> nat \<Rightarrow> 'a race \<Rightarrow> bool" where
  "race_start p lk k = (\<lambda>(s, b, sp, h, w). b = False \<and> sp = S_lock \<and> w = W_lock
   \<and> c_proc (cpus s h) = Some p \<and> p_state (proc s p) = RUNNING \<and> hart_ok 0 h s
   \<and> (\<exists>x. c_proc (cpus s k) = Some x \<and> x \<noteq> p) \<and> hart_ok 0 k s
   \<and> (\<forall>j. c_proc (cpus s j) = None \<longrightarrow> hart_ok 0 j s)
   \<and> (\<forall>i. lock_free (ProcLock i) s) \<and> lock_free lk s)"

lemma race_start_inv: "race_start p lk k x \<Longrightarrow> race_inv p c lk k x"
  by (cases x) (simp add: race_start_def race_inv_def lock_is_free holder_def sleeper_ok_def s_depth_def)

section \<open>The invariant is kept\<close>

text \<open>A step of the sleeper on its hart, and a step of the waker.\<close>

lemma sleeper_move:
  assumes inv: "race_inv p c lk k (s, b, sp, h, w)" and off: "\<not> s_off sp" "\<not> s_off sp'"
    and eff: "hart_eff h (s\<lparr>proc := (proc s)(p := q)\<rparr>) t" "hart_ok (s_depth sp') h t"
    and locks: "lock_is (ProcLock p) (if s_has_p sp' then Some h else None) t"
      "\<And>i. i \<noteq> p \<Longrightarrow> locks t (ProcLock i) = locks s (ProcLock i)"
      "\<not> (s_has_lk sp' \<and> w_has_lk w)" "lock_is lk (holder sp' h w k) t"
    and ok: "sleeper_ok p c q b sp' w"
  shows "race_inv p c lk k (t, b, sp', h, w)"
proof -
  have c: "c_proc (cpus t j) = c_proc (cpus s j)" for j using eff(1) by (simp add: hart_eff_def)
  have hk: "h \<noteq> k" and ch: "c_proc (cpus s h) = Some p" using inv off(1) by (auto simp: race_inv_def)
  have o: "hart_ok n j t = hart_ok n j s" if "j \<noteq> h" for n j
    by (rule hart_ok_cong) (use eff(1) that in \<open>simp_all add: hart_eff_def\<close>)
  have "hart_ok 0 j t" if "c_proc (cpus t j) = None" for j
    using that ch inv o c by (cases "j = h") (auto simp: race_inv_def)
  moreover have "proc t p = q" using eff(1) by (simp add: hart_eff_def)
  moreover have "lock_is (ProcLock i) None t" if "i \<noteq> p" for i
    using that inv locks(2) by (simp add: race_inv_def lock_is_def)
  ultimately show ?thesis using inv off(2) eff(2) locks(1,3,4) ok c ch o hk
    by (simp add: race_inv_def)
qed

lemma waker_move:
  assumes inv: "race_inv p c lk k (s, b, sp, h, w)"
    and eff: "hart_eff k (s\<lparr>proc := ps\<rparr>) t" "hart_ok (of_bool (w_has_lk w')) k t"
    and locks: "\<And>i. locks t (ProcLock i) = locks s (ProcLock i)"
      "\<not> (s_has_lk sp \<and> w_has_lk w')" "lock_is lk (holder sp h w' k) t"
    and ok: "b' = w_has_set w'" "sleeper_ok p c (ps p) b' sp w'"
  shows "race_inv p c lk k (t, b', sp, h, w')"
proof -
  have c: "c_proc (cpus t j) = c_proc (cpus s j)" for j using eff(1) by (simp add: hart_eff_def)
  obtain x where ck: "c_proc (cpus s k) = Some x" "x \<noteq> p" using inv by (auto simp: race_inv_def)
  have o: "hart_ok n j t = hart_ok n j s" if "j \<noteq> k" for n j
    by (rule hart_ok_cong) (use eff(1) that in \<open>simp_all add: hart_eff_def\<close>)
  have "hart_ok 0 j t" if "c_proc (cpus t j) = None" for j
    using that ck inv o c by (cases "j = k") (auto simp: race_inv_def)
  moreover have "proc t = ps" using eff(1) by (simp add: hart_eff_def)
  moreover have "hart_ok (s_depth sp) h t" if "\<not> s_off sp"
  proof -
    have "h \<noteq> k" using that inv by (auto simp: race_inv_def)
    with o that inv show ?thesis by (simp add: race_inv_def)
  qed
  moreover have "lock_is (ProcLock i) y t = lock_is (ProcLock i) y s" for i y
    using locks(1) by (simp add: lock_is_def)
  ultimately show ?thesis using inv eff(2) locks(2,3) ok c ck by (simp add: race_inv_def)
qed

lemma proc_triv: "s\<lparr>proc := (proc s)(p := proc s p)\<rparr> = s" "s\<lparr>proc := proc s\<rparr> = s"
  by simp_all

lemma inv_switch:
  assumes inv: "race_inv p c lk k (s, b, S_enter 4, h, w)" and run: "switch_out p (on_hart h s) = Done i t"
    and lk: "\<And>i. lk \<noteq> ProcLock i"
  shows "race_inv p c lk k (t, b, S_off i, h, w)"
proof -
  have d: "c_proc (cpus s h) = Some p" "lock_is (ProcLock p) (Some h) s" "hart_ok 1 h s"
    "p_state (proc s p) \<noteq> RUNNING" using inv by (auto simp: race_inv_def s_depth_def sleeper_ok_def)
  from switch_out_hart [OF d] run have t: "hart_eff h (on_cpu None (on_hart h s)) t" "hart_ok 0 h t"
    "lock_is (ProcLock p) None t" "\<And>l. l \<noteq> ProcLock p \<Longrightarrow> locks t l = locks s l" by auto
  have c: "c_proc (cpus t j) = (if j = h then None else c_proc (cpus s j))" and pr: "proc t = proc s" for j
    using t(1) by (auto simp: hart_eff_def on_cpu_hart)
  have hk: "h \<noteq> k" using inv d(1) by (auto simp: race_inv_def)
  have o: "hart_ok n j t = hart_ok n j s" if "j \<noteq> h" for n j
    by (rule hart_ok_cong) (use t(1) that in \<open>simp_all add: hart_eff_def on_cpu_hart\<close>)
  have "hart_ok 0 j t" if "c_proc (cpus t j) = None" for j
    using that t(2) o c inv by (cases "j = h") (auto simp: race_inv_def)
  moreover have "lock_is (ProcLock i) None t" if "i \<noteq> p" for i
    using that inv t(4) by (simp add: race_inv_def lock_is_def)
  moreover have "lock_is lk (holder (S_off i) h w k) t"
    using inv t(4) [of lk] lk by (simp add: race_inv_def lock_is_def holder_def)
  ultimately show ?thesis
    using inv t(3) c o hk pr by (auto simp: race_inv_def sleeper_ok_def)
qed

lemma inv_pick:
  assumes inv: "race_inv p c lk k (s, b, S_off i, h, w)" and j: "c_proc (cpus s j) = None"
    and run: "scheduler_pick p (on_hart j s) = Done True t" and lk: "\<And>i. lk \<noteq> ProcLock i"
  shows "race_inv p c lk k (t, b, S_back i, j, w)"
proof -
  have d: "hart_ok 0 j s" "lock_is (ProcLock p) None s" using inv j by (auto simp: race_inv_def)
  note t = pick_hart [OF run d]
  have c: "c_proc (cpus t i) = (if i = j then Some p else c_proc (cpus s i))"
    and pr: "proc t = (proc s)(p := (proc s p)\<lparr>p_state := RUNNING\<rparr>)" for i
    using t(3) by (auto simp: hart_eff_def on_cpu_hart)
  have jk: "j \<noteq> k" using inv j by (auto simp: race_inv_def)
  have o: "hart_ok n i t = hart_ok n i s" if "i \<noteq> j" for n i
    by (rule hart_ok_cong) (use t(3) that in \<open>simp_all add: hart_eff_def on_cpu_hart\<close>)
  have "hart_ok 0 i t" if "c_proc (cpus t i) = None" for i
    using that o c inv by (cases "i = j") (auto simp: race_inv_def)
  moreover have "lock_is (ProcLock i) None t" if "i \<noteq> p" for i
    using that inv t(6) by (simp add: race_inv_def lock_is_def)
  moreover have "lock_is lk (holder (S_back i) j w k) t"
    using inv t(6) [of lk] lk by (simp add: race_inv_def lock_is_def holder_def)
  ultimately show ?thesis
    using inv t(2,4,5) c o jk pr by (auto simp: race_inv_def sleeper_ok_def s_depth_def)
qed

lemma inv_scan:
  assumes inv: "race_inv p c lk k (s, b, sp, h, W_scan i)"
    and run: "wakeup_one c i (on_hart k s) = Done () t"
  shows "race_inv p c lk k (t, b, sp, h, W_scan (Suc i))"
proof -
  obtain x where x: "c_proc (cpus s k) = Some x" "x \<noteq> p" using inv by (auto simp: race_inv_def)
  have ok: "hart_ok 1 k s" using inv by (simp add: race_inv_def)
  have own: "lock_is (ProcLock i) (if i = p \<and> s_has_p sp then Some h else None) s"
    using inv by (auto simp: race_inv_def)
  have free: "\<not> (i = p \<and> s_has_p sp)" if "i \<noteq> x"
    using wakeup_one_Done [OF run ok _ x(1) that own] by (simp split: if_splits)
  let ?ps = "(proc s)(i := woken (Some x) c i (proc s i))"
  have "lock_is (ProcLock i) None s" if "i \<noteq> x" using own free [OF that] by (simp split: if_splits)
  from wakeup_one_enabled [OF ok _ x(1) this, of c] run have t: "t = quiet (on_hart k (s\<lparr>proc := ?ps\<rparr>))" by simp
  have lb: "\<not> s_has_lk sp" "b" using inv by (auto simp: race_inv_def)
  have "sleeper_ok p c (?ps p) b sp (W_scan (Suc i))"
  proof (cases "i = p")
    case True
    with x(2) free have "\<not> s_has_p sp" by auto
    with inv lb True x(2) show ?thesis
      by (auto simp: race_inv_def sleeper_ok_def woken_def split: spc.splits if_splits)
  next
    case False
    with inv lb show ?thesis by (auto simp: race_inv_def sleeper_ok_def split: spc.splits if_splits)
  qed
  moreover have "hart_ok 1 k t"
    unfolding t quiet_hart(2) using ok hart_ok_cong [of "s\<lparr>proc := ?ps\<rparr>" k s] by simp
  moreover have "hart_eff k (s\<lparr>proc := ?ps\<rparr>) t" "locks t = locks s"
    unfolding t by (rule quiet_hart) (simp add: quiet_hart(3))
  ultimately show ?thesis
    by (intro waker_move [where ps = ?ps, OF inv]) (use inv in \<open>auto simp: race_inv_def holder_def lock_is_def\<close>)
qed

lemma inv_enter:
  assumes inv: "race_inv p c lk k (s, b, S_enter i, h, w)" and i: "i < 4"
    and run: "(sleep_enter c lk p ! i) (on_hart h s) = Done () t" and lk: "\<And>i. lk \<noteq> ProcLock i"
  shows "race_inv p c lk k (t, b, S_enter (Suc i), h, w)"
  using less_4_cases [OF i]
proof (elim disjE)
  assume i: "i = 0"
  then have d: "hart_ok 1 h s" "lock_is (ProcLock p) None s" using inv by (auto simp: race_inv_def s_depth_def)
  have "acquire (ProcLock p) (on_hart h s) = Done () t" using run i by simp
  note a = acquire_hart [OF this d(1) _ d(2)]
  show ?thesis unfolding i
    by (rule sleeper_move [where q = "proc s p", OF inv])
       (use a inv i in \<open>auto simp: race_inv_def holder_def s_depth_def sleeper_ok_def lock_is_def proc_triv lk lk [symmetric]\<close>)
next
  assume i: "i = Suc 0"
  then have d: "lock_is lk (Some h) s" "hart_ok 2 h s" using inv by (auto simp: race_inv_def s_depth_def holder_def)
  from release_hart [OF d] run i have a: "hart_eff h s t" "hart_ok 1 h t" "lock_is lk None t"
    "\<And>l. l \<noteq> lk \<Longrightarrow> locks t l = locks s l" by auto
  have "early p w" using inv i by (cases w) (auto simp: race_inv_def sleeper_ok_def)
  with a inv show ?thesis unfolding i
    by (intro sleeper_move [where q = "proc s p", OF inv [unfolded i]])
       (auto simp: race_inv_def holder_def s_depth_def sleeper_ok_def lock_is_def proc_triv lk lk [symmetric])
next
  assume i: "i = 2"
  have "hart_ok 1 h s" using inv i by (simp add: race_inv_def s_depth_def)
  note u = upd_proc_hart [OF run [unfolded i enter_simps] this]
  show ?thesis unfolding i
    by (rule sleeper_move [where q = "(proc s p)\<lparr>p_chan := c\<rparr>", OF inv [unfolded i]])
       (use u inv i in \<open>auto simp: race_inv_def holder_def s_depth_def sleeper_ok_def lock_is_def\<close>)
next
  assume i: "i = 3"
  have "hart_ok 1 h s" using inv i by (simp add: race_inv_def s_depth_def)
  note u = upd_proc_hart [OF run [unfolded i enter_simps] this]
  show ?thesis unfolding i
    by (rule sleeper_move [where q = "(proc s p)\<lparr>p_state := SLEEPING\<rparr>", OF inv [unfolded i]])
       (use u inv i in \<open>auto simp: race_inv_def holder_def s_depth_def sleeper_ok_def lock_is_def\<close>)
qed

lemma inv_leave:
  assumes inv: "race_inv p c lk k (s, b, S_leave i, h, w)" and i: "i < 3"
    and run: "(sleep_leave lk p ! i) (on_hart h s) = Done () t" and lk: "\<And>i. lk \<noteq> ProcLock i"
  shows "race_inv p c lk k (t, b, S_leave (Suc i), h, w)"
  using less_3_cases [OF i]
proof (elim disjE)
  assume i: "i = 0"
  have "hart_ok 1 h s" using inv i by (simp add: race_inv_def s_depth_def)
  note u = upd_proc_hart [OF run [unfolded i leave_simps] this]
  show ?thesis unfolding i
    by (rule sleeper_move [where q = "(proc s p)\<lparr>p_chan := NoChan\<rparr>", OF inv [unfolded i]])
       (use u inv i in \<open>auto simp: race_inv_def holder_def s_depth_def sleeper_ok_def lock_is_def\<close>)
next
  assume i: "i = Suc 0"
  then have d: "lock_is (ProcLock p) (Some h) s" "hart_ok 1 h s" using inv by (auto simp: race_inv_def s_depth_def)
  from release_hart [OF d] run i have a: "hart_eff h s t" "hart_ok 0 h t" "lock_is (ProcLock p) None t"
    "\<And>l. l \<noteq> ProcLock p \<Longrightarrow> locks t l = locks s l" by auto
  show ?thesis unfolding i
    by (rule sleeper_move [where q = "proc s p", OF inv [unfolded i]])
       (use a inv i in \<open>auto simp: race_inv_def holder_def s_depth_def sleeper_ok_def lock_is_def proc_triv lk lk [symmetric]\<close>)
next
  assume i: "i = 2"
  then have d: "hart_ok 0 h s" "lock_is lk (holder (S_leave 2) h w k) s" using inv by (auto simp: race_inv_def s_depth_def)
  have "acquire lk (on_hart h s) = Done () t" using run i by simp
  note a = acquire_hart [OF this d(1) _ d(2)]
  show ?thesis unfolding i
    by (rule sleeper_move [where q = "proc s p", OF inv [unfolded i]])
       (use a inv i in \<open>auto simp: race_inv_def holder_def s_depth_def sleeper_ok_def lock_is_def proc_triv lk lk [symmetric]\<close>)
qed

lemma inv_step:
  assumes "race_step p c lk k x y" "race_inv p c lk k x" and p: "p < NPROC" and lk: "\<And>i. lk \<noteq> ProcLock i"
  shows "race_inv p c lk k y"
  using assms(1,2)
proof (induction rule: race_step.induct)
  case (s_lock h s t b w)
  then have d: "hart_ok 0 h s" "lock_is lk (holder S_lock h w k) s" by (auto simp: race_inv_def s_depth_def)
  note a = acquire_hart [OF s_lock(1) d(1) _ d(2)]
  show ?case
    by (rule sleeper_move [where q = "proc s p", OF s_lock(2)])
       (use a s_lock in \<open>auto simp: race_inv_def holder_def s_depth_def sleeper_ok_def lock_is_def proc_triv lk lk [symmetric]\<close>)
next
  case (s_test s b h w)
  then show ?case by (auto simp: race_inv_def holder_def s_depth_def sleeper_ok_def)
next
  case (s_enter i h s t b w)
  then show ?case using lk by (intro inv_enter) simp_all
next
  case (s_switch i h s x t b w)
  then show ?case using lk inv_switch [of p c lk k s b h w x t] by simp
next
  case (s_pick s j t b x h w)
  then show ?case using inv_pick lk by blast
next
  case (s_back x h s t b w)
  then have d: "lock_is (ProcLock p) (Some h) s" "hart_ok 1 h s" by (auto simp: race_inv_def s_depth_def)
  from sched_leave_hart [OF d, of x] s_back(1) have "hart_eff h s t" "hart_ok 1 h t" "locks t = locks s" by auto
  with s_back show ?case
    by (intro sleeper_move [where q = "proc s p", OF s_back(2)])
       (auto simp: race_inv_def holder_def s_depth_def sleeper_ok_def lock_is_def proc_triv)
next
  case (s_leave i h s t b w)
  then show ?case using lk by (intro inv_leave) simp_all
next
  case (s_return i s b h w)
  then show ?case by (auto simp: race_inv_def holder_def s_depth_def sleeper_ok_def)
next
  case (w_lock s t b sp h)
  then have d: "hart_ok 0 k s" "lock_is lk (holder sp h W_lock k) s" by (auto simp: race_inv_def)
  note a = acquire_hart [OF w_lock(1) d(1) _ d(2)]
  then have "\<not> s_has_lk sp" by (auto simp: holder_def split: if_splits)
  with a w_lock show ?case
    by (intro waker_move [where ps = "proc s", OF w_lock(2)])
       (auto simp: race_inv_def holder_def sleeper_ok_def lock_is_def proc_triv lk lk [symmetric] split: spc.splits if_splits)
next
  case (w_set s b sp h)
  have "hart_eff k s s" by (simp add: hart_eff_def)
  with w_set show ?case
    by (intro waker_move [where ps = "proc s", OF w_set(1)])
       (auto simp: race_inv_def holder_def sleeper_ok_def lock_is_def proc_triv lk lk [symmetric] split: spc.splits if_splits)
next
  case (w_scan i s t b sp h)
  then show ?case using inv_scan by simp
next
  case (w_end i s b sp h)
  have "hart_eff k s s" by (simp add: hart_eff_def)
  with w_end p show ?case
    by (intro waker_move [where ps = "proc s", OF w_end(2)])
       (auto simp: race_inv_def holder_def sleeper_ok_def lock_is_def proc_triv lk lk [symmetric] split: spc.splits if_splits)
next
  case (w_unlock s t b sp h)
  then have d: "lock_is lk (Some k) s" "hart_ok 1 k s" by (auto simp: race_inv_def holder_def split: if_splits)
  from release_hart [OF d] w_unlock(1) have "hart_eff k s t" "hart_ok 0 k t" "lock_is lk None t"
    "\<And>l. l \<noteq> lk \<Longrightarrow> locks t l = locks s l" by auto
  with w_unlock show ?case
    by (intro waker_move [where ps = "proc s", OF w_unlock(2)])
       (auto simp: race_inv_def holder_def sleeper_ok_def lock_is_def proc_triv lk lk [symmetric] split: spc.splits if_splits)
qed

section \<open>Progress\<close>

text \<open>The waker is never stuck, except behind a sleeper that holds a lock.\<close>

lemma waker_enabled:
  assumes inv: "race_inv p c lk k (s, b, sp, h, w)" and "w \<noteq> W_done" "\<not> s_has_lk sp" "\<not> s_has_p sp"
    and w: "case w of W_scan i \<Rightarrow> i \<le> NPROC | _ \<Rightarrow> True"
  shows "\<exists>y. race_step p c lk k (s, b, sp, h, w) y"
proof (cases w)
  case W_lock
  then have "lock_is lk None s" using inv assms(3) by (simp add: race_inv_def holder_def)
  with W_lock acquire_enabled [of lk s k] show ?thesis by (auto simp del: split_paired_Ex intro: race_step.w_lock)
next
  case (W_scan i)
  obtain x where x: "c_proc (cpus s k) = Some x" "hart_ok 1 k s" using inv W_scan by (auto simp: race_inv_def)
  have "lock_is (ProcLock i) None s" using inv assms(4) by (cases "i = p") (auto simp: race_inv_def)
  from wakeup_one_enabled [OF x(2) _ x(1) this, of c] obtain t where "wakeup_one c i (on_hart k s) = Done () t" by simp
  then have "race_step p c lk k (s, b, sp, h, W_scan i) (t, b, sp, h, W_scan (Suc i))" if "i < NPROC"
    using that by (intro race_step.w_scan) simp_all
  moreover have "race_step p c lk k (s, b, sp, h, W_scan i) (s, b, sp, h, W_unlock)" if "i = NPROC"
    using that by (intro race_step.w_end) simp
  moreover have "i < NPROC \<or> i = NPROC" using W_scan w by auto
  ultimately show ?thesis unfolding W_scan by blast
next
  case W_unlock
  then have "lock_is lk (Some k) s" "hart_ok 1 k s" using inv assms(3) by (auto simp: race_inv_def holder_def)
  from release_hart [OF this] W_unlock show ?thesis by (auto simp del: split_paired_Ex intro: race_step.w_unlock)
qed (use assms(2) in \<open>auto simp del: split_paired_Ex intro: race_step.w_set\<close>)

lemma enter_enabled:
  assumes inv: "race_inv p c lk k (s, b, S_enter i, h, w)" and i: "i < 4"
  shows "\<exists>t. race_step p c lk k (s, b, S_enter i, h, w) (t, b, S_enter (Suc i), h, w)"
proof -
  have "\<exists>t. (sleep_enter c lk p ! i) (on_hart h s) = Done () t"
    using less_4_cases [OF i]
  proof (elim disjE)
    assume i: "i = 0"
    then have "lock_is (ProcLock p) None s" using inv by (simp add: race_inv_def)
    then show ?thesis using i acquire_enabled [of "ProcLock p" s h] by simp
  next
    assume i: "i = Suc 0"
    then have "lock_is lk (Some h) s" "hart_ok 2 h s" using inv by (auto simp: race_inv_def holder_def s_depth_def)
    from release_hart [OF this] i show ?thesis by auto
  qed (simp_all add: upd_proc_def modify_def)
  with i show ?thesis by (auto intro!: race_step.s_enter)
qed

lemma switch_enabled:
  assumes inv: "race_inv p c lk k (s, b, S_enter 4, h, w)"
  shows "\<exists>t x. race_step p c lk k (s, b, S_enter 4, h, w) (t, b, S_off x, h, w)"
proof -
  have "c_proc (cpus s h) = Some p" "lock_is (ProcLock p) (Some h) s" "hart_ok 1 h s"
    "p_state (proc s p) \<noteq> RUNNING" using inv by (auto simp: race_inv_def s_depth_def sleeper_ok_def)
  from switch_out_hart [OF this] obtain t x where "switch_out p (on_hart h s) = Done x t" by blast
  then show ?thesis by (intro exI race_step.s_switch) simp_all
qed

text \<open>Taking \<open>lk\<close>: it is free, or the waker holds it and goes on.\<close>

lemma take_lk_progress:
  assumes inv: "race_inv p c lk k (s, b, sp, h, w)" and w: "case w of W_scan i \<Rightarrow> i \<le> NPROC | _ \<Rightarrow> True"
    and sp: "\<not> s_has_lk sp" "\<not> s_has_p sp"
    and step: "\<And>t. acquire lk (on_hart h s) = Done () t \<Longrightarrow> \<exists>y. race_step p c lk k (s, b, sp, h, w) y"
  shows "\<exists>y. race_step p c lk k (s, b, sp, h, w) y"
proof (cases "w_has_lk w")
  case True
  with waker_enabled [OF inv _ sp w] show ?thesis by (simp del: split_paired_Ex)
next
  case False
  then have "lock_is lk None s" using inv sp by (auto simp: race_inv_def holder_def)
  with acquire_enabled [of lk s h] step show ?thesis by blast
qed

lemma leave_progress:
  assumes inv: "race_inv p c lk k (s, b, S_leave i, h, w)" and w: "case w of W_scan i \<Rightarrow> i \<le> NPROC | _ \<Rightarrow> True"
  shows "\<exists>y. race_step p c lk k (s, b, S_leave i, h, w) y"
proof -
  have step: ?thesis if "i < 3" "(sleep_leave lk p ! i) (on_hart h s) = Done () t" for t
  proof -
    have "race_step p c lk k (s, b, S_leave i, h, w) (t, b, S_leave (Suc i), h, w)"
      using that by (intro race_step.s_leave) simp_all
    then show ?thesis by blast
  qed
  have "i \<le> 3" using inv by (simp add: race_inv_def sleeper_ok_def)
  then consider "i = 0" | "i = Suc 0" | "i = 2" | "i = 3" by linarith
  then show ?thesis
  proof cases
    case 1
    show ?thesis by (rule step) (simp_all add: 1 upd_proc_def modify_def)
  next
    case 2
    then have "lock_is (ProcLock p) (Some h) s" "hart_ok 1 h s" using inv by (auto simp: race_inv_def s_depth_def)
    from release_hart [OF this] obtain t where "release (ProcLock p) (on_hart h s) = Done () t" by blast
    then show ?thesis by (intro step) (simp_all add: 2)
  next
    case 3
    show ?thesis
      by (rule take_lk_progress [OF inv w], simp add: 3, simp add: 3, rule step) (simp_all add: 3)
  next
    case 4
    have "race_step p c lk k (s, b, S_leave i, h, w) (s, b, S_test, h, w)" by (rule race_step.s_return) (simp add: 4)
    then show ?thesis by blast
  qed
qed

lemma race_progress:
  assumes inv: "race_inv p c lk k (s, b, sp, h, w)" and w: "case w of W_scan i \<Rightarrow> i \<le> NPROC | _ \<Rightarrow> True"
    and fin: "\<not> (sp = S_done \<and> w = W_done)"
  shows "\<exists>y. race_step p c lk k (s, b, sp, h, w) y"
proof (cases sp)
  case S_lock
  show ?thesis
    by (rule take_lk_progress [OF inv w]) (use S_lock in \<open>auto simp del: split_paired_Ex intro: race_step.s_lock\<close>)
next
  case (S_enter i)
  then have "i \<le> 4" using inv by (simp add: race_inv_def sleeper_ok_def)
  then consider "i < 4" | "i = 4" by linarith
  then show ?thesis
  proof cases
    case 1
    with enter_enabled inv S_enter show ?thesis by blast
  next
    case 2
    with switch_enabled inv S_enter show ?thesis by blast
  qed
next
  case (S_off i)
  show ?thesis
  proof (cases "p_state (proc s p) = RUNNABLE")
    case True
    from inv S_off obtain j where "c_proc (cpus s j) = None" "lock_is (ProcLock p) None s" by (auto simp: race_inv_def)
    with pick_enabled [of p s j] True S_off show ?thesis by (auto simp del: split_paired_Ex intro: race_step.s_pick)
  next
    case False
    with inv S_off have "w \<noteq> W_done" by (auto simp: race_inv_def sleeper_ok_def)
    with waker_enabled [OF inv _ _ _ w] S_off show ?thesis by (simp del: split_paired_Ex)
  qed
next
  case (S_back i)
  then have "lock_is (ProcLock p) (Some h) s" "hart_ok 1 h s" using inv by (auto simp: race_inv_def s_depth_def)
  from sched_leave_hart [OF this, of i] S_back show ?thesis by (auto simp del: split_paired_Ex intro: race_step.s_back)
next
  case (S_leave i)
  with leave_progress inv w show ?thesis by blast
next
  case S_done
  with inv fin show ?thesis by (cases w) (auto simp: race_inv_def sleeper_ok_def)
qed (auto simp del: split_paired_Ex intro: race_step.s_test)

text \<open>Every step brings the two closer to their ends.\<close>

fun w_left :: "wpc \<Rightarrow> nat" where
  "w_left W_lock = NPROC + 4" | "w_left W_set = NPROC + 3" | "w_left (W_scan i) = NPROC + 2 - i"
| "w_left W_unlock = 1" | "w_left W_done = 0"

fun s_left :: "bool \<Rightarrow> spc \<Rightarrow> nat" where
  "s_left b S_lock = (if b then 2 else 21)" | "s_left b S_test = (if b then 1 else 20)"
| "s_left b (S_enter i) = 19 - i" | "s_left b (S_off _) = 14" | "s_left b (S_back _) = 13"
| "s_left b (S_leave i) = 12 - i" | "s_left b S_done = 0"

definition left :: "'a race \<Rightarrow> nat" where
  "left = (\<lambda>(s, b, sp, h, w). 22 * w_left w + s_left b sp)"

definition scan_bound :: "'a race \<Rightarrow> bool" where
  "scan_bound = (\<lambda>(s, b, sp, h, w). case w of W_scan i \<Rightarrow> i \<le> NPROC | _ \<Rightarrow> True)"

lemma scan_bound_step: "race_step p c lk k x y \<Longrightarrow> scan_bound x \<Longrightarrow> scan_bound y"
  by (induction rule: race_step.induct) (auto simp: scan_bound_def)

lemma s_left_bound: "s_left b sp \<le> 21"
  by (cases sp) auto

lemma left_decreases:
  "race_step p c lk k x y \<Longrightarrow> race_inv p c lk k x \<Longrightarrow> left y < left x"
proof (induction rule: race_step.induct)
  case (s_return i s b h w)
  then show ?case by (auto simp: left_def race_inv_def sleeper_ok_def)
next
  case (w_set s b sp h)
  then show ?case using s_left_bound [of True sp] by (simp add: left_def)
qed (auto simp: left_def)

lemma race_run:
  assumes "race_start p lk k x" "p < NPROC" "\<And>i. lk \<noteq> ProcLock i" "(race_step p c lk k ^^ n) x y"
  shows "race_inv p c lk k y \<and> scan_bound y \<and> left y + n \<le> left x"
  using assms(4)
proof (induction n arbitrary: y)
  case 0
  with race_start_inv [OF assms(1), of c] assms(1) show ?case
    by (cases x) (auto simp: scan_bound_def race_start_def)
next
  case (Suc n)
  then obtain z where z: "(race_step p c lk k ^^ n) x z" "race_step p c lk k z y" by auto
  from Suc.IH [OF z(1)] have "race_inv p c lk k z" "scan_bound z" "left z + n \<le> left x" by auto
  with inv_step [OF z(2) _ assms(2,3)] scan_bound_step [OF z(2)] left_decreases [OF z(2)] show ?case by auto
qed

text \<open>Every execution can be continued to its end.\<close>

lemma race_ends:
  assumes "race_inv p c lk k x" "scan_bound x" "p < NPROC" "\<And>i. lk \<noteq> ProcLock i"
  shows "\<exists>m z. (race_step p c lk k ^^ m) x z \<and> (\<nexists>y. race_step p c lk k z y)"
  using assms(1,2)
proof (induction "left x" arbitrary: x rule: less_induct)
  case less
  show ?case
  proof (cases "\<exists>y. race_step p c lk k x y")
    case True
    then obtain y where y: "race_step p c lk k x y" by blast
    from less.hyps [OF left_decreases [OF y less.prems(1)] inv_step [OF y less.prems(1) assms(3,4)]
        scan_bound_step [OF y less.prems(2)]]
    obtain m z where "(race_step p c lk k ^^ m) y z" "\<nexists>v. race_step p c lk k z v" by blast
    with relpowp_Suc_I2 [of "race_step p c lk k", OF y] show ?thesis by blast
  next
    case False
    then show ?thesis by (intro exI [of _ 0] exI [of _ x]) simp
  qed
qed

section \<open>Properties\<close>

text \<open>
  C28. No wakeup is lost, and the waiting process always gets on: however the two interleave and
  whichever hart schedules the process again, every execution is finite, once the waker has
  finished the process is not asleep, and an execution that cannot go on is one in which the waker
  has finished and the process runs, holds the lock and has seen the condition.
\<close>

theorem no_lost_wakeup:
  assumes "race_start p lk k x" "p < NPROC" "\<forall>i. lk \<noteq> ProcLock i" "(race_step p c lk k ^^ n) x (s, b, sp, h, w)"
  shows "n \<le> 22 * (NPROC + 4) + 21
    \<and> (w = W_done \<longrightarrow> p_state (proc s p) \<noteq> SLEEPING)
    \<and> ((\<nexists>y. race_step p c lk k (s, b, sp, h, w) y) \<longrightarrow> w = W_done \<and> sp = S_done \<and> b
        \<and> p_state (proc s p) = RUNNING \<and> c_proc (cpus s h) = Some p \<and> lock_is lk (Some h) s)"
proof -
  have lk: "\<And>i. lk \<noteq> ProcLock i" using assms(3) by blast
  note run = race_run [OF assms(1,2) lk assms(4)]
  have "left x = 22 * (NPROC + 4) + 21" using assms(1) by (cases x) (simp add: race_start_def left_def)
  with run have n: "n \<le> 22 * (NPROC + 4) + 21" by linarith
  have inv: "race_inv p c lk k (s, b, sp, h, w)" using run by blast
  have "p_state (proc s p) \<noteq> SLEEPING" if "w = W_done"
    using inv that by (auto simp: race_inv_def sleeper_ok_def split: spc.splits if_splits)
  moreover have "w = W_done \<and> sp = S_done" if "\<nexists>y. race_step p c lk k (s, b, sp, h, w) y"
  proof -
    have "case w of W_scan i \<Rightarrow> i \<le> NPROC | _ \<Rightarrow> True" using run by (simp add: scan_bound_def)
    from race_progress [OF inv this] that show ?thesis by blast
  qed
  moreover have "b \<and> p_state (proc s p) = RUNNING \<and> c_proc (cpus s h) = Some p \<and> lock_is lk (Some h) s"
    if "sp = S_done"
    using inv that by (auto simp: race_inv_def sleeper_ok_def holder_def)
  ultimately show ?thesis using n by blast
qed

text \<open>Process 3 runs on hart 0 and process 4 on hart 1; all other harts are in their schedulers.\<close>

definition racing :: procs where
  "racing = boot_procs\<lparr>
     cpus := (\<lambda>j. \<lparr>c_proc = if j = 0 then Some 3 else if j = 1 then Some 4 else None, c_noff = 0, c_intena = False\<rparr>),
     proc := (\<lambda>_. free_slot)(3 := free_slot\<lparr>p_state := RUNNING\<rparr>, 4 := free_slot\<lparr>p_state := RUNNING\<rparr>)\<rparr>"

lemma racing_start: "race_start 3 TicksLock 1 (racing, False, S_lock, 0, W_lock)"
proof -
  have "lock_free lk racing" for lk by (simp add: racing_def lock_free_def boot_procs_def)
  then show ?thesis by (auto simp: race_start_def hart_ok_def racing_def)
qed

text \<open>The process falls asleep before the waker has the lock.\<close>

lemma racing_sleeps:
  "\<exists>s x. (race_step 3 ChanTicks TicksLock 1 ^^ 7) (racing, False, S_lock, 0, W_lock) (s, False, S_off x, 0, W_lock)"
proof -
  let ?R = "race_step 3 ChanTicks TicksLock 1" and ?x = "(racing, False, S_lock, 0, W_lock)"
  have run: "race_inv 3 ChanTicks TicksLock 1 y" if "(?R ^^ n) ?x y" for n y
    using race_run [OF racing_start _ _ that] by (simp add: NPROC_def)
  have "lock_is TicksLock None racing" using racing_start by (simp add: race_start_def lock_is_free)
  then obtain t where "acquire TicksLock (on_hart 0 racing) = Done () t" using acquire_enabled by blast
  then have "?R ?x (t, False, S_test, 0, W_lock)" by (rule race_step.s_lock)
  then have "(?R ^^ 1) ?x (t, False, S_test, 0, W_lock)" by (simp only: relpowp_1)
  from relpowp_Suc_I [of _ ?R, OF this race_step.s_test] have e: "(?R ^^ Suc 1) ?x (t, False, S_enter 0, 0, W_lock)" by simp
  have "\<exists>s. (?R ^^ (Suc 1 + i)) ?x (s, False, S_enter i, 0, W_lock)" if "i \<le> 4" for i
    using that
  proof (induction i)
    case 0
    with e show ?case by auto
  next
    case (Suc i)
    then obtain s where s: "(?R ^^ (Suc 1 + i)) ?x (s, False, S_enter i, 0, W_lock)" by auto
    from enter_enabled [OF run [OF s]] Suc.prems obtain u
      where "?R (s, False, S_enter i, 0, W_lock) (u, False, S_enter (Suc i), 0, W_lock)" by auto
    from relpowp_Suc_I [of _ ?R, OF s this] show ?case by auto
  qed
  from this [of 4] obtain s where s: "(?R ^^ 6) ?x (s, False, S_enter 4, 0, W_lock)" by auto
  from switch_enabled [OF run [OF s]] obtain u x
    where "?R (s, False, S_enter 4, 0, W_lock) (u, False, S_off x, 0, W_lock)" by blast
  from relpowp_Suc_I [of _ ?R, OF s this] show ?thesis by auto
qed

theorem no_lost_wakeup_witness:
  "\<exists>s x n t h. (race_step 3 ChanTicks TicksLock 1 ^^ 7) (racing, False, S_lock, 0, W_lock) (s, False, S_off x, 0, W_lock)
     \<and> p_state (proc s 3) = SLEEPING
     \<and> (race_step 3 ChanTicks TicksLock 1 ^^ n) (s, False, S_off x, 0, W_lock) (t, True, S_done, h, W_done)
     \<and> p_state (proc t 3) = RUNNING \<and> lock_is TicksLock (Some h) t"
proof -
  let ?R = "race_step 3 ChanTicks TicksLock 1" and ?x = "(racing, False, S_lock, 0, W_lock)"
  obtain s x where s: "(?R ^^ 7) ?x (s, False, S_off x, 0, W_lock)" using racing_sleeps by blast
  have p: "3 < NPROC" by (simp add: NPROC_def)
  from race_run [OF racing_start p _ s] have inv: "race_inv 3 ChanTicks TicksLock 1 (s, False, S_off x, 0, W_lock)"
    "scan_bound (s, False, S_off x, 0, W_lock)" by simp_all
  from race_ends [OF inv p] obtain n z where z: "(?R ^^ n) (s, False, S_off x, 0, W_lock) z" "\<nexists>y. ?R z y" by auto
  obtain t b sp h w where zt: "z = (t, b, sp, h, w)" by (cases z)
  have "(?R ^^ (7 + n)) ?x z" using s z(1) by (auto simp: relpowp_add)
  from no_lost_wakeup [OF racing_start p _ this [unfolded zt]] z(2) zt
  have "w = W_done" "sp = S_done" "b" "p_state (proc t 3) = RUNNING" "lock_is TicksLock (Some h) t" by auto
  moreover have "p_state (proc s 3) = SLEEPING" using inv(1) by (auto simp: race_inv_def sleeper_ok_def)
  ultimately show ?thesis using s z(1) zt by (intro exI conjI) auto
qed

end
