(* ===== verification/Xv6_Layout.thy ===== *)
theory Xv6_Layout
  imports Xv6_Fs Xv6_Demo
begin

text \<open>
  The on-disk format (kernel/fs.h, kernel/fs.c): integers in blocks, inodes in inode blocks, bits in
  bitmap blocks and names in paths.
\<close>

section \<open>Integers in blocks\<close>

lemma put_le_other: "j < i \<or> i + n \<le> j \<Longrightarrow> put_le n d i v j = d j"
  by (induction n arbitrary: i v) auto

lemma get_le_cong: "(\<And>j. i \<le> j \<Longrightarrow> j < i + n \<Longrightarrow> d j = e j) \<Longrightarrow>
   (get_le n d i :: 'w :: len word) = get_le n e i"
proof (induction n arbitrary: i)
  case (Suc n)
  have "(get_le n d (Suc i) :: 'w word) = get_le n e (Suc i)" by (rule Suc.IH) (use Suc.prems in auto)
  then show ?case using Suc.prems [of i] by simp
qed simp

lemma bit_push_ucast:
  fixes v :: "'w :: len word"
  shows "ucast (ucast v :: byte) OR push_bit 8 (take_bit n (drop_bit 8 v)) = take_bit (8 + n) v"
  by (rule bit_word_eqI) (auto simp: bit_simps)

lemma get_put_le:
  fixes v :: "'w :: len word"
  shows "get_le n (put_le n d i v) i = take_bit (8 * n) v"
proof (induction n arbitrary: i v)
  case (Suc n)
  have "(get_le n ((put_le n d (Suc i) (drop_bit 8 v))(i := ucast v)) (Suc i) :: 'w word) =
      get_le n (put_le n d (Suc i) (drop_bit 8 v)) (Suc i)"
    by (rule get_le_cong) simp
  then show ?case using Suc.IH [of "Suc i" "drop_bit 8 v"] bit_push_ucast [of v "8 * n"]
    by (simp add: add.commute fun_upd_def)
qed simp

lemma get_put_le_other:
  "i + n \<le> j \<or> j + m \<le> i \<Longrightarrow> get_le n (put_le m d j v) i = get_le n d i"
  by (rule get_le_cong) (auto intro: put_le_other)

lemmas get_put_defs = get16_def get32_def get64_def put16_def put32_def put64_def

lemma get_put [simp]:
  "get16 (put16 d i u) i = u" "get32 (put32 d i v) i = v" "get64 (put64 d i w) i = w"
  by (simp_all add: get_put_defs get_put_le take_bit_word_eq_self)

lemma get_put_other [simp]:
  "i + 2 \<le> j \<or> j + 2 \<le> i \<Longrightarrow> get16 (put16 d j u) i = get16 d i"
  "i + 2 \<le> j \<or> j + 4 \<le> i \<Longrightarrow> get16 (put32 d j v) i = get16 d i"
  "i + 4 \<le> j \<or> j + 2 \<le> i \<Longrightarrow> get32 (put16 d j u) i = get32 d i"
  "i + 4 \<le> j \<or> j + 4 \<le> i \<Longrightarrow> get32 (put32 d j v) i = get32 d i"
  by (simp_all add: get_put_defs get_put_le_other)

section \<open>Inodes in blocks\<close>

lemma put_addrs_other:
  "j < i + 12 \<or> i + 12 + 4 * n \<le> j \<Longrightarrow>
   fold (\<lambda>k d. put32 d (i + 12 + 4 * k) (a k)) [0..<n] d j = d j"
  by (induction n) (auto simp: put32_def put_le_other)

lemma get_addrs:
  "k < n \<Longrightarrow> get32 (fold (\<lambda>k d. put32 d (i + 12 + 4 * k) (a k)) [0..<n] d) (i + 12 + 4 * k) = a k"
proof (induction n)
  case (Suc n)
  show ?case
  proof (cases "k = n")
    case True
    then show ?thesis by simp
  next
    case False
    with Suc show ?thesis by simp
  qed
qed simp

lemma inode_to_dinode_other:
  "j < o1 \<or> o1 + 64 \<le> j \<Longrightarrow> inode_to_dinode x o1 d j = d j"
  unfolding inode_to_dinode_def Let_def
  by (subst put_addrs_other) (auto simp: put16_def put32_def put_le_other)

text \<open>The fields before the block numbers are not touched by them.\<close>

lemma get_before_addrs:
  "i + 2 \<le> o1 + 12 \<Longrightarrow> get16 (fold (\<lambda>k d. put32 d (o1 + 12 + 4 * k) (a k)) [0..<n] d) i = get16 d i"
  "i + 4 \<le> o1 + 12 \<Longrightarrow> get32 (fold (\<lambda>k d. put32 d (o1 + 12 + 4 * k) (a k)) [0..<n] d) i = get32 d i"
  unfolding get16_def get32_def by (rule get_le_cong; rule put_addrs_other; simp)+

lemma dinode_same:
  "dinode_to_inode (inode_to_dinode x o1 d) o1 y = y\<lparr>i_type := i_type x, i_major := i_major x,
     i_minor := i_minor x, i_nlink := i_nlink x, i_size := i_size x,
     i_addrs := (\<lambda>k. if k \<le> NDIRECT then i_addrs x k else i_addrs y k)\<rparr>"
proof -
  have "get32 (inode_to_dinode x o1 d) (o1 + 12 + 4 * k) = i_addrs x k" if "k \<le> NDIRECT" for k
    unfolding inode_to_dinode_def Let_def by (rule get_addrs) (use that in simp)
  then have addrs: "(\<lambda>k. if k \<le> NDIRECT then get32 (inode_to_dinode x o1 d) (o1 + 12 + 4 * k) else i_addrs y k) =
      (\<lambda>k. if k \<le> NDIRECT then i_addrs x k else i_addrs y k)" by auto
  have "get16 (inode_to_dinode x o1 d) o1 = i_type x" "get16 (inode_to_dinode x o1 d) (o1 + 2) = i_major x"
    "get16 (inode_to_dinode x o1 d) (o1 + 4) = i_minor x" "get16 (inode_to_dinode x o1 d) (o1 + 6) = i_nlink x"
    "get32 (inode_to_dinode x o1 d) (o1 + 8) = i_size x"
    unfolding inode_to_dinode_def Let_def by (simp_all add: get_before_addrs del: upt_Suc One_nat_def)
  with addrs show ?thesis unfolding dinode_to_inode_def by simp
qed

lemma dinode_other:
  assumes "o2 + 64 \<le> o1 \<or> o1 + 64 \<le> o2"
  shows "dinode_to_inode (inode_to_dinode x o1 d) o2 y = dinode_to_inode d o2 y"
proof -
  have g16: "get16 (inode_to_dinode x o1 d) (o2 + i) = get16 d (o2 + i)" if "i + 2 \<le> 64" for i
    unfolding get16_def by (rule get_le_cong; rule inode_to_dinode_other) (use assms that in auto)
  have g32: "get32 (inode_to_dinode x o1 d) (o2 + i) = get32 d (o2 + i)" if "i + 4 \<le> 64" for i
    unfolding get32_def by (rule get_le_cong; rule inode_to_dinode_other) (use assms that in auto)
  have "(\<lambda>k. if k \<le> NDIRECT then get32 (inode_to_dinode x o1 d) (o2 + 12 + 4 * k) else i_addrs y k) =
      (\<lambda>k. if k \<le> NDIRECT then get32 d (o2 + 12 + 4 * k) else i_addrs y k)"
    using g32 [of "12 + 4 * k" for k] by (auto simp: add.assoc)
  with g16 [of 0] g16 [of 2] g16 [of 4] g16 [of 6] g32 [of 8] show ?thesis
    unfolding dinode_to_inode_def by simp
qed

text \<open>
  C29. The on-disk format of inodes loses nothing: reading back the inode that was written gives its
  type, device numbers, link count, size and all 13 block numbers; writing it does not disturb any
  other inode of the same block; and an inode lies within its block.
\<close>

theorem dinode_roundtrip:
  "dinode_to_inode (inode_to_dinode x (dinode_off a) d) (dinode_off a) y =
     y\<lparr>i_type := i_type x, i_major := i_major x, i_minor := i_minor x, i_nlink := i_nlink x,
       i_size := i_size x, i_addrs := (\<lambda>k. if k \<le> NDIRECT then i_addrs x k else i_addrs y k)\<rparr>
   \<and> (a \<noteq> b \<and> IBLOCK a sblk = IBLOCK b sblk \<longrightarrow>
      dinode_to_inode (inode_to_dinode x (dinode_off a) d) (dinode_off b) y = dinode_to_inode d (dinode_off b) y)
   \<and> dinode_off a + 64 \<le> BSIZE"
proof -
  have "unat a mod 16 \<noteq> unat b mod 16" if "a \<noteq> b" "IBLOCK a sblk = IBLOCK b sblk"
  proof
    assume "unat a mod 16 = unat b mod 16"
    moreover have "unat (a div 16) = unat (b div 16)" using that(2) by (simp add: IBLOCK_def)
    then have "unat a div 16 = unat b div 16" by (simp add: unat_div)
    ultimately have "unat a = unat b" by (metis div_mult_mod_eq)
    with that(1) show False by (simp add: word_unat_eq_iff)
  qed
  then have "dinode_off b + 64 \<le> dinode_off a \<or> dinode_off a + 64 \<le> dinode_off b"
    if "a \<noteq> b" "IBLOCK a sblk = IBLOCK b sblk" using that by (simp add: dinode_off_def) linarith
  then show ?thesis
    using dinode_other dinode_same by (auto simp: dinode_off_def)
qed

theorem dinode_roundtrip_witness:
  "i_size (dinode_to_inode (inode_to_dinode (free_inode\<lparr>i_size := 77\<rparr>) (dinode_off 3) (\<lambda>_. 0)) (dinode_off 3) free_inode) = 77
   \<and> dinode_to_inode (inode_to_dinode (free_inode\<lparr>i_size := 77\<rparr>) (dinode_off 3) (\<lambda>_. 0)) (dinode_off 4) free_inode =
     dinode_to_inode (\<lambda>_. 0) (dinode_off 4) free_inode"
proof -
  have "IBLOCK 3 (fss.sb boot_files) = IBLOCK 4 (fss.sb boot_files)" by (simp add: IBLOCK_def)
  with dinode_roundtrip [of "free_inode\<lparr>i_size := 77\<rparr>" 3 "\<lambda>_. 0" free_inode 4 "fss.sb boot_files"]
  show ?thesis by simp
qed

end
