(* ===== verification/Xv6_Logspace.thy ===== *)
theory Xv6_Logspace
  imports Xv6_Log Xv6_Demo
begin

text \<open>
  Space in the log (kernel/log.c): \<open>begin_op\<close> admits a file system operation only if the log has room
  for \<open>MAXOPBLOCKS\<close> more blocks for it and for every operation in progress. Here is what that
  reservation guarantees to \<open>log_write\<close>, and for which size of the log.
\<close>

section \<open>The operations on the log header\<close>

lemma klog_lock_simps [simp]:
  "klog (entered lk s) = klog s" "klog (quiet s) = klog s"
  "klog_update f (entered lk s) = entered lk (klog_update f s)"
  "klog_update f (quiet s) = quiet (klog_update f s)"
  "cpu_ok (klog_update f s) = cpu_ok s" "lock_free lk (klog_update f s) = lock_free lk s"
  "procs_ready (klog_update f s) = procs_ready s" "me (klog_update f s) = me s"
  "proc (klog_update f s) = proc s"
  by (simp_all add: lock_state_defs procs_ready_def me_def)

lemma bufs_lock_simps [simp]:
  "bufs (entered lk s) = bufs s" "bufs (quiet s) = bufs s"
  "bufs_update f (entered lk s) = entered lk (bufs_update f s)"
  "bufs_update f (quiet s) = quiet (bufs_update f s)"
  "cpu_ok (bufs_update f s) = cpu_ok s" "lock_free lk (bufs_update f s) = lock_free lk s"
  "procs_ready (bufs_update f s) = procs_ready s" "me (bufs_update f s) = me s"
  by (simp_all add: lock_state_defs procs_ready_def me_def)

definition log_ready :: "'a logs_scheme \<Rightarrow> bool" where
  "log_ready s \<longleftrightarrow> procs_ready s \<and> lock_free LogLock s \<and> lock_free BcacheLock s"

lemma log_ready_simps [simp]:
  "log_ready (quiet s) = log_ready s" "log_ready (klog_update f s) = log_ready s"
  "log_ready (bufs_update g s) = log_ready s" "log_ready (s\<lparr>proc := ps\<rparr>) = log_ready s"
  by (simp_all add: log_ready_def)

lemma log_ready_cpu: "log_ready s \<Longrightarrow> cpu_ok s"
  by (simp add: log_ready_def procs_ready_def)

text \<open>Whether \<open>begin_op\<close> lets an operation in at once.\<close>

definition admits :: "klog \<Rightarrow> bool" where
  "admits l \<longleftrightarrow> \<not> lg_committing l \<and> int32 (lh_n l + int32 (int32 (lg_outstanding l + 1) * int MAXOPBLOCKS)) \<le> int LOGSIZE"

lemma admits_small:
  assumes "0 \<le> lh_n l" "lh_n l \<le> int LOGSIZE" "0 \<le> lg_outstanding l" "lg_outstanding l \<le> 3"
  shows "admits l \<longleftrightarrow> \<not> lg_committing l \<and> lh_n l + (lg_outstanding l + 1) * int MAXOPBLOCKS \<le> int LOGSIZE"
  using assms by (simp add: admits_def LOGSIZE_def MAXOPBLOCKS_def)

lemma begin_op_eq:
  assumes "log_ready s" "admits (klog s)"
  shows "begin_op env s = Done () (quiet (s\<lparr>klog := (klog s)\<lparr>lg_outstanding := int32 (lg_outstanding (klog s) + 1)\<rparr>\<rparr>))"
proof -
  have "cpu_ok s" "lock_free LogLock s" using assms(1) by (simp_all add: log_ready_cpu) (simp add: log_ready_def)
  with assms(2) show ?thesis
    unfolding begin_op_def admits_def
    by simp (subst loop_unfold, simp add: km_simps upd_log_def)
qed

text \<open>
  If the other processes free every lock while a process sleeps, its \<open>sleep\<close> ends in a panic. So an
  operation whose \<open>begin_op\<close> returns whatever the others do has not slept.
\<close>

definition drop_locks :: "'a machine_scheme \<Rightarrow> 'a machine_scheme" where
  "drop_locks s = s\<lparr>locks := (\<lambda>lk. (locks s lk)\<lparr>sl_locked := 0\<rparr>)\<rparr>"

lemma release_locked: "release lk s = Done () t \<Longrightarrow> sl_locked (locks s lk) \<noteq> 0"
  by (auto simp: release_def release_check_def holding_def km_simps split: if_splits)

lemma sleep_drop_locks: "sleep drop_locks c lk s \<noteq> Done a t"
  by (auto simp: sleep_def sleep_enter_def sleep_leave_def sched_def sched_leave_def deref_def bind_eq_Done
      upd_proc_def modify_def cpu_update_def gets_def drop_locks_def fault_def
      split: option.splits dest!: release_locked)

lemma begin_op_admits:
  assumes "log_ready s" "\<forall>env. begin_op env s = Done () t"
  shows "admits (klog s)"
proof (rule ccontr)
  assume no: "\<not> admits (klog s)"
  have free: "lock_free LogLock s" using assms(1) by (simp add: log_ready_def)
  let ?u = "entered LogLock s"
  have sl: "sleep drop_locks ChanLog LogLock ?u \<noteq> Done a u" for a u by (rule sleep_drop_locks)
  have "begin_op drop_locks s \<noteq> Done () t"
    using no free sl unfolding begin_op_def admits_def
    by simp (subst loop_unfold, auto simp: km_simps split: outcome.splits)
  with assms(2) show False by blast
qed

lemma end_op_enter_eq:
  assumes "log_ready s" "\<not> lg_committing (klog s)"
  shows "end_op_enter s = (let l = (klog s)\<lparr>lg_outstanding := int32 (lg_outstanding (klog s) - 1)\<rparr> in
    if lg_outstanding l = 0 then Done True (quiet (s\<lparr>klog := l\<lparr>lg_committing := True\<rparr>\<rparr>))
    else Done False (quiet (s\<lparr>klog := l, proc := all_woken (me s) ChanLog (proc s)\<rparr>)))"
proof -
  have s: "cpu_ok s" "lock_free LogLock s" "procs_ready s"
    using assms(1) by (simp_all add: log_ready_cpu) (simp_all add: log_ready_def)
  let ?u = "entered LogLock (s\<lparr>klog := (klog s)\<lparr>lg_outstanding := int32 (lg_outstanding (klog s) - 1)\<rparr>\<rparr>)"
  have "procs_ready ?u" using s(3) by (simp add: procs_ready_def)
  from wakeup_eq [OF this, of ChanLog] s assms(2) show ?thesis
    by (simp add: end_op_enter_def km_simps acquire_eq upd_log_def Let_def)
qed

definition log_full :: "klog \<Rightarrow> bool" where
  "log_full l \<longleftrightarrow> lh_n l \<ge> int LOGSIZE \<or> lh_n l \<ge> int32 (lg_size l - 1)"

definition logged :: "uint \<Rightarrow> klog \<Rightarrow> klog" where
  "logged bno l = (let i = log_slot l bno in
     l\<lparr>lh_block := (lh_block l)(i := sint bno), lh_n := (if int i = lh_n l then int32 (lh_n l + 1) else lh_n l)\<rparr>)"

lemma log_write_eq:
  fixes b :: nat
  assumes "log_ready s" "\<not> log_full (klog s)" "1 \<le> lg_outstanding (klog s)"
  defines "bno \<equiv> b_blockno (bufs s b)"
  shows "log_write b s = Done () (quiet (s\<lparr>bufs := (if int (log_slot (klog s) bno) = lh_n (klog s)
      then (bufs s)(b := (bufs s b)\<lparr>b_refcnt := b_refcnt (bufs s b) + 1\<rparr>) else bufs s),
     klog := logged bno (klog s)\<rparr>))"
proof -
  have s: "cpu_ok s" "lock_free LogLock s" "lock_free BcacheLock s"
    using assms(1) by (simp_all add: log_ready_cpu) (simp_all add: log_ready_def)
  with assms show ?thesis
    by (auto simp: log_write_def km_simps acquire_eq upd_log_def upd_buf_def bpin_def log_full_def logged_def Let_def)
qed

lemma log_write_full:
  assumes "log_ready s" "log_full (klog s)"
  shows "log_write b s = Stop (Panic ''too big a transaction'') (entered LogLock s)"
proof -
  have "lock_free LogLock s" using assms(1) by (simp add: log_ready_def)
  with assms(2) show ?thesis by (auto simp: log_write_def km_simps acquire_eq log_full_def)
qed

section \<open>Operations in progress\<close>

text \<open>
  \<open>log_run s0 bs s\<close>: from an idle log \<open>s0\<close>, operations have begun, written and ended so that \<open>s\<close> is
  reached. Each of \<open>bs\<close> is an operation in progress and says how many more blocks it may write;
  writing a block that is already in the log costs nothing. An operation begins when its \<open>begin_op\<close>
  returns without sleeping, that is, with the same result whatever other processes would do in the
  meantime; an operation that has to sleep tests again under the lock when it wakes up, as if it
  began then. The last operation to end commits and the log is idle again, so a run stops before that.
\<close>

inductive log_run :: "'a logs_scheme \<Rightarrow> nat list \<Rightarrow> 'a logs_scheme \<Rightarrow> bool" for s0 where
  idle: "log_ready s0 \<Longrightarrow> lh_n (klog s0) = 0 \<Longrightarrow> lg_outstanding (klog s0) = 0 \<Longrightarrow>
    \<not> lg_committing (klog s0) \<Longrightarrow> log_run s0 [] s0"
| enter: "log_run s0 bs s \<Longrightarrow> \<forall>env. begin_op env s = Done () t \<Longrightarrow> log_run s0 (MAXOPBLOCKS # bs) t"
| writes: "log_run s0 bs s \<Longrightarrow> k < length bs \<Longrightarrow> 0 < bs ! k \<Longrightarrow> log_write b s = Done () t \<Longrightarrow>
    log_run s0 (bs[k := bs ! k - nat (lh_n (klog t) - lh_n (klog s))]) t"
| finish: "log_run s0 (as @ x # bs) s \<Longrightarrow> end_op_enter s = Done False t \<Longrightarrow> log_run s0 (as @ bs) t"

definition log_inv :: "'a logs_scheme \<Rightarrow> nat list \<Rightarrow> 'a logs_scheme \<Rightarrow> bool" where
  "log_inv s0 bs s \<longleftrightarrow> log_ready s \<and> \<not> lg_committing (klog s) \<and> lg_outstanding (klog s) = int (length bs)
     \<and> 0 \<le> lh_n (klog s) \<and> lh_n (klog s) + int (sum_list bs) \<le> int LOGSIZE \<and> lg_size (klog s) = lg_size (klog s0)
     \<and> (\<forall>b\<in>set bs. b \<le> MAXOPBLOCKS) \<and> length bs \<le> 3"

lemma logged_simps [simp]:
  "lg_size (logged bno l) = lg_size l" "lg_outstanding (logged bno l) = lg_outstanding l"
  "lg_committing (logged bno l) = lg_committing l"
  by (simp_all add: logged_def Let_def)

lemma logged_count:
  "0 \<le> lh_n l \<Longrightarrow> lh_n l \<le> int LOGSIZE \<Longrightarrow> lh_n (logged bno l) = lh_n l \<or> lh_n (logged bno l) = lh_n l + 1"
  by (simp add: logged_def Let_def LOGSIZE_def MAXOPBLOCKS_def)

lemma sum_list_spend:
  assumes "k < length bs" "0 < bs ! k"
  shows "sum_list (bs[k := bs ! k - 1]) + 1 = sum_list (bs :: nat list)"
  using assms elem_le_sum_list [OF assms(1)] by (simp add: sum_list_update)

lemma sum_list_cap: "\<forall>b\<in>set bs. b \<le> m \<Longrightarrow> sum_list bs \<le> length bs * (m :: nat)"
  by (induction bs) auto

lemma log_inv_enter:
  assumes inv: "log_inv s0 bs s" and run: "\<forall>env. begin_op env s = Done () t"
  shows "log_inv s0 (MAXOPBLOCKS # bs) t"
proof -
  have ready: "log_ready s" using inv by (simp add: log_inv_def)
  note adm = begin_op_admits [OF ready run]
  from begin_op_eq [OF ready adm] run
  have t: "t = quiet (s\<lparr>klog := (klog s)\<lparr>lg_outstanding := int32 (lg_outstanding (klog s) + 1)\<rparr>\<rparr>)" by simp
  have small: "lh_n (klog s) + (int (length bs) + 1) * int MAXOPBLOCKS \<le> int LOGSIZE"
    using adm inv admits_small [of "klog s"] by (simp add: log_inv_def)
  then have len: "Suc (length bs) \<le> 3" using inv by (simp add: log_inv_def MAXOPBLOCKS_def LOGSIZE_def)
  have "sum_list bs \<le> length bs * MAXOPBLOCKS" using inv by (intro sum_list_cap) (simp add: log_inv_def)
  then have "int (sum_list bs) \<le> int (length bs) * int MAXOPBLOCKS" by (metis of_nat_le_iff of_nat_mult)
  moreover have "int32 (lg_outstanding (klog s) + 1) = int (length bs) + 1" using inv len by (simp add: log_inv_def)
  ultimately show ?thesis using inv small len by (simp add: t log_inv_def algebra_simps)
qed

lemma log_run_inv: "log_run s0 bs s \<Longrightarrow> log_inv s0 bs s"
proof (induction rule: log_run.induct)
  case idle
  then show ?case by (simp add: log_inv_def)
next
  case (enter bs s t)
  then show ?case by (intro log_inv_enter)
next
  case (writes bs s k b t)
  then have s: "log_ready s" "1 \<le> lg_outstanding (klog s)" by (auto simp: log_inv_def)
  have nf: "\<not> log_full (klog s)" using log_write_full [OF s(1)] writes(4) by auto
  let ?n = "nat (lh_n (klog t) - lh_n (klog s))"
  from log_write_eq [OF s(1) nf s(2), of b] writes(4)
  have t: "log_ready t" "klog t = logged (b_blockno (bufs s b)) (klog s)" using s(1) by auto
  have "lh_n (klog t) = lh_n (klog s) \<or> lh_n (klog t) = lh_n (klog s) + 1"
    unfolding t(2) by (rule logged_count) (use writes(5) in \<open>simp_all add: log_inv_def\<close>)
  then have "lh_n (klog t) + int (sum_list (bs[k := bs ! k - ?n])) = lh_n (klog s) + int (sum_list bs)"
    using sum_list_spend [OF writes(2,3)] by auto
  moreover have "\<forall>c\<in>set (bs[k := bs ! k - ?n]). c \<le> MAXOPBLOCKS"
    using writes(2,5) by (auto simp: log_inv_def dest!: set_update_subset_insert [THEN subsetD] intro: le_trans [OF diff_le_self])
  moreover have "0 \<le> lh_n (klog t)" using \<open>_ \<or> _\<close> writes(5) by (auto simp: log_inv_def)
  ultimately show ?case using writes(5) t(1) by (simp add: log_inv_def t(2))
next
  case (finish as x bs s t)
  then have s: "log_ready s" "\<not> lg_committing (klog s)" by (simp_all add: log_inv_def)
  have o: "int32 (lg_outstanding (klog s) - 1) = int (length (as @ bs))" using finish(3) by (simp add: log_inv_def)
  from end_op_enter_eq [OF s] finish(2) o
  have t: "log_ready t" "klog t = (klog s)\<lparr>lg_outstanding := int (length (as @ bs))\<rparr>"
    using s(1) by (auto simp: Let_def split: if_splits)
  show ?case using finish(3) t(1) by (auto simp: log_inv_def t(2))
qed

text \<open>
  C32. The reservation is enough when the log has one block more than \<open>LOGSIZE\<close>, for its header:
  however operations begin, write and end, an operation that has written fewer than \<open>MAXOPBLOCKS\<close>
  blocks can write one more; the log never overflows and \<open>log_write\<close> does not panic.
\<close>

theorem log_reservation_suffices:
  assumes "log_run s0 bs s" "int LOGSIZE < lg_size (klog s0)" "lg_size (klog s0) < 2 ^ 31"
    "k < length bs" "0 < bs ! k"
  shows "\<exists>t. log_write b s = Done () t \<and> 0 \<le> lh_n (klog t) \<and> lh_n (klog t) \<le> int LOGSIZE"
proof -
  from log_run_inv [OF assms(1)] have inv: "log_inv s0 bs s" .
  have "0 < sum_list bs" using elem_le_sum_list [OF assms(4)] assms(5) by linarith
  moreover have "int32 (lg_size (klog s0) - 1) = lg_size (klog s0) - 1" using assms(2,3) by (intro int32_small) simp_all
  ultimately have nf: "\<not> log_full (klog s)" using inv assms(2) by (auto simp: log_inv_def log_full_def)
  have "1 \<le> lg_outstanding (klog s)" using inv assms(4) by (auto simp: log_inv_def)
  with log_write_eq [OF _ nf this, of b] inv obtain t where t: "log_write b s = Done () t" by (auto simp: log_inv_def)
  have "log_inv s0 (bs[k := bs ! k - nat (lh_n (klog t) - lh_n (klog s))]) t"
    by (rule log_run_inv [OF log_run.writes [OF assms(1,4,5) t]])
  with t show ?thesis by (auto simp: log_inv_def)
qed

lemma log_run_enter:
  assumes "log_run s0 bs s" "admits (klog s)"
  shows "log_run s0 (MAXOPBLOCKS # bs)
    (quiet (s\<lparr>klog := (klog s)\<lparr>lg_outstanding := int32 (lg_outstanding (klog s) + 1)\<rparr>\<rparr>))"
proof -
  have "log_ready s" using log_run_inv [OF assms(1)] by (simp add: log_inv_def)
  with assms begin_op_eq show ?thesis by (intro log_run.enter) blast+
qed

theorem log_reservation_suffices_witness:
  "\<exists>s t. begin_op (\<lambda>s. s) (boot_files\<lparr>klog := (klog boot_files)\<lparr>lg_size := 31\<rparr>\<rparr>) = Done () s
     \<and> log_write 0 s = Done () t \<and> lh_n (klog t) \<le> 30"
proof -
  let ?s = "boot_files\<lparr>klog := (klog boot_files)\<lparr>lg_size := 31\<rparr>\<rparr>"
  have ready: "log_ready ?s" by (simp add: log_ready_def procs_ready_def)
  have "lh_n (klog ?s) = 0" "lg_outstanding (klog ?s) = 0" "\<not> lg_committing (klog ?s)"
    by (simp_all add: boot_files_def)
  note l = this
  have run: "log_run ?s [] ?s" by (rule log_run.idle [OF ready l])
  have adm: "admits (klog ?s)" using l by (simp add: admits_small LOGSIZE_def MAXOPBLOCKS_def)
  note s = begin_op_eq [OF ready adm, of "\<lambda>s. s"]
  from log_reservation_suffices [OF log_run_enter [OF run adm], of 0 0] s show ?thesis
    by (auto simp: MAXOPBLOCKS_def LOGSIZE_def)
qed

section \<open>A log without room for its header\<close>

lemma log_size_int32: "int32 (int LOGSIZE - 1) = int LOGSIZE - 1"
  by (simp add: LOGSIZE_def MAXOPBLOCKS_def)

lemma log_slot_new:
  assumes "lh_n l = int n" "\<forall>j<n. lh_block l j = int j" "n < 2 ^ 31"
  shows "log_slot l (of_nat n) = n"
proof -
  have "(word_of_int (lh_block l j) :: uint) \<noteq> of_nat n" if "j < n" for j
    using assms that by (simp add: word_unat_eq_iff unat_of_nat)
  then have all: "takeWhile (\<lambda>i. word_of_int (lh_block l i) \<noteq> (of_nat n :: uint)) [0..<n] = [0..<n]"
    by (simp only: takeWhile_eq_all_conv) simp
  show ?thesis by (simp add: log_slot_def assms(1) all)
qed

text \<open>Three operations that write \<open>n\<close> different blocks.\<close>

lemma log_fills:
  assumes idle: "log_ready s0" "lh_n (klog s0) = 0" "lg_outstanding (klog s0) = 0" "\<not> lg_committing (klog s0)"
    and size: "lg_size (klog s0) = int LOGSIZE" and bufs: "\<forall>i<LOGSIZE. b_blockno (bufs s0 i) = of_nat i"
  shows "n < LOGSIZE \<Longrightarrow> \<exists>bs s. log_run s0 bs s \<and> length bs = 3 \<and> sum_list bs = LOGSIZE - n \<and> lh_n (klog s) = int n
    \<and> (\<forall>j<n. lh_block (klog s) j = int j) \<and> (\<forall>i<LOGSIZE. b_blockno (bufs s i) = of_nat i)"
proof (induction n)
  case 0
  have go: "\<exists>t. log_run s0 (MAXOPBLOCKS # bs) t \<and> klog t = (klog s)\<lparr>lg_outstanding := int32 (lg_outstanding (klog s) + 1)\<rparr>
      \<and> bufs t = bufs s" if "log_run s0 bs s" "admits (klog s)" for bs s
    using log_run_enter [OF that] by fastforce
  have "admits ((klog s0)\<lparr>lg_outstanding := c\<rparr>)" if "0 \<le> c" "c \<le> 2" for c
    using idle that by (simp add: admits_small LOGSIZE_def MAXOPBLOCKS_def)
  note adm = this [of 1] this [of 2]
  have "admits (klog s0)" using idle by (simp add: admits_small LOGSIZE_def MAXOPBLOCKS_def)
  then obtain s where s: "log_run s0 [MAXOPBLOCKS] s" "klog s = (klog s0)\<lparr>lg_outstanding := 1\<rparr>" "bufs s = bufs s0"
    using go [OF log_run.idle [OF idle]] idle(3) by auto
  obtain t where t: "log_run s0 [MAXOPBLOCKS, MAXOPBLOCKS] t" "klog t = (klog s0)\<lparr>lg_outstanding := 2\<rparr>" "bufs t = bufs s0"
    using go [OF s(1)] adm(1) s(2,3) by auto
  obtain u where "log_run s0 [MAXOPBLOCKS, MAXOPBLOCKS, MAXOPBLOCKS] u" "klog u = (klog s0)\<lparr>lg_outstanding := 3\<rparr>"
      "bufs u = bufs s0"
    using go [OF t(1)] adm(2) t(2,3) by auto
  with idle(2) bufs show ?case by (intro exI [of _ "[MAXOPBLOCKS, MAXOPBLOCKS, MAXOPBLOCKS]"] exI [of _ u])
    (simp add: LOGSIZE_def)
next
  case (Suc n)
  then obtain bs s where s: "log_run s0 bs s" "sum_list bs = LOGSIZE - n" "lh_n (klog s) = int n"
    "\<forall>j<n. lh_block (klog s) j = int j" "\<forall>i<LOGSIZE. b_blockno (bufs s i) = of_nat i" "length bs = 3" by auto
  have "\<exists>b\<in>set bs. 0 < b"
  proof (rule ccontr)
    assume "\<not> ?thesis"
    then have "sum_list bs = 0" by simp
    with s(2) Suc.prems show False by simp
  qed
  then obtain k where k: "k < length bs" "0 < bs ! k" by (auto simp: in_set_conv_nth)
  note inv = log_run_inv [OF s(1)]
  have nf: "\<not> log_full (klog s)" using s(3) Suc.prems inv size by (auto simp: log_full_def log_inv_def log_size_int32)
  have n: "b_blockno (bufs s n) = of_nat n" using s(5) Suc.prems by simp
  have small: "n < 2 ^ 31" using Suc.prems by (simp add: LOGSIZE_def MAXOPBLOCKS_def)
  have slot: "log_slot (klog s) (of_nat n) = n" by (rule log_slot_new [OF s(3,4) small])
  have "1 \<le> lg_outstanding (klog s)" using inv k(1) by (auto simp: log_inv_def)
  from log_write_eq [OF _ nf this, of n] inv obtain t where t: "log_write n s = Done () t"
    "klog t = logged (of_nat n) (klog s)" "\<forall>i. b_blockno (bufs t i) = b_blockno (bufs s i)"
    by (auto simp: log_inv_def n split: if_splits)
  have sint: "sint (of_nat n :: uint) = int n"
    using small by (simp add: signed_of_nat signed_take_bit_int_eq_self_iff)
  have up: "int32 (int n + 1) = int n + 1" using Suc.prems by (simp add: LOGSIZE_def MAXOPBLOCKS_def)
  have nt: "lh_n (klog t) = int n + 1" "lh_block (klog t) = (lh_block (klog s))(n := int n)"
    by (simp_all add: t(2) logged_def slot s(3) sint up)
  have "log_run s0 (bs[k := bs ! k - nat (lh_n (klog t) - lh_n (klog s))]) t"
    by (rule log_run.writes [OF s(1) k t(1)])
  moreover have "sum_list (bs[k := bs ! k - 1]) = LOGSIZE - Suc n"
    using sum_list_spend [OF k] s(2) Suc.prems by simp
  ultimately show ?case
    using nt s(3-6) t(3) by (intro exI [of _ "bs[k := bs ! k - 1]"] exI [of _ t]) (auto simp: less_Suc_eq)
qed

text \<open>
  C33. With a log of \<open>LOGSIZE\<close> blocks, the size that mkfs gives it, the reservation is one block
  short: three admitted operations can write 29 different blocks, and then \<open>log_write\<close> panics
  although an operation has written fewer than \<open>MAXOPBLOCKS\<close> blocks.
\<close>

theorem log_reservation_one_short:
  assumes "log_ready s0" "lh_n (klog s0) = 0" "lg_outstanding (klog s0) = 0" "\<not> lg_committing (klog s0)"
    "lg_size (klog s0) = int LOGSIZE" "\<forall>i<LOGSIZE. b_blockno (bufs s0 i) = of_nat i"
  shows "\<exists>bs s k u. log_run s0 bs s \<and> length bs = 3 \<and> k < length bs \<and> 0 < bs ! k
    \<and> log_write (LOGSIZE - 1) s = Stop (Panic ''too big a transaction'') u"
proof -
  have "LOGSIZE - 1 < LOGSIZE" by (simp add: LOGSIZE_def MAXOPBLOCKS_def)
  from log_fills [OF assms this] obtain bs s where s: "log_run s0 bs s" "sum_list bs = LOGSIZE - (LOGSIZE - 1)"
    "lh_n (klog s) = int (LOGSIZE - 1)" "length bs = 3" by blast
  have "sum_list bs \<noteq> 0" using s(2) by (simp add: LOGSIZE_def MAXOPBLOCKS_def)
  then obtain k where "k < length bs" "0 < bs ! k" by (auto simp: sum_list_eq_0_iff in_set_conv_nth)
  moreover have "log_full (klog s)" "log_ready s"
    using log_run_inv [OF s(1)] s(3) assms(5) by (auto simp: log_full_def log_inv_def log_size_int32 LOGSIZE_def MAXOPBLOCKS_def)
  ultimately show ?thesis using s(1,4) log_write_full [of s] by blast
qed

theorem log_reservation_one_short_witness:
  "\<exists>bs s k u. log_run (boot_files\<lparr>bufs := (\<lambda>i. free_buf\<lparr>b_blockno := of_nat i\<rparr>)\<rparr>) bs s
    \<and> length bs = 3 \<and> k < length bs \<and> 0 < bs ! k \<and> log_write 29 s = Stop (Panic ''too big a transaction'') u"
proof -
  let ?s = "boot_files\<lparr>bufs := (\<lambda>i. free_buf\<lparr>b_blockno := of_nat i\<rparr>)\<rparr>"
  have "log_ready ?s" by (simp add: log_ready_def procs_ready_def)
  moreover have "lh_n (klog ?s) = 0" "lg_outstanding (klog ?s) = 0" "\<not> lg_committing (klog ?s)"
    "lg_size (klog ?s) = int LOGSIZE" by (simp_all add: boot_files_def LOGSIZE_def MAXOPBLOCKS_def)
  moreover have "\<forall>i<LOGSIZE. b_blockno (bufs ?s i) = of_nat i" "LOGSIZE - 1 = 29"
    by (simp_all add: LOGSIZE_def MAXOPBLOCKS_def)
  ultimately show ?thesis using log_reservation_one_short [of ?s] by metis
qed

end
