(* ===== verification/Xv6_Bcache.thy ===== *)
theory Xv6_Bcache
  imports Xv6_List Xv6_Logspace
begin

text \<open>
  The buffer cache at work (kernel/bio.c). The \<open>prev\<close> and \<open>next\<close> of the buffers form a circular list
  in the sense of theory \<open>Xv6_List\<close>; the searches of \<open>bget\<close> are searches in that list; and however
  \<open>bget\<close>, \<open>brelse\<close>, \<open>bpin\<close> and \<open>bunpin\<close> follow each other, a block has at most one buffer, reference
  counts count the references, and the list is in the order of the last release.
\<close>

section \<open>The list of buffers as a circular list\<close>

definition node :: "(nat \<Rightarrow> buf) \<Rightarrow> list_store" where
  "node bs a = \<lparr>lh_next = of_nat (b_next (bs (unat a))), lh_prev = of_nat (b_prev (bs (unat a)))\<rparr>"

definition lru_ring :: "(nat \<Rightarrow> buf) \<Rightarrow> nat list \<Rightarrow> bool" where
  "lru_ring bs xs \<longleftrightarrow> circular (node bs) (of_nat HEAD) (map of_nat xs) \<and> set xs \<subseteq> {..<NBUF}
     \<and> (\<forall>b \<in> insert HEAD (set xs). b_next (bs b) \<le> NBUF \<and> b_prev (bs b) \<le> NBUF)"

lemma NBUF_eq: "NBUF = 30"
  by (simp add: NBUF_def MAXOPBLOCKS_def)

lemma small_index [simp]: "b \<le> NBUF \<Longrightarrow> unat (of_nat b :: addr) = b"
  by (simp add: NBUF_eq unat_of_nat take_bit_nat_eq_self)

lemma small_index_eq [simp]:
  "a \<le> NBUF \<Longrightarrow> b \<le> NBUF \<Longrightarrow> (of_nat a :: addr) = of_nat b \<longleftrightarrow> a = b"
  by (metis small_index)

lemma node_upd:
  assumes "b \<le> NBUF"
  shows "node (bs(b := x)) = (node bs)(of_nat b := \<lparr>lh_next = of_nat (b_next x), lh_prev = of_nat (b_prev x)\<rparr>)"
proof
  fix a :: addr
  have "unat a = b \<longleftrightarrow> a = of_nat b" using assms by auto
  then show "node (bs(b := x)) a = ((node bs)(of_nat b := \<lparr>lh_next = of_nat (b_next x), lh_prev = of_nat (b_prev x)\<rparr>)) a"
    by (simp add: node_def)
qed

lemma node_at: "b \<le> NBUF \<Longrightarrow> node bs (of_nat b) = \<lparr>lh_next = of_nat (b_next (bs b)), lh_prev = of_nat (b_prev (bs b))\<rparr>"
  by (simp add: node_def)

lemma node_push:
  assumes "b < NBUF" "b_next (bs HEAD) \<le> NBUF" "b_next (bs HEAD) \<noteq> b"
  shows "node (lru_push b bs) = list_add (of_nat HEAD) (of_nat b) (node bs)"
  using assms
  by (cases "b_next (bs HEAD) = HEAD")
     (auto simp: lru_push_def Let_def node_upd node_at list_add_def list_op_defs fun_eq_iff)

lemma node_unlink:
  assumes "b < NBUF" "b_next (bs b) \<le> NBUF" "b_next (bs b) \<noteq> b" "b_prev (bs b) \<le> NBUF" "b_prev (bs b) \<noteq> b"
  shows "node (lru_unlink b bs) = list_del_between (of_nat (b_prev (bs b))) (of_nat (b_next (bs b))) (node bs)"
  using assms
  by (cases "b_next (bs b) = b_prev (bs b)")
     (auto simp: lru_unlink_def Let_def node_upd node_at list_op_defs fun_eq_iff)

lemma ring_small: "lru_ring bs xs \<Longrightarrow> b \<in> set xs \<Longrightarrow> b < NBUF"
  by (auto simp: lru_ring_def)

lemma ring_distinct: "lru_ring bs xs \<Longrightarrow> distinct xs"
  by (auto simp: lru_ring_def circular_def distinct_map)

lemma of_nat_ends:
  "hd (map of_nat xs @ [of_nat h]) = (of_nat (hd (xs @ [h])) :: addr)"
  "last (of_nat h # map of_nat xs) = (of_nat (last (h # xs)) :: addr)"
  by (cases xs, simp_all) (simp add: last_map)

lemma ends_small:
  "set xs \<subseteq> {..<NBUF} \<Longrightarrow> hd (xs @ [HEAD]) \<le> NBUF" "set xs \<subseteq> {..<NBUF} \<Longrightarrow> last (HEAD # xs) \<le> NBUF"
  by (cases xs) (auto dest!: last_in_set)

lemma ring_neighbours:
  assumes "lru_ring bs (ys @ b # zs)"
  shows "b_next (bs b) = hd (zs @ [HEAD])" "b_prev (bs b) = last (HEAD # ys)"
proof -
  have c: "circular (node bs) (of_nat HEAD) (map of_nat ys @ of_nat b # map of_nat zs)"
    and r: "set ys \<subseteq> {..<NBUF}" "set zs \<subseteq> {..<NBUF}" "b < NBUF" "b_next (bs b) \<le> NBUF" "b_prev (bs b) \<le> NBUF"
    using assms by (auto simp: lru_ring_def)
  from circular_neighbours [OF c] r ends_small
  show "b_next (bs b) = hd (zs @ [HEAD])" "b_prev (bs b) = last (HEAD # ys)"
    by (simp_all only: of_nat_ends node_at less_imp_le list_head.select_convs small_index_eq)
qed

lemma ring_ends:
  assumes "lru_ring bs xs"
  shows "b_next (bs HEAD) = hd (xs @ [HEAD])" "b_prev (bs HEAD) = last (HEAD # xs)"
proof -
  have c: "circular (node bs) (of_nat HEAD) (map of_nat xs)"
    and r: "set xs \<subseteq> {..<NBUF}" "b_next (bs HEAD) \<le> NBUF" "b_prev (bs HEAD) \<le> NBUF"
    using assms by (auto simp: lru_ring_def)
  from circular_ends [OF c] r ends_small
  show "b_next (bs HEAD) = hd (xs @ [HEAD])" "b_prev (bs HEAD) = last (HEAD # xs)"
    by (simp_all only: of_nat_ends node_at order_refl list_head.select_convs small_index_eq)
qed

section \<open>Moving a buffer in the list\<close>

lemma ring_push:
  assumes "lru_ring bs xs" "b < NBUF" "b \<notin> set xs"
  shows "lru_ring (lru_push b bs) (b # xs)"
proof -
  have r: "set xs \<subseteq> {..<NBUF}" using assms(1) by (simp add: lru_ring_def)
  have n: "b_next (bs HEAD) \<le> NBUF" "b_next (bs HEAD) \<noteq> b"
    using ring_ends(1) [OF assms(1)] ends_small(1) [OF r] assms(2,3) by (cases xs; auto)+
  have "of_nat b \<notin> set (of_nat HEAD # map of_nat xs :: addr list)"
    using assms(2,3) r by (auto simp: subset_iff less_imp_le dest: small_index_eq [THEN iffD1, rotated 2])
  then have "circular (node (lru_push b bs)) (of_nat HEAD) (map of_nat (b # xs))"
    using circular_insert [of "node bs" "of_nat HEAD" "[]" "map of_nat xs" "of_nat b"] assms(1,2) n
      circular_ends(1) [of "node bs" "of_nat HEAD" "map of_nat xs"]
    by (simp add: node_push list_add_def lru_ring_def)
  moreover have "b_next (lru_push b bs c) \<le> NBUF \<and> b_prev (lru_push b bs c) \<le> NBUF"
    if "c = b \<or> b_next (bs c) \<le> NBUF \<and> b_prev (bs c) \<le> NBUF" for c
    using that assms(2) n by (auto simp: lru_push_def Let_def)
  ultimately show ?thesis using assms(1,2) by (auto simp: lru_ring_def)
qed

lemma ring_unlink:
  assumes "lru_ring bs (ys @ b # zs)"
  shows "lru_ring (lru_unlink b bs) (ys @ zs)"
proof -
  have c: "circular (node bs) (of_nat HEAD) (map of_nat ys @ of_nat b # map of_nat zs)"
    and r: "set ys \<subseteq> {..<NBUF}" "set zs \<subseteq> {..<NBUF}" "b < NBUF" "b_next (bs b) \<le> NBUF" "b_prev (bs b) \<le> NBUF"
    and d: "b \<notin> set ys" "b \<notin> set zs"
    using assms ring_distinct [OF assms] by (auto simp: lru_ring_def)
  note nb = ring_neighbours [OF assms]
  have ne: "b_next (bs b) \<noteq> b" "b_prev (bs b) \<noteq> b"
    unfolding nb using r(3) d by (cases zs; auto; fail) (use r(3) d last_in_set [of ys] in auto)
  have eq: "node (lru_unlink b bs) = list_del_between (of_nat (last (HEAD # ys))) (of_nat (hd (zs @ [HEAD]))) (node bs)"
    using node_unlink [of b bs, OF r(3,4) ne(1) r(5) ne(2)] unfolding nb .
  have "circular (node (lru_unlink b bs)) (of_nat HEAD) (map of_nat ys @ map of_nat zs)"
    by (rule circular_remove [OF c]) (simp only: eq of_nat_ends)
  moreover have "b_next (lru_unlink b bs c) \<le> NBUF \<and> b_prev (lru_unlink b bs c) \<le> NBUF"
    if "b_next (bs c) \<le> NBUF \<and> b_prev (bs c) \<le> NBUF" for c
    using that r ne by (auto simp: lru_unlink_def Let_def)
  ultimately show ?thesis using assms by (auto simp: lru_ring_def)
qed

lemma ring_move:
  assumes "lru_ring bs xs" "b \<in> set xs"
  shows "lru_ring (lru_push b (lru_unlink b bs)) (b # remove1 b xs)"
proof -
  obtain ys zs where xs: "xs = ys @ b # zs" by (meson assms(2) split_list)
  with ring_distinct [OF assms(1)] have "remove1 b xs = ys @ zs" "b \<notin> set (ys @ zs)"
    by (auto simp: remove1_append)
  moreover have "lru_ring (lru_unlink b bs) (ys @ zs)" using assms(1) unfolding xs by (rule ring_unlink)
  ultimately show ?thesis using ring_push ring_small [OF assms] by simp
qed

text \<open>What the list depends on, and what moving a buffer leaves alone.\<close>

lemma ring_cong:
  assumes "lru_ring bs xs" "\<And>b. b_next (cs b) = b_next (bs b) \<and> b_prev (cs b) = b_prev (bs b)"
  shows "lru_ring cs xs"
proof -
  have "node cs = node bs" using assms(2) by (simp add: node_def fun_eq_iff)
  then show ?thesis using assms by (simp add: lru_ring_def)
qed

definition key :: "buf \<Rightarrow> uint \<times> uint \<times> uint" where
  "key x = (b_dev x, b_blockno x, b_refcnt x)"

lemma key_simps [simp]:
  "key (x\<lparr>b_next := i\<rparr>) = key x" "key (x\<lparr>b_prev := i\<rparr>) = key x"
  by (simp_all add: key_def)

lemma lru_keys [simp]: "key (lru_push b bs c) = key (bs c)" "key (lru_unlink b bs c) = key (bs c)"
  by (simp_all add: lru_push_def lru_unlink_def Let_def)

lemma key_fields:
  "key x = key y \<longleftrightarrow> b_dev x = b_dev y \<and> b_blockno x = b_blockno y \<and> b_refcnt x = b_refcnt y"
  by (simp add: key_def)

section \<open>The operations on the list\<close>

text \<open>A walk along the list, in one direction or the other, is a search in the list.\<close>

lemma search_eq:
  assumes "\<And>ys b zs. xs = ys @ b # zs \<Longrightarrow> nx (bufs s b) = hd (zs @ [HEAD])" "HEAD \<notin> set xs"
  shows "loop (\<lambda>b. if b = HEAD then ret (Inr None)
       else bind (gets (\<lambda>s. bufs s b)) (\<lambda>x. ret (if P x then Inr (Some b) else Inl (nx x))))
     (hd (xs @ [HEAD])) s = Done (find (\<lambda>b. P (bufs s b)) xs) s" (is "loop ?f _ _ = _")
  using assms
proof (induction xs)
  case Nil
  show ?case by (subst loop_unfold) (simp add: km_simps)
next
  case (Cons b xs)
  have nx: "nx (bufs s b) = hd (xs @ [HEAD])" using Cons.prems(1) [of "[]"] by simp
  have "loop ?f (hd (xs @ [HEAD])) s = Done (find (\<lambda>b. P (bufs s b)) xs) s"
    using Cons.prems by (intro Cons.IH) (metis append_Cons, simp)
  with nx Cons.prems(2) show ?case by (subst loop_unfold) (auto simp: km_simps)
qed

definition has_block :: "(nat \<Rightarrow> buf) \<Rightarrow> uint \<Rightarrow> uint \<Rightarrow> nat \<Rightarrow> bool" where
  "has_block bs dev blockno b \<longleftrightarrow> b_dev (bs b) = dev \<and> b_blockno (bs b) = blockno"

definition unused :: "(nat \<Rightarrow> buf) \<Rightarrow> nat \<Rightarrow> bool" where
  "unused bs b \<longleftrightarrow> b_refcnt (bs b) = 0"

lemma bget_cached_eq:
  assumes "lru_ring (bufs s) xs"
  shows "bget_cached dev blockno s = Done (find (has_block (bufs s) dev blockno) xs) s"
proof -
  have "HEAD \<notin> set xs" using ring_small [OF assms] by auto
  moreover have "b_next (bufs s b) = hd (zs @ [HEAD])" if "xs = ys @ b # zs" for ys b zs
    using ring_neighbours(1) [of "bufs s" ys b zs] assms that by simp
  ultimately show ?thesis
    unfolding bget_cached_def has_block_def
    using search_eq [of xs b_next s "\<lambda>x. b_dev x = dev \<and> b_blockno x = blockno"]
    by (simp add: km_simps ring_ends(1) [OF assms])
qed

lemma bget_unused_eq:
  assumes "lru_ring (bufs s) xs"
  shows "bget_unused s = Done (find (unused (bufs s)) (rev xs)) s"
proof -
  have "HEAD \<notin> set (rev xs)" using ring_small [OF assms] by auto
  moreover have "b_prev (bufs s b) = hd (zs @ [HEAD])" if "rev xs = ys @ b # zs" for ys b zs
  proof -
    have "xs = rev zs @ b # rev ys" using that by (simp add: rev_swap)
    then show ?thesis using ring_neighbours(2) [of "bufs s" "rev zs" b "rev ys"] assms
      by (cases zs) (simp_all add: last_rev)
  qed
  moreover have "b_prev (bufs s HEAD) = hd (rev xs @ [HEAD])"
    unfolding ring_ends(2) [OF assms] by (cases xs rule: rev_cases) simp_all
  ultimately show ?thesis
    unfolding bget_unused_def unused_def
    using search_eq [of "rev xs" b_prev s "\<lambda>x. b_refcnt x = 0"] by (simp add: km_simps)
qed

text \<open>The buffer that \<open>bget\<close> chooses, and what becomes of it.\<close>

definition chosen :: "uint \<Rightarrow> uint \<Rightarrow> nat list \<Rightarrow> (nat \<Rightarrow> buf) \<Rightarrow> (nat \<times> buf) option" where
  "chosen dev blockno xs bs =
     (case find (has_block bs dev blockno) xs of
        Some b \<Rightarrow> Some (b, (bs b)\<lparr>b_refcnt := b_refcnt (bs b) + 1\<rparr>)
      | None \<Rightarrow> (case find (unused bs) (rev xs) of
          Some b \<Rightarrow> Some (b, (bs b)\<lparr>b_dev := dev, b_blockno := blockno, b_valid := False, b_refcnt := 1\<rparr>)
        | None \<Rightarrow> None))"

definition cache_ready :: "'a disks_scheme \<Rightarrow> bool" where
  "cache_ready s \<longleftrightarrow> cpu_ok s \<and> lock_free BcacheLock s"

lemma cache_ready_simps [simp]:
  "cache_ready (quiet s) = cache_ready s" "cache_ready (bufs_update f s) = cache_ready s"
  by (simp_all add: cache_ready_def)

lemma bget_select_eq:
  assumes "cache_ready s" "lru_ring (bufs s) xs"
  shows "bget_select dev blockno s = (case chosen dev blockno xs (bufs s) of
     Some (b, x) \<Rightarrow> Done b (quiet (s\<lparr>bufs := (bufs s)(b := x)\<rparr>))
   | None \<Rightarrow> Stop (Panic ''bget: no buffers'') (entered BcacheLock s))"
proof -
  have "cpu_ok s" "lock_free BcacheLock s" using assms(1) by (simp_all add: cache_ready_def)
  moreover have "lru_ring (bufs (entered BcacheLock s)) xs" using assms(2) by simp
  ultimately show ?thesis
    by (simp add: bget_select_def chosen_def km_simps acquire_eq bget_cached_eq bget_unused_eq upd_buf_def
        split: option.split)
qed

definition dropped :: "nat \<Rightarrow> (nat \<Rightarrow> buf) \<Rightarrow> nat \<Rightarrow> buf" where
  "dropped b bs = bs(b := (bs b)\<lparr>b_refcnt := b_refcnt (bs b) - 1\<rparr>)"

definition pinned :: "nat \<Rightarrow> (nat \<Rightarrow> buf) \<Rightarrow> nat \<Rightarrow> buf" where
  "pinned b bs = bs(b := (bs b)\<lparr>b_refcnt := b_refcnt (bs b) + 1\<rparr>)"

lemma brelse_unref_eq:
  assumes "cache_ready s"
  shows "brelse_unref b s = Done () (quiet (s\<lparr>bufs :=
     if b_refcnt (bufs s b) = 1 then lru_push b (lru_unlink b (dropped b (bufs s))) else dropped b (bufs s)\<rparr>))"
  using assms
  by (simp add: brelse_unref_def cache_ready_def km_simps acquire_eq upd_buf_def dropped_def)

lemma bpin_eq: "cache_ready s \<Longrightarrow> bpin b s = Done () (quiet (s\<lparr>bufs := pinned b (bufs s)\<rparr>))"
  by (simp add: bpin_def cache_ready_def km_simps acquire_eq upd_buf_def pinned_def)

lemma bunpin_eq: "cache_ready s \<Longrightarrow> bunpin b s = Done () (quiet (s\<lparr>bufs := dropped b (bufs s)\<rparr>))"
  by (simp add: bunpin_def cache_ready_def km_simps acquire_eq upd_buf_def dropped_def)

section \<open>Every sequence of operations\<close>

text \<open>
  The state of the cache with what its users know: how many references to each buffer are in use,
  and the buffers in the order of their last release. Between two operations the rest of the kernel
  runs on any hart; it writes the data of buffers and their flags but not the cache's own fields.
\<close>

definition same_cache :: "(nat \<Rightarrow> buf) \<Rightarrow> (nat \<Rightarrow> buf) \<Rightarrow> bool" where
  "same_cache bs cs \<longleftrightarrow> (\<forall>b. key (cs b) = key (bs b) \<and> b_next (cs b) = b_next (bs b) \<and> b_prev (cs b) = b_prev (bs b))"

definition zeroed :: "(nat \<Rightarrow> buf) \<Rightarrow> bool" where
  "zeroed bs \<longleftrightarrow> (\<forall>b. key (bs b) = (0, 0, 0))"

inductive cache_run :: "'a disks_scheme \<Rightarrow> (nat \<Rightarrow> nat) \<Rightarrow> nat list \<Rightarrow> bool" where
  start: "zeroed (bufs s) \<Longrightarrow> cpu_ok s \<Longrightarrow> binit s = Done () t \<Longrightarrow> cache_run t (\<lambda>_. 0) (rev [0..<NBUF])"
| get: "cache_run s n xs \<Longrightarrow> bget_select dev blockno s = Done b t \<Longrightarrow> Suc (n b) < 2 ^ 32 \<Longrightarrow>
    cache_run t (n(b := Suc (n b))) xs"
| pin: "cache_run s n xs \<Longrightarrow> 0 < n b \<Longrightarrow> bpin b s = Done () t \<Longrightarrow> Suc (n b) < 2 ^ 32 \<Longrightarrow>
    cache_run t (n(b := Suc (n b))) xs"
| put: "cache_run s n xs \<Longrightarrow> 0 < n b \<Longrightarrow> brelse_unref b s = Done () t \<Longrightarrow>
    cache_run t (n(b := n b - 1)) (if n b = 1 then b # remove1 b xs else xs)"
| unpin: "cache_run s n xs \<Longrightarrow> 0 < n b \<Longrightarrow> bunpin b s = Done () t \<Longrightarrow> cache_run t (n(b := n b - 1)) xs"
| other: "cache_run s n xs \<Longrightarrow> same_cache (bufs s) (bufs t) \<Longrightarrow> cache_ready t \<Longrightarrow> cache_run t n xs"

definition one_buffer_per_block :: "(nat \<Rightarrow> buf) \<Rightarrow> bool" where
  "one_buffer_per_block bs \<longleftrightarrow> (\<forall>b<NBUF. \<forall>c<NBUF. b_dev (bs b) \<noteq> 0 \<and> has_block bs (b_dev (bs b)) (b_blockno (bs b)) c \<longrightarrow> b = c)"

definition counts :: "(nat \<Rightarrow> buf) \<Rightarrow> (nat \<Rightarrow> nat) \<Rightarrow> bool" where
  "counts bs n \<longleftrightarrow> (\<forall>b. if b < NBUF then unat (b_refcnt (bs b)) = n b else n b = 0)"

definition cache_inv :: "(nat \<Rightarrow> buf) \<Rightarrow> (nat \<Rightarrow> nat) \<Rightarrow> nat list \<Rightarrow> bool" where
  "cache_inv bs n xs \<longleftrightarrow> lru_ring bs xs \<and> set xs = {..<NBUF} \<and> one_buffer_per_block bs \<and> counts bs n"

text \<open>The start: the buffers are put in front of each other.\<close>

lemma ring_pushes:
  assumes "lru_ring bs []" "m \<le> NBUF"
  shows "lru_ring (fold lru_push [0..<m] bs) (rev [0..<m]) \<and> (\<forall>b. key (fold lru_push [0..<m] bs b) = key (bs b))"
  using assms(2)
proof (induction m)
  case (Suc m)
  then show ?case using ring_push [of _ "rev [0..<m]" m] by simp
qed (simp add: assms(1))

lemma pushing_rounds:
  assumes "\<And>b s. \<exists>t. f b s = Done () t \<and> bufs t = lru_push b (bufs s) \<and> cache_ready t = cache_ready s"
  shows "\<exists>t. for_each f ys s = Done () t \<and> bufs t = fold lru_push ys (bufs s) \<and> cache_ready t = cache_ready s"
proof (induction ys arbitrary: s)
  case (Cons y ys)
  obtain u where u: "f y s = Done () u" "bufs u = lru_push y (bufs s)" "cache_ready u = cache_ready s"
    using assms by blast
  then show ?case using Cons.IH [of u] by (simp add: km_simps)
qed (simp add: km_simps)

lemma binit_eq:
  assumes "cpu_ok s"
  shows "\<exists>t. binit s = Done () t \<and> cache_ready t
    \<and> bufs t = fold lru_push [0..<NBUF] ((bufs s)(HEAD := (bufs s HEAD)\<lparr>b_prev := HEAD, b_next := HEAD\<rparr>))"
proof -
  let ?u = "s\<lparr>locks := (locks s)(BcacheLock := (locks s BcacheLock)\<lparr>sl_name := ''bcache'', sl_locked := 0, sl_cpu := None\<rparr>),
    bufs := (bufs s)(HEAD := (bufs s HEAD)\<lparr>b_prev := HEAD, b_next := HEAD\<rparr>)\<rparr>"
  have "\<exists>t. block [initsleeplock (SleepBuf b) ''buffer'', modify (\<lambda>s. s\<lparr>bufs := lru_push b (bufs s)\<rparr>)] v
      = Done () t \<and> bufs t = lru_push b (bufs v) \<and> cache_ready t = cache_ready v" for b and v :: "'a disks_scheme"
    by (simp add: km_simps initsleeplock_def initlock_def lock_update_def upd_sleeplk_def cache_ready_def
        cpu_ok_def lock_free_def intr_get_def r_sstatus_def r_csr_def)
  from pushing_rounds [OF this, of "[0..<NBUF]" ?u]
  obtain v where v: "for_each (\<lambda>b. block [initsleeplock (SleepBuf b) ''buffer'', modify (\<lambda>s. s\<lparr>bufs := lru_push b (bufs s)\<rparr>)])
      [0..<NBUF] ?u = Done () v" "bufs v = fold lru_push [0..<NBUF] (bufs ?u)" "cache_ready v = cache_ready ?u"
    by (elim exE conjE)
  have "binit s = Done () v"
    unfolding v(1) [symmetric] by (simp add: binit_def km_simps initlock_def lock_update_def upd_buf_def)
  moreover have "cache_ready ?u"
    using assms by (simp add: cache_ready_def cpu_ok_def lock_free_def intr_get_def r_sstatus_def r_csr_def)
  ultimately show ?thesis using v(2,3) by simp
qed

lemma binit_inv:
  assumes "zeroed (bufs s)" "cpu_ok s" "binit s = Done () t"
  shows "cache_ready t \<and> cache_inv (bufs t) (\<lambda>_. 0) (rev [0..<NBUF])" "zeroed (bufs t)"
proof -
  let ?bs = "(bufs s)(HEAD := (bufs s HEAD)\<lparr>b_prev := HEAD, b_next := HEAD\<rparr>)"
  have t: "cache_ready t" "bufs t = fold lru_push [0..<NBUF] ?bs"
    using binit_eq [OF assms(2)] assms(3) by auto
  have "lru_ring ?bs []" by (simp add: lru_ring_def circular_def node_upd)
  from ring_pushes [OF this order_refl]
  have r: "lru_ring (bufs t) (rev [0..<NBUF])" "\<And>b. key (bufs t b) = (0, 0, 0)"
    using t(2) assms(1) by (auto simp: zeroed_def)
  with t(1) show "cache_ready t \<and> cache_inv (bufs t) (\<lambda>_. 0) (rev [0..<NBUF])" "zeroed (bufs t)"
    by (auto simp: cache_inv_def one_buffer_per_block_def counts_def key_def zeroed_def)
qed

text \<open>Each operation keeps the invariant.\<close>

lemma find_in: "find P xs = Some x \<Longrightarrow> x \<in> set xs \<and> P x"
  by (auto simp: find_Some_iff)

lemma find_none: "find P xs = None \<Longrightarrow> x \<in> set xs \<Longrightarrow> \<not> P x"
  by (auto simp: find_None_iff)

text \<open>How \<open>chosen\<close> can come out.\<close>

lemma chosen_cases:
  assumes "chosen dev blockno xs bs = Some (b, x)"
  obtains (hit) "b \<in> set xs" "has_block bs dev blockno b" "x = (bs b)\<lparr>b_refcnt := b_refcnt (bs b) + 1\<rparr>"
  | (miss) "b \<in> set xs" "unused bs b" "\<And>c. c \<in> set xs \<Longrightarrow> \<not> has_block bs dev blockno c"
      "find (unused bs) (rev xs) = Some b"
      "x = (bs b)\<lparr>b_dev := dev, b_blockno := blockno, b_valid := False, b_refcnt := 1\<rparr>"
  using assms find_in [of "has_block bs dev blockno" xs] find_none [of "has_block bs dev blockno" xs]
    find_in [of "unused bs" "rev xs"]
  by (fastforce simp: chosen_def split: option.splits)

lemma counts_at: "counts bs n \<Longrightarrow> b < NBUF \<Longrightarrow> n b = unat (b_refcnt (bs b))"
  by (simp add: counts_def)

lemma counts_used: "counts bs n \<Longrightarrow> 0 < n b \<Longrightarrow> b < NBUF"
  by (metis counts_def not_less_zero)

lemma counts_upd:
  assumes "counts bs n" "b < NBUF" "unat (b_refcnt x) = k"
  shows "counts (bs(b := x)) (n(b := k))"
  using assms by (simp add: counts_def)

lemma ring_upd:
  assumes "lru_ring bs xs" "b_next x = b_next (bs b)" "b_prev x = b_prev (bs b)"
  shows "lru_ring (bs(b := x)) xs"
  by (rule ring_cong [OF assms(1)]) (simp add: assms(2,3))

lemma unat_up: "Suc (unat w) < 2 ^ 32 \<Longrightarrow> unat (w + 1 :: uint) = Suc (unat w)"
  by (simp add: unat_plus_if' unat_word_ariths)

lemma unat_down: "0 < unat w \<Longrightarrow> unat (w - 1 :: uint) = unat w - 1"
  by (metis unat_gt_0 unat_minus_one)

lemma refcnt_inv:
  assumes "cache_inv bs n xs" "b < NBUF" "unat r = k"
  shows "cache_inv (bs(b := (bs b)\<lparr>b_refcnt := r\<rparr>)) (n(b := k)) xs"
proof -
  let ?cs = "bs(b := (bs b)\<lparr>b_refcnt := r\<rparr>)"
  have "b_dev (?cs c) = b_dev (bs c)" "b_blockno (?cs c) = b_blockno (bs c)" for c by simp_all
  then have "one_buffer_per_block ?cs = one_buffer_per_block bs"
    by (simp only: one_buffer_per_block_def has_block_def)
  with assms show ?thesis by (simp add: cache_inv_def ring_upd counts_upd)
qed

lemma recycled_one_buffer:
  assumes "one_buffer_per_block bs" "\<And>c. c < NBUF \<Longrightarrow> \<not> has_block bs (b_dev x) (b_blockno x) c"
  shows "one_buffer_per_block (bs(b := x))"
  unfolding one_buffer_per_block_def
proof (intro allI impI)
  fix c d
  assume cd: "c < NBUF" "d < NBUF" "b_dev ((bs(b := x)) c) \<noteq> 0 \<and>
    has_block (bs(b := x)) (b_dev ((bs(b := x)) c)) (b_blockno ((bs(b := x)) c)) d"
  show "c = d"
  proof (cases "c = b \<or> d = b")
    case True
    then show ?thesis using cd assms(2) [of c] assms(2) [of d] by (auto simp: has_block_def split: if_splits)
  next
    case False
    then show ?thesis using cd assms(1) by (auto simp: one_buffer_per_block_def has_block_def)
  qed
qed

lemma cache_invD:
  assumes "cache_inv bs n xs"
  shows "lru_ring bs xs" "set xs = {..<NBUF}" "one_buffer_per_block bs" "counts bs n"
  using assms by (simp_all add: cache_inv_def)

lemma chosen_inv:
  assumes "cache_inv bs n xs" "chosen dev blockno xs bs = Some (b, x)" "Suc (n b) < 2 ^ 32"
  shows "cache_inv (bs(b := x)) (n(b := Suc (n b))) xs"
proof -
  note i = cache_invD [OF assms(1)]
  from assms(2) show ?thesis
  proof (cases rule: chosen_cases)
    case hit
    then have b: "b < NBUF" using i(2) by simp
    then have "unat (b_refcnt (bs b) + 1) = Suc (n b)" using assms(3) counts_at [OF i(4)] by (simp add: unat_up)
    with hit(3) b show ?thesis by (simp add: refcnt_inv [OF assms(1)])
  next
    case miss
    then have b: "b < NBUF" "n b = 0" using i(2) counts_at [OF i(4)] by (auto simp: unused_def)
    have "one_buffer_per_block (bs(b := x))"
      by (rule recycled_one_buffer [OF i(3)]) (use i(2) miss(3,5) in simp)
    with miss(5) b i show ?thesis by (simp add: cache_inv_def ring_upd counts_upd)
  qed
qed

lemma used_buffer:
  assumes "cache_inv bs n xs" "0 < n b"
  shows "b < NBUF" "unat (b_refcnt (bs b)) = n b"
  using counts_used [OF cache_invD(4) [OF assms(1)] assms(2)] counts_at [OF cache_invD(4) [OF assms(1)]]
  by simp_all

lemma pinned_inv:
  assumes "cache_inv bs n xs" "0 < n b" "Suc (n b) < 2 ^ 32"
  shows "cache_inv (pinned b bs) (n(b := Suc (n b))) xs"
  unfolding pinned_def
  by (rule refcnt_inv [OF assms(1)]) (use used_buffer [OF assms(1,2)] assms(3) in \<open>simp_all add: unat_up\<close>)

lemma dropped_inv:
  assumes "cache_inv bs n xs" "0 < n b"
  shows "cache_inv (dropped b bs) (n(b := n b - 1)) xs"
  unfolding dropped_def
  by (rule refcnt_inv [OF assms(1)]) (use used_buffer [OF assms] assms(2) in \<open>simp_all add: unat_down\<close>)

lemma last_reference:
  assumes "cache_inv bs n xs" "0 < n b"
  shows "b_refcnt (bs b) = 1 \<longleftrightarrow> n b = 1"
  using used_buffer(2) [OF assms] by (metis unat_1 word_unat_eq_iff)

lemma keys_inv:
  assumes "cache_inv bs n xs" "\<And>b. key (cs b) = key (bs b)" "lru_ring cs ys" "set ys = {..<NBUF}"
  shows "cache_inv cs n ys"
  using assms by (simp add: cache_inv_def one_buffer_per_block_def has_block_def counts_def key_fields)

lemma moved_inv:
  assumes "cache_inv bs n xs" "b < NBUF"
  shows "cache_inv (lru_push b (lru_unlink b bs)) n (b # remove1 b xs)"
proof (rule keys_inv [OF assms(1)])
  have i: "lru_ring bs xs" "set xs = {..<NBUF}" using assms(1) by (simp_all add: cache_inv_def)
  then show "lru_ring (lru_push b (lru_unlink b bs)) (b # remove1 b xs)" using assms(2) by (intro ring_move) auto
  show "set (b # remove1 b xs) = {..<NBUF}"
    using i(2) assms(2) ring_distinct [OF i(1)] by auto
qed simp

lemma cache_run_inv:
  assumes "cache_run s n xs"
  shows "cache_ready s \<and> cache_inv (bufs s) n xs"
  using assms
proof (induction rule: cache_run.induct)
  case (start s t)
  then show ?case by (rule binit_inv(1))
next
  case (get s n xs dev blockno b t)
  then have i: "cache_ready s" "cache_inv (bufs s) n xs" "lru_ring (bufs s) xs" by (simp_all add: cache_inv_def)
  with get(2) obtain x where c: "chosen dev blockno xs (bufs s) = Some (b, x)" "t = quiet (s\<lparr>bufs := (bufs s)(b := x)\<rparr>)"
    by (auto simp: bget_select_eq [OF i(1,3)] split: option.splits)
  from c(2) i(1) have t: "cache_ready t" "bufs t = (bufs s)(b := x)" by simp_all
  show ?case unfolding t(2) by (intro conjI t(1) chosen_inv [OF i(2) c(1) get(3)])
next
  case (pin s n xs b t)
  then have i: "cache_ready s" "cache_inv (bufs s) n xs" by simp_all
  with pin(3) have t: "cache_ready t" "bufs t = pinned b (bufs s)" by (auto simp: bpin_eq)
  show ?case unfolding t(2) by (intro conjI t(1) pinned_inv [OF i(2) pin(2,4)])
next
  case (put s n xs b t)
  then have i: "cache_ready s" "cache_inv (bufs s) n xs" "0 < n b" by simp_all
  note d = dropped_inv [OF i(2,3)]
  have "t = quiet (s\<lparr>bufs := if n b = 1 then lru_push b (lru_unlink b (dropped b (bufs s))) else dropped b (bufs s)\<rparr>)"
    using put(3) by (simp add: brelse_unref_eq [OF i(1)] last_reference [OF i(2,3)])
  then have t: "cache_ready t" "bufs t = (if n b = 1 then lru_push b (lru_unlink b (dropped b (bufs s))) else dropped b (bufs s))"
    using i(1) by simp_all
  show ?case
    unfolding t(2) using t(1) d moved_inv [OF d used_buffer(1) [OF i(2,3)]] by (cases "n b = 1") (simp_all only: if_True if_False simp_thms)
next
  case (unpin s n xs b t)
  then have i: "cache_ready s" "cache_inv (bufs s) n xs" by simp_all
  with unpin(3) have t: "cache_ready t" "bufs t = dropped b (bufs s)" by (auto simp: bunpin_eq)
  show ?case unfolding t(2) by (intro conjI t(1) dropped_inv [OF i(2) unpin(2)])
next
  case (other s n xs t)
  then have i: "cache_inv (bufs s) n xs" by simp
  have "lru_ring (bufs t) xs"
    using other(2) by (intro ring_cong [OF cache_invD(1) [OF i]]) (simp add: same_cache_def)
  then show ?case
    using other(2,3) keys_inv [OF i _ _ cache_invD(2) [OF i], of "bufs t"] by (simp add: same_cache_def)
qed

section \<open>Properties\<close>

text \<open>
  C30. From \<open>binit\<close> on, however the parts of \<open>bget\<close>, \<open>bpin\<close>, \<open>brelse\<close> and \<open>bunpin\<close> under
  \<open>bcache.lock\<close> follow each other with any other work of the kernel between them, the \<open>next\<close> and
  \<open>prev\<close> of the buffers form one circular list through the head that holds each of the \<open>NBUF\<close>
  buffers once, ordered from the most to the least recent last release; no block of a device has
  two buffers; and the count of each buffer is the number of references to it that are in use.
\<close>

theorem bcache_invariant:
  assumes "cache_run s n xs"
  shows "lru_ring (bufs s) xs \<and> distinct xs \<and> set xs = {..<NBUF} \<and> one_buffer_per_block (bufs s)
    \<and> (\<forall>b<NBUF. unat (b_refcnt (bufs s b)) = n b)"
proof -
  have i: "cache_inv (bufs s) n xs" using cache_run_inv [OF assms] by simp
  then show ?thesis
    using cache_invD [OF i] ring_distinct counts_at [of "bufs s" n] by auto
qed

lemma cache_starts: "\<exists>t. cache_run (t :: files) (\<lambda>_. 0) (rev [0..<NBUF]) \<and> zeroed (bufs t)"
proof -
  have z: "zeroed (bufs boot_files)" "cpu_ok boot_files" by (simp_all add: zeroed_def key_def free_buf_def)
  obtain t where "binit boot_files = Done () t" using binit_eq [OF z(2)] by blast
  then show ?thesis using cache_run.start [OF z] binit_inv(2) [OF z] by blast
qed

theorem bcache_invariant_witness:
  "\<exists>t xs. cache_run (t :: files) (\<lambda>_. 0) xs \<and> hd xs = 29 \<and> lru_ring (bufs t) xs \<and> one_buffer_per_block (bufs t)"
proof -
  obtain t :: files where "cache_run t (\<lambda>_. 0) (rev [0..<NBUF])" using cache_starts by blast
  moreover have "hd (rev [0..<NBUF]) = 29" by (simp add: NBUF_eq hd_rev)
  ultimately show ?thesis using bcache_invariant [of t "\<lambda>_. 0" "rev [0..<NBUF]"] by blast
qed

lemma only_buffer:
  assumes "one_buffer_per_block bs" "b < NBUF" "has_block bs dev blockno b" "dev \<noteq> 0"
    "c < NBUF" "has_block bs dev blockno c"
  shows "c = b"
  using assms by (auto simp: one_buffer_per_block_def has_block_def)

text \<open>
  C31. What \<open>bget\<close> does under \<open>bcache.lock\<close>: if a buffer has the block, it is returned with one more
  reference and its data as they are; otherwise the least recently released buffer that is not in use
  is recycled, marked as not read and with one reference, and no buffer in use ever is; it
  panics exactly when there is no such buffer. Afterwards the returned buffer is the only one for its block,
  and no other buffer has changed.
\<close>

theorem bget_outcomes:
  assumes "cache_run s n xs"
  shows "if \<exists>c<NBUF. n c = 0 \<or> has_block (bufs s) dev blockno c
    then \<exists>b t. bget_select dev blockno s = Done b t \<and> b < NBUF \<and> has_block (bufs t) dev blockno b
      \<and> (dev \<noteq> 0 \<longrightarrow> (\<forall>c<NBUF. has_block (bufs t) dev blockno c \<longrightarrow> c = b))
      \<and> (\<forall>c. c \<noteq> b \<longrightarrow> bufs t c = bufs s c)
      \<and> (if \<exists>c<NBUF. has_block (bufs s) dev blockno c
         then bufs t b = (bufs s b)\<lparr>b_refcnt := b_refcnt (bufs s b) + 1\<rparr>
         else find (\<lambda>c. n c = 0) (rev xs) = Some b \<and> b_refcnt (bufs t b) = 1 \<and> \<not> b_valid (bufs t b))
    else bget_select dev blockno s = Stop (Panic ''bget: no buffers'') (entered BcacheLock s)"
proof -
  have r: "cache_ready s" and i: "cache_inv (bufs s) n xs" using cache_run_inv [OF assms] by simp_all
  note d = cache_invD [OF i]
  have un: "unused (bufs s) c \<longleftrightarrow> n c = 0" if "c \<in> set xs" for c
    using that d(2) counts_at [OF d(4), of c] by (simp add: unused_def unat_eq_0)
  have fu: "find (unused (bufs s)) (rev xs) = find (\<lambda>c. n c = 0) (rev xs)"
    by (rule find_cong) (simp_all add: un)
  note sel = bget_select_eq [OF r d(1), of dev blockno]
  show ?thesis
  proof (cases "chosen dev blockno xs (bufs s)")
    case None
    then show ?thesis
      using sel un d(2) by (auto simp: chosen_def find_None_iff split: option.splits)
  next
    case (Some bx)
    obtain b x where bx: "chosen dev blockno xs (bufs s) = Some (b, x)" using Some by (cases bx) simp
    let ?t = "quiet (s\<lparr>bufs := (bufs s)(b := x)\<rparr>)"
    have run: "bget_select dev blockno s = Done b ?t" using sel bx by simp
    from bx show ?thesis
    proof (cases rule: chosen_cases)
      case hit
      have b: "b < NBUF" using hit(1) d(2) by simp
      have ex: "\<exists>c<NBUF. has_block (bufs s) dev blockno c" "\<exists>c<NBUF. n c = 0 \<or> has_block (bufs s) dev blockno c"
        using hit(2) b by blast+
      have h: "has_block (bufs ?t) dev blockno c = has_block (bufs s) dev blockno c" for c
        using hit(3) by (simp add: has_block_def)
      show ?thesis
        unfolding if_P [OF ex(1)] if_P [OF ex(2)]
        by (rule exI [of _ b], rule exI [of _ ?t], unfold h)
           (intro conjI run b hit(2) allI impI, erule (2) only_buffer [OF d(3) b hit(2)], simp_all add: hit(3))
    next
      case miss
      have b: "b < NBUF" "n b = 0" using miss(1,2) d(2) un by auto
      have ex: "\<not> (\<exists>c<NBUF. has_block (bufs s) dev blockno c)" "\<exists>c<NBUF. n c = 0 \<or> has_block (bufs s) dev blockno c"
        using miss(3) d(2) b by auto
      have h: "has_block (bufs ?t) dev blockno c = (c = b)" if "c < NBUF" for c
        using miss(3) [of c] miss(5) d(2) that by (simp add: has_block_def)
      show ?thesis
        unfolding if_not_P [OF ex(1)] if_P [OF ex(2)]
        by (rule exI [of _ b], rule exI [of _ ?t])
           (intro conjI run b(1) allI impI h [OF b(1), THEN iffD2] refl, erule (1) h [THEN iffD1],
            simp_all add: miss(5) miss(4) [unfolded fu])
    qed
  qed
qed

theorem bget_outcomes_witness:
  "\<exists>t u. cache_run (t :: files) (\<lambda>_. 0) (rev [0..<NBUF]) \<and> bget_select 1 5 t = Done 0 u
     \<and> has_block (bufs u) 1 5 0 \<and> b_refcnt (bufs u 0) = 1"
proof -
  obtain t :: files where t: "cache_run t (\<lambda>_. 0) (rev [0..<NBUF])" "zeroed (bufs t)" using cache_starts by blast
  then have no: "\<not> has_block (bufs t) 1 5 c" for c by (simp add: zeroed_def key_def has_block_def)
  have f: "find (\<lambda>c :: nat. (0 :: nat) = 0) (rev (rev [0..<NBUF])) = Some 0"
    by (simp add: NBUF_eq upt_rec)
  have ex: "\<exists>c<NBUF. (0 :: nat) = 0 \<or> has_block (bufs t) 1 5 c" "\<not> (\<exists>c<NBUF. has_block (bufs t) 1 5 c)"
    using no by (auto simp: NBUF_eq intro: exI [of _ 0])
  from bget_outcomes [OF t(1), of 1 5, unfolded if_P [OF ex(1)] if_not_P [OF ex(2)] f] t(1)
  show ?thesis by blast
qed

end
