(* ===== verification/Xv6_Ulib.thy ===== *)
theory Xv6_Ulib
  imports Xv6_Fs
begin

text \<open>
  What user programs are built on: the system calls as user.h declares them, and the library every
  program is linked with (user/ulib.c, user/printf.c).

  A program is a function on the state \<open>'w\<close> behind its system calls. The system calls are the fields
  of a record of type \<open>'w usys\<close>, an argument of every program. Strings and buffers that a call reads
  or fills are lists of characters. A call of \<open>read\<close> gives \<open>None\<close> for -1 and otherwise the bytes it
  has put into the buffer; \<open>fstat\<close>, \<open>pipe\<close> and \<open>pinfo\<close> give \<open>None\<close> when they fail and otherwise what
  they have stored. After \<open>fork\<close> both processes run on: a run of a program is a run of one of them,
  and the result of \<open>u_fork\<close> says of which.
\<close>

section \<open>System calls\<close>

record psinfo =
  ps_active :: "nat \<Rightarrow> int"
  ps_pid :: "nat \<Rightarrow> int"
  ps_states :: "nat \<Rightarrow> int"
  ps_num_used_pages :: "nat \<Rightarrow> int"
  ps_name :: "nat \<Rightarrow> string"

abbreviation (input) MAX_PS_PROC :: nat where "MAX_PS_PROC \<equiv> 64"

record 'w usys =
  u_fork :: "('w, int) km"
  u_wait :: "('w, int) km"
  u_pipe :: "('w, (int \<times> int) option) km"
  u_write :: "int \<Rightarrow> string \<Rightarrow> ('w, int) km"
  u_read :: "int \<Rightarrow> int \<Rightarrow> ('w, string option) km"
  u_close :: "int \<Rightarrow> ('w, int) km"
  u_kill :: "int \<Rightarrow> ('w, int) km"
  u_exec :: "string \<Rightarrow> string list \<Rightarrow> ('w, int) km"
  u_open :: "string \<Rightarrow> int \<Rightarrow> ('w, int) km"
  u_mknod :: "string \<Rightarrow> int \<Rightarrow> int \<Rightarrow> ('w, int) km"
  u_unlink :: "string \<Rightarrow> ('w, int) km"
  u_fstat :: "int \<Rightarrow> ('w, stat option) km"
  u_link :: "string \<Rightarrow> string \<Rightarrow> ('w, int) km"
  u_mkdir :: "string \<Rightarrow> ('w, int) km"
  u_chdir :: "string \<Rightarrow> ('w, int) km"
  u_dup :: "int \<Rightarrow> ('w, int) km"
  u_getpid :: "('w, int) km"
  u_sleep :: "int \<Rightarrow> ('w, int) km"
  u_trace :: "int \<Rightarrow> ('w, int) km"
  u_pinfo :: "('w, psinfo option) km"

definition exit_u :: "int \<Rightarrow> ('w, 'a) km" where
  [km_simps]: "exit_u status s = Stop (Exited status) s"

abbreviation (input) U_RDONLY :: int where "U_RDONLY \<equiv> 0x000"
abbreviation (input) U_WRONLY :: int where "U_WRONLY \<equiv> 0x001"
abbreviation (input) U_RDWR :: int where "U_RDWR \<equiv> 0x002"
abbreviation (input) U_CREATE :: int where "U_CREATE \<equiv> 0x200"
abbreviation (input) U_TRUNC :: int where "U_TRUNC \<equiv> 0x400"

section \<open>Strings and memory\<close>

text \<open>
  Routines that write work on memory, routines that only read on the bytes from their pointers
  on. A loop that looks for a terminator does not end when there is none: \<open>None\<close>.
\<close>

partial_function (option) strcpy_u :: "memory \<Rightarrow> addr \<Rightarrow> addr \<Rightarrow> memory option" where
  "strcpy_u m s t =
     (let m' = m(s := m t) in if m t \<noteq> 0 then strcpy_u m' (s + 1) (t + 1) else Some m')"

partial_function (option) strcmp_from :: "bytes_at \<Rightarrow> bytes_at \<Rightarrow> nat \<Rightarrow> int option" where
  "strcmp_from p q i =
     (if p i \<noteq> 0 \<and> p i = q i then strcmp_from p q (Suc i) else Some (uint (p i) - uint (q i)))"

definition strcmp_u :: "bytes_at \<Rightarrow> bytes_at \<Rightarrow> int option" where
  "strcmp_u p q = strcmp_from p q 0"

partial_function (option) strlen_u_from :: "bytes_at \<Rightarrow> nat \<Rightarrow> uint option" where
  "strlen_u_from s n = (if s n \<noteq> 0 then strlen_u_from s (Suc n) else Some (of_nat n))"

definition strlen_u :: "bytes_at \<Rightarrow> uint option" where
  "strlen_u s = strlen_u_from s 0"

definition memset_u :: "memory \<Rightarrow> addr \<Rightarrow> int \<Rightarrow> uint \<Rightarrow> memory" where
  "memset_u m dst c n = fold (\<lambda>i m. m(dst + of_nat i := word_of_int c)) [0..<unat n] m"

text \<open>The result is the offset of the character, \<open>None\<close> for the null pointer.\<close>

partial_function (option) strchr_from :: "bytes_at \<Rightarrow> byte \<Rightarrow> nat \<Rightarrow> nat option option" where
  "strchr_from s c i =
     (if s i = 0 then Some None else if s i = c then Some (Some i) else strchr_from s c (Suc i))"

definition strchr_u :: "bytes_at \<Rightarrow> byte \<Rightarrow> nat option option" where
  "strchr_u s c = strchr_from s c 0"

definition memmove_u :: "memory \<Rightarrow> addr \<Rightarrow> addr \<Rightarrow> int \<Rightarrow> memory" where
  "memmove_u m dst src n =
     (if src > dst then copy_up (nat n) m dst src
      else copy_down (nat n) m (dst + word_of_int n) (src + word_of_int n))"

primrec memcmp_u_loop :: "nat \<Rightarrow> bytes_at \<Rightarrow> bytes_at \<Rightarrow> nat \<Rightarrow> int" where
  "memcmp_u_loop 0 s1 s2 i = 0"
| "memcmp_u_loop (Suc n) s1 s2 i =
     (if s1 i \<noteq> s2 i then uint (s1 i) - uint (s2 i) else memcmp_u_loop n s1 s2 (Suc i))"

definition memcmp_u :: "bytes_at \<Rightarrow> bytes_at \<Rightarrow> uint \<Rightarrow> int" where
  "memcmp_u s1 s2 n = memcmp_u_loop (unat n) s1 s2 0"

definition memcpy_u :: "memory \<Rightarrow> addr \<Rightarrow> addr \<Rightarrow> uint \<Rightarrow> memory" where
  "memcpy_u m dst src n = memmove_u m dst src (sint n)"

text \<open>The value of a run of digits, in the 32 bits of an \<open>int\<close>.\<close>

fun atoi_loop :: "uint \<Rightarrow> string \<Rightarrow> uint" where
  "atoi_loop n [] = n"
| "atoi_loop n (c # s) =
     (if 48 \<le> (of_char c :: int) \<and> (of_char c :: int) \<le> 57 then atoi_loop (n * 10 + of_char c - 48) s else n)"

definition atoi_u :: "string \<Rightarrow> int" where
  "atoi_u s = sint (atoi_loop 0 s)"

text \<open>
  \<open>gets\<close> gives the characters it has stored, without the terminator behind them. At most
  one less than its limit many rounds are left when it starts.
\<close>

primrec gets_loop :: "'w usys \<Rightarrow> nat \<Rightarrow> string \<Rightarrow> ('w, string) km" where
  "gets_loop S 0 buf = ret buf"
| "gets_loop S (Suc k) buf =
     bind (u_read S 0 1) (\<lambda>r. case r of
       Some (c # _) \<Rightarrow>
         if c = CHR 0x0A \<or> c = CHR 0x0D then ret (buf @ [c]) else gets_loop S k (buf @ [c])
     | _ \<Rightarrow> ret buf)"

definition gets_u :: "'w usys \<Rightarrow> int \<Rightarrow> ('w, string) km" where
  "gets_u S n = gets_loop S (nat (n - 1)) []"

definition stat_u :: "'w usys \<Rightarrow> string \<Rightarrow> ('w, stat option) km" where
  "stat_u S n =
     bind (u_open S n U_RDONLY) (\<lambda>fd.
     if fd < 0 then ret None
     else bind (u_fstat S fd) (\<lambda>r. bind (u_close S fd) (\<lambda>_. ret r)))"

section \<open>Formatted output\<close>

definition digits_u :: "nat \<Rightarrow> char" where
  "digits_u i = ''0123456789ABCDEF'' ! i"

definition putc_u :: "'w usys \<Rightarrow> int \<Rightarrow> char \<Rightarrow> ('w, unit) km" where
  "putc_u S fd c = bind (u_write S fd [c]) (\<lambda>_. ret ())"

lemma unat_div_base:
  assumes "\<not> (x div base = 0 \<or> base < (2 :: uint))"
  shows "unat (x div base) < unat x"
proof -
  from assms have "2 \<le> unat base" and "unat (x div base) \<noteq> 0"
    by (auto simp: not_less word_le_nat_alt unat_eq_0)
  then have "1 < unat base" "unat x \<noteq> 0"
    by (auto simp: unat_div intro: gr0I)
  then show ?thesis by (simp add: unat_div)
qed

text \<open>The digits, least significant first; the base is 10 or 16 in every call.\<close>

function printint_u_buf :: "uint \<Rightarrow> uint \<Rightarrow> string" where
  "printint_u_buf x base =
     digits_u (unat (x mod base)) #
     (if x div base = 0 \<or> base < 2 then [] else printint_u_buf (x div base) base)"
  by auto
termination
  by (relation "measure (\<lambda>(x, _). unat x)") (simp_all add: unat_div_base)

declare printint_u_buf.simps [simp del]

definition printint_u_chars :: "int \<Rightarrow> uint \<Rightarrow> bool \<Rightarrow> string" where
  "printint_u_chars xx base sign =
     (if sign \<and> xx < 0 then rev (printint_u_buf (word_of_int (- xx)) base @ ''-'')
      else rev (printint_u_buf (word_of_int xx) base))"

definition printint_u :: "'w usys \<Rightarrow> int \<Rightarrow> int \<Rightarrow> uint \<Rightarrow> bool \<Rightarrow> ('w, unit) km" where
  "printint_u S fd xx base sign = for_each (putc_u S fd) (printint_u_chars xx base sign)"

primrec printptr_u_chars :: "nat \<Rightarrow> addr \<Rightarrow> string" where
  "printptr_u_chars 0 x = []"
| "printptr_u_chars (Suc n) x = digits_u (unat (drop_bit 60 x)) # printptr_u_chars n (push_bit 4 x)"

definition printptr_u :: "'w usys \<Rightarrow> int \<Rightarrow> addr \<Rightarrow> ('w, unit) km" where
  "printptr_u S fd x = for_each (putc_u S fd) (''0x'' @ printptr_u_chars 16 x)"

text \<open>
  A variadic argument is a 64-bit slot, or a pointer to a string (\<open>None\<close> for the null pointer). An
  \<open>int\<close> is the low half of its slot.
\<close>

datatype uarg = UWord addr | UStr "string option"

definition uint_arg :: "int \<Rightarrow> uarg" where
  "uint_arg i = UWord (word_of_int i)"

definition low_int :: "addr \<Rightarrow> int" where
  "low_int v = sint (ucast v :: uint)"

definition va_word :: "uarg list \<Rightarrow> ('w, addr \<times> uarg list) km" where
  "va_word ap = (case ap of UWord v # ap' \<Rightarrow> ret (v, ap') | _ \<Rightarrow> fault ''va_arg'')"

definition va_str :: "uarg list \<Rightarrow> ('w, string option \<times> uarg list) km" where
  "va_str ap = (case ap of UStr s # ap' \<Rightarrow> ret (s, ap') | _ \<Rightarrow> fault ''va_arg'')"

text \<open>One conversion; the result is the arguments that are left.\<close>

definition vprintf_conv :: "'w usys \<Rightarrow> int \<Rightarrow> char \<Rightarrow> uarg list \<Rightarrow> ('w, uarg list) km" where
  "vprintf_conv S fd c ap =
     (if c = CHR ''d'' then
        bind (va_word ap) (\<lambda>(v, ap'). bind (printint_u S fd (low_int v) 10 True) (\<lambda>_. ret ap'))
      else if c = CHR ''l'' then
        bind (va_word ap) (\<lambda>(v, ap'). bind (printint_u S fd (low_int v) 10 False) (\<lambda>_. ret ap'))
      else if c = CHR ''x'' then
        bind (va_word ap) (\<lambda>(v, ap'). bind (printint_u S fd (low_int v) 16 False) (\<lambda>_. ret ap'))
      else if c = CHR ''p'' then
        bind (va_word ap) (\<lambda>(v, ap'). bind (printptr_u S fd v) (\<lambda>_. ret ap'))
      else if c = CHR ''s'' then
        bind (va_str ap) (\<lambda>(s, ap').
          bind (for_each (putc_u S fd) (case s of None \<Rightarrow> ''(null)'' | Some t \<Rightarrow> t)) (\<lambda>_. ret ap'))
      else if c = CHR ''c'' then
        bind (va_word ap) (\<lambda>(v, ap'). bind (putc_u S fd (char_of (unat v))) (\<lambda>_. ret ap'))
      else if c = CHR ''%'' then bind (putc_u S fd c) (\<lambda>_. ret ap)
      else bind (putc_u S fd (CHR ''%'')) (\<lambda>_. bind (putc_u S fd c) (\<lambda>_. ret ap)))"

text \<open>The loop over the format; the flag is the \<open>state\<close> of the source.\<close>

primrec vprintf_loop :: "'w usys \<Rightarrow> int \<Rightarrow> string \<Rightarrow> bool \<Rightarrow> uarg list \<Rightarrow> ('w, unit) km" where
  "vprintf_loop S fd [] percent ap = ret ()"
| "vprintf_loop S fd (c # fmt) percent ap =
     (if percent then bind (vprintf_conv S fd c ap) (\<lambda>ap'. vprintf_loop S fd fmt False ap')
      else if c = CHR ''%'' then vprintf_loop S fd fmt True ap
      else bind (putc_u S fd c) (\<lambda>_. vprintf_loop S fd fmt False ap))"

definition vprintf_u :: "'w usys \<Rightarrow> int \<Rightarrow> string \<Rightarrow> uarg list \<Rightarrow> ('w, unit) km" where
  "vprintf_u S fd fmt ap = vprintf_loop S fd fmt False ap"

definition fprintf_u :: "'w usys \<Rightarrow> int \<Rightarrow> string \<Rightarrow> uarg list \<Rightarrow> ('w, unit) km" where
  "fprintf_u S fd fmt ap = vprintf_u S fd fmt ap"

definition printf_u :: "'w usys \<Rightarrow> string \<Rightarrow> uarg list \<Rightarrow> ('w, unit) km" where
  "printf_u S fmt ap = vprintf_u S 1 fmt ap"

section \<open>Files as programs see them\<close>

text \<open>
  What \<open>read\<close> and \<open>write\<close> promise on a file that is read to its end and on one that takes what is
  written: \<open>inp\<close> is the input that is left, \<open>out\<close> the output so far. A read delivers some of what is
  left, and nothing only at the end; a write appends all its bytes.
\<close>

definition delivers :: "'w usys \<Rightarrow> int \<Rightarrow> ('w \<Rightarrow> string) \<Rightarrow> ('w \<Rightarrow> string) \<Rightarrow> bool" where
  "delivers S fd inp out \<longleftrightarrow>
     (\<forall>s n. 0 < n \<longrightarrow> (\<exists>bs t. u_read S fd n s = Done (Some bs) t \<and> inp s = bs @ inp t
        \<and> int (length bs) \<le> n \<and> (bs = [] \<longrightarrow> inp s = []) \<and> out t = out s))"

definition appends :: "'w usys \<Rightarrow> int \<Rightarrow> ('w \<Rightarrow> string) \<Rightarrow> ('w \<Rightarrow> string) \<Rightarrow> bool" where
  "appends S fd inp out \<longleftrightarrow>
     (\<forall>s bs. \<exists>t. u_write S fd bs s = Done (int (length bs)) t \<and> inp t = inp s \<and> out t = out s @ bs)"

lemma deliversE:
  assumes "delivers S fd inp out" "0 < n"
  obtains bs t where "u_read S fd n s = Done (Some bs) t" "inp s = bs @ inp t" "int (length bs) \<le> n"
    "bs = [] \<Longrightarrow> inp s = []" "out t = out s"
  using assms unfolding delivers_def by meson

lemma appendsE:
  assumes "appends S fd inp out"
  obtains t where "u_write S fd bs s = Done (int (length bs)) t" "inp t = inp s" "out t = out s @ bs"
  using assms unfolding appends_def by meson

text \<open>Two files: the first has the input that is left, the second takes the output.\<close>

definition filter_read :: "int \<Rightarrow> int \<Rightarrow> (string \<times> string, string option) km" where
  "filter_read fd n w = (case w of (i, out) \<Rightarrow> Done (Some (take (nat n) i)) (drop (nat n) i, out))"

definition filter_write :: "int \<Rightarrow> string \<Rightarrow> (string \<times> string, int) km" where
  "filter_write fd bs w = (case w of (i, out) \<Rightarrow> Done (int (length bs)) (i, out @ bs))"

definition filter_sys :: "(string \<times> string) usys" where
  "filter_sys = \<lparr>u_fork = ret (-1), u_wait = ret (-1), u_pipe = ret None, u_write = filter_write,
     u_read = filter_read, u_close = (\<lambda>_. ret 0), u_kill = (\<lambda>_. ret (-1)), u_exec = (\<lambda>_ _. ret (-1)),
     u_open = (\<lambda>_ _. ret 3), u_mknod = (\<lambda>_ _ _. ret (-1)), u_unlink = (\<lambda>_. ret (-1)),
     u_fstat = (\<lambda>_. ret None), u_link = (\<lambda>_ _. ret (-1)), u_mkdir = (\<lambda>_. ret (-1)),
     u_chdir = (\<lambda>_. ret (-1)), u_dup = (\<lambda>_. ret (-1)), u_getpid = ret 1, u_sleep = (\<lambda>_. ret 0),
     u_trace = (\<lambda>_. ret 0), u_pinfo = ret None\<rparr>"

lemma filter_sys_ok: "delivers filter_sys fd fst snd" "appends filter_sys fd' fst snd"
  by (auto simp: delivers_def appends_def filter_sys_def filter_read_def filter_write_def)

end
