(* ===== verification/Xv6_Uprog.thy ===== *)
theory Xv6_Uprog
  imports Xv6_Ulib
begin

text \<open>
  The user programs: cat, wc, ls, ps, init, echo, kill, ln, mkdir, rm, sleep, trace, zombie,
  pingpong, stressfs and forktest. The arguments \<open>argv\<close> of \<open>main\<close> are a list, the name of the
  program first. A program ends with \<open>exit_u\<close>.
\<close>

section \<open>cat\<close>

definition cat :: "'w usys \<Rightarrow> int \<Rightarrow> ('w, unit) km" where
  "cat S fd =
     bind (loop (\<lambda>_.
       bind (u_read S fd 512) (\<lambda>r. case r of
         None \<Rightarrow> ret (Inr True)
       | Some [] \<Rightarrow> ret (Inr False)
       | Some bs \<Rightarrow>
           bind (u_write S 1 bs) (\<lambda>n.
           if n \<noteq> int (length bs)
           then bind (fprintf_u S 2 ''cat: write error\<newline>'' []) (\<lambda>_. exit_u 1)
           else ret (Inl ())))) ()) (\<lambda>failed.
     only_if failed (bind (fprintf_u S 2 ''cat: read error\<newline>'' []) (\<lambda>_. exit_u 1)))"

definition cat_file :: "'w usys \<Rightarrow> string \<Rightarrow> ('w, unit) km" where
  "cat_file S name =
     bind (u_open S name 0) (\<lambda>fd.
     if fd < 0 then bind (fprintf_u S 2 ''cat: cannot open %s\<newline>'' [UStr (Some name)]) (\<lambda>_. exit_u 1)
     else bind (cat S fd) (\<lambda>_. bind (u_close S fd) (\<lambda>_. ret ())))"

definition cat_main :: "'w usys \<Rightarrow> string list \<Rightarrow> ('w, unit) km" where
  "cat_main S argv =
     (if length argv \<le> 1 then bind (cat S 0) (\<lambda>_. exit_u 0)
      else bind (for_each (cat_file S) (tl argv)) (\<lambda>_. exit_u 0))"

section \<open>wc\<close>

text \<open>The counters of lines, words and characters, and whether the scan is inside a word.\<close>

type_synonym wc_state = "uint \<times> uint \<times> uint \<times> bool"

definition wc_space :: "char \<Rightarrow> bool" where
  "wc_space x \<longleftrightarrow> x \<in> set ('' '' @ [CHR 0x0D, CHR 0x09, CHR 0x0A, CHR 0x0B])"

fun wc_char :: "char \<Rightarrow> wc_state \<Rightarrow> wc_state" where
  "wc_char x (l, w, c, inword) =
     (let c = c + 1; l = (if x = CHR 0x0A then l + 1 else l)
      in if wc_space x then (l, w, c, False)
         else if \<not> inword then (l, w + 1, c, True)
         else (l, w, c, inword))"

definition wc :: "'w usys \<Rightarrow> int \<Rightarrow> string \<Rightarrow> ('w, unit) km" where
  "wc S fd name =
     bind (loop (\<lambda>k.
       bind (u_read S fd 512) (\<lambda>r. case r of
         None \<Rightarrow> ret (Inr None)
       | Some [] \<Rightarrow> ret (Inr (Some k))
       | Some bs \<Rightarrow> ret (Inl (fold wc_char bs k)))) (0, 0, 0, False)) (\<lambda>r.
     case r of
       None \<Rightarrow> bind (printf_u S ''wc: read error\<newline>'' []) (\<lambda>_. exit_u 1)
     | Some (l, w, c, _) \<Rightarrow>
         printf_u S ''%d %d %d %s\<newline>'' [UWord (scast l), UWord (scast w), UWord (scast c), UStr (Some name)])"

definition wc_file :: "'w usys \<Rightarrow> string \<Rightarrow> ('w, unit) km" where
  "wc_file S name =
     bind (u_open S name 0) (\<lambda>fd.
     if fd < 0 then bind (printf_u S ''wc: cannot open %s\<newline>'' [UStr (Some name)]) (\<lambda>_. exit_u 1)
     else bind (wc S fd name) (\<lambda>_. bind (u_close S fd) (\<lambda>_. ret ())))"

definition wc_main :: "'w usys \<Rightarrow> string list \<Rightarrow> ('w, unit) km" where
  "wc_main S argv =
     (if length argv \<le> 1 then bind (wc S 0 '''') (\<lambda>_. exit_u 0)
      else bind (for_each (wc_file S) (tl argv)) (\<lambda>_. exit_u 0))"

section \<open>ls\<close>

text \<open>The last component of a path, padded with blanks to the size of a directory entry's name.\<close>

definition fmtname :: "string \<Rightarrow> string" where
  "fmtname path =
     (let p = rev (takeWhile (\<lambda>c. c \<noteq> CHR ''/'') (rev path))
      in if length p \<ge> DIRSIZ then p else p @ replicate (DIRSIZ - length p) CHR '' '')"

text \<open>A directory entry as read: two bytes of inode number, then the name.\<close>

definition ls_inum :: "string \<Rightarrow> int" where
  "ls_inum de = of_char (de ! 0) + 256 * of_char (de ! 1)"

definition ls_name :: "string \<Rightarrow> string" where
  "ls_name de = takeWhile (\<lambda>c. c \<noteq> CHR 0x00) (take DIRSIZ (drop 2 de))"

definition ls_entry :: "'w usys \<Rightarrow> string \<Rightarrow> string \<Rightarrow> ('w, unit) km" where
  "ls_entry S path de =
     only_if (ls_inum de \<noteq> 0)
       (let buf = path @ ''/'' @ ls_name de in
        bind (stat_u S buf) (\<lambda>r. case r of
          None \<Rightarrow> printf_u S ''ls: cannot stat %s\<newline>'' [UStr (Some buf)]
        | Some st \<Rightarrow> printf_u S ''%s %d %d %d\<newline>''
            [UStr (Some (fmtname buf)), UWord (scast (st_type st)), UWord (ucast (st_ino st)), UWord (st_size st)]))"

definition ls_dir :: "'w usys \<Rightarrow> int \<Rightarrow> string \<Rightarrow> ('w, unit) km" where
  "ls_dir S fd path =
     (if length path + 1 + DIRSIZ + 1 > 512 then printf_u S ''ls: path too long\<newline>'' []
      else loop (\<lambda>_.
        bind (u_read S fd (int DIRENT_SIZE)) (\<lambda>r. case r of
          None \<Rightarrow> ret (Inr ())
        | Some de \<Rightarrow>
            if length de \<noteq> DIRENT_SIZE then ret (Inr ())
            else bind (ls_entry S path de) (\<lambda>_. ret (Inl ())))) ())"

definition ls :: "'w usys \<Rightarrow> string \<Rightarrow> ('w, unit) km" where
  "ls S path =
     bind (u_open S path 0) (\<lambda>fd.
     if fd < 0 then fprintf_u S 2 ''ls: cannot open %s\<newline>'' [UStr (Some path)]
     else bind (u_fstat S fd) (\<lambda>r. case r of
       None \<Rightarrow> bind (fprintf_u S 2 ''ls: cannot stat %s\<newline>'' [UStr (Some path)])
                 (\<lambda>_. bind (u_close S fd) (\<lambda>_. ret ()))
     | Some st \<Rightarrow>
         bind (if st_type st = T_FILE then printf_u S ''%s %d %d %l\<newline>''
                  [UStr (Some (fmtname path)), UWord (scast (st_type st)), UWord (ucast (st_ino st)), UWord (st_size st)]
               else if st_type st = T_DIR then ls_dir S fd path
               else ret ())
           (\<lambda>_. bind (u_close S fd) (\<lambda>_. ret ()))))"

definition ls_main :: "'w usys \<Rightarrow> string list \<Rightarrow> ('w, unit) km" where
  "ls_main S argv =
     (if length argv < 2 then bind (ls S ''.'') (\<lambda>_. exit_u 0)
      else bind (for_each (ls S) (tl argv)) (\<lambda>_. exit_u 0))"

section \<open>ps\<close>

definition ststr :: "int \<Rightarrow> string" where
  "ststr st =
     (if st = 0 then ''UNUSED'' else if st = 1 then ''USED'' else if st = 2 then ''SLEEPING''
      else if st = 3 then ''RUNNABLE'' else if st = 4 then ''RUNNING'' else if st = 5 then ''ZOMBIE''
      else ''UNKNOWN'')"

definition ps_line :: "'w usys \<Rightarrow> psinfo \<Rightarrow> nat \<Rightarrow> ('w, unit) km" where
  "ps_line S p i =
     only_if (ps_active p i \<noteq> 0)
       (printf_u S (''%d '' @ [CHR 0x09] @ '' %s '' @ [CHR 0x09] @ '' %d '' @ [CHR 0x09] @ '' %s\<newline>'')
         [uint_arg (ps_pid p i), UStr (Some (ststr (ps_states p i))), uint_arg (ps_num_used_pages p i),
          UStr (Some (ps_name p i))])"

definition ps_main :: "'w usys \<Rightarrow> string list \<Rightarrow> ('w, unit) km" where
  "ps_main S argv =
     bind (u_pinfo S) (\<lambda>r. case r of
       None \<Rightarrow> bind (fprintf_u S 2 ''%s: pinfo failed...\<newline>'' [UStr (Some (argv ! 0))]) (\<lambda>_. exit_u 1)
     | Some p \<Rightarrow> bind (block [
         printf_u S (''PID '' @ [CHR 0x09] @ '' STATE '' @ [CHR 0x09] @ '' USED PAGES '' @ [CHR 0x09] @ '' NAME\<newline>'') [],
         for_each (ps_line S p) [0..<MAX_PS_PROC]]) (\<lambda>_. exit_u 0))"

section \<open>init\<close>

text \<open>Waiting until the shell is the process that has exited.\<close>

definition init_wait :: "'w usys \<Rightarrow> int \<Rightarrow> ('w, unit) km" where
  "init_wait S pid =
     loop (\<lambda>_. bind (u_wait S) (\<lambda>wpid.
       if wpid = pid then ret (Inr ())
       else if wpid < 0 then bind (printf_u S ''init: wait returned an error\<newline>'' []) (\<lambda>_. exit_u 1)
       else ret (Inl ()))) ()"

definition init_round :: "'w usys \<Rightarrow> ('w, unit) km" where
  "init_round S =
     bind (printf_u S ''init: starting sh\<newline>'' []) (\<lambda>_.
     bind (u_fork S) (\<lambda>pid.
     if pid < 0 then bind (printf_u S ''init: fork failed\<newline>'' []) (\<lambda>_. exit_u 1)
     else if pid = 0 then
       bind (u_exec S ''sh'' [''sh'']) (\<lambda>_.
       bind (printf_u S ''init: exec sh failed\<newline>'' []) (\<lambda>_. exit_u 1))
     else init_wait S pid))"

definition init_main :: "'w usys \<Rightarrow> ('w, unit) km" where
  "init_main S =
     bind (u_open S ''console'' U_RDWR) (\<lambda>fd.
     bind (only_if (fd < 0)
       (bind (u_mknod S ''console'' 1 0) (\<lambda>_. bind (u_open S ''console'' U_RDWR) (\<lambda>_. ret ())))) (\<lambda>_.
     bind (u_dup S 0) (\<lambda>_. bind (u_dup S 0) (\<lambda>_.
     loop (\<lambda>_. bind (init_round S) (\<lambda>_. ret (Inl ()))) ()))))"

section \<open>Small programs\<close>

fun echo_args :: "'w usys \<Rightarrow> string list \<Rightarrow> ('w, unit) km" where
  "echo_args S [] = ret ()"
| "echo_args S (a # as) =
     bind (u_write S 1 a) (\<lambda>_.
     bind (u_write S 1 (if as \<noteq> [] then '' '' else ''\<newline>'')) (\<lambda>_.
     echo_args S as))"

definition echo_main :: "'w usys \<Rightarrow> string list \<Rightarrow> ('w, unit) km" where
  "echo_main S argv = bind (echo_args S (tl argv)) (\<lambda>_. exit_u 0)"

definition kill_main :: "'w usys \<Rightarrow> string list \<Rightarrow> ('w, unit) km" where
  "kill_main S argv =
     (if length argv < 2 then bind (fprintf_u S 2 ''usage: kill pid...\<newline>'' []) (\<lambda>_. exit_u 1)
      else bind (for_each (\<lambda>a. bind (u_kill S (atoi_u a)) (\<lambda>_. ret ())) (tl argv)) (\<lambda>_. exit_u 0))"

definition ln_main :: "'w usys \<Rightarrow> string list \<Rightarrow> ('w, unit) km" where
  "ln_main S argv =
     (if length argv \<noteq> 3 then bind (fprintf_u S 2 ''Usage: ln old new\<newline>'' []) (\<lambda>_. exit_u 1)
      else bind (u_link S (argv ! 1) (argv ! 2)) (\<lambda>r.
        bind (only_if (r < 0)
          (fprintf_u S 2 ''link %s %s: failed\<newline>'' [UStr (Some (argv ! 1)), UStr (Some (argv ! 2))])) (\<lambda>_.
        exit_u 0)))"

text \<open>A loop over the arguments that a failure ends.\<close>

definition each_file :: "(string \<Rightarrow> ('w, int) km) \<Rightarrow> (string \<Rightarrow> ('w, unit) km) \<Rightarrow> string list \<Rightarrow> ('w, unit) km" where
  "each_file call complain names =
     bind (scan (\<lambda>a. bind (call a) (\<lambda>r.
       if r < 0 then bind (complain a) (\<lambda>_. ret (Some ())) else ret None)) names) (\<lambda>_. ret ())"

definition mkdir_main :: "'w usys \<Rightarrow> string list \<Rightarrow> ('w, unit) km" where
  "mkdir_main S argv =
     (if length argv < 2 then bind (fprintf_u S 2 ''Usage: mkdir files...\<newline>'' []) (\<lambda>_. exit_u 1)
      else bind (each_file (u_mkdir S)
        (\<lambda>a. fprintf_u S 2 ''mkdir: %s failed to create\<newline>'' [UStr (Some a)]) (tl argv)) (\<lambda>_. exit_u 0))"

definition rm_main :: "'w usys \<Rightarrow> string list \<Rightarrow> ('w, unit) km" where
  "rm_main S argv =
     (if length argv < 2 then bind (fprintf_u S 2 ''Usage: rm files...\<newline>'' []) (\<lambda>_. exit_u 1)
      else bind (each_file (u_unlink S)
        (\<lambda>a. fprintf_u S 2 ''rm: %s failed to delete\<newline>'' [UStr (Some a)]) (tl argv)) (\<lambda>_. exit_u 0))"

definition sleep_main :: "'w usys \<Rightarrow> string list \<Rightarrow> ('w, unit) km" where
  "sleep_main S argv =
     (if length argv \<noteq> 2 then bind (printf_u S ''./sleep num\<newline>'' []) (\<lambda>_. exit_u 0)
      else bind (u_sleep S (atoi_u (argv ! 1))) (\<lambda>_. exit_u 0))"

text \<open>
  The array \<open>nargv\<close> has 32 elements on the stack and no terminator is stored behind the last
  argument; \<open>junk\<close> is the rest of the argument vector that \<open>exec\<close> finds there.
\<close>

definition trace_main :: "string list \<Rightarrow> 'w usys \<Rightarrow> string list \<Rightarrow> ('w, unit) km" where
  "trace_main junk S argv =
     (if length argv < 3 \<or> (case argv ! 1 of [] \<Rightarrow> True | c # _ \<Rightarrow> (of_char c :: int) < 48 \<or> (of_char c :: int) > 57)
      then bind (fprintf_u S 2 ''Usage: %s mask command\<newline>'' [UStr (Some (argv ! 0))]) (\<lambda>_. exit_u 1)
      else bind (u_trace S (atoi_u (argv ! 1))) (\<lambda>r.
        if r < 0 then bind (fprintf_u S 2 ''%s, trace failed\<newline>'' [UStr (Some (argv ! 0))]) (\<lambda>_. exit_u 1)
        else let nargv = take 30 (drop 2 argv) @ junk
             in bind (u_exec S (nargv ! 0) nargv) (\<lambda>_. exit_u 0)))"

definition zombie_main :: "'w usys \<Rightarrow> ('w, unit) km" where
  "zombie_main S =
     bind (u_fork S) (\<lambda>pid.
     bind (only_if (pid > 0) (bind (u_sleep S 5) (\<lambda>_. ret ()))) (\<lambda>_. exit_u 0))"

section \<open>pingpong\<close>

text \<open>
  The results of the calls are ignored. Without a pipe the two descriptors are what the stack
  holds, \<open>junk\<close>; the first two bytes of the buffer are what \<open>read\<close> has put there, and \<open>old\<close> before.
\<close>

definition first_two :: "string option \<Rightarrow> string \<Rightarrow> string" where
  "first_two r old = (let bs = (case r of None \<Rightarrow> [] | Some bs \<Rightarrow> bs) in take 2 (bs @ drop (length bs) old))"

definition pingpong_main :: "int \<times> int \<Rightarrow> string \<Rightarrow> 'w usys \<Rightarrow> ('w, unit) km" where
  "pingpong_main junk old S =
     bind (u_pipe S) (\<lambda>p.
     let (fd0, fd1) = (case p of None \<Rightarrow> junk | Some fds \<Rightarrow> fds) in
     bind (u_fork S) (\<lambda>pid.
     if pid = 0 then
       bind (u_read S fd0 512) (\<lambda>r.
       bind (u_close S fd0) (\<lambda>_.
       bind (u_getpid S) (\<lambda>me.
       bind (printf_u S ''%d: received ping\<newline>'' [uint_arg me]) (\<lambda>_.
       bind (u_write S fd1 (first_two r old)) (\<lambda>_.
       bind (u_close S fd1) (\<lambda>_. exit_u 0))))))
     else if pid > 0 then
       bind (u_write S fd1 ''a\<newline>'') (\<lambda>_.
       bind (u_close S fd1) (\<lambda>_.
       bind (u_wait S) (\<lambda>_.
       bind (u_read S fd0 512) (\<lambda>_.
       bind (u_getpid S) (\<lambda>me.
       bind (printf_u S ''%d: received pong\<newline>'' [uint_arg me]) (\<lambda>_.
       bind (u_close S fd0) (\<lambda>_. exit_u 0)))))))
     else exit_u 0))"

section \<open>stressfs and forktest\<close>

text \<open>The number of forks until this process is the parent of one.\<close>

definition stressfs_forks :: "'w usys \<Rightarrow> ('w, nat) km" where
  "stressfs_forks S =
     bind (scan (\<lambda>i. bind (u_fork S) (\<lambda>pid. ret (if pid > 0 then Some i else None))) [0..<4]) (\<lambda>r.
     ret (case r of None \<Rightarrow> 4 | Some i \<Rightarrow> i))"

definition stressfs_main :: "'w usys \<Rightarrow> ('w, unit) km" where
  "stressfs_main S =
     bind (printf_u S ''stressfs starting\<newline>'' []) (\<lambda>_.
     bind (stressfs_forks S) (\<lambda>i.
     bind (printf_u S ''write %d\<newline>'' [uint_arg (int i)]) (\<lambda>_.
     let path = ''stressfs'' @ [char_of (48 + i)] in
     bind (u_open S path (U_CREATE OR U_RDWR)) (\<lambda>fd.
     bind (for_each (\<lambda>_. bind (u_write S fd (replicate 512 (CHR ''a''))) (\<lambda>_. ret ())) [0..<20]) (\<lambda>_.
     bind (u_close S fd) (\<lambda>_.
     bind (printf_u S ''read\<newline>'' []) (\<lambda>_.
     bind (u_open S path U_RDONLY) (\<lambda>fd.
     bind (for_each (\<lambda>_. bind (u_read S fd 512) (\<lambda>_. ret ())) [0..<20]) (\<lambda>_.
     bind (u_close S fd) (\<lambda>_.
     bind (u_wait S) (\<lambda>_. exit_u 0)))))))))))"

definition print_u :: "'w usys \<Rightarrow> string \<Rightarrow> ('w, unit) km" where
  "print_u S s = bind (u_write S 1 s) (\<lambda>_. ret ())"

abbreviation (input) FORKTEST_N :: nat where "FORKTEST_N \<equiv> 1000"

text \<open>The number of children when the loop of forks ends.\<close>

definition forktest_forks :: "'w usys \<Rightarrow> ('w, nat) km" where
  "forktest_forks S =
     bind (scan (\<lambda>n. bind (u_fork S) (\<lambda>pid.
       if pid < 0 then ret (Some n) else if pid = 0 then exit_u 0 else ret None)) [0..<FORKTEST_N]) (\<lambda>r.
     ret (case r of None \<Rightarrow> FORKTEST_N | Some n \<Rightarrow> n))"

definition forktest :: "'w usys \<Rightarrow> ('w, unit) km" where
  "forktest S =
     bind (print_u S ''fork test\<newline>'') (\<lambda>_.
     bind (forktest_forks S) (\<lambda>n.
     if n = FORKTEST_N then bind (print_u S ''fork claimed to work N times!\<newline>'') (\<lambda>_. exit_u 1)
     else
       bind (for_each (\<lambda>_. bind (u_wait S) (\<lambda>r.
         if r < 0 then bind (print_u S ''wait stopped early\<newline>'') (\<lambda>_. exit_u 1) else ret ())) [0..<n]) (\<lambda>_.
       bind (u_wait S) (\<lambda>r.
       if r \<noteq> -1 then bind (print_u S ''wait got too many\<newline>'') (\<lambda>_. exit_u 1)
       else print_u S ''fork test OK\<newline>''))))"

definition forktest_main :: "'w usys \<Rightarrow> ('w, unit) km" where
  "forktest_main S = bind (forktest S) (\<lambda>_. exit_u 0)"

end
