(* ===== verification/Xv6_Grep.thy ===== *)
theory Xv6_Grep
  imports Xv6_Ulib
begin

text \<open>
  grep (user/grep.c): the matcher, the loop over the buffer, and \<open>main\<close>. A C string is the list of its
  characters before the terminator. The matcher is related to the language its pattern denotes, and
  the program to the lines of its input.
\<close>

section \<open>The program\<close>

fun matchhere :: "string \<Rightarrow> string \<Rightarrow> bool"
and matchstar :: "char \<Rightarrow> string \<Rightarrow> string \<Rightarrow> bool" where
  "matchhere [] tx = True"
| "matchhere [c] tx =
     (if c = CHR ''$'' then tx = []
      else case tx of [] \<Rightarrow> False | t # ts \<Rightarrow> if c = CHR ''.'' \<or> c = t then matchhere [] ts else False)"
| "matchhere (c # d # re) tx =
     (if d = CHR ''*'' then matchstar c re tx
      else case tx of [] \<Rightarrow> False | t # ts \<Rightarrow> if c = CHR ''.'' \<or> c = t then matchhere (d # re) ts else False)"
| "matchstar c re tx =
     (if matchhere re tx then True
      else case tx of [] \<Rightarrow> False
           | t # ts \<Rightarrow> if t = c \<or> c = CHR ''.'' then matchstar c re ts else False)"

fun match_from :: "string \<Rightarrow> string \<Rightarrow> bool" where
  "match_from re tx =
     (if matchhere re tx then True else case tx of [] \<Rightarrow> False | t # ts \<Rightarrow> match_from re ts)"

definition match :: "string \<Rightarrow> string \<Rightarrow> bool" where
  "match re tx =
     (case re of c # re' \<Rightarrow> if c = CHR ''^'' then matchhere re' tx else match_from re tx
      | [] \<Rightarrow> match_from re tx)"

text \<open>
  \<open>strchr(p, '\n')\<close> splits the buffer: the line before the newline and what follows it. It finds
  nothing behind a terminator.
\<close>

definition cut_line :: "string \<Rightarrow> (string \<times> string) option" where
  "cut_line p =
     (let i = length (takeWhile (\<lambda>c. c \<noteq> CHR 0x0A \<and> c \<noteq> CHR 0x00) p)
      in if i < length p \<and> p ! i = CHR 0x0A then Some (take i p, drop (Suc i) p) else None)"

lemma cut_line_shorter: "cut_line p = Some (line, rest) \<Longrightarrow> length rest < length p"
  by (auto simp: cut_line_def Let_def split: if_splits)

text \<open>The inner loop over the lines of the buffer; the result is what stays in the buffer.\<close>

function grep_lines :: "'w usys \<Rightarrow> string \<Rightarrow> string \<Rightarrow> ('w, string) km" where
  "grep_lines S pattern p =
     (case cut_line p of
        None \<Rightarrow> ret p
      | Some (line, rest) \<Rightarrow>
          bind (only_if (match pattern line) (bind (u_write S 1 (line @ [CHR 0x0A])) (\<lambda>_. ret ())))
            (\<lambda>_. grep_lines S pattern rest))"
  by auto
termination
  by (relation "measure (\<lambda>(S, pattern, p). length p)") (auto dest: cut_line_shorter)

declare matchstar.simps [simp del] match_from.simps [simp del] grep_lines.simps [simp del]

text \<open>The buffer has 1024 bytes; the loop variable is its content, \<open>m\<close> bytes.\<close>

definition grep :: "'w usys \<Rightarrow> string \<Rightarrow> int \<Rightarrow> ('w, unit) km" where
  "grep S pattern fd =
     loop (\<lambda>buf.
       bind (u_read S fd (1024 - int (length buf) - 1)) (\<lambda>r. case r of
         None \<Rightarrow> ret (Inr ())
       | Some [] \<Rightarrow> ret (Inr ())
       | Some bs \<Rightarrow> bind (grep_lines S pattern (buf @ bs)) (\<lambda>rest. ret (Inl rest)))) []"

definition grep_file :: "'w usys \<Rightarrow> string \<Rightarrow> string \<Rightarrow> ('w, unit) km" where
  "grep_file S pattern name =
     bind (u_open S name 0) (\<lambda>fd.
     if fd < 0 then bind (printf_u S ''grep: cannot open %s\<newline>'' [UStr (Some name)]) (\<lambda>_. exit_u 1)
     else bind (grep S pattern fd) (\<lambda>_. bind (u_close S fd) (\<lambda>_. ret ())))"

definition grep_main :: "'w usys \<Rightarrow> string list \<Rightarrow> ('w, unit) km" where
  "grep_main S argv =
     (if length argv \<le> 1 then bind (fprintf_u S 2 ''usage: grep pattern [file ...]\<newline>'' []) (\<lambda>_. exit_u 1)
      else if length argv \<le> 2 then bind (grep S (argv ! 1) 0) (\<lambda>_. exit_u 0)
      else bind (for_each (grep_file S (argv ! 1)) (drop 2 argv)) (\<lambda>_. exit_u 0))"

section \<open>The language of a pattern\<close>

text \<open>
  A pattern is a sequence of items, a character class once or any number of times, perhaps tied
  to the end of the text. A dot is the class of all characters.
\<close>

datatype item = Once char | Many char

definition in_class :: "char \<Rightarrow> char \<Rightarrow> bool" where
  "in_class c x \<longleftrightarrow> c = CHR ''.'' \<or> c = x"

fun items :: "string \<Rightarrow> item list \<times> bool" where
  "items [] = ([], False)"
| "items [c] = (if c = CHR ''$'' then ([], True) else ([Once c], False))"
| "items (c # d # re) =
     (if d = CHR ''*'' then (case items re of (is, e) \<Rightarrow> (Many c # is, e))
      else case items (d # re) of (is, e) \<Rightarrow> (Once c # is, e))"

fun lang :: "item list \<Rightarrow> string set" where
  "lang [] = {[]}"
| "lang (Once c # is) = {x # v |x v. in_class c x \<and> v \<in> lang is}"
| "lang (Many c # is) = {u @ v |u v. (\<forall>x\<in>set u. in_class c x) \<and> v \<in> lang is}"

definition prefix_matches :: "string \<Rightarrow> string \<Rightarrow> bool" where
  "prefix_matches re tx \<longleftrightarrow>
     (\<exists>v w. tx = v @ w \<and> v \<in> lang (fst (items re)) \<and> (snd (items re) \<longrightarrow> w = []))"

lemma prefix_matches_Nil: "prefix_matches [] tx"
  by (simp add: prefix_matches_def)

lemma ex_once: "(\<exists>v w. tx = v @ w \<and> v \<in> {x # v |x v. P x \<and> v \<in> L} \<and> Q w) \<longleftrightarrow>
    (\<exists>t ts. tx = t # ts \<and> P t \<and> (\<exists>v w. ts = v @ w \<and> v \<in> L \<and> Q w))" (is "?l \<longleftrightarrow> ?r")
proof
  assume ?l
  then obtain t v w where "tx = t # (v @ w)" "P t" "v \<in> L" "Q w" by auto
  then show ?r by blast
next
  assume ?r
  then obtain t v w where "tx = (t # v) @ w" "P t" "v \<in> L" "Q w" by auto
  then show ?l by blast
qed

lemma ex_many: "(\<exists>v w. tx = v @ w \<and> v \<in> {u @ v |u v. P u \<and> v \<in> L} \<and> Q w) \<longleftrightarrow>
    (\<exists>u ts. tx = u @ ts \<and> P u \<and> (\<exists>v w. ts = v @ w \<and> v \<in> L \<and> Q w))" (is "?l \<longleftrightarrow> ?r")
proof
  assume ?l
  then obtain u v w where "tx = u @ (v @ w)" "P u" "v \<in> L" "Q w" by auto
  then show ?r by blast
next
  assume ?r
  then obtain u v w where "tx = (u @ v) @ w" "P u" "v \<in> L" "Q w" by auto
  then show ?l by blast
qed

lemma prefix_matches_last: "prefix_matches [c] tx \<longleftrightarrow>
    (if c = CHR ''$'' then tx = [] else \<exists>t ts. tx = t # ts \<and> in_class c t)"
  using ex_once [of tx "in_class c" "{[]}" "\<lambda>_. True"] by (simp add: prefix_matches_def)

lemma items_once: "d \<noteq> CHR ''*'' \<Longrightarrow>
    items (c # d # re) = (Once c # fst (items (d # re)), snd (items (d # re)))"
  by (simp split: prod.split)

lemma items_many: "items (c # CHR ''*'' # re) = (Many c # fst (items re), snd (items re))"
  by (simp split: prod.split)

lemma prefix_matches_once:
  assumes "d \<noteq> CHR ''*''"
  shows "prefix_matches (c # d # re) tx \<longleftrightarrow>
    (\<exists>t ts. tx = t # ts \<and> in_class c t \<and> prefix_matches (d # re) ts)"
  unfolding prefix_matches_def items_once [OF assms] fst_conv snd_conv lang.simps by (rule ex_once)

lemma prefix_matches_many: "prefix_matches (c # CHR ''*'' # re) tx \<longleftrightarrow>
    (\<exists>u ts. tx = u @ ts \<and> (\<forall>x\<in>set u. in_class c x) \<and> prefix_matches re ts)"
  unfolding prefix_matches_def items_many fst_conv snd_conv lang.simps by (rule ex_many)

lemma prefix_matches_many_unfold: "prefix_matches (c # CHR ''*'' # re) tx \<longleftrightarrow>
    prefix_matches re tx \<or> (\<exists>t ts. tx = t # ts \<and> in_class c t \<and> prefix_matches (c # CHR ''*'' # re) ts)"
  (is "?l \<longleftrightarrow> ?r")
proof
  assume ?l
  then obtain u ts where u: "tx = u @ ts" "\<forall>x\<in>set u. in_class c x" "prefix_matches re ts"
    unfolding prefix_matches_many by blast
  then show ?r by (cases u) (auto simp: prefix_matches_many)
next
  assume ?r
  then show ?l
  proof
    assume "prefix_matches re tx"
    then show ?l unfolding prefix_matches_many by (intro exI [of _ "[]"] exI [of _ tx]) auto
  next
    assume "\<exists>t ts. tx = t # ts \<and> in_class c t \<and> prefix_matches (c # CHR ''*'' # re) ts"
    then obtain t u ts where "tx = t # u @ ts" "in_class c t" "\<forall>x\<in>set u. in_class c x" "prefix_matches re ts"
      unfolding prefix_matches_many by blast
    then show ?l unfolding prefix_matches_many by (intro exI [of _ "t # u"] exI [of _ ts]) auto
  qed
qed

lemma matchhere_prefix:
  "matchhere re tx \<longleftrightarrow> prefix_matches re tx"
  "matchstar c re tx \<longleftrightarrow> prefix_matches (c # CHR ''*'' # re) tx"
proof (induction re tx and c re tx rule: matchhere_matchstar.induct)
  case (4 c re tx)
  show ?case
  proof (cases "matchhere re tx")
    case True
    with 4(1) show ?thesis by (simp add: matchstar.simps prefix_matches_many_unfold [of c re tx])
  next
    case False
    with 4 show ?thesis
      by (subst matchstar.simps, subst prefix_matches_many_unfold) (auto simp: in_class_def split: list.split)
  qed
qed (auto simp: prefix_matches_Nil prefix_matches_last prefix_matches_once in_class_def
    split: list.split if_split)

definition occurs :: "string \<Rightarrow> string \<Rightarrow> bool" where
  "occurs re tx \<longleftrightarrow>
     (let start = (re \<noteq> [] \<and> hd re = CHR ''^''); (is, stop) = items (if start then tl re else re)
      in \<exists>u v w. tx = u @ v @ w \<and> v \<in> lang is \<and> (start \<longrightarrow> u = []) \<and> (stop \<longrightarrow> w = []))"

lemma match_from_suffix: "match_from re tx \<longleftrightarrow> (\<exists>u ts. tx = u @ ts \<and> prefix_matches re ts)"
proof (induction tx)
  case (Cons t tx)
  show ?case
    by (subst match_from.simps) (auto simp: matchhere_prefix Cons Cons_eq_append_conv)
qed (subst match_from.simps, simp add: matchhere_prefix)

lemma match_occurs: "match re tx \<longleftrightarrow> occurs re tx"
proof (cases "re \<noteq> [] \<and> hd re = CHR ''^''")
  case True
  then obtain re' where "re = CHR ''^'' # re'" by (cases re) auto
  then show ?thesis
    by (auto simp: match_def occurs_def matchhere_prefix prefix_matches_def split: prod.splits)
next
  case False
  then have "match re tx = match_from re tx" by (auto simp: match_def split: list.split)
  with False show ?thesis
    by (auto simp: occurs_def match_from_suffix prefix_matches_def Let_def split: prod.splits) blast+
qed

text \<open>
  C34. The matcher decides the language of its pattern: \<open>match\<close> returns true exactly when the text has a
  part that the pattern denotes, at the start if the pattern begins with \<open>^\<close>, at the end if it ends
  with \<open>$\<close>; \<open>c*\<close> is any number of \<open>c\<close> and a dot any character. It returns for every pattern and text.
\<close>

theorem match_decides_language: "match re tx \<longleftrightarrow> occurs re tx"
  by (rule match_occurs)

section \<open>Lines\<close>

text \<open>
  The complete lines of an input of which \<open>acc\<close> has been seen, the incomplete line at its end, and
  that no line is longer than the buffer.
\<close>

fun complete_lines :: "string \<Rightarrow> string \<Rightarrow> string list" where
  "complete_lines acc [] = []"
| "complete_lines acc (c # xs) =
     (if c = CHR 0x0A then acc # complete_lines [] xs else complete_lines (acc @ [c]) xs)"

fun partial_line :: "string \<Rightarrow> string \<Rightarrow> string" where
  "partial_line acc [] = acc"
| "partial_line acc (c # xs) = (if c = CHR 0x0A then partial_line [] xs else partial_line (acc @ [c]) xs)"

fun short_lines :: "nat \<Rightarrow> string \<Rightarrow> bool" where
  "short_lines n [] \<longleftrightarrow> n \<le> 1022"
| "short_lines n (c # xs) \<longleftrightarrow> n \<le> 1022 \<and> short_lines (if c = CHR 0x0A then 0 else Suc n) xs"

lemma complete_lines_append:
  "complete_lines acc (xs @ ys) = complete_lines acc xs @ complete_lines (partial_line acc xs) ys"
  by (induction acc xs rule: complete_lines.induct) simp_all

lemma short_lines_append: "short_lines (length acc) (xs @ ys) \<Longrightarrow> short_lines (length (partial_line acc xs)) ys"
proof (induction acc xs rule: partial_line.induct)
  case (2 acc c xs)
  then show ?case by (cases "c = CHR 0x0A") simp_all
qed simp

lemma short_lines_le: "short_lines n xs \<Longrightarrow> n \<le> 1022"
  by (cases xs) auto

lemma lines_within:
  assumes "CHR 0x0A \<notin> set xs"
  shows "complete_lines acc (xs @ ys) = complete_lines (acc @ xs) ys"
    "partial_line acc (xs @ ys) = partial_line (acc @ xs) ys"
  using assms by (induction xs arbitrary: acc) auto

lemma partial_line_no_newline: "CHR 0x0A \<notin> set acc \<Longrightarrow> CHR 0x0A \<notin> set (partial_line acc xs)"
  by (induction acc xs rule: partial_line.induct) auto

lemma set_partial_line: "set (partial_line acc xs) \<subseteq> set acc \<union> set xs"
  by (induction acc xs rule: partial_line.induct) auto

lemma takeWhile_shorter: "x \<in> set p \<Longrightarrow> \<not> P x \<Longrightarrow> length (takeWhile P p) < length p"
  by (induction p) auto

lemma cut_line_None:
  assumes "cut_line p = None" "CHR 0x00 \<notin> set p"
  shows "CHR 0x0A \<notin> set p"
proof
  let ?t = "takeWhile (\<lambda>c. c \<noteq> CHR 0x0A \<and> c \<noteq> CHR 0x00) p"
  assume "CHR 0x0A \<in> set p"
  then have i: "length ?t < length p" by (rule takeWhile_shorter) simp
  then have "\<not> (p ! length ?t \<noteq> CHR 0x0A \<and> p ! length ?t \<noteq> CHR 0x00)" by (rule nth_length_takeWhile)
  moreover have "p ! length ?t \<noteq> CHR 0x00" using assms(2) nth_mem [OF i] by metis
  ultimately show False using assms(1) i by (auto simp: cut_line_def Let_def split: if_splits)
qed

lemma cut_line_Some:
  assumes "cut_line p = Some (line, rest)"
  shows "p = line @ CHR 0x0A # rest" "CHR 0x0A \<notin> set line"
proof -
  let ?t = "takeWhile (\<lambda>c. c \<noteq> CHR 0x0A \<and> c \<noteq> CHR 0x00) p"
  from assms have i: "length ?t < length p" "p ! length ?t = CHR 0x0A" and
    l: "line = take (length ?t) p" "rest = drop (Suc (length ?t)) p"
    by (auto simp: cut_line_def Let_def split: if_splits)
  show "p = line @ CHR 0x0A # rest" using id_take_nth_drop [OF i(1)] i(2) l by simp
  have "line = ?t" by (simp add: l(1) takeWhile_eq_take [symmetric])
  then show "CHR 0x0A \<notin> set line" by (auto dest: set_takeWhileD)
qed

definition shown :: "string \<Rightarrow> string list \<Rightarrow> string" where
  "shown pattern ls = concat (map (\<lambda>l. l @ [CHR 0x0A]) (filter (occurs pattern) ls))"

lemma grep_lines_eq:
  assumes w: "appends S 1 inp out" and "CHR 0x00 \<notin> set p"
  shows "\<exists>t. grep_lines S pattern p s = Done (partial_line [] p) t \<and> inp t = inp s
    \<and> out t = out s @ shown pattern (complete_lines [] p)"
  using assms(2)
proof (induction p arbitrary: s rule: length_induct)
  case (1 p)
  show ?case
  proof (cases "cut_line p")
    case None
    have "CHR 0x0A \<notin> set p" by (rule cut_line_None [OF None 1(2)])
    then show ?thesis
      using lines_within [of p "[]" "[]"] None by (simp add: grep_lines.simps ret_def shown_def)
  next
    case (Some lr)
    obtain line rest where lr: "lr = (line, rest)" by (cases lr)
    note cut = cut_line_Some [OF Some [unfolded lr]]
    let ?show = "only_if (match pattern line) (bind (u_write S 1 (line @ [CHR 0x0A])) (\<lambda>_. ret ()))"
    obtain t where t: "?show s = Done () t" "inp t = inp s" "out t = out s @ shown pattern [line]"
    proof (cases "occurs pattern line")
      case True
      from w obtain t where "u_write S 1 (line @ [CHR 0x0A]) s = Done (int (length (line @ [CHR 0x0A]))) t"
        "inp t = inp s" "out t = out s @ line @ [CHR 0x0A]" by (rule appendsE)
      with True show ?thesis by (intro that [of t]) (simp_all add: only_if_def match_occurs ret_def shown_def)
    next
      case False
      then show ?thesis by (intro that [of s]) (simp_all add: only_if_def match_occurs ret_def shown_def)
    qed
    have "length rest < length p" "CHR 0x00 \<notin> set rest" using 1(2) cut(1) by simp_all
    with 1(1) obtain u where u: "grep_lines S pattern rest t = Done (partial_line [] rest) u"
      "inp u = inp t" "out u = out t @ shown pattern (complete_lines [] rest)" by blast
    have "complete_lines [] p = line # complete_lines [] rest" "partial_line [] p = partial_line [] rest"
      using cut lines_within [of line "[]" "CHR 0x0A # rest"] by simp_all
    with t u show ?thesis
      by (subst grep_lines.simps) (auto simp: Some lr shown_def)
  qed
qed

lemma grep_loop:
  assumes r: "delivers S fd inp out" and w: "appends S 1 inp out"
    and "CHR 0x00 \<notin> set (buf @ inp s)" "CHR 0x0A \<notin> set buf" "short_lines (length buf) (inp s)"
  shows "\<exists>t. loop (\<lambda>buf.
       bind (u_read S fd (1024 - int (length buf) - 1)) (\<lambda>r. case r of
         None \<Rightarrow> ret (Inr ())
       | Some [] \<Rightarrow> ret (Inr ())
       | Some bs \<Rightarrow> bind (grep_lines S pattern (buf @ bs)) (\<lambda>rest. ret (Inl rest)))) buf s = Done () t
     \<and> inp t = [] \<and> out t = out s @ shown pattern (complete_lines buf (inp s))"
  using assms(3-)
proof (induction "inp s" arbitrary: s buf rule: length_induct)
  case 1
  have "0 < 1024 - int (length buf) - 1" using short_lines_le [OF 1(4)] by simp
  with r obtain bs u where u: "u_read S fd (1024 - int (length buf) - 1) s = Done (Some bs) u"
    "inp s = bs @ inp u" "bs = [] \<Longrightarrow> inp s = []" "out u = out s"
    by (rule deliversE [of S fd inp out _ s]) blast
  show ?case
  proof (cases "bs = []")
    case True
    with u show ?thesis by (subst loop_unfold) (simp add: ret_def shown_def)
  next
    case False
    then obtain b bs' where bs: "bs = b # bs'" by (cases bs) auto
    have "CHR 0x00 \<notin> set (buf @ bs)" using 1(2) u(2) by auto
    from grep_lines_eq [OF w this, of pattern u] obtain v where
      v: "grep_lines S pattern (buf @ bs) u = Done (partial_line buf bs) v" "inp v = inp u"
      "out v = out u @ shown pattern (complete_lines buf bs)"
      using lines_within [OF 1(3), of "[]" bs] by auto
    have "\<exists>t. loop (\<lambda>buf.
         bind (u_read S fd (1024 - int (length buf) - 1)) (\<lambda>r. case r of
           None \<Rightarrow> ret (Inr ())
         | Some [] \<Rightarrow> ret (Inr ())
         | Some bs \<Rightarrow> bind (grep_lines S pattern (buf @ bs)) (\<lambda>rest. ret (Inl rest)))) (partial_line buf bs) v = Done () t
       \<and> inp t = [] \<and> out t = out v @ shown pattern (complete_lines (partial_line buf bs) (inp v))"
    proof (rule 1(1) [rule_format, OF _ refl])
      show "length (inp v) < length (inp s)" using u(2) v(2) bs by simp
      show "CHR 0x00 \<notin> set (partial_line buf bs @ inp v)"
        using 1(2) u(2) v(2) set_partial_line [of buf bs] by auto
      show "CHR 0x0A \<notin> set (partial_line buf bs)" by (rule partial_line_no_newline [OF 1(3)])
      show "short_lines (length (partial_line buf bs)) (inp v)"
        using short_lines_append [of buf bs "inp u"] 1(4) u(2) v(2) by simp
    qed
    with u v bs show ?thesis
      by (subst loop_unfold) (auto simp: ret_def complete_lines_append shown_def)
  qed
qed

text \<open>
  C35. grep prints exactly the lines that contain what the pattern denotes, in order, however the
  reads cut its input into pieces, and it returns: for an input without zero bytes whose lines fit
  the buffer. The last line counts only when it ends with a newline.
\<close>

theorem grep_prints_matching_lines:
  assumes "delivers S fd inp out" "appends S 1 inp out"
    and "CHR 0x00 \<notin> set (inp s)" "short_lines 0 (inp s)"
  shows "\<exists>t. grep S pattern fd s = Done () t \<and> inp t = [] \<and>
    out t = out s @ concat (map (\<lambda>l. l @ [CHR 0x0A]) (filter (occurs pattern) (complete_lines [] (inp s))))"
  using grep_loop [OF assms(1,2), of "[]" s pattern] assms(3,4) by (simp add: grep_def shown_def)

theorem grep_prints_matching_lines_witness:
  "\<exists>t. grep filter_sys ''b*c'' 0 (''abc\<newline>xyz\<newline>c'', []) = Done () t \<and> snd t = ''abc\<newline>''"
proof -
  have occ: "occurs ''b*c'' ''abc''" "\<not> occurs ''b*c'' ''xyz''"
    unfolding match_occurs [symmetric]
    by (simp_all add: match_def match_from.simps matchstar.simps)
  from grep_prints_matching_lines [OF filter_sys_ok, where s = "(''abc\<newline>xyz\<newline>c'', [])" and pattern = "''b*c''"]
  show ?thesis by (simp add: occ)
qed

end
