(* ===== verification/Xv6_Sh.thy ===== *)
theory Xv6_Sh
  imports Xv6_Ulib
begin

text \<open>
  The shell (user/sh.c): commands as trees, the parser, termination of the counted strings,
  running a command, and \<open>main\<close>.

  The parser works on the string in the line buffer. A pointer into it is the rest of the string
  from there on; the end \<open>es\<close> is the empty rest. A counted string is a pair of pointers, its start and
  its end. A tree is a value of type \<open>'a cmd\<close>, where \<open>'a\<close> is the type of its words: pairs of pointers
  as the parser builds it, strings as it is run. The memory of the trees is not modelled; \<open>malloc\<close> is
  taken to succeed.
\<close>

section \<open>Commands\<close>

datatype 'a cmd =
    EXEC "'a list"
  | REDIR "'a cmd" 'a int int    \<comment> \<open>command, file, mode, descriptor\<close>
  | PIPE "'a cmd" "'a cmd"
  | LIST "'a cmd" "'a cmd"
  | BACK "'a cmd"

text \<open>The constructor functions; \<open>execcmd\<close> with the arguments that are stored afterwards.\<close>

definition execcmd :: "'a list \<Rightarrow> 'a cmd" where
  [simp]: "execcmd argv = EXEC argv"

definition redircmd :: "'a cmd \<Rightarrow> 'a \<Rightarrow> int \<Rightarrow> int \<Rightarrow> 'a cmd" where
  [simp]: "redircmd subcmd file mode fd = REDIR subcmd file mode fd"

definition pipecmd :: "'a cmd \<Rightarrow> 'a cmd \<Rightarrow> 'a cmd" where
  [simp]: "pipecmd left right = PIPE left right"

definition listcmd :: "'a cmd \<Rightarrow> 'a cmd \<Rightarrow> 'a cmd" where
  [simp]: "listcmd left right = LIST left right"

definition backcmd :: "'a cmd \<Rightarrow> 'a cmd" where
  [simp]: "backcmd subcmd = BACK subcmd"

abbreviation (input) MAXARGS :: nat where "MAXARGS \<equiv> 10"

type_synonym token = "string \<times> string"

section \<open>Tokens\<close>

definition whitespace :: "char \<Rightarrow> bool" where
  "whitespace c \<longleftrightarrow> c \<in> set ('' '' @ [CHR 0x09, CHR 0x0D, CHR 0x0A, CHR 0x0B])"

definition symbols :: "char \<Rightarrow> bool" where
  "symbols c \<longleftrightarrow> c \<in> set ''<|>&;()''"

text \<open>The switch: the kind of the token that starts at \<open>q\<close>, and its end.\<close>

definition token_end :: "string \<Rightarrow> char \<times> string" where
  "token_end q =
     (case q of
        [] \<Rightarrow> (CHR 0x00, q)
      | c # r \<Rightarrow>
          if c = CHR 0x00 then (CHR 0x00, q)
          else if c \<in> set ''|();&<'' then (c, r)
          else if c = CHR ''>'' then
            (if r \<noteq> [] \<and> hd r = CHR ''>'' then (CHR ''+'', tl r) else (CHR ''>'', r))
          else (CHR ''a'', dropWhile (\<lambda>x. \<not> whitespace x \<and> \<not> symbols x) q))"

text \<open>The kind of the token, its start and end, and the pointer behind it and the white space.\<close>

definition gettoken :: "string \<Rightarrow> char \<times> string \<times> string \<times> string" where
  "gettoken s =
     (let q = dropWhile whitespace s; (tok, eq) = token_end q
      in (tok, q, eq, dropWhile whitespace eq))"

definition peek :: "string \<Rightarrow> string \<Rightarrow> bool \<times> string" where
  "peek s toks =
     (let r = dropWhile whitespace s
      in ((case r of [] \<Rightarrow> False | c # _ \<Rightarrow> c \<noteq> CHR 0x00 \<and> c \<in> set toks), r))"

lemma dropWhile_le: "length (dropWhile P xs) \<le> length xs"
  by (rule length_dropWhile_le)

lemma peek_le: "peek s toks = (found, r) \<Longrightarrow> length r \<le> length s"
  by (auto simp: peek_def Let_def dropWhile_le)

lemma token_end_shorter:
  assumes "token_end (c # r) = (tok, eq)" "tok \<noteq> CHR 0x00" "\<not> whitespace c"
  shows "length eq \<le> length r"
proof (cases "c = CHR 0x00 \<or> c \<in> set ''|();&<'' \<or> c = CHR ''>''")
  case True
  with assms show ?thesis by (auto simp: token_end_def split: if_splits)
next
  case False
  then have "\<not> symbols c" by (auto simp: symbols_def)
  moreover have "eq = dropWhile (\<lambda>x. \<not> whitespace x \<and> \<not> symbols x) (c # r)"
    using assms(1) False by (simp add: token_end_def del: dropWhile.simps)
  ultimately show ?thesis using assms(3) by (simp add: dropWhile_le)
qed

lemma dropWhile_Cons_hd: "dropWhile P s = c # r \<Longrightarrow> \<not> P c"
  by (metis hd_dropWhile list.distinct(1) list.sel(1))

lemma gettoken_iff: "gettoken s = (tok, q, eq, r) \<longleftrightarrow>
    q = dropWhile whitespace s \<and> token_end q = (tok, eq) \<and> r = dropWhile whitespace eq"
  by (auto simp: gettoken_def Let_def split: prod.split)

lemma gettoken_shorter:
  assumes "gettoken s = (tok, q, eq, r)" "tok \<noteq> CHR 0x00"
  shows "length r < length s"
proof -
  from assms(1) have q: "q = dropWhile whitespace s" "token_end q = (tok, eq)" "r = dropWhile whitespace eq"
    unfolding gettoken_iff by auto
  from q(2) assms(2) obtain c xs where c: "q = c # xs" by (cases q) (auto simp: token_end_def)
  then have "length eq \<le> length xs"
    using token_end_shorter [of c xs tok eq] q assms(2) dropWhile_Cons_hd [of whitespace s c xs] by simp
  then show ?thesis
    using c q(1,3) dropWhile_le [of whitespace s] dropWhile_le [of whitespace eq] by simp
qed

lemma token_end_nul: "token_end (c # r) = (tok, eq) \<Longrightarrow> c \<noteq> CHR 0x00 \<Longrightarrow> tok \<noteq> CHR 0x00"
  unfolding token_end_def list.case by (simp del: list.set split: if_splits; fastforce)

lemma peek_True:
  assumes "peek s toks = (True, r)"
  obtains c xs where "r = c # xs" "\<not> whitespace c" "c \<noteq> CHR 0x00" "c \<in> set toks" "dropWhile whitespace s = r"
proof (cases "dropWhile whitespace s")
  case Nil
  with assms show ?thesis by (simp add: peek_def)
next
  case (Cons c xs)
  with assms have "r = c # xs" "c \<noteq> CHR 0x00" "c \<in> set toks" by (simp_all add: peek_def)
  with Cons dropWhile_Cons_hd [OF Cons] that show ?thesis by simp
qed

lemma gettoken_peek_shorter:
  assumes "peek s toks = (True, r)" "gettoken r = (tok, q, eq, r')"
  shows "length r' < length s"
proof -
  from assms(1) obtain c xs where r: "r = c # xs" "\<not> whitespace c" "c \<noteq> CHR 0x00" by (rule peek_True)
  then have "token_end r = (tok, eq)" using assms(2) by (auto simp: gettoken_iff)
  then have "tok \<noteq> CHR 0x00" using token_end_nul r(1,3) by blast
  from gettoken_shorter [OF assms(2) this] peek_le [OF assms(1)] show ?thesis by simp
qed

section \<open>The parser\<close>

datatype 'a presult = Parsed 'a string | Syntax string | Leftovers string | NoFuel

fun bindp :: "'a presult \<Rightarrow> ('a \<Rightarrow> string \<Rightarrow> 'b presult) \<Rightarrow> 'b presult" where
  "bindp (Parsed x s) f = f x s"
| "bindp (Syntax m) f = Syntax m"
| "bindp (Leftovers m) f = Leftovers m"
| "bindp NoFuel f = NoFuel"

lemma bindp_cong [fundef_cong]:
  "m = m' \<Longrightarrow> (\<And>x s. m' = Parsed x s \<Longrightarrow> f x s = g x s) \<Longrightarrow> bindp m f = bindp m' g"
  by (cases m') simp_all

lemma bindp_Parsed: "bindp m f = Parsed y t \<longleftrightarrow> (\<exists>x s. m = Parsed x s \<and> f x s = Parsed y t)"
  by (cases m) simp_all

text \<open>
  The redirections that follow, in order: each wraps the command so far. In \<open>parseexec\<close> the wrapped
  \<open>EXEC\<close> node is still filled, so the redirections are collected and applied at the end.
\<close>

type_synonym redir = "token \<times> int \<times> int"

definition redirected :: "'a cmd \<Rightarrow> ('a \<times> int \<times> int) list \<Rightarrow> 'a cmd" where
  "redirected = foldl (\<lambda>c (file, mode, fd). redircmd c file mode fd)"

definition redir_mode :: "char \<Rightarrow> int \<times> int" where
  "redir_mode tok =
     (if tok = CHR ''<'' then (U_RDONLY, 0)
      else if tok = CHR ''>'' then (U_WRONLY OR U_CREATE OR U_TRUNC, 1)
      else (U_WRONLY OR U_CREATE, 1))"

lemma redir_shorter:
  assumes "peek s toks = (True, r)" "gettoken r = (tok, q', eq', r1)" "gettoken r1 = (CHR ''a'', q, eq, r2)"
  shows "length r2 < length s"
  using gettoken_peek_shorter [OF assms(1,2)] gettoken_shorter [OF assms(3)] by simp

function parseredirs :: "redir list \<Rightarrow> string \<Rightarrow> redir list presult" where
  "parseredirs acc s =
     (case peek s ''<>'' of
        (False, r) \<Rightarrow> Parsed acc r
      | (True, r) \<Rightarrow>
          (case gettoken r of (tok, _, _, r1) \<Rightarrow>
             (case gettoken r1 of (tok2, q, eq, r2) \<Rightarrow>
                if tok2 \<noteq> CHR ''a'' then Syntax ''missing file for redirection''
                else parseredirs (acc @ [((q, eq), redir_mode tok)]) r2)))"
  by pat_completeness auto
termination
  by (relation "measure (\<lambda>(acc, s). length s)") (auto dest: redir_shorter [OF sym sym sym])

declare parseredirs.simps [simp del]

lemma parseredirs_le: "parseredirs acc s = Parsed rs r \<Longrightarrow> length r \<le> length s"
proof (induction acc s rule: parseredirs.induct)
  case (1 acc s)
  obtain found r0 where p: "peek s ''<>'' = (found, r0)" by fastforce
  show ?case
  proof (cases found)
    case False
    with 1(2) p peek_le [OF p] show ?thesis by (simp add: parseredirs.simps [of acc s])
  next
    case True
    obtain tok q' eq' r1 where g: "gettoken r0 = (tok, q', eq', r1)" by (metis prod_cases4)
    obtain tok2 q eq r2 where g2: "gettoken r1 = (tok2, q, eq, r2)" by (metis prod_cases4)
    have a: "tok2 = CHR ''a''" and rec: "parseredirs (acc @ [((q, eq), redir_mode tok)]) r2 = Parsed rs r"
      using 1(2) p True g g2 by (auto simp: parseredirs.simps [of acc s] split: if_splits)
    have "length r \<le> length r2"
      by (rule 1(1) [OF p [symmetric] _ g [symmetric] refl refl g2 [symmetric] refl refl _ rec])
        (simp_all add: True a)
    moreover have "length r2 < length r1" by (rule gettoken_shorter [OF g2]) (simp add: a)
    ultimately show ?thesis using p g True by (auto dest: gettoken_peek_shorter)
  qed
qed

function parsebacks :: "'a cmd \<Rightarrow> string \<Rightarrow> 'a cmd \<times> string" where
  "parsebacks cmd s =
     (case peek s ''&'' of
        (False, r) \<Rightarrow> (cmd, r)
      | (True, r) \<Rightarrow> (case gettoken r of (_, _, _, r1) \<Rightarrow> parsebacks (backcmd cmd) r1))"
  by pat_completeness auto
termination
  by (relation "measure (\<lambda>(cmd, s). length s)") (auto dest: gettoken_peek_shorter [OF sym sym])

lemma arg_shorter:
  assumes "peek s toks = (found, r)" "gettoken r = (CHR ''a'', q, eq, r1)" "parseredirs rs r1 = Parsed rs' r2"
  shows "length r2 < length s"
  using peek_le [OF assms(1)] gettoken_shorter [OF assms(2)] parseredirs_le [OF assms(3)] by simp

text \<open>The loop of \<open>parseexec\<close> over the arguments.\<close>

function parseargs :: "token list \<Rightarrow> redir list \<Rightarrow> string \<Rightarrow> token cmd presult" where
  "parseargs args redirs s =
     (case peek s ''|)&;'' of
        (True, r) \<Rightarrow> Parsed (redirected (execcmd args) redirs) r
      | (False, r) \<Rightarrow>
          (case gettoken r of (tok, q, eq, r1) \<Rightarrow>
             if tok = CHR 0x00 then Parsed (redirected (execcmd args) redirs) r1
             else if tok \<noteq> CHR ''a'' then Syntax ''syntax''
             else if length args + 1 \<ge> MAXARGS then Syntax ''too many args''
             else bindp (parseredirs redirs r1) (\<lambda>redirs' r2. parseargs (args @ [(q, eq)]) redirs' r2)))"
  by pat_completeness auto
termination
  by (relation "measure (\<lambda>(args, redirs, s). length s)") (auto dest: arg_shorter [OF sym sym])

declare parsebacks.simps [simp del] parseargs.simps [simp del]

text \<open>The recursive functions, with a bound on the depth of recursion.\<close>

fun parseline :: "nat \<Rightarrow> string \<Rightarrow> token cmd presult"
and parsepipe :: "nat \<Rightarrow> string \<Rightarrow> token cmd presult"
and parseexec :: "nat \<Rightarrow> string \<Rightarrow> token cmd presult"
and parseblock :: "nat \<Rightarrow> string \<Rightarrow> token cmd presult" where
  "parseline 0 s = NoFuel"
| "parseline (Suc n) s =
     bindp (parsepipe n s) (\<lambda>cmd r.
       case parsebacks cmd r of (cmd, r1) \<Rightarrow>
       case peek r1 '';'' of
         (False, r2) \<Rightarrow> Parsed cmd r2
       | (True, r2) \<Rightarrow>
           (case gettoken r2 of (_, _, _, r3) \<Rightarrow>
              bindp (parseline n r3) (\<lambda>right r4. Parsed (listcmd cmd right) r4)))"
| "parsepipe 0 s = NoFuel"
| "parsepipe (Suc n) s =
     bindp (parseexec n s) (\<lambda>cmd r.
       case peek r ''|'' of
         (False, r1) \<Rightarrow> Parsed cmd r1
       | (True, r1) \<Rightarrow>
           (case gettoken r1 of (_, _, _, r2) \<Rightarrow>
              bindp (parsepipe n r2) (\<lambda>right r3. Parsed (pipecmd cmd right) r3)))"
| "parseexec 0 s = NoFuel"
| "parseexec (Suc n) s =
     (case peek s ''('' of
        (True, r) \<Rightarrow> parseblock n r
      | (False, r) \<Rightarrow> bindp (parseredirs [] r) (\<lambda>redirs r1. parseargs [] redirs r1))"
| "parseblock 0 s = NoFuel"
| "parseblock (Suc n) s =
     (case peek s ''('' of
        (False, r) \<Rightarrow> Syntax ''parseblock''
      | (True, r) \<Rightarrow>
          (case gettoken r of (_, _, _, r1) \<Rightarrow>
             bindp (parseline n r1) (\<lambda>cmd r2.
               case peek r2 '')'' of
                 (False, r3) \<Rightarrow> Syntax ''syntax - missing )''
               | (True, r3) \<Rightarrow>
                   (case gettoken r3 of (_, _, _, r4) \<Rightarrow>
                      bindp (parseredirs [] r4) (\<lambda>redirs r5. Parsed (redirected cmd redirs) r5)))))"

definition parse_fuel :: "string \<Rightarrow> nat" where
  "parse_fuel s = 4 * length s + 4"

definition parsecmd :: "string \<Rightarrow> token cmd presult" where
  "parsecmd s =
     bindp (parseline (parse_fuel s) s) (\<lambda>cmd r.
       case peek r '''' of (_, r1) \<Rightarrow> if r1 \<noteq> [] then Leftovers r1 else Parsed cmd r1)"

section \<open>Termination of the counted strings\<close>

text \<open>
  The buffer is the line, of length \<open>n\<close>, and its terminator; the pointer \<open>p\<close> is at the offset
  \<open>n - length p\<close>.
\<close>

fun put_nul :: "nat \<Rightarrow> token \<Rightarrow> string \<Rightarrow> string" where
  "put_nul n (q, eq) buf = buf[n - length eq := CHR 0x00]"

primrec nulterminate :: "nat \<Rightarrow> token cmd \<Rightarrow> string \<Rightarrow> string" where
  "nulterminate n (EXEC args) buf = fold (put_nul n) args buf"
| "nulterminate n (REDIR cmd file mode fd) buf = put_nul n file (nulterminate n cmd buf)"
| "nulterminate n (PIPE left right) buf = nulterminate n right (nulterminate n left buf)"
| "nulterminate n (LIST left right) buf = nulterminate n right (nulterminate n left buf)"
| "nulterminate n (BACK cmd) buf = nulterminate n cmd buf"

text \<open>The string that a pointer of the parser finds in the buffer.\<close>

definition string_at :: "nat \<Rightarrow> string \<Rightarrow> token \<Rightarrow> string" where
  "string_at n buf t = takeWhile (\<lambda>c. c \<noteq> CHR 0x00) (drop (n - length (fst t)) buf)"

section \<open>Running commands\<close>

definition sh_panic :: "'w usys \<Rightarrow> string \<Rightarrow> ('w, 'a) km" where
  "sh_panic S s = bind (fprintf_u S 2 ''%s\<newline>'' [UStr (Some s)]) (\<lambda>_. exit_u 1)"

definition fork1 :: "'w usys \<Rightarrow> ('w, int) km" where
  "fork1 S = bind (u_fork S) (\<lambda>pid. if pid = -1 then sh_panic S ''fork'' else ret pid)"

definition ignore :: "('w, 'a) km \<Rightarrow> ('w, unit) km" where
  "ignore m = bind m (\<lambda>_. ret ())"

text \<open>The descriptors of a child in a pipeline: \<open>which\<close> becomes the pipe's end \<open>keep\<close>.\<close>

definition pipe_end :: "'w usys \<Rightarrow> int \<Rightarrow> int \<Rightarrow> int \<times> int \<Rightarrow> ('w, unit) km" where
  "pipe_end S which keep p = block [
     ignore (u_close S which), ignore (u_dup S keep), ignore (u_close S (fst p)), ignore (u_close S (snd p))]"

primrec runcmd :: "'w usys \<Rightarrow> string cmd \<Rightarrow> ('w, unit) km" where
  "runcmd S (EXEC argv) =
     (case argv of
        [] \<Rightarrow> exit_u 1
      | a # _ \<Rightarrow>
          bind (u_exec S a argv) (\<lambda>_.
          bind (fprintf_u S 2 ''exec %s failed\<newline>'' [UStr (Some a)]) (\<lambda>_. exit_u 0)))"
| "runcmd S (REDIR cmd file mode fd) =
     bind (u_close S fd) (\<lambda>_.
     bind (u_open S file mode) (\<lambda>r.
     if r < 0 then bind (fprintf_u S 2 ''open %s failed\<newline>'' [UStr (Some file)]) (\<lambda>_. exit_u 1)
     else bind (runcmd S cmd) (\<lambda>_. exit_u 0)))"
| "runcmd S (LIST left right) =
     bind (fork1 S) (\<lambda>pid.
     bind (only_if (pid = 0) (runcmd S left)) (\<lambda>_.
     bind (u_wait S) (\<lambda>_.
     bind (runcmd S right) (\<lambda>_. exit_u 0))))"
| "runcmd S (PIPE left right) =
     bind (u_pipe S) (\<lambda>r. case r of
       None \<Rightarrow> sh_panic S ''pipe''
     | Some p \<Rightarrow>
         bind (fork1 S) (\<lambda>pid.
         bind (only_if (pid = 0) (bind (pipe_end S 1 (snd p) p) (\<lambda>_. runcmd S left))) (\<lambda>_.
         bind (fork1 S) (\<lambda>pid.
         bind (only_if (pid = 0) (bind (pipe_end S 0 (fst p) p) (\<lambda>_. runcmd S right))) (\<lambda>_.
         bind (block [ignore (u_close S (fst p)), ignore (u_close S (snd p)), ignore (u_wait S), ignore (u_wait S)])
           (\<lambda>_. exit_u 0))))))"
| "runcmd S (BACK cmd) =
     bind (fork1 S) (\<lambda>pid.
     bind (only_if (pid = 0) (runcmd S cmd)) (\<lambda>_. exit_u 0))"

text \<open>\<open>runcmd(parsecmd(buf))\<close> of a line: the tree is run with the strings of the terminated buffer.\<close>

definition run_line :: "'w usys \<Rightarrow> string \<Rightarrow> ('w, unit) km" where
  "run_line S line =
     (case parsecmd line of
        Parsed cmd _ \<Rightarrow>
          (let n = length line; buf = nulterminate n cmd (line @ [CHR 0x00])
           in runcmd S (map_cmd (string_at n buf) cmd))
      | Syntax msg \<Rightarrow> sh_panic S msg
      | Leftovers s \<Rightarrow> bind (fprintf_u S 2 ''leftovers: %s\<newline>'' [UStr (Some s)]) (\<lambda>_. sh_panic S ''syntax'')
      | NoFuel \<Rightarrow> fault ''stack'')"

text \<open>The line as a string: it ends at the first terminator; \<open>None\<close> at the end of the input.\<close>

definition getcmd :: "'w usys \<Rightarrow> int \<Rightarrow> ('w, string option) km" where
  "getcmd S nbuf =
     bind (fprintf_u S 2 ''$ '' []) (\<lambda>_.
     bind (gets_u S nbuf) (\<lambda>bs.
     let line = takeWhile (\<lambda>c. c \<noteq> CHR 0x00) bs in ret (if line = [] then None else Some line)))"

definition sh_chdir :: "'w usys \<Rightarrow> string \<Rightarrow> ('w, unit) km" where
  "sh_chdir S line =
     (let dir = drop 3 (butlast line) in
      bind (u_chdir S dir) (\<lambda>r.
      only_if (r < 0) (fprintf_u S 2 ''cannot cd %s\<newline>'' [UStr (Some dir)])))"

definition sh_main :: "'w usys \<Rightarrow> ('w, unit) km" where
  "sh_main S =
     bind (loop (\<lambda>_. bind (u_open S ''console'' U_RDWR) (\<lambda>fd.
       if fd < 0 then ret (Inr ())
       else if fd \<ge> 3 then bind (u_close S fd) (\<lambda>_. ret (Inr ()))
       else ret (Inl ()))) ()) (\<lambda>_.
     bind (loop (\<lambda>_. bind (getcmd S 100) (\<lambda>r. case r of
         None \<Rightarrow> ret (Inr ())
       | Some line \<Rightarrow>
           if take 3 line = ''cd '' then bind (sh_chdir S line) (\<lambda>_. ret (Inl ()))
           else bind (fork1 S) (\<lambda>pid.
             bind (only_if (pid = 0) (run_line S line)) (\<lambda>_.
             bind (u_wait S) (\<lambda>_. ret (Inl ())))))) ()) (\<lambda>_.
     exit_u 0))"

end
