(* ===== verification/Xv6_Shshow.thy ===== *)
theory Xv6_Shshow
  imports Xv6_Shparse
begin

text \<open>
  Every command tree can be typed: \<open>show_cmd\<close> writes it as a line, with parentheses where the grammar
  of the shell needs them, and the parser of user/sh.c gives the tree back.
\<close>

section \<open>Commands as text\<close>

fun show_words :: "string list \<Rightarrow> string" where
  "show_words [] = []"
| "show_words [w] = w"
| "show_words (w # v # ws) = w @ '' '' @ show_words (v # ws)"

definition redir_sign :: "int \<times> int \<Rightarrow> string" where
  "redir_sign m =
     (if m = redir_mode (CHR ''<'') then ''<'' else if m = redir_mode (CHR ''>'') then ''>'' else ''>>'')"

definition show_redir :: "string \<times> int \<times> int \<Rightarrow> string" where
  "show_redir r = redir_sign (snd r) @ fst r"

definition show_redirs :: "(string \<times> int \<times> int) list \<Rightarrow> string" where
  "show_redirs rs = concat (map show_redir rs)"

definition parens :: "bool \<Rightarrow> string \<Rightarrow> string" where
  "parens b s = (if b then ''('' @ s @ '')'' else s)"

text \<open>The level is that of the context: 0 a line, 1 before \<open>&\<close>, 2 a pipeline, 3 a member of one.\<close>

primrec show_cmd :: "string cmd \<Rightarrow> nat \<Rightarrow> string" where
  "show_cmd (EXEC args) l = show_words args"
| "show_cmd (REDIR c file mode fd) l = show_cmd c 3 @ show_redir (file, mode, fd)"
| "show_cmd (PIPE a b) l = parens (l > 2) (show_cmd a 3 @ ''|'' @ show_cmd b 2)"
| "show_cmd (LIST a b) l = parens (l > 0) (show_cmd a 1 @ '';'' @ show_cmd b 0)"
| "show_cmd (BACK a) l = parens (l > 1) (show_cmd a 1 @ ''&'')"

definition good_word :: "string \<Rightarrow> bool" where
  "good_word w \<longleftrightarrow> w \<noteq> [] \<and> (\<forall>c\<in>set w. word_char c \<and> c \<noteq> CHR 0x00)"

definition good_redir :: "string \<times> int \<times> int \<Rightarrow> bool" where
  "good_redir r \<longleftrightarrow> good_word (fst r) \<and> snd r \<in> redir_mode ` {CHR ''<'', CHR ''>'', CHR ''+''}"

text \<open>Commands the shell can run: words without special characters, at most 9 of them.\<close>

primrec good_cmd :: "string cmd \<Rightarrow> bool" where
  "good_cmd (EXEC args) \<longleftrightarrow> length args < MAXARGS \<and> (\<forall>w\<in>set args. good_word w)"
| "good_cmd (REDIR c file mode fd) \<longleftrightarrow> good_cmd c \<and> good_redir (file, mode, fd)"
| "good_cmd (PIPE a b) \<longleftrightarrow> good_cmd a \<and> good_cmd b"
| "good_cmd (LIST a b) \<longleftrightarrow> good_cmd a \<and> good_cmd b"
| "good_cmd (BACK a) \<longleftrightarrow> good_cmd a"

section \<open>Tokens of a text\<close>

text \<open>A text that starts with no white space.\<close>

definition at_token :: "string \<Rightarrow> bool" where
  "at_token s \<longleftrightarrow> s = [] \<or> \<not> whitespace (hd s)"

lemma dropWhile_at_token: "at_token s \<Longrightarrow> dropWhile whitespace s = s"
  by (cases s) (auto simp: at_token_def)

lemma peek_at_token: "at_token s \<Longrightarrow> peek s toks = (s \<noteq> [] \<and> hd s \<noteq> CHR 0x00 \<and> hd s \<in> set toks, s)"
  by (cases s) (auto simp: peek_def dropWhile_at_token at_token_def)

lemma symbol_not_space: "symbols c \<Longrightarrow> \<not> whitespace c \<and> c \<noteq> CHR 0x00"
  by (auto simp: symbols_def whitespace_def)

lemma word_char_not_symbol: "word_char c \<Longrightarrow> c \<notin> set ''<|>&;()''"
  by (simp add: word_char_def symbols_def)

lemma gettoken_symbol:
  assumes "c \<in> set ''|();&<''" "at_token r"
  shows "gettoken (c # r) = (c, c # r, r, r)"
proof -
  have "symbols c" using assms(1) by (auto simp: symbols_def)
  then have c: "at_token (c # r)" "c \<noteq> CHR 0x00" using symbol_not_space [of c] by (simp_all add: at_token_def)
  have "token_end (c # r) = (c, r)" unfolding token_end_def list.case using assms(1) c(2) by (simp only: if_True if_False)
  then show ?thesis unfolding gettoken_iff using dropWhile_at_token [OF c(1)] dropWhile_at_token [OF assms(2)] by metis
qed

lemma good_word_hd: "good_word w \<Longrightarrow> word_char (hd w) \<and> hd w \<noteq> CHR 0x00 \<and> w \<noteq> []"
  by (cases w) (auto simp: good_word_def)

lemma at_token_word: "good_word w \<Longrightarrow> at_token (w @ r)"
  using good_word_hd [of w] by (simp add: at_token_def word_char_def)

lemma dropWhile_run: "\<forall>c\<in>set w. P c \<Longrightarrow> r = [] \<or> \<not> P (hd r) \<Longrightarrow> dropWhile P (w @ r) = r"
  by (induction w) (cases r, auto)

lemma gettoken_good_word:
  assumes "good_word w" "r = [] \<or> \<not> word_char (hd r)"
  shows "gettoken (w @ r) = (CHR ''a'', w @ r, r, dropWhile whitespace r)"
proof -
  obtain c cs where w: "w = c # cs" using assms(1) by (cases w) (auto simp: good_word_def)
  have c: "word_char c" "c \<noteq> CHR 0x00" using assms(1) by (auto simp: good_word_def w)
  then have "c \<notin> set ''|();&<''" "c \<noteq> CHR ''>''" using word_char_not_symbol [OF c(1)] by simp_all
  moreover have "dropWhile word_char (w @ r) = r"
    using assms by (intro dropWhile_run) (simp_all add: good_word_def)
  then have "dropWhile (\<lambda>x. \<not> whitespace x \<and> \<not> symbols x) (c # cs @ r) = r"
    by (simp add: w word_char_def [abs_def])
  ultimately have "token_end (w @ r) = (CHR ''a'', r)"
    using c(2) by (simp add: token_end_def w del: list.set dropWhile.simps)
  then show ?thesis
    using dropWhile_at_token [OF at_token_word [OF assms(1)]] by (simp add: gettoken_iff)
qed

lemma word_of_good: "word_of (w @ r, r) = w"
  by (simp add: word_of_def)

section \<open>Redirections and arguments\<close>

definition stops :: "string \<Rightarrow> string \<Rightarrow> bool" where
  "stops cs r \<longleftrightarrow> r = [] \<or> hd r \<in> set cs"

lemma stops_mono: "stops cs r \<Longrightarrow> set cs \<subseteq> set ds \<Longrightarrow> stops ds r"
  by (auto simp: stops_def)

lemma stops_at_token: "stops cs r \<Longrightarrow> set cs \<subseteq> set ''<|>&;()'' \<Longrightarrow> at_token r \<and> (r = [] \<or> \<not> word_char (hd r))"
  using symbol_not_space by (auto simp: stops_def at_token_def word_char_def symbols_def)

lemma redir_modes: "redir_mode (CHR ''<'') \<noteq> redir_mode (CHR ''>'')" "redir_mode (CHR ''<'') \<noteq> redir_mode (CHR ''+'')"
  "redir_mode (CHR ''>'') \<noteq> redir_mode (CHR ''+'')"
  by (simp_all add: redir_mode_def)

text \<open>The sign of a redirection is read back as its mode.\<close>

lemma redir_sign_token:
  assumes "m \<in> redir_mode ` {CHR ''<'', CHR ''>'', CHR ''+''}" "good_word w"
  shows "\<exists>tok q eq. peek (redir_sign m @ w @ r) ''<>'' = (True, redir_sign m @ w @ r)
    \<and> gettoken (redir_sign m @ w @ r) = (tok, q, eq, w @ r) \<and> redir_mode tok = m"
proof -
  have w: "at_token (w @ r)" "w \<noteq> []" "hd w \<noteq> CHR ''>''"
    using at_token_word [OF assms(2)] good_word_hd [OF assms(2)] word_char_not_symbol [of "hd w"] by auto
  have ws: "\<not> whitespace (CHR ''<'')" "\<not> whitespace (CHR ''>'')" by (simp_all add: whitespace_def)
  consider "m = redir_mode (CHR ''<'')" | "m = redir_mode (CHR ''>'')" | "m = redir_mode (CHR ''+'')" using assms(1) by auto
  then show ?thesis
  proof cases
    case 1
    then show ?thesis using w ws gettoken_symbol [of "CHR ''<''" "w @ r"]
      by (simp add: redir_sign_def peek_def)
  next
    case 2
    then show ?thesis using w ws redir_modes dropWhile_at_token [OF w(1)]
      by (simp add: redir_sign_def peek_def gettoken_iff token_end_def)
  next
    case 3
    then show ?thesis using w ws redir_modes dropWhile_at_token [OF w(1)]
      by (simp add: redir_sign_def peek_def gettoken_iff token_end_def)
  qed
qed

text \<open>A parsed redirection as it was written.\<close>

definition redir_of :: "redir \<Rightarrow> string \<times> int \<times> int" where
  "redir_of r = (word_of (fst r), snd r)"

lemma map_redirected: "map_cmd word_of (redirected c rs) = redirected (map_cmd word_of c) (map redir_of rs)"
  unfolding redirected_def by (induction rs arbitrary: c) (auto simp: redir_of_def)

lemma redir_sign_hd: "redir_sign m \<noteq> [] \<and> hd (redir_sign m) \<in> set ''<>''"
  by (simp add: redir_sign_def)

lemma show_redirs_stops:
  assumes "stops cs r"
  shows "stops (''<>'' @ cs) (show_redirs rs @ r)"
proof (cases rs)
  case (Cons x xs)
  then show ?thesis using redir_sign_hd [of "snd x"] by (auto simp: stops_def show_redirs_def show_redir_def)
qed (use assms in \<open>auto simp: stops_def show_redirs_def\<close>)

lemma parse_show_redirs:
  assumes "stops ''|)&;'' r" "\<forall>x\<in>set rs. good_redir x"
  shows "\<exists>trs. parseredirs acc (show_redirs rs @ r) = Parsed (acc @ trs) r \<and> map redir_of trs = rs"
  using assms(2)
proof (induction rs arbitrary: acc)
  case Nil
  have r: "at_token r" using stops_at_token [OF assms(1)] by simp
  have "hd r \<notin> set ''<>''" if "r \<noteq> []" using assms(1) that by (auto simp: stops_def)
  with peek_at_token [OF r, of "''<>''"] have "peek r ''<>'' = (False, r)" by auto
  then show ?case by (subst parseredirs.simps) (simp add: show_redirs_def)
next
  case (Cons x rs)
  obtain w m where x: "x = (w, m)" by (cases x)
  let ?rest = "show_redirs rs @ r"
  have gw: "good_word w" "m \<in> redir_mode ` {CHR ''<'', CHR ''>'', CHR ''+''}"
    using Cons.prems by (auto simp: x good_redir_def)
  obtain tok q eq where sign: "peek (redir_sign m @ w @ ?rest) ''<>'' = (True, redir_sign m @ w @ ?rest)"
    "gettoken (redir_sign m @ w @ ?rest) = (tok, q, eq, w @ ?rest)" "redir_mode tok = m"
    using redir_sign_token [OF gw(2,1)] by blast
  have rest: "at_token ?rest" "?rest = [] \<or> \<not> word_char (hd ?rest)"
    using stops_at_token [OF show_redirs_stops [OF assms(1)]] by simp_all
  have word: "gettoken (w @ ?rest) = (CHR ''a'', w @ ?rest, ?rest, ?rest)"
    using gettoken_good_word [OF gw(1) rest(2)] dropWhile_at_token [OF rest(1)] by simp
  have "\<forall>x\<in>set rs. good_redir x" using Cons.prems by simp
  from Cons.IH [OF this] obtain trs where trs: "parseredirs (acc @ [((w @ ?rest, ?rest), m)]) ?rest =
      Parsed ((acc @ [((w @ ?rest, ?rest), m)]) @ trs) r" "map redir_of trs = rs" by blast
  have "show_redirs (x # rs) @ r = redir_sign m @ w @ ?rest" by (simp add: show_redirs_def show_redir_def x)
  then have "parseredirs acc (show_redirs (x # rs) @ r) = Parsed (acc @ ((w @ ?rest, ?rest), m) # trs) r"
    using sign word trs(1) by (simp add: parseredirs.simps [of acc "redir_sign m @ w @ ?rest"])
  then show ?case using trs(2) x by (auto simp: redir_of_def word_of_good)
qed

lemma parseargs_stop:
  assumes "stops ''|)&;'' r"
  shows "parseargs args rs r = Parsed (redirected (EXEC args) rs) r"
proof -
  have r: "at_token r" using stops_at_token [OF assms] by simp
  show ?thesis
  proof (cases "r = []")
    case True
    have g: "gettoken [] = (CHR 0x00, [], [], [])" by (simp add: gettoken_iff token_end_def)
    have "peek [] ''|)&;'' = (False, [])" by (simp add: peek_def)
    from parseargs_cases [OF this g] True show ?thesis by simp
  next
    case False
    then have "hd r \<in> set ''|)&;''" "hd r \<noteq> CHR 0x00" using assms by (auto simp: stops_def)
    with False peek_at_token [OF r, of "''|)&;''"] have p: "peek r ''|)&;'' = (True, r)" by simp
    obtain tok q eq r1 where "gettoken r = (tok, q, eq, r1)" by (metis prod_cases4)
    from parseargs_cases [OF p this] show ?thesis by simp
  qed
qed

lemma parse_show_args:
  assumes "stops ''|)&;'' r" "\<forall>x\<in>set rs. good_redir x"
  shows "ws \<noteq> [] \<Longrightarrow> length args + length ws < 10 \<Longrightarrow> \<forall>w\<in>set ws. good_word w \<Longrightarrow>
    \<exists>targs trs. parseargs args [] (show_words ws @ show_redirs rs @ r) = Parsed (redirected (EXEC (args @ targs)) trs) r
      \<and> map word_of targs = ws \<and> map redir_of trs = rs"
proof (induction ws arbitrary: args rule: show_words.induct)
  case (2 w)
  let ?rest = "show_redirs rs @ r"
  have w: "good_word w" using 2 by simp
  have rest: "at_token ?rest" "?rest = [] \<or> \<not> word_char (hd ?rest)"
    using stops_at_token [OF show_redirs_stops [OF assms(1)]] by simp_all
  have p: "peek (w @ ?rest) ''|)&;'' = (False, w @ ?rest)"
    using peek_at_token [OF at_token_word [OF w]] good_word_hd [OF w] word_char_not_symbol [of "hd w"] by simp
  have g: "gettoken (w @ ?rest) = (CHR ''a'', w @ ?rest, ?rest, ?rest)"
    using gettoken_good_word [OF w rest(2)] dropWhile_at_token [OF rest(1)] by simp
  obtain trs where trs: "parseredirs [] ?rest = Parsed trs r" "map redir_of trs = rs"
    using parse_show_redirs [OF assms, of "[]"] by auto
  have "parseargs args [] (w @ ?rest) = Parsed (redirected (EXEC (args @ [(w @ ?rest, ?rest)])) trs) r"
    using 2 trs(1) by (simp add: parseargs_cases [OF p g] parseargs_stop [OF assms(1)])
  with trs(2) show ?case by (intro exI [of _ "[(w @ ?rest, ?rest)]"] exI [of _ trs]) (simp add: word_of_good)
next
  case (3 w v ws)
  let ?rest = "show_words (v # ws) @ show_redirs rs @ r"
  have w: "good_word w" "good_word v" using 3 by simp_all
  obtain rest' where rest': "?rest = v @ rest'" by (cases ws) simp_all
  have rest: "at_token ?rest" using at_token_word [OF w(2)] rest' by simp
  have sp: "whitespace (CHR '' '')" "\<not> word_char (CHR '' '')" by (simp_all add: whitespace_def word_char_def)
  have p: "peek (w @ '' '' @ ?rest) ''|)&;'' = (False, w @ '' '' @ ?rest)"
    using peek_at_token [OF at_token_word [OF w(1)]] good_word_hd [OF w(1)] word_char_not_symbol [of "hd w"] by simp
  have g: "gettoken (w @ '' '' @ ?rest) = (CHR ''a'', w @ '' '' @ ?rest, '' '' @ ?rest, ?rest)"
    using gettoken_good_word [OF w(1), of "'' '' @ ?rest"] dropWhile_at_token [OF rest] sp by simp
  have "peek ?rest ''<>'' = (False, ?rest)"
    using peek_at_token [OF rest] good_word_hd [OF w(2)] word_char_not_symbol [of "hd v"] rest' by simp
  then have redirs: "parseredirs [] ?rest = Parsed [] ?rest" by (simp add: parseredirs.simps [of "[]" ?rest])
  have "\<exists>targs trs. parseargs (args @ [(w @ '' '' @ ?rest, '' '' @ ?rest)]) [] ?rest =
      Parsed (redirected (EXEC ((args @ [(w @ '' '' @ ?rest, '' '' @ ?rest)]) @ targs)) trs) r
      \<and> map word_of targs = v # ws \<and> map redir_of trs = rs"
    using 3 by (intro "3.IH") simp_all
  then obtain targs trs where rec: "parseargs (args @ [(w @ '' '' @ ?rest, '' '' @ ?rest)]) [] ?rest =
      Parsed (redirected (EXEC (args @ (w @ '' '' @ ?rest, '' '' @ ?rest) # targs)) trs) r"
      "map word_of targs = v # ws" "map redir_of trs = rs" by auto
  have "parseargs args [] (w @ '' '' @ ?rest) = Parsed (redirected (EXEC (args @ (w @ '' '' @ ?rest, '' '' @ ?rest) # targs)) trs) r"
    unfolding parseargs_cases [OF p g] using "3.prems" rec(1) redirs by simp
  with rec(2,3) show ?case
    by (intro exI [of _ "(w @ '' '' @ ?rest, '' '' @ ?rest) # targs"] exI [of _ trs]) (simp add: word_of_good)
qed simp

section \<open>The levels of the grammar\<close>

text \<open>That the text of a command at a level is read back, whatever follows it there.\<close>

definition reads_exec :: "string cmd \<Rightarrow> bool" where
  "reads_exec c \<longleftrightarrow> (\<forall>rs r. (\<forall>x\<in>set rs. good_redir x) \<longrightarrow> stops ''|)&;'' r \<longrightarrow>
     (\<exists>n tc. parseexec n (show_cmd c 3 @ show_redirs rs @ r) = Parsed tc r \<and> map_cmd word_of tc = redirected c rs))"

definition reads_pipe :: "string cmd \<Rightarrow> bool" where
  "reads_pipe c \<longleftrightarrow> (\<forall>r. stops '')&;'' r \<longrightarrow>
     (\<exists>n tc. parsepipe n (show_cmd c 2 @ r) = Parsed tc r \<and> map_cmd word_of tc = c))"

definition reads_back :: "string cmd \<Rightarrow> bool" where
  "reads_back c \<longleftrightarrow> (\<forall>k r. stops '');'' r \<longrightarrow>
     (\<exists>n tc r' tc'. parsepipe n (show_cmd c 1 @ replicate k (CHR ''&'') @ r) = Parsed tc r'
        \<and> parsebacks tc r' = (tc', r) \<and> map_cmd word_of tc' = (BACK ^^ k) c))"

definition reads_line :: "string cmd \<Rightarrow> bool" where
  "reads_line c \<longleftrightarrow> (\<forall>r. stops '')'' r \<longrightarrow>
     (\<exists>n tc. parseline n (show_cmd c 0 @ r) = Parsed tc r \<and> map_cmd word_of tc = c))"

lemma show_words_hd: "\<forall>w\<in>set ws. good_word w \<Longrightarrow> ws \<noteq> [] \<Longrightarrow> show_words ws \<noteq> [] \<and> word_char (hd (show_words ws))
    \<and> hd (show_words ws) \<noteq> CHR 0x00"
  using good_word_hd by (cases ws rule: show_words.cases) auto

lemma symbols_at_token: "c \<in> set ''<|>&;()'' \<Longrightarrow> at_token (c # s)"
  using symbol_not_space [of c] by (simp add: at_token_def symbols_def)

lemma show_redir_at_token: "at_token (show_redir x @ r)"
  using redir_sign_hd [of "snd x"] symbols_at_token by (auto simp: show_redir_def at_token_def)

lemma show_at_token: "good_cmd c \<Longrightarrow> at_token r \<Longrightarrow> at_token (show_cmd c l @ r)"
proof (induction c arbitrary: l r)
  case (EXEC args)
  then show ?case using show_words_hd [of args] by (cases "args = []") (auto simp: at_token_def word_char_def)
next
  case (REDIR c f m d)
  then show ?case using show_redir_at_token by simp
qed (auto simp: parens_def symbols_at_token)

text \<open>More fuel.\<close>

lemma more_exec: "parseexec n s = Parsed c t \<Longrightarrow> n \<le> m \<Longrightarrow> parseexec m s = Parsed c t"
  using parse_more_fuel [of n m s] by simp

lemma more_pipe: "parsepipe n s = Parsed c t \<Longrightarrow> n \<le> m \<Longrightarrow> parsepipe m s = Parsed c t"
  using parse_more_fuel [of n m s] by simp

lemma more_line: "parseline n s = Parsed c t \<Longrightarrow> n \<le> m \<Longrightarrow> parseline m s = Parsed c t"
  using parse_more_fuel [of n m s] by simp

lemma stops_peek:
  assumes "stops cs r" "set cs \<subseteq> set ''<|>&;()''" "set cs \<inter> set toks = {}"
  shows "peek r toks = (False, r)"
proof -
  have "at_token r" using stops_at_token [OF assms(1,2)] by simp
  from peek_at_token [OF this, of toks] assms(1,3) show ?thesis by (auto simp: stops_def)
qed

lemma peek_symbol: "c \<in> set ''<|>&;()'' \<Longrightarrow> c \<in> set toks \<Longrightarrow> peek (c # s) toks = (True, c # s)"
  using symbol_not_space [of c] by (simp add: peek_def symbols_def)

lemma reads_exec_EXEC:
  assumes "good_cmd (EXEC args)"
  shows "reads_exec (EXEC args)"
  unfolding reads_exec_def
proof (intro allI impI)
  fix rs r assume rs: "\<forall>x\<in>set rs. good_redir x" and r: "stops ''|)&;'' r"
  let ?s = "show_words args @ show_redirs rs @ r"
  have st: "stops ''<>|)&;'' (show_redirs rs @ r)" using show_redirs_stops [OF r, of rs] by simp
  show "\<exists>n tc. parseexec n (show_cmd (EXEC args) 3 @ show_redirs rs @ r) = Parsed tc r
      \<and> map_cmd word_of tc = redirected (EXEC args) rs"
  proof (cases "args = []")
    case True
    obtain trs where trs: "parseredirs [] (show_redirs rs @ r) = Parsed trs r" "map redir_of trs = rs"
      using parse_show_redirs [OF r rs, of "[]"] by auto
    have "peek (show_redirs rs @ r) ''('' = (False, show_redirs rs @ r)" by (rule stops_peek [OF st]) auto
    then have "parseexec 1 ?s = Parsed (redirected (EXEC []) trs) r"
      using True trs(1) parseargs_stop [OF r] by simp
    with True trs(2) show ?thesis by (intro exI [of _ 1] exI) (auto simp: map_redirected)
  next
    case False
    obtain targs trs where t: "parseargs [] [] ?s = Parsed (redirected (EXEC targs) trs) r"
      "map word_of targs = args" "map redir_of trs = rs"
      using parse_show_args [OF r rs False, of "[]"] assms by auto
    have hd: "word_char (hd ?s)" "?s \<noteq> []" using show_words_hd [OF _ False] assms by auto
    then have at: "at_token ?s" by (simp add: at_token_def word_char_def)
    have p: "peek ?s ''('' = (False, ?s)" "peek ?s ''<>'' = (False, ?s)"
      using peek_at_token [OF at] word_char_not_symbol [OF hd(1)] by simp_all
    have "parseredirs [] ?s = Parsed [] ?s" using p(2) by (simp add: parseredirs.simps [of "[]" ?s])
    then have "parseexec 1 ?s = Parsed (redirected (EXEC targs) trs) r" using p(1) t(1) by simp
    with t(2,3) show ?thesis by (intro exI [of _ 1] exI) (auto simp: map_redirected)
  qed
qed

lemma reads_exec_REDIR:
  assumes "reads_exec c" "good_redir (file, mode, fd)"
  shows "reads_exec (REDIR c file mode fd)"
  unfolding reads_exec_def
proof (intro allI impI)
  fix rs r assume "\<forall>x\<in>set rs. good_redir x" "stops ''|)&;'' r"
  then have "\<exists>n tc. parseexec n (show_cmd c 3 @ show_redirs ((file, mode, fd) # rs) @ r) = Parsed tc r
      \<and> map_cmd word_of tc = redirected c ((file, mode, fd) # rs)"
    using assms unfolding reads_exec_def by simp
  then show "\<exists>n tc. parseexec n (show_cmd (REDIR c file mode fd) 3 @ show_redirs rs @ r) = Parsed tc r
      \<and> map_cmd word_of tc = redirected (REDIR c file mode fd) rs"
    by (simp add: show_redirs_def redirected_def)
qed

text \<open>A command in parentheses.\<close>

lemma reads_exec_block:
  assumes "reads_line c" "good_cmd c" "show_cmd c 3 = ''('' @ show_cmd c 0 @ '')''"
  shows "reads_exec c"
  unfolding reads_exec_def
proof (intro allI impI)
  fix rs r assume rs: "\<forall>x\<in>set rs. good_redir x" and r: "stops ''|)&;'' r"
  let ?rest = "show_redirs rs @ r"
  have st: "at_token ?rest" using stops_at_token [OF show_redirs_stops [OF r, of rs]] by simp
  have "stops '')'' (CHR '')'' # ?rest)" by (simp add: stops_def)
  with assms(1) obtain n tc where line: "parseline n (show_cmd c 0 @ CHR '')'' # ?rest) = Parsed tc (CHR '')'' # ?rest)"
    "map_cmd word_of tc = c" unfolding reads_line_def by blast
  obtain trs where trs: "parseredirs [] ?rest = Parsed trs r" "map redir_of trs = rs"
    using parse_show_redirs [OF r rs, of "[]"] by auto
  have at: "at_token (show_cmd c 0 @ CHR '')'' # ?rest)" using show_at_token [OF assms(2)] symbols_at_token by simp
  have o: "peek (CHR ''('' # s) ''('' = (True, CHR ''('' # s)" "peek (CHR '')'' # s) '')'' = (True, CHR '')'' # s)" for s
    by (rule peek_symbol; simp)+
  have g: "gettoken (CHR ''('' # show_cmd c 0 @ CHR '')'' # ?rest) = (CHR ''('', CHR ''('' # show_cmd c 0 @ CHR '')'' # ?rest, show_cmd c 0 @ CHR '')'' # ?rest, show_cmd c 0 @ CHR '')'' # ?rest)"
    "gettoken (CHR '')'' # ?rest) = (CHR '')'', CHR '')'' # ?rest, ?rest, ?rest)"
    by (rule gettoken_symbol, simp, rule at, rule gettoken_symbol, simp, rule st)
  have "parseexec (Suc (Suc n)) (CHR ''('' # show_cmd c 0 @ CHR '')'' # ?rest) = Parsed (redirected tc trs) r"
    using line(1) trs(1) g o by simp
  with assms(3) line(2) trs(2) show "\<exists>n tc. parseexec n (show_cmd c 3 @ ?rest) = Parsed tc r \<and> map_cmd word_of tc = redirected c rs"
    by (intro exI [of _ "Suc (Suc n)"] exI [of _ "redirected tc trs"]) (simp add: map_redirected)
qed

lemma reads_pipe_exec:
  assumes "reads_exec c" "show_cmd c 2 = show_cmd c 3"
  shows "reads_pipe c"
  unfolding reads_pipe_def
proof (intro allI impI)
  fix r assume r: "stops '')&;'' r"
  then have "stops ''|)&;'' r" by (rule stops_mono) auto
  with assms(1) [unfolded reads_exec_def, rule_format, of "[]" r] obtain n tc
    where n: "parseexec n (show_cmd c 3 @ r) = Parsed tc r" "map_cmd word_of tc = c"
    by (auto simp: show_redirs_def redirected_def)
  have "peek r ''|'' = (False, r)" by (rule stops_peek [OF r]) auto
  with n assms(2) show "\<exists>n tc. parsepipe n (show_cmd c 2 @ r) = Parsed tc r \<and> map_cmd word_of tc = c"
    by (intro exI [of _ "Suc n"] exI [of _ tc]) simp
qed

lemma reads_pipe_PIPE:
  assumes "reads_exec a" "reads_pipe b" "good_cmd b"
  shows "reads_pipe (PIPE a b)"
  unfolding reads_pipe_def
proof (intro allI impI)
  fix r assume r: "stops '')&;'' r"
  let ?rest = "show_cmd b 2 @ r"
  have "stops ''|)&;'' (''|'' @ ?rest)" by (simp add: stops_def)
  with assms(1) [unfolded reads_exec_def, rule_format, of "[]" "''|'' @ ?rest"] obtain n ta
    where n: "parseexec n (show_cmd a 3 @ ''|'' @ ?rest) = Parsed ta (''|'' @ ?rest)" "map_cmd word_of ta = a"
    by (auto simp: show_redirs_def redirected_def)
  from assms(2) r obtain m tb where m: "parsepipe m ?rest = Parsed tb r" "map_cmd word_of tb = b"
    unfolding reads_pipe_def by blast
  have at: "at_token ?rest" using show_at_token [OF assms(3)] stops_at_token [OF r] by simp
  have p: "peek (CHR ''|'' # ?rest) ''|'' = (True, CHR ''|'' # ?rest)" by (rule peek_symbol; simp)
  have g: "gettoken (CHR ''|'' # ?rest) = (CHR ''|'', CHR ''|'' # ?rest, ?rest, ?rest)"
    by (rule gettoken_symbol, simp, rule at)
  have "parsepipe (Suc (max n m)) (show_cmd (PIPE a b) 2 @ r) = Parsed (PIPE ta tb) r"
    using more_exec [OF n(1), of "max n m"] more_pipe [OF m(1), of "max n m"] p g by (simp add: parens_def)
  with n(2) m(2) show "\<exists>n tc. parsepipe n (show_cmd (PIPE a b) 2 @ r) = Parsed tc r \<and> map_cmd word_of tc = PIPE a b"
    by (intro exI [of _ "Suc (max n m)"] exI [of _ "PIPE ta tb"]) simp
qed

lemma map_BACKs: "map_cmd f ((BACK ^^ k) c) = (BACK ^^ k) (map_cmd f c)"
  by (induction k) simp_all

lemma parsebacks_ampersands:
  assumes "stops '');'' r"
  shows "parsebacks c (replicate k (CHR ''&'') @ r) = ((BACK ^^ k) c, r)"
proof (induction k arbitrary: c)
  case 0
  have "peek r ''&'' = (False, r)" by (rule stops_peek [OF assms]) auto
  then show ?case by (simp add: parsebacks.simps [of c r])
next
  case (Suc k)
  let ?rest = "replicate k (CHR ''&'') @ r"
  have at: "at_token ?rest" using stops_at_token [OF assms] symbols_at_token by (cases k) simp_all
  have "peek (CHR ''&'' # ?rest) ''&'' = (True, CHR ''&'' # ?rest)" by (rule peek_symbol; simp)
  moreover have "gettoken (CHR ''&'' # ?rest) = (CHR ''&'', CHR ''&'' # ?rest, ?rest, ?rest)"
    by (rule gettoken_symbol, simp, rule at)
  ultimately show ?case
    using Suc [of "BACK c"] by (simp add: parsebacks.simps [of c "CHR ''&'' # ?rest"] funpow_swap1)
qed

lemma reads_back_pipe:
  assumes "reads_pipe c" "show_cmd c 1 = show_cmd c 2"
  shows "reads_back c"
  unfolding reads_back_def
proof (intro allI impI)
  fix k r assume r: "stops '');'' r"
  then have "stops '')&;'' (replicate k (CHR ''&'') @ r)" by (cases k) (auto simp: stops_def)
  with assms(1) obtain n tc where n: "parsepipe n (show_cmd c 2 @ replicate k (CHR ''&'') @ r) = Parsed tc (replicate k (CHR ''&'') @ r)"
    "map_cmd word_of tc = c" unfolding reads_pipe_def by blast
  then have "map_cmd word_of ((BACK ^^ k) tc) = (BACK ^^ k) c" by (simp add: map_BACKs)
  with n(1) parsebacks_ampersands [OF r, of tc k] show "\<exists>n tc r' tc'. parsepipe n (show_cmd c 1 @ replicate k (CHR ''&'') @ r) = Parsed tc r'
      \<and> parsebacks tc r' = (tc', r) \<and> map_cmd word_of tc' = (BACK ^^ k) c"
    unfolding assms(2) by blast
qed

lemma reads_back_BACK:
  assumes "reads_back c"
  shows "reads_back (BACK c)"
  unfolding reads_back_def
proof (intro allI impI)
  fix k r assume "stops '');'' r"
  with assms obtain n tc r' tc' where "parsepipe n (show_cmd c 1 @ replicate (Suc k) (CHR ''&'') @ r) = Parsed tc r'"
    "parsebacks tc r' = (tc', r)" "map_cmd word_of tc' = (BACK ^^ Suc k) c" unfolding reads_back_def by blast
  then show "\<exists>n tc r' tc'. parsepipe n (show_cmd (BACK c) 1 @ replicate k (CHR ''&'') @ r) = Parsed tc r'
      \<and> parsebacks tc r' = (tc', r) \<and> map_cmd word_of tc' = (BACK ^^ k) (BACK c)"
    by (simp add: parens_def funpow_swap1) blast
qed

lemma reads_line_back:
  assumes "reads_back c" "show_cmd c 0 = show_cmd c 1"
  shows "reads_line c"
  unfolding reads_line_def
proof (intro allI impI)
  fix r assume r: "stops '')'' r"
  then have "stops '');'' r" by (rule stops_mono) auto
  with assms(1) [unfolded reads_back_def, rule_format, of r 0] obtain n tc r' tc'
    where n: "parsepipe n (show_cmd c 1 @ r) = Parsed tc r'" "parsebacks tc r' = (tc', r)" "map_cmd word_of tc' = c" by auto
  have "peek r '';'' = (False, r)" by (rule stops_peek [OF r]) auto
  with n assms(2) show "\<exists>n tc. parseline n (show_cmd c 0 @ r) = Parsed tc r \<and> map_cmd word_of tc = c"
    by (intro exI [of _ "Suc n"] exI [of _ tc']) simp
qed

lemma reads_line_LIST:
  assumes "reads_back a" "reads_line b" "good_cmd b"
  shows "reads_line (LIST a b)"
  unfolding reads_line_def
proof (intro allI impI)
  fix r assume r: "stops '')'' r"
  let ?rest = "show_cmd b 0 @ r"
  have "stops '');'' (CHR '';'' # ?rest)" by (simp add: stops_def)
  with assms(1) [unfolded reads_back_def, rule_format, of "CHR '';'' # ?rest" 0] obtain n ta r' ta'
    where n: "parsepipe n (show_cmd a 1 @ CHR '';'' # ?rest) = Parsed ta r'" "parsebacks ta r' = (ta', CHR '';'' # ?rest)"
      "map_cmd word_of ta' = a" by auto
  from assms(2) r obtain m tb where m: "parseline m ?rest = Parsed tb r" "map_cmd word_of tb = b"
    unfolding reads_line_def by blast
  have at: "at_token ?rest" using show_at_token [OF assms(3)] stops_at_token [OF r] by simp
  have p: "peek (CHR '';'' # ?rest) '';'' = (True, CHR '';'' # ?rest)" by (rule peek_symbol; simp)
  have g: "gettoken (CHR '';'' # ?rest) = (CHR '';'', CHR '';'' # ?rest, ?rest, ?rest)"
    by (rule gettoken_symbol, simp, rule at)
  have "parseline (Suc (max n m)) (show_cmd (LIST a b) 0 @ r) = Parsed (LIST ta' tb) r"
    using more_pipe [OF n(1), of "max n m"] n(2) more_line [OF m(1), of "max n m"] p g by (simp add: parens_def)
  with n(3) m(2) show "\<exists>n tc. parseline n (show_cmd (LIST a b) 0 @ r) = Parsed tc r \<and> map_cmd word_of tc = LIST a b"
    by (intro exI [of _ "Suc (max n m)"] exI [of _ "LIST ta' tb"]) simp
qed

lemma reads_all: "good_cmd c \<Longrightarrow> reads_exec c \<and> reads_pipe c \<and> reads_back c \<and> reads_line c"
proof (induction c)
  case (EXEC args)
  then have "reads_exec (EXEC args)" by (rule reads_exec_EXEC)
  moreover from this have "reads_pipe (EXEC args)" by (rule reads_pipe_exec) simp
  moreover from this have "reads_back (EXEC args)" by (rule reads_back_pipe) simp
  ultimately show ?case by (auto intro: reads_line_back)
next
  case (REDIR c f m d)
  then have "reads_exec (REDIR c f m d)" by (intro reads_exec_REDIR) simp_all
  moreover from this have "reads_pipe (REDIR c f m d)" by (rule reads_pipe_exec) simp
  moreover from this have "reads_back (REDIR c f m d)" by (rule reads_back_pipe) simp
  ultimately show ?case by (auto intro: reads_line_back)
next
  case (PIPE a b)
  then have "reads_pipe (PIPE a b)" by (intro reads_pipe_PIPE) simp_all
  moreover from this have "reads_back (PIPE a b)" by (rule reads_back_pipe) (simp add: parens_def)
  moreover from this have "reads_line (PIPE a b)" by (rule reads_line_back) (simp add: parens_def)
  moreover from this have "reads_exec (PIPE a b)" by (rule reads_exec_block) (use PIPE.prems in \<open>simp_all add: parens_def\<close>)
  ultimately show ?case by blast
next
  case (LIST a b)
  then have "reads_line (LIST a b)" by (intro reads_line_LIST) simp_all
  moreover from this have "reads_exec (LIST a b)" by (rule reads_exec_block) (use LIST.prems in \<open>simp_all add: parens_def\<close>)
  moreover from this have "reads_pipe (LIST a b)" by (rule reads_pipe_exec) (simp add: parens_def)
  moreover from this have "reads_back (LIST a b)" by (rule reads_back_pipe) (simp add: parens_def)
  ultimately show ?case by blast
next
  case (BACK c)
  then have "reads_back (BACK c)" by (intro reads_back_BACK) simp
  moreover from this have "reads_line (BACK c)" by (rule reads_line_back) (simp add: parens_def)
  moreover from this have "reads_exec (BACK c)" by (rule reads_exec_block) (use BACK.prems in \<open>simp_all add: parens_def\<close>)
  moreover from this have "reads_pipe (BACK c)" by (rule reads_pipe_exec) (simp add: parens_def)
  ultimately show ?case by blast
qed

section \<open>A typed command is run\<close>

lemma show_words_no_nul: "\<forall>w\<in>set ws. good_word w \<Longrightarrow> CHR 0x00 \<notin> set (show_words ws)"
  by (induction ws rule: show_words.induct) (auto simp: good_word_def)

lemma show_no_nul: "good_cmd c \<Longrightarrow> CHR 0x00 \<notin> set (show_cmd c l)"
proof (induction c arbitrary: l)
  case (REDIR c f m d)
  then show ?case by (auto simp: show_redir_def redir_sign_def good_redir_def good_word_def)
qed (auto simp: show_words_no_nul parens_def)

lemma parse_show: "good_cmd c \<Longrightarrow> \<exists>tc. parsecmd (show_cmd c 0) = Parsed tc [] \<and> map_cmd word_of tc = c"
proof -
  assume c: "good_cmd c"
  then obtain n tc where tc: "parseline n (show_cmd c 0) = Parsed tc []" "map_cmd word_of tc = c"
    using reads_all [OF c] unfolding reads_line_def by (auto dest: spec [of _ "[]"] simp: stops_def)
  with parse_fuel_irrelevant [OF tc(1)] show ?thesis by (auto simp: parsecmd_def peek_def)
qed

lemma parsecmd_words:
  assumes "parsecmd line = Parsed tc r"
  shows "r = []" "words_in line [] (set_cmd tc)"
proof -
  from assms obtain r0 where r0: "parseline (parse_fuel line) line = Parsed tc r0" "r = []"
    by (auto simp: parsecmd_def bindp_Parsed peek_def Let_def split: prod.splits if_splits list.splits)
  then show "r = []" by simp
  have "words_in line r0 (set_cmd tc)" using parse_words [of "parse_fuel line" line tc r0] r0(1) by blast
  then show "words_in line [] (set_cmd tc)" by (rule words_in_move) simp
qed

lemma terminated_strings:
  assumes "parsecmd line = Parsed tc r" "CHR 0x00 \<notin> set line"
  shows "map_cmd (string_at (length line) (nulterminate (length line) tc (line @ [CHR 0x00]))) tc = map_cmd word_of tc"
  by (rule cmd.map_cong [OF refl]) (rule string_at_word [OF parsecmd_words(2) [OF assms(1)] _ assms(2)])

text \<open>
  C38. The parser returns for every line: it gives a command, reports a syntax error, or reports what is
  left over, and the bound on its recursion makes no difference.
\<close>

theorem sh_parser_returns:
  "parsecmd line \<noteq> NoFuel \<and> parseline (parse_fuel line + k) line = parseline (parse_fuel line) line"
proof -
  have ok: "parseline (parse_fuel line) line \<noteq> NoFuel" using parse_enough_fuel by (simp add: parse_fuel_def)
  then have "parsecmd line \<noteq> NoFuel" by (auto simp: parsecmd_def bindp_NoFuel split: prod.splits)
  with ok parse_more_fuel [of "parse_fuel line" "parse_fuel line + k" line] show ?thesis by simp
qed

text \<open>
  C37. What a parsed command is run with are the words of the line: after \<open>nulterminate\<close> has overwritten
  the ends of all words in the line, the string at the start of each word is this word, unchanged and
  not cut short by the end of another; and each word is a longest run of ordinary characters of the
  line.
\<close>

theorem sh_terminated_words:
  assumes "parsecmd line = Parsed cmd r" "CHR 0x00 \<notin> set line" "t \<in> set_cmd cmd"
  shows "string_at (length line) (nulterminate (length line) cmd (line @ [CHR 0x00])) t = word_of t
    \<and> word_of t = takeWhile word_char (fst t) \<and> word_of t \<noteq> [] \<and> suffix (fst t) line"
proof -
  note w = parsecmd_words(2) [OF assms(1)]
  from w assms(3) have g: "good_token line [] t" by (simp add: words_in_def)
  have "word_of t = takeWhile word_char (fst t)"
  proof -
    have "length (fst t) = length (takeWhile word_char (fst t)) + length (dropWhile word_char (fst t))"
      by (metis length_append takeWhile_dropWhile_id)
    then show ?thesis using g by (simp add: word_of_def good_token_def takeWhile_eq_take [symmetric])
  qed
  moreover have "takeWhile word_char (fst t) \<noteq> []" using g by (cases "fst t") (auto simp: good_token_def)
  ultimately show ?thesis using string_at_word [OF w assms(3,2)] g by (simp add: good_token_def)
qed

theorem sh_terminated_words_witness:
  "\<exists>cmd t. parsecmd ''ls x'' = Parsed cmd [] \<and> t \<in> set_cmd cmd
     \<and> string_at 4 (nulterminate 4 cmd (''ls x'' @ [CHR 0x00])) t = ''x''"
proof -
  let ?c = "EXEC [''ls'', ''x'']"
  have "good_cmd ?c" by (simp add: good_word_def word_char_def whitespace_def symbols_def)
  from parse_show [OF this] obtain tc where tc: "parsecmd ''ls x'' = Parsed tc []" "map_cmd word_of tc = ?c"
    by (auto simp: parens_def)
  have "''x'' \<in> set_cmd (map_cmd word_of tc)" unfolding tc(2) by simp
  then obtain t where t: "t \<in> set_cmd tc" "word_of t = ''x''" unfolding cmd.set_map by fastforce
  have "length ''ls x'' = 4" "CHR 0x00 \<notin> set ''ls x''" by simp_all
  from sh_terminated_words [OF tc(1) this(2) t(1), unfolded this(1)] tc(1) t show ?thesis by metis
qed

text \<open>
  C36. Every command can be typed and is then run as it is: for every tree of commands, redirections,
  pipelines, lists and background commands over ordinary words, of at most 9 words each, the line
  that \<open>show_cmd\<close> writes makes the shell run exactly this tree.
\<close>

theorem sh_runs_what_is_typed:
  assumes "good_cmd c"
  shows "run_line S (show_cmd c 0) = runcmd S c"
proof -
  obtain tc where tc: "parsecmd (show_cmd c 0) = Parsed tc []" "map_cmd word_of tc = c"
    using parse_show [OF assms] by blast
  from terminated_strings [OF tc(1) show_no_nul [OF assms]] tc show ?thesis by (simp add: run_line_def Let_def)
qed

theorem sh_runs_what_is_typed_witness:
  "run_line filter_sys ''(a b;c)>f|d&'' =
   runcmd filter_sys (BACK (PIPE (REDIR (LIST (EXEC [''a'', ''b'']) (EXEC [''c''])) ''f'' 0x601 1) (EXEC [''d''])))"
proof -
  let ?c = "BACK (PIPE (REDIR (LIST (EXEC [''a'', ''b'']) (EXEC [''c''])) ''f'' 0x601 1) (EXEC [''d'']))"
  have m: "redir_mode (CHR ''>'') = (0x601, 1)" "redir_mode (CHR ''<'') = (0, 0)"
    by (simp_all add: redir_mode_def)
  then have "good_redir (''f'', 0x601, 1)"
    by (auto simp: good_redir_def good_word_def word_char_def whitespace_def symbols_def intro!: image_eqI [of _ _ "CHR ''>''"])
  then have good: "good_cmd ?c"
    by (simp add: good_word_def word_char_def whitespace_def symbols_def)
  have eq: "show_cmd ?c 0 = ''(a b;c)>f|d&''"
    by (simp add: parens_def show_redir_def redir_sign_def m)
  from sh_runs_what_is_typed [OF good, of filter_sys] show ?thesis unfolding eq .
qed

end
