(* ===== verification/Xv6_Mkfs.thy ===== *)
theory Xv6_Mkfs
  imports Xv6_Layout
begin

text \<open>
  The program that makes the file system image (mkfs/mkfs.c). It runs on the host: the operations of
  the host on the image and on the files that are copied are the fields of a record of type
  \<open>'h host\<close>, on a state \<open>'h\<close>. The host is little-endian, like the machine the image is for.
\<close>

section \<open>State\<close>

type_synonym blk = "nat \<Rightarrow> byte"

text \<open>
  \<open>h_lseek\<close>, \<open>h_write\<close> and \<open>h_read\<close> are lseek, and write and read of one block, on the image;
  \<open>h_input\<close> reads at most a block of an opened file, \<open>None\<close> for a failed read.
\<close>

record 'h host =
  h_create :: "string \<Rightarrow> ('h, int) km"
  h_lseek :: "uint \<Rightarrow> ('h, uint) km"
  h_write :: "blk \<Rightarrow> ('h, int) km"
  h_read :: "('h, int \<times> blk) km"
  h_open :: "string \<Rightarrow> ('h, int) km"
  h_input :: "int \<Rightarrow> ('h, byte list option) km"
  h_close :: "int \<Rightarrow> ('h, unit) km"

record 'h mkfs =
  mk_sb :: superblock
  freeinode :: uint
  freeblock :: uint
  world :: 'h

definition on_host :: "('h, 'a) km \<Rightarrow> ('h mkfs, 'a) km" where
  "on_host m s = (case m (world s) of
     Done a w \<Rightarrow> Done a (s\<lparr>world := w\<rparr>) | Stop r w \<Rightarrow> Stop r (s\<lparr>world := w\<rparr>) | Forever \<Rightarrow> Forever)"

definition die :: "string \<Rightarrow> ('s, 'a) km" where
  "die msg s = Stop (Exited 1) s"

definition assert_mk :: "bool \<Rightarrow> ('s, unit) km" where
  "assert_mk b = panic_if (\<not> b) ''assert''"

definition NINODES :: nat where "NINODES = 200"
definition nbitmap :: nat where "nbitmap = FSSIZE div (BSIZE * 8) + 1"
definition ninodeblocks :: nat where "ninodeblocks = NINODES div IPB + 1"
definition nlog :: nat where "nlog = LOGSIZE"
definition nmeta :: nat where "nmeta = 2 + nlog + ninodeblocks + nbitmap"
definition nblocks :: nat where "nblocks = FSSIZE - nmeta"

text \<open>The bytes \<open>xshort\<close> and \<open>xint\<close> put into a number, read on a little-endian host.\<close>

definition xshort :: "16 word \<Rightarrow> 16 word" where
  "xshort x = get16 (\<lambda>i. if i = 0 then ucast x else ucast (drop_bit 8 x)) 0"

definition xint :: "uint \<Rightarrow> uint" where
  "xint x = get32 (\<lambda>i. if i = 0 then ucast x else if i = 1 then ucast (drop_bit 8 x)
     else if i = 2 then ucast (drop_bit 16 x) else ucast (drop_bit 24 x)) 0"

text \<open>The super block that \<open>main\<close> fills in, and its bytes.\<close>

definition mkfs_sb :: superblock where
  "mkfs_sb = \<lparr>sb_magic = FSMAGIC, sb_size = xint (of_nat FSSIZE), sb_nblocks = xint (of_nat nblocks),
     sb_ninodes = xint (of_nat NINODES), sb_nlog = xint (of_nat nlog), sb_logstart = xint 2,
     sb_inodestart = xint (2 + of_nat nlog), sb_bmapstart = xint (2 + of_nat nlog + of_nat ninodeblocks)\<rparr>"

definition sb_bytes :: "superblock \<Rightarrow> blk" where
  "sb_bytes b = (let d = (\<lambda>_. 0); d = put32 d 0 (sb_magic b); d = put32 d 4 (sb_size b);
     d = put32 d 8 (sb_nblocks b); d = put32 d 12 (sb_ninodes b); d = put32 d 16 (sb_nlog b);
     d = put32 d 20 (sb_logstart b); d = put32 d 24 (sb_inodestart b) in put32 d 28 (sb_bmapstart b))"

section \<open>Sectors and inodes\<close>

definition wsect :: "'h host \<Rightarrow> uint \<Rightarrow> blk \<Rightarrow> ('h mkfs, unit) km" where
  "wsect H sec buf =
     bind (on_host (h_lseek H (sec * of_nat BSIZE))) (\<lambda>r.
     if r \<noteq> sec * of_nat BSIZE then die ''lseek''
     else bind (on_host (h_write H buf)) (\<lambda>n.
       if n \<noteq> int BSIZE then die ''write'' else ret ()))"

definition rsect :: "'h host \<Rightarrow> uint \<Rightarrow> ('h mkfs, blk) km" where
  "rsect H sec =
     bind (on_host (h_lseek H (sec * of_nat BSIZE))) (\<lambda>r.
     if r \<noteq> sec * of_nat BSIZE then die ''lseek''
     else bind (on_host (h_read H)) (\<lambda>(n, buf).
       if n \<noteq> int BSIZE then die ''read'' else ret buf))"

record dinode =
  di_type :: "16 word"
  di_major :: "16 word"
  di_minor :: "16 word"
  di_nlink :: "16 word"
  di_size :: uint
  di_addrs :: "nat \<Rightarrow> uint"

text \<open>Copying the structure out of a block and into one.\<close>

definition get_dinode :: "blk \<Rightarrow> nat \<Rightarrow> dinode" where
  "get_dinode d off = \<lparr>di_type = get16 d off, di_major = get16 d (off + 2), di_minor = get16 d (off + 4),
     di_nlink = get16 d (off + 6), di_size = get32 d (off + 8),
     di_addrs = (\<lambda>k. if k \<le> NDIRECT then get32 d (off + 12 + 4 * k) else 0)\<rparr>"

definition put_dinode :: "dinode \<Rightarrow> nat \<Rightarrow> blk \<Rightarrow> blk" where
  "put_dinode x off d =
     (let d = put16 d off (di_type x); d = put16 d (off + 2) (di_major x); d = put16 d (off + 4) (di_minor x);
          d = put16 d (off + 6) (di_nlink x); d = put32 d (off + 8) (di_size x)
      in fold (\<lambda>k d. put32 d (off + 12 + 4 * k) (di_addrs x k)) [0..<Suc NDIRECT] d)"

definition winode :: "'h host \<Rightarrow> uint \<Rightarrow> dinode \<Rightarrow> ('h mkfs, unit) km" where
  "winode H inum ip =
     bind (gets (\<lambda>s. IBLOCK inum (mk_sb s))) (\<lambda>bn.
     bind (rsect H bn) (\<lambda>buf.
     wsect H bn (put_dinode ip (dinode_off inum) buf)))"

definition rinode :: "'h host \<Rightarrow> uint \<Rightarrow> ('h mkfs, dinode) km" where
  "rinode H inum =
     bind (gets (\<lambda>s. IBLOCK inum (mk_sb s))) (\<lambda>bn.
     bind (rsect H bn) (\<lambda>buf.
     ret (get_dinode buf (dinode_off inum))))"

definition ialloc_mk :: "'h host \<Rightarrow> 16 word \<Rightarrow> ('h mkfs, uint) km" where
  "ialloc_mk H type =
     bind (gets freeinode) (\<lambda>inum. bind (block [
       modify (\<lambda>s. s\<lparr>freeinode := inum + 1\<rparr>),
       winode H inum \<lparr>di_type = xshort type, di_major = 0, di_minor = 0, di_nlink = xshort 1,
         di_size = xint 0, di_addrs = (\<lambda>_. 0)\<rparr>]) (\<lambda>_. ret inum))"

definition balloc_bits :: "nat \<Rightarrow> blk" where
  "balloc_bits used = fold (\<lambda>i buf. buf(i div 8 := buf (i div 8) OR push_bit (i mod 8) 1)) [0..<used] (\<lambda>_. 0)"

definition balloc_mk :: "'h host \<Rightarrow> int \<Rightarrow> ('h mkfs, unit) km" where
  "balloc_mk H used = block [
     assert_mk (used < int (BSIZE * 8)),
     bind (gets mk_sb) (\<lambda>b. wsect H (sb_bmapstart b) (balloc_bits (nat used)))]"

section \<open>Files\<close>

text \<open>The next free block.\<close>

definition new_block :: "('h mkfs, uint) km" where
  "new_block = bind (gets freeblock) (\<lambda>b. bind (modify (\<lambda>s. s\<lparr>freeblock := b + 1\<rparr>)) (\<lambda>_. ret b))"

text \<open>The block of the file for block number \<open>fbn\<close>, allocated if there is none.\<close>

definition iappend_direct :: "dinode \<Rightarrow> nat \<Rightarrow> ('h mkfs, uint \<times> dinode) km" where
  "iappend_direct din k =
     (if xint (di_addrs din k) = 0
      then bind new_block (\<lambda>b. ret (xint (xint b), din\<lparr>di_addrs := (di_addrs din)(k := xint b)\<rparr>))
      else ret (xint (di_addrs din k), din))"

definition iappend_indirect :: "'h host \<Rightarrow> uint \<Rightarrow> nat \<Rightarrow> ('h mkfs, uint) km" where
  "iappend_indirect H x k =
     bind (rsect H x) (\<lambda>ind.
     if get32 ind (4 * k) = 0 then
       bind new_block (\<lambda>b.
       bind (wsect H x (put32 ind (4 * k) (xint b))) (\<lambda>_. ret (xint (xint b))))
     else ret (xint (get32 ind (4 * k))))"

definition iappend_block :: "'h host \<Rightarrow> dinode \<Rightarrow> nat \<Rightarrow> ('h mkfs, uint \<times> dinode) km" where
  "iappend_block H din fbn =
     (if fbn < NDIRECT then iappend_direct din fbn
      else bind (iappend_direct din NDIRECT) (\<lambda>(x, din).
        bind (iappend_indirect H x (fbn - NDIRECT)) (\<lambda>y. ret (y, din))))"

text \<open>One round of the loop: as much of \<open>p\<close> as fits into the block of offset \<open>off\<close>.\<close>

definition iappend_round :: "'h host \<Rightarrow> byte list \<Rightarrow> uint \<Rightarrow> dinode \<Rightarrow> ('h mkfs, byte list \<times> uint \<times> dinode) km" where
  "iappend_round H p off din =
     (let fbn = unat off div BSIZE in
      bind (assert_mk (fbn < MAXFILE)) (\<lambda>_.
      bind (iappend_block H din fbn) (\<lambda>(x, din).
      let n1 = min (length p) ((fbn + 1) * BSIZE - unat off); i0 = unat off - fbn * BSIZE in
      bind (rsect H x) (\<lambda>buf.
      bind (wsect H x (\<lambda>i. if i0 \<le> i \<and> i < i0 + n1 then p ! (i - i0) else buf i)) (\<lambda>_.
      ret (drop n1 p, off + of_nat n1, din))))))"

definition iappend :: "'h host \<Rightarrow> uint \<Rightarrow> byte list \<Rightarrow> ('h mkfs, unit) km" where
  "iappend H inum xp =
     bind (rinode H inum) (\<lambda>din.
     bind (loop (\<lambda>(p, off, din).
       if p = [] then ret (Inr (off, din)) else bind (iappend_round H p off din) (\<lambda>r. ret (Inl r)))
       (xp, xint (di_size din), din)) (\<lambda>(off, din).
     winode H inum (din\<lparr>di_size := xint off\<rparr>)))"

section \<open>main\<close>

definition dirent_bytes :: "uint \<Rightarrow> string \<Rightarrow> byte list" where
  "dirent_bytes inum name =
     map (put16 (\<lambda>_. 0) 0 (xshort (ucast inum))) [0..<2]
     @ take DIRSIZ (map of_char name @ replicate DIRSIZ 0)"

text \<open>The name of a file in the image: without \<open>user/\<close> and a leading underscore.\<close>

definition shortname :: "string \<Rightarrow> string" where
  "shortname arg = (let n = (if take 5 arg = ''user/'' then drop 5 arg else arg)
     in if n \<noteq> [] \<and> hd n = CHR ''_'' then tl n else n)"

definition mkfs_copy_round :: "'h host \<Rightarrow> uint \<Rightarrow> int \<Rightarrow> ('h mkfs, unit + unit) km" where
  "mkfs_copy_round H inum fd =
     bind (on_host (h_input H fd)) (\<lambda>r. case r of
       Some (b # bs) \<Rightarrow> bind (iappend H inum (b # bs)) (\<lambda>_. ret (Inl ()))
     | _ \<Rightarrow> ret (Inr ()))"

definition mkfs_copy :: "'h host \<Rightarrow> uint \<Rightarrow> int \<Rightarrow> ('h mkfs, unit) km" where
  "mkfs_copy H inum fd = loop (\<lambda>_. mkfs_copy_round H inum fd) ()"

definition mkfs_file :: "'h host \<Rightarrow> uint \<Rightarrow> string \<Rightarrow> ('h mkfs, unit) km" where
  "mkfs_file H rootino arg =
     bind (assert_mk (CHR ''/'' \<notin> set (if take 5 arg = ''user/'' then drop 5 arg else arg))) (\<lambda>_.
     bind (on_host (h_open H arg)) (\<lambda>fd.
     if fd < 0 then die arg
     else bind (ialloc_mk H T_FILE) (\<lambda>inum. block [
       iappend H rootino (dirent_bytes inum (shortname arg)),
       mkfs_copy H inum fd,
       on_host (h_close H fd)])))"

text \<open>The root directory; and before it zeroing the image and the super block.\<close>

definition mkfs_dir :: "'h host \<Rightarrow> ('h mkfs, uint) km" where
  "mkfs_dir H =
     bind (ialloc_mk H T_DIR) (\<lambda>rootino.
     bind (block [
       assert_mk (rootino = ROOTINO),
       iappend H rootino (dirent_bytes rootino ''.''),
       iappend H rootino (dirent_bytes rootino ''..'')]) (\<lambda>_. ret rootino))"

definition mkfs_root :: "'h host \<Rightarrow> ('h mkfs, uint) km" where
  "mkfs_root H =
     bind (block [
       modify (\<lambda>s. s\<lparr>mk_sb := mkfs_sb, freeblock := of_nat nmeta\<rparr>),
       for_each (\<lambda>i. wsect H (of_nat i) (\<lambda>_. 0)) [0..<FSSIZE],
       wsect H 1 (sb_bytes mkfs_sb)]) (\<lambda>_. mkfs_dir H)"

definition mkfs_finish :: "'h host \<Rightarrow> uint \<Rightarrow> ('h mkfs, unit) km" where
  "mkfs_finish H rootino =
     bind (rinode H rootino) (\<lambda>din.
     bind (winode H rootino (din\<lparr>di_size := xint ((xint (di_size din) div of_nat BSIZE + 1) * of_nat BSIZE)\<rparr>)) (\<lambda>_.
     bind (gets freeblock) (\<lambda>b. balloc_mk H (sint b))))"

definition mkfs_main :: "'h host \<Rightarrow> string list \<Rightarrow> ('h mkfs, unit) km" where
  "mkfs_main H argv =
     (if length argv < 2 then (\<lambda>s. Stop (Exited 1) s)
      else bind (block [assert_mk (BSIZE mod 64 = 0), assert_mk (BSIZE mod 16 = 0)]) (\<lambda>_.
        bind (on_host (h_create H (argv ! 1))) (\<lambda>fd.
        if fd < 0 then die (argv ! 1)
        else bind (mkfs_root H) (\<lambda>rootino.
          bind (block [
            for_each (mkfs_file H rootino) (drop 2 argv),
            mkfs_finish H rootino]) (\<lambda>_ s. Stop (Exited 0) s)))))"

text \<open>The state in which \<open>main\<close> is called: \<open>freeinode\<close> is initialised, the other globals are zero.\<close>

definition mkfs_start :: "'h \<Rightarrow> 'h mkfs" where
  "mkfs_start w = \<lparr>mk_sb = \<lparr>sb_magic = 0, sb_size = 0, sb_nblocks = 0, sb_ninodes = 0, sb_nlog = 0,
     sb_logstart = 0, sb_inodestart = 0, sb_bmapstart = 0\<rparr>, freeinode = 1, freeblock = 0, world = w\<rparr>"

end
