(* ===== verification/Xv6_Mkimage.thy ===== *)
theory Xv6_Mkimage
  imports Xv6_Mkfs
begin

text \<open>
  What mkfs/mkfs.c makes. Its operations are specified on an abstract image, by triples in the style
  of Hoare logic: \<open>does con m A r B\<close> says that \<open>m\<close>, started with image \<open>A\<close>, returns \<open>r\<close> and leaves
  image \<open>B\<close>.
\<close>

section \<open>Host and image\<close>

text \<open>
  What the program relies on of the host: positioning the image file, reading a block that is there
  and writing a block. \<open>con\<close> is what the host has: the blocks of the image, and for each opened
  file what is still to be read of it.
\<close>

type_synonym 'h contents = "'h \<Rightarrow> (nat \<rightharpoonup> blk) \<times> (int \<Rightarrow> byte list)"

definition host_image :: "'h host \<Rightarrow> 'h contents \<Rightarrow> ('h \<Rightarrow> uint) \<Rightarrow> bool" where
  "host_image H con pos \<longleftrightarrow>
     (\<forall>w off. \<exists>w'. h_lseek H off w = Done off w' \<and> con w' = con w \<and> pos w' = off)
   \<and> (\<forall>w b buf. pos w = of_nat b * 1024 \<longrightarrow> b < FSSIZE \<longrightarrow>
        (\<exists>w'. h_write H buf w = Done 1024 w' \<and> con w' = ((fst (con w))(b \<mapsto> buf), snd (con w))))
   \<and> (\<forall>w b buf. pos w = of_nat b * 1024 \<longrightarrow> b < FSSIZE \<longrightarrow> fst (con w) b = Some buf \<longrightarrow>
        (\<exists>w'. h_read H w = Done (1024, buf) w' \<and> con w' = con w))"

record image =
  im_block :: "nat \<Rightarrow> blk"
  im_inodes :: uint
  im_used :: nat
  im_input :: "int \<Rightarrow> byte list"

definition holds :: "'h contents \<Rightarrow> image \<Rightarrow> 'h mkfs \<Rightarrow> bool" where
  "holds con A s \<longleftrightarrow> mk_sb s = mkfs_sb \<and> freeinode s = im_inodes A \<and> freeblock s = of_nat (im_used A)
     \<and> snd (con (world s)) = im_input A \<and> (\<forall>b < FSSIZE. fst (con (world s)) b = Some (im_block A b))"

definition does :: "'h contents \<Rightarrow> ('h mkfs, 'a) km \<Rightarrow> image \<Rightarrow> 'a \<Rightarrow> image \<Rightarrow> bool" where
  "does con m A r B \<longleftrightarrow> (\<forall>s. holds con A s \<longrightarrow> (\<exists>t. m s = Done r t \<and> holds con B t))"

lemma does_bind:
  "does con m A a B \<Longrightarrow> does con (f a) B r C \<Longrightarrow> does con (bind m f) A r C"
  unfolding does_def by (metis bind_Done)

lemma does_ret: "does con (ret r) A r A"
  by (simp add: does_def ret_def)

lemma does_gets: "(\<And>s. holds con A s \<Longrightarrow> f s = r) \<Longrightarrow> does con (gets f) A r A"
  by (simp add: does_def gets_def)

lemma does_loop_again:
  assumes "does con (f x) A (Inl y) B" "does con (loop f y) B r C"
  shows "does con (loop f x) A r C"
  unfolding does_def
proof (intro allI impI)
  fix s assume "holds con A s"
  with assms obtain t u where "f x s = Done (Inl y) t" "loop f y t = Done r u" "holds con C u"
    unfolding does_def by blast
  then show "\<exists>t. loop f x s = Done r t \<and> holds con C t" by (subst loop_unfold) simp
qed

lemma does_loop_exit:
  assumes "does con (f x) A (Inr r) B"
  shows "does con (loop f x) A r B"
  unfolding does_def
proof (intro allI impI)
  fix s assume "holds con A s"
  with assms obtain t where "f x s = Done (Inr r) t" "holds con B t" unfolding does_def by blast
  then show "\<exists>t. loop f x s = Done r t \<and> holds con B t" by (subst loop_unfold) simp
qed

lemma does_assert: "b \<Longrightarrow> does con (assert_mk b) A () A"
  by (simp add: assert_mk_def panic_if_def does_ret)

lemma does_block_Nil: "does con (block []) A () A"
  by (simp add: does_ret)

lemma does_block_Cons: "does con m A () B \<Longrightarrow> does con (block ms) B () C \<Longrightarrow> does con (block (m # ms)) A () C"
  by (simp add: does_bind)

lemmas does_block = does_block_Cons does_block_Nil

section \<open>Sectors and inodes\<close>

lemma FSSIZE_less: "b < FSSIZE \<Longrightarrow> b < 1000"
  by (simp add: FSSIZE_def)

definition put_block :: "nat \<Rightarrow> blk \<Rightarrow> image \<Rightarrow> image" where
  "put_block b d A = A\<lparr>im_block := (im_block A)(b := d)\<rparr>"

lemma put_block_simps [simp]:
  "im_block (put_block b d A) = (im_block A)(b := d)" "im_inodes (put_block b d A) = im_inodes A"
  "im_used (put_block b d A) = im_used A" "im_input (put_block b d A) = im_input A"
  by (simp_all add: put_block_def)

lemma on_host_Done: "m (world s) = Done r w \<Longrightarrow> on_host m s = Done r (s\<lparr>world := w\<rparr>)"
  by (simp add: on_host_def)

lemma wsect_eq:
  assumes "host_image H con pos" "b < FSSIZE"
  shows "\<exists>w. wsect H (of_nat b) buf s = Done () (s\<lparr>world := w\<rparr>)
     \<and> con w = ((fst (con (world s)))(b \<mapsto> buf), snd (con (world s)))"
proof -
  from assms(1) obtain w where w: "h_lseek H (of_nat b * 1024) (world s) = Done (of_nat b * 1024) w"
      "con w = con (world s)" "pos w = of_nat b * 1024" unfolding host_image_def by blast
  with assms obtain w' where w': "h_write H buf w = Done 1024 w'" "con w' = ((fst (con w))(b \<mapsto> buf), snd (con w))"
    unfolding host_image_def by blast
  from w w' have "wsect H (of_nat b) buf s = Done () (s\<lparr>world := w'\<rparr>)"
    by (simp add: wsect_def on_host_def bind_def ret_def)
  with w w' show ?thesis by auto
qed

lemma does_wsect:
  assumes "host_image H con pos" "b < FSSIZE"
  shows "does con (wsect H (of_nat b) buf) A () (put_block b buf A)"
  unfolding does_def
proof (intro allI impI)
  fix s assume s: "holds con A s"
  from wsect_eq [OF assms] obtain w where "wsect H (of_nat b) buf s = Done () (s\<lparr>world := w\<rparr>)"
    "con w = ((fst (con (world s)))(b \<mapsto> buf), snd (con (world s)))" by blast
  with s show "\<exists>t. wsect H (of_nat b) buf s = Done () t \<and> holds con (put_block b buf A) t" by (auto simp: holds_def)
qed

lemma does_rsect:
  assumes "host_image H con pos" "b < FSSIZE"
  shows "does con (rsect H (of_nat b)) A (im_block A b) A"
  unfolding does_def
proof (intro allI impI)
  fix s assume s: "holds con A s"
  from assms(1) obtain w where w: "h_lseek H (of_nat b * 1024) (world s) = Done (of_nat b * 1024) w"
      "con w = con (world s)" "pos w = of_nat b * 1024" unfolding host_image_def by blast
  with s assms(2) have "fst (con w) b = Some (im_block A b)" by (simp add: holds_def)
  with w assms obtain w' where w': "h_read H w = Done (1024, im_block A b) w'" "con w' = con w"
    unfolding host_image_def by blast
  from w w' have "rsect H (of_nat b) s = Done (im_block A b) (s\<lparr>world := w'\<rparr>)"
    by (simp add: rsect_def on_host_def bind_def ret_def)
  moreover from s w w' have "holds con A (s\<lparr>world := w'\<rparr>)" by (simp add: holds_def)
  ultimately show "\<exists>t. rsect H (of_nat b) s = Done (im_block A b) t \<and> holds con A t" by blast
qed

text \<open>The host has the byte order of the image.\<close>

lemma xshort_id [simp]: "xshort x = x"
proof -
  have "xshort x = get16 (put16 (\<lambda>_. 0) 0 x) 0"
    unfolding xshort_def get16_def put16_def
    by (rule get_le_cong) (auto simp: numeral_2_eq_2 less_Suc_eq)
  then show ?thesis by simp
qed

lemma xint_id [simp]: "xint x = x"
proof -
  have "xint x = get32 (put32 (\<lambda>_. 0) 0 x) 0"
    unfolding xint_def get32_def put32_def
    by (rule get_le_cong) (auto simp: numeral_eq_Suc less_Suc_eq drop_bit_drop_bit)
  then show ?thesis by simp
qed

lemma layout_simps [simp]:
  "nbitmap = 1" "ninodeblocks = 13" "nlog = 30" "nmeta = 46" "nblocks = 954"
  by (simp_all add: nbitmap_def ninodeblocks_def nlog_def nmeta_def nblocks_def NINODES_def
      FSSIZE_def LOGSIZE_def MAXOPBLOCKS_def)

lemma mkfs_sb_simps [simp]:
  "sb_magic mkfs_sb = FSMAGIC" "sb_size mkfs_sb = 1000" "sb_nblocks mkfs_sb = 954"
  "sb_ninodes mkfs_sb = 200" "sb_nlog mkfs_sb = 30" "sb_logstart mkfs_sb = 2"
  "sb_inodestart mkfs_sb = 32" "sb_bmapstart mkfs_sb = 45"
  by (simp_all add: mkfs_sb_def FSSIZE_def NINODES_def)

lemma sb_bytes_read: "sb_of_bytes (sb_bytes b) = b"
  by (simp add: sb_of_bytes_def sb_bytes_def Let_def)

text \<open>Inodes as the kernel has them.\<close>

definition as_inode :: "dinode \<Rightarrow> inode" where
  "as_inode x = free_inode\<lparr>i_type := di_type x, i_major := di_major x, i_minor := di_minor x,
     i_nlink := di_nlink x, i_size := di_size x, i_addrs := di_addrs x\<rparr>"

lemma as_inode_sel [simp]:
  "i_type (as_inode x) = di_type x" "i_major (as_inode x) = di_major x" "i_minor (as_inode x) = di_minor x"
  "i_nlink (as_inode x) = di_nlink x" "i_size (as_inode x) = di_size x" "i_addrs (as_inode x) = di_addrs x"
  by (simp_all add: as_inode_def)

definition from_inode :: "inode \<Rightarrow> dinode" where
  "from_inode y = \<lparr>di_type = i_type y, di_major = i_major y, di_minor = i_minor y,
     di_nlink = i_nlink y, di_size = i_size y, di_addrs = (\<lambda>k. if k \<le> NDIRECT then i_addrs y k else 0)\<rparr>"

lemma put_dinode_eq: "put_dinode x off d = inode_to_dinode (as_inode x) off d"
  by (simp add: put_dinode_def inode_to_dinode_def del: upt_Suc)

lemma get_dinode_eq: "get_dinode d off = from_inode (dinode_to_inode d off y)"
  by (simp add: get_dinode_def dinode_to_inode_def from_inode_def cong: if_cong)

lemma get_put_dinode:
  assumes "\<And>k. NDIRECT < k \<Longrightarrow> di_addrs x k = 0"
  shows "get_dinode (put_dinode x off d) off = x"
proof -
  have "(\<lambda>k. if k \<le> NDIRECT then di_addrs x k else 0) = di_addrs x" using assms by (auto simp: fun_eq_iff)
  then show ?thesis
    by (simp add: get_dinode_eq [of _ _ free_inode] put_dinode_eq dinode_same from_inode_def cong: if_cong)
qed

lemma get_put_dinode_other:
  "o2 + 64 \<le> o1 \<or> o1 + 64 \<le> o2 \<Longrightarrow> get_dinode (put_dinode x o1 d) o2 = get_dinode d o2"
  by (simp add: get_dinode_eq [of _ _ free_inode] put_dinode_eq dinode_other)

lemma get_dinode_addrs [simp]: "NDIRECT < k \<Longrightarrow> di_addrs (get_dinode d off) k = 0"
  by (simp add: get_dinode_def)

text \<open>Where inode \<open>n\<close> of the image is, and what it is.\<close>

definition iblock :: "nat \<Rightarrow> nat" where "iblock n = 32 + n div 16"

definition inode_at :: "(nat \<Rightarrow> blk) \<Rightarrow> nat \<Rightarrow> dinode" where
  "inode_at C n = get_dinode (C (iblock n)) (64 * (n mod 16))"

definition put_inode :: "nat \<Rightarrow> dinode \<Rightarrow> image \<Rightarrow> image" where
  "put_inode n x A = put_block (iblock n) (put_dinode x (64 * (n mod 16)) (im_block A (iblock n))) A"

lemma iblock_less: "n < NINODES \<Longrightarrow> iblock n < 45"
  by (simp add: iblock_def NINODES_def)

lemma iblock_bounds: "n < NINODES \<Longrightarrow> 32 \<le> iblock n" "n < NINODES \<Longrightarrow> iblock n < FSSIZE"
  by (simp_all add: iblock_def NINODES_def FSSIZE_def)

lemma IBLOCK_of_nat:
  assumes "n < NINODES"
  shows "IBLOCK (of_nat n) mkfs_sb = of_nat (iblock n)"
proof -
  have "(of_nat n :: uint) div 16 = of_nat (n div 16)"
    using assms by (simp add: word_unat_eq_iff unat_div unat_of_nat NINODES_def)
  then show ?thesis by (simp add: IBLOCK_def iblock_def)
qed

lemma dinode_off_of_nat: "n < NINODES \<Longrightarrow> dinode_off (of_nat n) = 64 * (n mod 16)"
  by (simp add: dinode_off_def NINODES_def unat_of_nat)

lemma put_inode_simps [simp]:
  "im_inodes (put_inode n x A) = im_inodes A" "im_used (put_inode n x A) = im_used A"
  "im_input (put_inode n x A) = im_input A"
  "b \<noteq> iblock n \<Longrightarrow> im_block (put_inode n x A) b = im_block A b"
  by (simp_all add: put_inode_def)

lemma inode_at_put:
  "(\<And>k. NDIRECT < k \<Longrightarrow> di_addrs x k = 0) \<Longrightarrow> inode_at (im_block (put_inode n x A)) n = x"
  by (simp add: put_inode_def inode_at_def get_put_dinode)

lemma inode_at_put_other:
  assumes "m \<noteq> n"
  shows "inode_at (im_block (put_inode n x A)) m = inode_at (im_block A) m"
proof (cases "iblock m = iblock n")
  case True
  then have "m div 16 = n div 16" by (simp add: iblock_def)
  with assms have "m mod 16 \<noteq> n mod 16" by (metis div_mult_mod_eq)
  then have "64 * (m mod 16) + 64 \<le> 64 * (n mod 16) \<or> 64 * (n mod 16) + 64 \<le> 64 * (m mod 16)" by linarith
  with True show ?thesis by (simp add: put_inode_def inode_at_def get_put_dinode_other)
next
  case False
  then show ?thesis by (simp add: inode_at_def)
qed

lemma inode_at_cong: "C (iblock n) = C' (iblock n) \<Longrightarrow> inode_at C n = inode_at C' n"
  by (simp add: inode_at_def)

lemma does_inode_block:
  "n < NINODES \<Longrightarrow> does con (gets (\<lambda>s. IBLOCK (of_nat n) (mk_sb s))) A (of_nat (iblock n)) A"
  by (rule does_gets) (simp add: holds_def IBLOCK_of_nat)

lemma does_rinode:
  assumes "host_image H con pos" "n < NINODES"
  shows "does con (rinode H (of_nat n)) A (inode_at (im_block A) n) A"
  unfolding rinode_def dinode_off_of_nat [OF assms(2)] inode_at_def
  by (rule does_bind, rule does_inode_block, rule assms, rule does_bind, rule does_rsect, rule assms)
     (auto simp: assms iblock_bounds intro: does_ret)

lemma does_winode:
  assumes "host_image H con pos" "n < NINODES"
  shows "does con (winode H (of_nat n) x) A () (put_inode n x A)"
  unfolding winode_def put_inode_def dinode_off_of_nat [OF assms(2)]
  by (rule does_bind, rule does_inode_block, rule assms, rule does_bind, rule does_rsect, rule assms)
     (auto simp: assms iblock_bounds intro: does_wsect [OF assms(1)])

text \<open>A new inode.\<close>

definition new_inode :: "16 word \<Rightarrow> dinode" where
  "new_inode ty = \<lparr>di_type = ty, di_major = 0, di_minor = 0, di_nlink = 1, di_size = 0, di_addrs = (\<lambda>_. 0)\<rparr>"

lemma does_ialloc:
  assumes "host_image H con pos" "n < NINODES" "im_inodes A = of_nat n"
  shows "does con (ialloc_mk H ty) A (of_nat n) (put_inode n (new_inode ty) (A\<lparr>im_inodes := of_nat n + 1\<rparr>))"
  (is "does _ _ _ _ (put_inode n _ ?B)")
proof -
  have n: "does con (gets freeinode) A (of_nat n) A" by (rule does_gets) (simp add: holds_def assms)
  have m: "does con (modify (\<lambda>s. s\<lparr>freeinode := of_nat n + 1\<rparr>)) A () ?B"
    by (auto simp: does_def modify_def holds_def)
  have w: "does con (winode H (of_nat n) (new_inode ty)) ?B () (put_inode n (new_inode ty) ?B)"
    using assms by (intro does_winode)
  show ?thesis unfolding ialloc_mk_def xshort_id xint_id new_inode_def [symmetric]
    by (rule does_bind, rule n, rule does_bind, rule does_block_Cons, rule m, rule does_block_Cons, rule w)
       (rule does_block_Nil, rule does_ret)
qed

section \<open>Files\<close>

text \<open>The block with block number \<open>k\<close> of a file, 0 if there is none; and the bytes of a file.\<close>

definition faddr :: "(nat \<Rightarrow> blk) \<Rightarrow> dinode \<Rightarrow> nat \<Rightarrow> nat" where
  "faddr C x k = unat (if k < NDIRECT then di_addrs x k
     else if di_addrs x NDIRECT = 0 then 0
     else get32 (C (unat (di_addrs x NDIRECT))) (4 * (k - NDIRECT)))"

definition ind :: "dinode \<Rightarrow> nat" where "ind x = unat (di_addrs x NDIRECT)"

definition file_data :: "(nat \<Rightarrow> blk) \<Rightarrow> dinode \<Rightarrow> nat \<Rightarrow> byte list" where
  "file_data C x n = map (\<lambda>i. C (faddr C x (i div 1024)) (i mod 1024)) [0..<n]"

text \<open>
  The blocks of a file with \<open>nb\<close> data blocks, and that they are well-formed: distinct blocks of the
  data area below \<open>fb\<close>, and no other block number is set.
\<close>

definition fblocks :: "(nat \<Rightarrow> blk) \<Rightarrow> dinode \<Rightarrow> nat \<Rightarrow> nat set" where
  "fblocks C x nb = faddr C x ` {..<nb} \<union> (if nb \<le> NDIRECT then {} else {ind x})"

definition file_ok :: "(nat \<Rightarrow> blk) \<Rightarrow> dinode \<Rightarrow> nat \<Rightarrow> nat \<Rightarrow> bool" where
  "file_ok C x nb fb \<longleftrightarrow> nb \<le> MAXFILE \<and> fb \<le> FSSIZE \<and> fblocks C x nb \<subseteq> {nmeta..<fb}
     \<and> inj_on (faddr C x) {..<nb} \<and> (\<forall>k. nb \<le> k \<and> k < MAXFILE \<longrightarrow> faddr C x k = 0)
     \<and> (if nb \<le> NDIRECT then di_addrs x NDIRECT = 0 else ind x \<notin> faddr C x ` {..<nb})
     \<and> (\<forall>k>NDIRECT. di_addrs x k = 0)"

definition fresh :: "(nat \<Rightarrow> blk) \<Rightarrow> nat \<Rightarrow> bool" where
  "fresh C fb \<longleftrightarrow> (\<forall>b. fb \<le> b \<and> b < FSSIZE \<longrightarrow> C b = (\<lambda>_. 0))"

lemma file_ok_addr:
  assumes "file_ok C x nb fb" "k < nb"
  shows "46 \<le> faddr C x k" "faddr C x k < fb" "faddr C x k < FSSIZE"
  using assms unfolding file_ok_def fblocks_def by auto

lemma file_ok_ind:
  assumes "file_ok C x nb fb" "NDIRECT < nb"
  shows "46 \<le> ind x" "ind x < fb" "ind x < FSSIZE" "di_addrs x NDIRECT = of_nat (ind x)"
    "di_addrs x NDIRECT \<noteq> 0" "\<And>k. k < nb \<Longrightarrow> faddr C x k \<noteq> ind x"
proof -
  from assms have r: "ind x \<in> {nmeta..<fb}" "fb \<le> FSSIZE" unfolding file_ok_def fblocks_def by auto
  then show "46 \<le> ind x" "ind x < fb" "ind x < FSSIZE" by auto
  show "di_addrs x NDIRECT = of_nat (ind x)" by (simp add: ind_def)
  from r show "di_addrs x NDIRECT \<noteq> 0" by (auto simp: ind_def)
  from assms have "ind x \<notin> faddr C x ` {..<nb}" unfolding file_ok_def by (auto split: if_splits)
  then show "\<And>k. k < nb \<Longrightarrow> faddr C x k \<noteq> ind x" by (metis imageI lessThan_iff)
qed

lemma file_ok_none:
  "file_ok C x nb fb \<Longrightarrow> NDIRECT < k \<Longrightarrow> di_addrs x k = 0"
  "file_ok C x nb fb \<Longrightarrow> nb \<le> NDIRECT \<Longrightarrow> di_addrs x NDIRECT = 0"
  "file_ok C x nb fb \<Longrightarrow> nb \<le> k \<Longrightarrow> k < MAXFILE \<Longrightarrow> faddr C x k = 0"
  by (simp_all add: file_ok_def)

text \<open>The block numbers are those of the blocks of the file alone.\<close>

lemma faddr_cong:
  "(NDIRECT < nb \<Longrightarrow> C' (ind x) = C (ind x)) \<Longrightarrow> (nb \<le> NDIRECT \<Longrightarrow> di_addrs x NDIRECT = 0) \<Longrightarrow>
   faddr C' x = faddr C x"
  by (rule ext, cases "NDIRECT < nb") (simp_all add: faddr_def ind_def)

lemma file_ok_cong:
  assumes "file_ok C x nb fb" "NDIRECT < nb \<Longrightarrow> C' (ind x) = C (ind x)" "fb \<le> fb'" "fb' \<le> FSSIZE"
  shows "file_ok C' x nb fb'" "faddr C' x = faddr C x" "fblocks C' x nb = fblocks C x nb"
proof -
  show f: "faddr C' x = faddr C x"
    by (rule faddr_cong [of nb]) (use assms(1,2) in \<open>auto simp: file_ok_def\<close>)
  then show "fblocks C' x nb = fblocks C x nb" by (simp add: fblocks_def)
  with assms f show "file_ok C' x nb fb'" by (auto simp: file_ok_def)
qed

text \<open>A data block is written: nothing else of the file changes.\<close>

lemma file_ok_write:
  assumes "file_ok C x nb fb" "k < nb"
  shows "file_ok (C(faddr C x k := d)) x nb fb" "faddr (C(faddr C x k := d)) x = faddr C x"
    "fblocks (C(faddr C x k := d)) x nb = fblocks C x nb"
  using assms file_ok_cong [OF assms(1), of "C(faddr C x k := d)" fb] file_ok_ind(6) [OF assms(1) _ assms(2)]
  by (force simp: file_ok_def)+

text \<open>
  One more block: \<open>grown A x nb B y\<close> says that image \<open>B\<close> with inode \<open>y\<close> has the file of \<open>A\<close> and
  \<open>x\<close>, with one more block, which is zero.
\<close>

definition grown :: "image \<Rightarrow> dinode \<Rightarrow> nat \<Rightarrow> image \<Rightarrow> dinode \<Rightarrow> bool" where
  "grown A x nb B y \<longleftrightarrow>
     (\<forall>k<nb. faddr (im_block B) y k = faddr (im_block A) x k)
   \<and> im_used A \<le> faddr (im_block B) y nb
   \<and> (\<forall>b. b < im_used A \<and> b \<notin> fblocks (im_block A) x nb \<longrightarrow> im_block B b = im_block A b)
   \<and> (\<forall>k<nb. im_block B (faddr (im_block A) x k) = im_block A (faddr (im_block A) x k))
   \<and> im_used B = im_used A + (if nb = NDIRECT then 2 else 1)
   \<and> y = x\<lparr>di_addrs := di_addrs y\<rparr> \<and> im_inodes B = im_inodes A \<and> im_input B = im_input A
   \<and> fblocks (im_block B) y (Suc nb) \<subseteq> fblocks (im_block A) x nb \<union> {im_used A..<im_used B}
   \<and> file_ok (im_block B) y (Suc nb) (im_used B) \<and> fresh (im_block B) (im_used B)
   \<and> im_block B (faddr (im_block B) y nb) = (\<lambda>_. 0)"

lemma unat_small: "n < 1000 \<Longrightarrow> unat (of_nat n :: uint) = n"
  by (simp add: unat_of_nat)

lemma of_nat_small_0: "n < 1000 \<Longrightarrow> (of_nat n :: uint) = 0 \<longleftrightarrow> n = 0"
  by (metis unat_small unat_eq_zero unat_0 of_nat_0)

lemma does_new_block:
  "does con new_block A (of_nat (im_used A)) (A\<lparr>im_used := Suc (im_used A)\<rparr>)"
  by (auto simp: does_def new_block_def holds_def km_simps)

lemma inj_on_Suc:
  assumes "inj_on f {..<n}" "\<And>k. k < n \<Longrightarrow> g k = f k" "\<And>k. k < n \<Longrightarrow> f k \<noteq> g n"
  shows "inj_on g {..<Suc n}"
  using assms by (fastforce simp: inj_on_def less_Suc_eq)

lemma grownI:
  assumes ok: "file_ok (im_block A) x nb (im_used A)" and fr: "fresh (im_block A) (im_used A)"
    and nb: "nb < MAXFILE" "46 \<le> im_used A" "im_used B \<le> FSSIZE"
      "im_used B = im_used A + (if nb = NDIRECT then 2 else 1)"
    and f: "\<And>k. k < MAXFILE \<Longrightarrow> faddr (im_block B) y k = (if k = nb then v else faddr (im_block A) x k)"
    and v: "im_used A \<le> v" "v < im_used B"
    and i: "if nb < NDIRECT then di_addrs y NDIRECT = 0
      else ind y \<noteq> v \<and> ind y \<in> (if nb = NDIRECT then {im_used A..<im_used B} else {ind x})"
    and C: "\<And>b. nb < NDIRECT \<or> b \<noteq> ind y \<Longrightarrow> im_block B b = im_block A b"
    and y: "y = x\<lparr>di_addrs := di_addrs y\<rparr>" "\<And>k. NDIRECT < k \<Longrightarrow> di_addrs y k = 0" "im_inodes B = im_inodes A \<and> im_input B = im_input A"
  shows "grown A x nb B y"
proof -
  have fx: "faddr (im_block B) y k = faddr (im_block A) x k" if "k < nb" for k using f [of k] that nb by simp
  have img: "faddr (im_block B) y ` {..<Suc nb} = insert v (faddr (im_block A) x ` {..<nb})"
    using f [of nb] fx nb by (auto simp: lessThan_Suc)
  have lo: "46 \<le> faddr (im_block A) x k" "faddr (im_block A) x k < im_used A" if "k < nb" for k
    using file_ok_addr [OF ok that] by auto
  have iy: "faddr (im_block A) x k \<noteq> ind y" if "k < nb" "NDIRECT \<le> nb" for k
    using i that lo [OF that(1)] file_ok_ind(6) [OF ok _ that(1)] by (auto split: if_splits)
  have ib: "46 \<le> ind y" "ind y < im_used B" "ind y \<in> fblocks (im_block A) x nb \<union> {im_used A..<im_used B}"
    if "NDIRECT \<le> nb" using i that nb file_ok_ind [OF ok] by (auto simp: fblocks_def split: if_splits)
  have fb: "fblocks (im_block B) y (Suc nb) \<subseteq> fblocks (im_block A) x nb \<union> {im_used A..<im_used B}"
  proof -
    have "faddr (im_block A) x ` {..<nb} \<subseteq> fblocks (im_block A) x nb" by (simp add: fblocks_def)
    with v ib(3) show ?thesis unfolding fblocks_def [of "im_block B"] img by (simp add: not_less_eq_eq) blast
  qed
  have sub: "fblocks (im_block B) y (Suc nb) \<subseteq> {nmeta..<im_used B}"
    using fb ok nb by (fastforce simp: file_ok_def)
  have inj: "inj_on (faddr (im_block B) y) {..<Suc nb}"
    by (rule inj_on_Suc [of "faddr (im_block A) x"])
       (use ok fx lo(2) v(1) f [of nb] nb(1) in \<open>force simp: file_ok_def\<close>)+
  have none: "ind y \<notin> faddr (im_block B) y ` {..<Suc nb}" if "NDIRECT \<le> nb"
    unfolding img using i iy [OF _ that] that by (simp add: image_iff) (metis lessThan_iff)
  have "file_ok (im_block B) y (Suc nb) (im_used B)"
    unfolding file_ok_def using nb sub inj none i y(2) f ok by (auto simp: file_ok_def not_less_eq_eq Suc_le_eq)
  moreover have "im_block B v = (\<lambda>_. 0)" "fresh (im_block B) (im_used B)"
    using fr v nb i C ib unfolding fresh_def by (auto split: if_splits)
  moreover have "im_block B b = im_block A b" if "b < im_used A" "b \<notin> fblocks (im_block A) x nb" for b
    by (rule C) (use ib(3) that in \<open>cases "nb < NDIRECT"; auto\<close>)
  moreover have "im_block B (faddr (im_block A) x k) = im_block A (faddr (im_block A) x k)" if "k < nb" for k
    by (rule C) (use iy [OF that] in \<open>cases "nb < NDIRECT"; auto\<close>)
  ultimately show ?thesis
    using fx f [of nb] nb v fb y unfolding grown_def by auto
qed

lemma grown_direct:
  assumes ok: "file_ok (im_block A) x nb (im_used A)" and fr: "fresh (im_block A) (im_used A)"
    and lt: "nb < NDIRECT" "46 \<le> im_used A" "im_used A < FSSIZE"
  shows "grown A x nb (A\<lparr>im_used := Suc (im_used A)\<rparr>) (x\<lparr>di_addrs := (di_addrs x)(nb := of_nat (im_used A))\<rparr>)"
proof (rule grownI [where v = "im_used A"])
  show "faddr (im_block (A\<lparr>im_used := Suc (im_used A)\<rparr>)) (x\<lparr>di_addrs := (di_addrs x)(nb := of_nat (im_used A))\<rparr>) k =
      (if k = nb then im_used A else faddr (im_block A) x k)" for k
    using lt unat_small [of "im_used A"] by (simp add: faddr_def FSSIZE_def)
qed (use lt fr ok in \<open>simp_all add: file_ok_none(1) [OF ok] file_ok_none(2) [OF ok]\<close>)

lemma get32_zero [simp]: "get32 (\<lambda>_. 0) i = 0"
  by (simp add: get32_def numeral_eq_Suc)

lemma faddr_table:
  assumes "i < FSSIZE" "i \<noteq> 0" "v < FSSIZE" "NDIRECT \<le> nb" "di_addrs y NDIRECT = of_nat i"
  shows "faddr (C(i := put32 (C i) (4 * (nb - NDIRECT)) (of_nat v))) y k =
    (if k = nb then v else if k < NDIRECT then unat (di_addrs y k) else unat (get32 (C i) (4 * (k - NDIRECT))))"
proof -
  have u: "unat (of_nat i :: uint) = i" "unat (of_nat v :: uint) = v" "(of_nat i :: uint) \<noteq> 0"
    using assms of_nat_small_0 [of i] by (auto simp: unat_small FSSIZE_def)
  have "4 * (k - NDIRECT) + 4 \<le> 4 * (nb - NDIRECT) \<or> 4 * (nb - NDIRECT) + 4 \<le> 4 * (k - NDIRECT)"
    if "k \<noteq> nb" "NDIRECT \<le> k" using that assms(4) by linarith
  then show ?thesis using assms u by (simp add: faddr_def)
qed

lemma grown_first_indirect:
  assumes ok: "file_ok (im_block A) x NDIRECT (im_used A)" and fr: "fresh (im_block A) (im_used A)"
    and lt: "46 \<le> im_used A" "im_used A + 2 \<le> FSSIZE"
  shows "grown A x NDIRECT
     (put_block (im_used A) (put32 (\<lambda>_. 0) 0 (of_nat (Suc (im_used A)))) (A\<lparr>im_used := im_used A + 2\<rparr>))
     (x\<lparr>di_addrs := (di_addrs x)(NDIRECT := of_nat (im_used A))\<rparr>)" (is "grown A x _ ?B ?y")
proof (rule grownI [where v = "Suc (im_used A)"])
  have u: "ind ?y = im_used A" using lt by (simp add: ind_def unat_small FSSIZE_def)
  have z: "im_block A (im_used A) = (\<lambda>_. 0)" using fr lt by (simp add: fresh_def)
  have "faddr (im_block ?B) ?y k = (if k = NDIRECT then Suc (im_used A) else faddr (im_block A) x k)" if "k < MAXFILE" for k
  proof -
    have "NDIRECT \<le> k \<Longrightarrow> faddr (im_block A) x k = 0" using file_ok_none(3) [OF ok _ that] .
    moreover have "k < NDIRECT \<Longrightarrow> faddr (im_block A) x k = unat (di_addrs x k)" by (simp add: faddr_def)
    ultimately show ?thesis
      using faddr_table [of "im_used A" "Suc (im_used A)" 12 ?y "im_block A" k] lt z by simp
  qed
  then show "\<And>k. k < MAXFILE \<Longrightarrow> faddr (im_block ?B) ?y k =
    (if k = NDIRECT then Suc (im_used A) else faddr (im_block A) x k)" .
  show "if NDIRECT < NDIRECT then di_addrs ?y NDIRECT = 0
      else ind ?y \<noteq> Suc (im_used A) \<and> ind ?y \<in> (if NDIRECT = NDIRECT then {im_used A..<im_used ?B} else {ind x})"
    using u by simp
  show "\<And>b. NDIRECT < NDIRECT \<or> b \<noteq> ind ?y \<Longrightarrow> im_block ?B b = im_block A b" using u by simp
qed (use lt fr ok in \<open>simp_all add: file_ok_none(1) [OF ok] file_ok_none(2) [OF ok]\<close>)

lemma grown_indirect:
  assumes ok: "file_ok (im_block A) x nb (im_used A)" and fr: "fresh (im_block A) (im_used A)"
    and lt: "NDIRECT < nb" "nb < MAXFILE" "46 \<le> im_used A" "im_used A < FSSIZE"
  shows "grown A x nb
     (put_block (ind x) (put32 (im_block A (ind x)) (4 * (nb - NDIRECT)) (of_nat (im_used A))) (A\<lparr>im_used := Suc (im_used A)\<rparr>)) x"
    (is "grown A x _ ?B _")
proof (rule grownI [where v = "im_used A"])
  note i = file_ok_ind [OF ok lt(1)]
  have "faddr (im_block A) x k =
      (if k < NDIRECT then unat (di_addrs x k) else unat (get32 (im_block A (ind x)) (4 * (k - NDIRECT))))" for k
    using i(5) by (simp add: faddr_def ind_def)
  then show "\<And>k. k < MAXFILE \<Longrightarrow> faddr (im_block ?B) x k = (if k = nb then im_used A else faddr (im_block A) x k)"
    using faddr_table [of "ind x" "im_used A" nb x "im_block A"] lt i(1,3) i(4) by simp
  show "if nb < NDIRECT then di_addrs x NDIRECT = 0
      else ind x \<noteq> im_used A \<and> ind x \<in> (if nb = NDIRECT then {im_used A..<im_used ?B} else {ind x})"
    using lt i by simp
qed (use lt fr ok in \<open>simp_all add: file_ok_none(1) [OF ok] file_ok_none(2) [OF ok]\<close>)

section \<open>Appending\<close>

lemma does_direct_old:
  "di_addrs x k \<noteq> 0 \<Longrightarrow> does con (iappend_direct x k) A (di_addrs x k, x) A"
  by (simp add: iappend_direct_def does_ret)

lemma does_direct_new:
  assumes "di_addrs x k = 0"
  shows "does con (iappend_direct x k) A
     (of_nat (im_used A), x\<lparr>di_addrs := (di_addrs x)(k := of_nat (im_used A))\<rparr>) (A\<lparr>im_used := Suc (im_used A)\<rparr>)"
  using assms by (simp add: iappend_direct_def) (rule does_bind, rule does_new_block, rule does_ret)

lemma does_indirect_old:
  assumes "host_image H con pos" "i < FSSIZE" "get32 (im_block A i) (4 * k) \<noteq> 0"
  shows "does con (iappend_indirect H (of_nat i) k) A (get32 (im_block A i) (4 * k)) A"
  unfolding iappend_indirect_def
  by (rule does_bind, rule does_rsect) (use assms in \<open>auto intro: does_ret\<close>)

lemma does_indirect_new:
  assumes "host_image H con pos" "i < FSSIZE" "get32 (im_block A i) (4 * k) = 0"
  shows "does con (iappend_indirect H (of_nat i) k) A (of_nat (im_used A))
     (put_block i (put32 (im_block A i) (4 * k) (of_nat (im_used A))) (A\<lparr>im_used := Suc (im_used A)\<rparr>))"
proof -
  have w: "does con (wsect H (of_nat i) (put32 (im_block A i) (4 * k) (of_nat (im_used A))))
      (A\<lparr>im_used := Suc (im_used A)\<rparr>) ()
      (put_block i (put32 (im_block A i) (4 * k) (of_nat (im_used A))) (A\<lparr>im_used := Suc (im_used A)\<rparr>))"
    using assms by (intro does_wsect)
  show ?thesis unfolding iappend_indirect_def xint_id
    by (rule does_bind, rule does_rsect, rule assms, rule assms)
       (simp add: assms(3), rule does_bind, rule does_new_block, rule does_bind, rule w, rule does_ret)
qed

text \<open>The block of a file, when it is there and when it is not.\<close>

lemma does_old_block:
  assumes H: "host_image H con pos" and ok: "file_ok (im_block A) x nb fb" and k: "k < nb"
  shows "does con (iappend_block H x k) A (of_nat (faddr (im_block A) x k), x) A"
proof (cases "k < NDIRECT")
  case True
  with file_ok_addr [OF ok k] have "di_addrs x k \<noteq> 0" "faddr (im_block A) x k = unat (di_addrs x k)"
    by (auto simp: faddr_def)
  with True show ?thesis using does_direct_old [of x k] by (simp add: iappend_block_def)
next
  case False
  with k have nb: "NDIRECT < nb" by simp
  note i = file_ok_ind [OF ok nb]
  have f: "faddr (im_block A) x k = unat (get32 (im_block A (ind x)) (4 * (k - NDIRECT)))"
    using False i(5) by (simp add: faddr_def ind_def)
  with file_ok_addr [OF ok k] have "get32 (im_block A (ind x)) (4 * (k - NDIRECT)) \<noteq> 0" by auto
  from does_indirect_old [OF H i(3) this] does_direct_old [OF i(5)] i(4) False f show ?thesis
    by (simp add: iappend_block_def) (rule does_bind, assumption, simp, rule does_bind, assumption, rule does_ret)
qed

lemma does_grow:
  assumes H: "host_image H con pos" and ok: "file_ok (im_block A) x nb (im_used A)"
    and fr: "fresh (im_block A) (im_used A)" and lt: "nb < MAXFILE" "46 \<le> im_used A"
      "im_used A + (if nb = NDIRECT then 2 else 1) \<le> FSSIZE"
  shows "\<exists>B y. grown A x nb B y \<and> does con (iappend_block H x nb) A (of_nat (faddr (im_block B) y nb), y) B"
proof -
  consider "nb < NDIRECT" | "nb = NDIRECT" | "NDIRECT < nb" by linarith
  then show ?thesis
  proof cases
    case 1
    with file_ok_none(3) [OF ok _ lt(1)] have "di_addrs x nb = 0" by (simp add: faddr_def unat_eq_0)
    from does_direct_new [OF this] show ?thesis
      using grown_direct [OF ok fr 1 lt(2)] 1 lt(3) unat_small [of "im_used A"]
      by (intro exI conjI) (auto simp: iappend_block_def faddr_def FSSIZE_def)
  next
    case 2
    let ?u = "im_used A"
    let ?A = "A\<lparr>im_used := Suc ?u\<rparr>"
    let ?x = "x\<lparr>di_addrs := (di_addrs x)(NDIRECT := of_nat ?u)\<rparr>"
    let ?B = "put_block ?u (put32 (\<lambda>_. 0) 0 (of_nat (Suc ?u))) (A\<lparr>im_used := ?u + 2\<rparr>)"
    have z: "im_block A ?u = (\<lambda>_. 0)" using fr lt 2 by (simp add: fresh_def)
    have "does con (iappend_direct x NDIRECT) A (of_nat ?u, ?x) ?A"
      using file_ok_none(2) [OF ok] 2 by (intro does_direct_new) simp
    moreover have "does con (iappend_indirect H (of_nat ?u) 0) ?A (of_nat (Suc ?u)) ?B"
      using does_indirect_new [OF H, of ?u ?A 0] lt 2 z by (simp add: put_block_def)
    moreover have "faddr (im_block ?B) ?x NDIRECT = Suc ?u"
      using faddr_table [of ?u "Suc ?u" NDIRECT ?x "im_block A" NDIRECT] lt 2 z by simp
    moreover have "grown A x nb ?B ?x" using grown_first_indirect ok fr lt 2 by simp
    ultimately show ?thesis unfolding 2
      by (intro exI [of _ ?B] exI [of _ ?x])
         (simp add: iappend_block_def, rule does_bind, assumption, simp, rule does_bind, assumption, rule does_ret)
  next
    case 3
    let ?u = "im_used A"
    let ?B = "put_block (ind x) (put32 (im_block A (ind x)) (4 * (nb - NDIRECT)) (of_nat ?u)) (A\<lparr>im_used := Suc ?u\<rparr>)"
    note i = file_ok_ind [OF ok 3]
    have "get32 (im_block A (ind x)) (4 * (nb - NDIRECT)) = 0"
      using file_ok_none(3) [OF ok order.refl lt(1)] 3 i(5) by (simp add: faddr_def ind_def unat_eq_0)
    from does_indirect_new [OF H i(3) this]
    have "does con (iappend_indirect H (of_nat (ind x)) (nb - NDIRECT)) A (of_nat ?u) ?B" .
    moreover have "does con (iappend_direct x NDIRECT) A (of_nat (ind x), x) A"
      using does_direct_old [OF i(5)] i(4) by simp
    moreover have "faddr (im_block ?B) x nb = ?u"
      using faddr_table [of "ind x" ?u nb x "im_block A" nb] lt 3 i(1,3,4) by simp
    moreover have "grown A x nb ?B x" using grown_indirect [OF ok fr 3] lt 3 by simp
    ultimately show ?thesis using 3
      by (intro exI [of _ ?B] exI [of _ x])
         (simp add: iappend_block_def, rule does_bind, assumption, simp, rule does_bind, assumption, rule does_ret)
  qed
qed

text \<open>The number of data blocks of a file of \<open>n\<close> bytes, and of all its blocks.\<close>

definition nblk :: "nat \<Rightarrow> nat" where "nblk n = (n + 1023) div 1024"

definition need :: "nat \<Rightarrow> nat" where "need n = (if nblk n \<le> NDIRECT then nblk n else nblk n + 1)"

lemma nblk_eq: "nblk n = n div 1024 + (if n mod 1024 = 0 then 0 else 1)"
proof -
  have "n + 1023 = (n mod 1024 + 1023) + n div 1024 * 1024" by (simp add: mult.commute)
  then have "nblk n = (n mod 1024 + 1023) div 1024 + n div 1024"
    unfolding nblk_def by (metis add.commute div_mult_self3 zero_neq_numeral)
  moreover have "(n mod 1024 + 1023) div 1024 = (if n mod 1024 = 0 then 0 else 1)"
    using mod_less_divisor [of 1024 n] by (auto intro: div_nat_eqI)
  ultimately show ?thesis by simp
qed

lemma nblk_within: "n mod 1024 \<noteq> 0 \<Longrightarrow> nblk n = Suc (n div 1024)"
  by (simp add: nblk_eq)

lemma nblk_full: "n mod 1024 = 0 \<Longrightarrow> nblk n = n div 1024"
  by (simp add: nblk_eq)

lemma div_mod_add:
  assumes "n mod 1024 + m < (1024 :: nat)"
  shows "(n + m) div 1024 = n div 1024" "(n + m) mod 1024 = n mod 1024 + m"
proof -
  have "(n + m) mod 1024 = (n mod 1024 + m) mod 1024" by (simp add: mod_add_left_eq)
  with assms show "(n + m) mod 1024 = n mod 1024 + m" by simp
  from assms show "(n + m) div 1024 = n div 1024" using div_add1_eq [of n m 1024] by simp
qed

lemma nblk_add:
  assumes "0 < m" "n mod 1024 + m \<le> 1024"
  shows "nblk (n + m) = Suc (n div 1024)"
proof (cases "n mod 1024 + m = 1024")
  case True
  then have "n + m = Suc (n div 1024) * 1024" by (metis add.assoc add.commute div_mult_mod_eq mult_Suc)
  then show ?thesis by (simp add: nblk_eq)
next
  case False
  with assms div_mod_add [of n m] show ?thesis by (simp add: nblk_eq)
qed

lemma div_less_nblk:
  assumes "i < n"
  shows "i div 1024 < nblk n"
proof (cases "n mod 1024 = 0")
  case True
  then have "n = n div 1024 * 1024" by (metis add.right_neutral div_mult_mod_eq)
  with assms have "i div 1024 < n div 1024" by (metis less_mult_imp_div_less)
  with True show ?thesis by (simp add: nblk_eq)
next
  case False
  with assms show ?thesis by (simp add: nblk_eq div_le_mono less_Suc_eq_le)
qed

text \<open>The rest of the last block is zero.\<close>

definition ztail :: "(nat \<Rightarrow> blk) \<Rightarrow> dinode \<Rightarrow> nat \<Rightarrow> bool" where
  "ztail C x n \<longleftrightarrow> n mod 1024 \<noteq> 0 \<longrightarrow> (\<forall>i. n mod 1024 \<le> i \<and> i < 1024 \<longrightarrow> C (faddr C x (n div 1024)) i = 0)"

text \<open>\<open>appended A x n B y m ys\<close>: the file of \<open>n\<close> bytes was extended by \<open>ys\<close>, and nothing else was touched.\<close>

definition kept :: "image \<Rightarrow> dinode \<Rightarrow> nat \<Rightarrow> image \<Rightarrow> dinode \<Rightarrow> nat \<Rightarrow> bool" where
  "kept A x n B y nb \<longleftrightarrow>
     file_ok (im_block B) y nb (im_used B) \<and> fresh (im_block B) (im_used B) \<and> im_used A \<le> im_used B
   \<and> fblocks (im_block B) y nb \<subseteq> fblocks (im_block A) x (nblk n) \<union> {im_used A..<im_used B}
   \<and> (\<forall>b. b < im_used A \<and> b \<notin> fblocks (im_block A) x (nblk n) \<longrightarrow> im_block B b = im_block A b)
   \<and> y = x\<lparr>di_addrs := di_addrs y\<rparr> \<and> im_inodes B = im_inodes A \<and> im_input B = im_input A"

definition appended :: "image \<Rightarrow> dinode \<Rightarrow> nat \<Rightarrow> image \<Rightarrow> dinode \<Rightarrow> nat \<Rightarrow> byte list \<Rightarrow> bool" where
  "appended A x n B y m ys \<longleftrightarrow> kept A x n B y (nblk m) \<and> m = n + length ys
   \<and> im_used B + need n = im_used A + need m \<and> ztail (im_block B) y m
   \<and> file_data (im_block B) y m = file_data (im_block A) x n @ ys"

lemma file_data_cong:
  "(\<And>k. k < nblk n \<Longrightarrow> faddr C' y k = faddr C x k \<and> C' (faddr C x k) = C (faddr C x k)) \<Longrightarrow>
   file_data C' y n = file_data C x n"
  by (auto simp: file_data_def div_less_nblk)

lemma does_block_for:
  assumes H: "host_image H con pos" and ok: "file_ok (im_block A) x (nblk n) (im_used A)"
    and fr: "fresh (im_block A) (im_used A)" and zt: "ztail (im_block A) x n" and lt: "n div 1024 < MAXFILE" "46 \<le> im_used A"
      "im_used A + need (Suc n) \<le> FSSIZE + need n"
  shows "\<exists>B y. does con (iappend_block H x (n div 1024)) A (of_nat (faddr (im_block B) y (n div 1024)), y) B
     \<and> kept A x n B y (Suc (n div 1024)) \<and> im_used B + need n = im_used A + need (Suc n)
     \<and> file_data (im_block B) y n = file_data (im_block A) x n
     \<and> (\<forall>i. n mod 1024 \<le> i \<and> i < 1024 \<longrightarrow> im_block B (faddr (im_block B) y (n div 1024)) i = 0)"
proof (cases "n mod 1024 = 0")
  case True
  then have nb: "nblk n = n div 1024" "nblk (Suc n) = Suc (n div 1024)"
    using nblk_full [of n] nblk_add [of 1 n] by simp_all
  then have need: "need (Suc n) = need n + (if n div 1024 = NDIRECT then 2 else 1)" by (simp add: need_def)
  with lt(3) have "im_used A + (if n div 1024 = NDIRECT then 2 else 1) \<le> FSSIZE" by simp
  from does_grow [OF H ok [unfolded nb] fr lt(1,2) this] obtain B y where g: "grown A x (n div 1024) B y"
    and d: "does con (iappend_block H x (n div 1024)) A (of_nat (faddr (im_block B) y (n div 1024)), y) B" by blast
  from g have "im_used A \<le> im_used B" unfolding grown_def by simp
  with g have "kept A x n B y (Suc (n div 1024))" unfolding grown_def kept_def nb by blast
  moreover from g have "im_used B + need n = im_used A + need (Suc n)" unfolding grown_def need by simp
  moreover from g have "file_data (im_block B) y n = file_data (im_block A) x n"
    by (intro file_data_cong) (simp add: grown_def nb)
  moreover from g have "im_block B (faddr (im_block B) y (n div 1024)) i = 0" for i by (simp add: grown_def)
  ultimately show ?thesis using d by blast
next
  case False
  then have nb: "nblk n = Suc (n div 1024)" "nblk (Suc n) = Suc (n div 1024)"
    using nblk_within [of n] nblk_add [of 1 n] mod_less_divisor [of 1024 n] by (simp_all add: Suc_le_eq)
  have "does con (iappend_block H x (n div 1024)) A (of_nat (faddr (im_block A) x (n div 1024)), x) A"
    by (rule does_old_block [OF H ok]) (simp add: nb)
  moreover have "kept A x n A x (Suc (n div 1024))" using ok fr by (auto simp: kept_def nb)
  ultimately show ?thesis using zt False by (intro exI [of _ A] exI [of _ x]) (simp add: need_def nb ztail_def)
qed

lemma file_data_write:
  assumes ok: "file_ok C x (Suc (n div 1024)) fb"
    and m: "0 < m" "m \<le> length p" "n mod 1024 + m \<le> 1024"
  defines "a \<equiv> faddr C x (n div 1024)"
  defines "C' \<equiv> C(a := (\<lambda>i. if n mod 1024 \<le> i \<and> i < n mod 1024 + m then p ! (i - n mod 1024) else C a i))"
  shows "file_data C' x (n + m) = file_data C x n @ take m p"
proof (rule nth_equalityI)
  show "length (file_data C' x (n + m)) = length (file_data C x n @ take m p)" using m by (simp add: file_data_def)
  fix i assume "i < length (file_data C' x (n + m))"
  then have i: "i < n + m" by (simp add: file_data_def)
  have f: "faddr C' x = faddr C x" unfolding C'_def a_def by (rule file_ok_write(2) [OF ok]) simp
  have lhs: "file_data C' x (n + m) ! i = C' (faddr C x (i div 1024)) (i mod 1024)"
    using i by (simp add: file_data_def f)
  show "file_data C' x (n + m) ! i = (file_data C x n @ take m p) ! i"
  proof (cases "i < n")
    case True
    then have "i div 1024 \<le> n div 1024" "i div 1024 = n div 1024 \<Longrightarrow> i mod 1024 < n mod 1024"
      by (simp_all add: div_le_mono) (metis div_mult_mod_eq nat_add_left_cancel_less)
    moreover from ok have "inj_on (faddr C x) {..<Suc (n div 1024)}" by (simp add: file_ok_def)
    ultimately have "C' (faddr C x (i div 1024)) (i mod 1024) = C (faddr C x (i div 1024)) (i mod 1024)"
      by (auto simp: C'_def a_def inj_on_def less_Suc_eq_le)
    with True lhs show ?thesis by (simp add: nth_append file_data_def)
  next
    case False
    then obtain j where j: "i = n + j" "j < m" using i by (metis add_diff_inverse_nat nat_add_left_cancel_less)
    with m(3) have "i div 1024 = n div 1024" "i mod 1024 = n mod 1024 + j"
      using div_mod_add [of n j] by simp_all
    then have "C' (faddr C x (i div 1024)) (i mod 1024) = p ! j" using j by (simp add: C'_def a_def)
    moreover have "(file_data C x n @ take m p) ! i = p ! j" using j m by (simp add: nth_append file_data_def)
    ultimately show ?thesis using lhs by simp
  qed
qed

lemma nblk_mono: "m \<le> n \<Longrightarrow> nblk m \<le> nblk n"
  by (simp add: nblk_def div_le_mono)

lemma need_mono: "m \<le> n \<Longrightarrow> need m \<le> need n"
  using nblk_mono [of m n] by (simp add: need_def)

lemma block_offset:
  "1024 + n div 1024 * 1024 - n = 1024 - n mod 1024" "n - n div 1024 * 1024 = n mod (1024 :: nat)"
  by (metis add_diff_cancel_left add.commute div_mult_mod_eq) (metis minus_div_mult_eq_mod)

text \<open>The data that a round writes into the block.\<close>

definition patch :: "nat \<Rightarrow> nat \<Rightarrow> byte list \<Rightarrow> blk \<Rightarrow> blk" where
  "patch o1 m p d = (\<lambda>i. if o1 \<le> i \<and> i < o1 + m then p ! (i - o1) else d i)"

lemma patch_appended:
  assumes kept: "kept A x n B y (Suc (n div 1024))" and u: "im_used B + need n = im_used A + need (Suc n)"
    and fd: "file_data (im_block B) y n = file_data (im_block A) x n"
    and z: "\<And>i. n mod 1024 \<le> i \<Longrightarrow> i < 1024 \<Longrightarrow> im_block B (faddr (im_block B) y (n div 1024)) i = 0"
    and m: "0 < m" "m \<le> length p" "n mod 1024 + m \<le> 1024"
  defines "a \<equiv> faddr (im_block B) y (n div 1024)"
  defines "D \<equiv> put_block a (patch (n mod 1024) m p (im_block B a)) B"
  shows "appended A x n D y (n + m) (take m p)"
proof -
  from kept have ok: "file_ok (im_block B) y (Suc (n div 1024)) (im_used B)" by (simp add: kept_def)
  note w = file_ok_write [OF ok lessI, folded a_def]
  have "a \<in> fblocks (im_block A) x (nblk n) \<union> {im_used A..<im_used B}" "a < im_used B"
    using kept file_ok_addr [OF ok lessI] by (auto simp: kept_def fblocks_def [of "im_block B"] a_def)
  with kept w have "kept A x n D y (Suc (n div 1024))" by (auto simp: kept_def fresh_def D_def)
  moreover have "nblk (n + m) = Suc (n div 1024)" "need (n + m) = need (Suc n)"
    using nblk_add [OF m(1,3)] nblk_add [of 1 n] mod_less_divisor [of 1024 n] by (simp_all add: need_def Suc_le_eq)
  moreover have "ztail (im_block D) y (n + m)"
  proof (cases "n mod 1024 + m = 1024")
    case True
    then have "(n + m) mod 1024 = 0" by (metis mod_add_left_eq mod_self)
    then show ?thesis by (simp add: ztail_def)
  next
    case False
    with m(3) have "n mod 1024 + m < 1024" by simp
    from div_mod_add [OF this] show ?thesis using z w(2) by (simp add: ztail_def D_def a_def patch_def)
  qed
  moreover have "file_data (im_block D) y (n + m) = file_data (im_block B) y n @ take m p"
    using file_data_write [OF ok m] by (simp add: D_def patch_def a_def)
  ultimately show ?thesis using m u fd by (simp add: appended_def D_def)
qed

lemma does_round:
  assumes H: "host_image H con pos" and ok: "file_ok (im_block A) x (nblk n) (im_used A)"
    and fr: "fresh (im_block A) (im_used A)" and zt: "ztail (im_block A) x n" and p: "p \<noteq> []"
    and lt: "46 \<le> im_used A" "n + length p \<le> MAXFILE * 1024"
      "im_used A + need (n + length p) \<le> FSSIZE + need n"
  defines "m \<equiv> min (length p) (1024 - n mod 1024)"
  shows "\<exists>B y. does con (iappend_round H p (of_nat n) x) A (drop m p, of_nat (n + m), y) B
     \<and> appended A x n B y (n + m) (take m p)"
proof -
  let ?k = "n div 1024"
  have m: "0 < m" "m \<le> length p" "n mod 1024 + m \<le> 1024"
    using p mod_less_divisor [of 1024 n] by (auto simp: m_def)
  have k: "?k < MAXFILE" using p lt(2) by (cases p) (auto simp: div_less_iff_less_mult)
  have "need (Suc n) \<le> need (n + length p)" using p by (intro need_mono) (cases p; simp)
  with lt(3) have "im_used A + need (Suc n) \<le> FSSIZE + need n" by simp
  from does_block_for [OF H ok fr zt k lt(1) this] obtain B y where
    d: "does con (iappend_block H x ?k) A (of_nat (faddr (im_block B) y ?k), y) B"
    and kept: "kept A x n B y (Suc ?k)" and u: "im_used B + need n = im_used A + need (Suc n)"
    and fd: "file_data (im_block B) y n = file_data (im_block A) x n"
    and z: "\<And>i. n mod 1024 \<le> i \<Longrightarrow> i < 1024 \<Longrightarrow> im_block B (faddr (im_block B) y ?k) i = 0" by blast
  let ?a = "faddr (im_block B) y ?k"
  let ?D = "put_block ?a (patch (n mod 1024) m p (im_block B ?a)) B"
  from kept have "?a < FSSIZE" using file_ok_addr(3) [of "im_block B" y "Suc ?k" "im_used B" ?k] by (simp add: kept_def)
  note a = does_rsect [OF H this] does_wsect [OF H this]
  have n: "unat (of_nat n :: uint) = n" using lt(2) by (simp add: unat_of_nat)
  have e: "min (length p) ((?k + 1) * 1024 - n) = m" "n - ?k * 1024 = n mod 1024"
    by (simp_all add: m_def block_offset)
  have "does con (iappend_round H p (of_nat n) x) A (drop m p, of_nat n + of_nat m, y) ?D"
    unfolding iappend_round_def Let_def n e patch_def
    by (rule does_bind, rule does_assert, rule k, rule does_bind, rule d, simp only: prod.case)
       (rule does_bind, rule a, rule does_bind, rule a, rule does_ret)
  with patch_appended [OF kept u fd z m] show ?thesis by auto
qed

lemma kept_trans:
  assumes 1: "kept A x n B y (nblk m)" and 2: "kept B y m D z nb"
  shows "kept A x n D z nb"
proof -
  from 1 have F: "fblocks (im_block B) y (nblk m) \<subseteq> fblocks (im_block A) x (nblk n) \<union> {im_used A..<im_used B}"
    and le: "im_used A \<le> im_used B" and y: "x\<lparr>di_addrs := di_addrs y\<rparr> = y" unfolding kept_def by metis+
  from 2 have F': "fblocks (im_block D) z nb \<subseteq> fblocks (im_block B) y (nblk m) \<union> {im_used B..<im_used D}"
    and le': "im_used B \<le> im_used D" and z: "y\<lparr>di_addrs := di_addrs z\<rparr> = z" unfolding kept_def by metis+
  have "im_block D b = im_block A b" if "b < im_used A" "b \<notin> fblocks (im_block A) x (nblk n)" for b
  proof -
    from F that have "b \<notin> fblocks (im_block B) y (nblk m)" by auto
    with 1 2 that le show ?thesis by (simp add: kept_def)
  qed
  moreover have "fblocks (im_block D) z nb \<subseteq> fblocks (im_block A) x (nblk n) \<union> {im_used A..<im_used D}"
    using F F' le le' by fastforce
  moreover have "(x\<lparr>di_addrs := di_addrs y\<rparr>)\<lparr>di_addrs := di_addrs z\<rparr> = z" by (simp only: y z)
  then have "z = x\<lparr>di_addrs := di_addrs z\<rparr>" by simp
  ultimately show ?thesis using 1 2 by (simp add: kept_def)
qed

lemma appended_trans:
  assumes "appended A x n B y m ys" "appended B y m D z l zs"
  shows "appended A x n D z l (ys @ zs)"
  using assms kept_trans [of A x n B y m D z "nblk l"] unfolding appended_def by auto

text \<open>The loop, and \<open>iappend\<close> as a whole.\<close>

definition iappend_body :: "'h host \<Rightarrow> byte list \<times> uint \<times> dinode \<Rightarrow>
  ('h mkfs, byte list \<times> uint \<times> dinode + uint \<times> dinode) km" where
  "iappend_body H = (\<lambda>(p, off, din).
     if p = [] then ret (Inr (off, din)) else bind (iappend_round H p off din) (\<lambda>r. ret (Inl r)))"

lemma does_rounds:
  assumes H: "host_image H con pos" and "file_ok (im_block A) x (nblk n) (im_used A)"
    "fresh (im_block A) (im_used A)" "ztail (im_block A) x n"
    "46 \<le> im_used A" "n + length p \<le> MAXFILE * 1024" "im_used A + need (n + length p) \<le> FSSIZE + need n"
  shows "\<exists>B y. does con (loop (iappend_body H) (p, of_nat n, x)) A (of_nat (n + length p), y) B
     \<and> appended A x n B y (n + length p) p"
  using assms(2-)
proof (induction "length p" arbitrary: p A n x rule: less_induct)
  case less
  show ?case
  proof (cases "p = []")
    case True
    have "appended A x n A x n []" using less.prems by (auto simp: appended_def kept_def)
    moreover have "does con (loop (iappend_body H) (p, of_nat n, x)) A (of_nat n, x) A"
      by (rule does_loop_exit) (simp add: iappend_body_def True does_ret)
    ultimately show ?thesis using True by auto
  next
    case False
    define m where "m = min (length p) (1024 - n mod 1024)"
    from does_round [OF H less.prems(1-3) False less.prems(4-6), folded m_def] obtain B y where
      r: "does con (iappend_round H p (of_nat n) x) A (drop m p, of_nat (n + m), y) B"
      and ap: "appended A x n B y (n + m) (take m p)" by blast
    have m: "0 < m" "m \<le> length p" using False mod_less_divisor [of 1024 n] by (auto simp: m_def)
    have "\<exists>D z. does con (loop (iappend_body H) (drop m p, of_nat (n + m), y)) B (of_nat (n + m + length (drop m p)), z) D
        \<and> appended B y (n + m) D z (n + m + length (drop m p)) (drop m p)"
      by (rule less.hyps) (use False m ap less.prems in \<open>auto simp: appended_def kept_def\<close>)
    then obtain D z where l: "does con (loop (iappend_body H) (drop m p, of_nat (n + m), y)) B (of_nat (n + length p), z) D"
      and ap': "appended B y (n + m) D z (n + length p) (drop m p)" using m by (auto simp del: of_nat_add)
    have "does con (iappend_body H (p, of_nat n, x)) A (Inl (drop m p, of_nat (n + m), y)) B"
      using False by (simp add: iappend_body_def del: of_nat_add) (rule does_bind, rule r, rule does_ret)
    from does_loop_again [OF this l] appended_trans [OF ap ap'] show ?thesis by (metis append_take_drop_id)
  qed
qed

lemma does_iappend:
  assumes H: "host_image H con pos" and i: "i < NINODES" and x: "x = inode_at (im_block A) i" and n: "n = unat (di_size x)"
    and ok: "file_ok (im_block A) x (nblk n) (im_used A)" "fresh (im_block A) (im_used A)" "ztail (im_block A) x n"
      "46 \<le> im_used A" "n + length p \<le> MAXFILE * 1024" "im_used A + need (n + length p) \<le> FSSIZE + need n"
  shows "\<exists>B y. does con (iappend H (of_nat i) p) A () (put_inode i (y\<lparr>di_size := of_nat (n + length p)\<rparr>) B)
     \<and> appended A x n B y (n + length p) p"
proof -
  from does_rounds [OF H ok] obtain B y
    where l: "does con (loop (iappend_body H) (p, of_nat n, x)) A (of_nat (n + length p), y) B"
      and ap: "appended A x n B y (n + length p) p" by blast
  from l have l': "does con (loop (iappend_body H) (p, di_size (inode_at (im_block A) i), inode_at (im_block A) i)) A
      (of_nat (n + length p), y) B" by (simp add: x n)
  have "does con (iappend H (of_nat i) p) A () (put_inode i (y\<lparr>di_size := of_nat (n + length p)\<rparr>) B)"
    unfolding iappend_def iappend_body_def [symmetric] xint_id
    by (rule does_bind, rule does_rinode [OF H i], rule does_bind)
       (rule l', simp only: prod.case, rule does_winode [OF H i])
  with ap show ?thesis by blast
qed

end
