(* ===== verification/Xv6_Mkwhole.thy ===== *)
theory Xv6_Mkwhole
  imports Xv6_Mkimage
begin

text \<open>
  The image that mkfs/mkfs.c makes as a whole: files in disjoint blocks, kept by every operation, up
  to the run of \<open>main\<close>.
\<close>

section \<open>The whole image\<close>

text \<open>
  Inode \<open>i\<close> has this type and these contents. An image holds a list of files: the inodes from 1 on
  have their types and contents, in disjoint blocks, and the blocks that are used are those of the
  files.
\<close>

definition file_at :: "image \<Rightarrow> nat \<Rightarrow> 16 word \<times> byte list \<Rightarrow> bool" where
  "file_at A i f \<longleftrightarrow> (let C = im_block A; x = inode_at C i; n = length (snd f) in
     di_type x = fst f \<and> di_nlink x = 1 \<and> unat (di_size x) = n \<and> file_ok C x (nblk n) (im_used A)
     \<and> ztail C x n \<and> file_data C x n = snd f)"

definition own :: "image \<Rightarrow> nat \<Rightarrow> nat \<Rightarrow> nat set" where
  "own A i n = fblocks (im_block A) (inode_at (im_block A) i) (nblk n)"

definition space :: "(16 word \<times> byte list) list \<Rightarrow> nat" where
  "space fs = (\<Sum>f\<leftarrow>fs. need (length (snd f)))"

definition image_ok :: "image \<Rightarrow> (16 word \<times> byte list) list \<Rightarrow> bool" where
  "image_ok A fs \<longleftrightarrow> im_inodes A = of_nat (length fs) + 1 \<and> length fs < NINODES
     \<and> im_used A = nmeta + space fs \<and> im_used A \<le> FSSIZE \<and> fresh (im_block A) (im_used A)
     \<and> im_block A 1 = sb_bytes mkfs_sb
     \<and> (\<forall>k < length fs. file_at A (Suc k) (fs ! k))
     \<and> (\<forall>j < length fs. \<forall>k < length fs. j \<noteq> k \<longrightarrow>
          own A (Suc j) (length (snd (fs ! j))) \<inter> own A (Suc k) (length (snd (fs ! k))) = {})"

lemma image_okD:
  assumes "image_ok A fs"
  shows "46 \<le> im_used A" "fresh (im_block A) (im_used A)" "\<And>k. k < length fs \<Longrightarrow> file_at A (Suc k) (fs ! k)"
    "\<And>j k. j < length fs \<Longrightarrow> k < length fs \<Longrightarrow> j \<noteq> k \<Longrightarrow>
       own A (Suc j) (length (snd (fs ! j))) \<inter> own A (Suc k) (length (snd (fs ! k))) = {}"
  using assms by (auto simp: image_ok_def)

text \<open>A file is not disturbed by what happens outside its blocks.\<close>

lemma file_at_frame:
  assumes f: "file_at A i f" and x: "inode_at (im_block B) i = inode_at (im_block A) i"
    and C: "\<And>b. b \<in> own A i (length (snd f)) \<Longrightarrow> im_block B b = im_block A b"
    and u: "im_used A \<le> im_used B" "im_used B \<le> FSSIZE"
  shows "file_at B i f" "own B i (length (snd f)) = own A i (length (snd f))"
proof -
  define n where "n = length (snd f)"
  define y where "y = inode_at (im_block A) i"
  from f have ok: "file_ok (im_block A) y (nblk n) (im_used A)" and z: "ztail (im_block A) y n"
    and d: "file_data (im_block A) y n = snd f" by (simp_all add: file_at_def n_def y_def Let_def)
  have own: "own A i (length (snd f)) = fblocks (im_block A) y (nblk n)" by (simp add: own_def n_def y_def)
  have "NDIRECT < nblk n \<Longrightarrow> im_block B (ind y) = im_block A (ind y)" by (rule C) (simp add: own fblocks_def)
  then have c: "file_ok (im_block B) y (nblk n) (im_used B)" "faddr (im_block B) y = faddr (im_block A) y"
    "fblocks (im_block B) y (nblk n) = fblocks (im_block A) y (nblk n)"
    using file_ok_cong [of "im_block A" y "nblk n" "im_used A" "im_block B" "im_used B"] ok u by auto
  have b: "im_block B (faddr (im_block A) y k) = im_block A (faddr (im_block A) y k)" if "k < nblk n" for k
    by (rule C) (use that in \<open>simp add: own fblocks_def\<close>)
  have "ztail (im_block B) y n" using z b [of "n div 1024"] by (auto simp: ztail_def c(2) nblk_eq)
  moreover have "file_data (im_block B) y n = snd f"
    by (subst d [symmetric], rule file_data_cong) (simp add: b c(2))
  ultimately show "file_at B i f" using f x c(1) by (simp add: file_at_def Let_def n_def y_def)
  show "own B i (length (snd f)) = own A i (length (snd f))" using x c(3) by (simp add: own_def n_def y_def)
qed

lemma own_bounds:
  assumes "file_at A i f"
  shows "own A i (length (snd f)) \<subseteq> {46..<im_used A}"
  using assms by (auto simp: file_at_def own_def file_ok_def Let_def)

lemma kept_fields:
  assumes "kept A x n B y nb"
  shows "di_type y = di_type x" "di_nlink y = di_nlink x"
proof -
  from assms have "y = x\<lparr>di_addrs := di_addrs y\<rparr>" by (simp add: kept_def)
  then have "di_type y = di_type (x\<lparr>di_addrs := di_addrs y\<rparr>)" "di_nlink y = di_nlink (x\<lparr>di_addrs := di_addrs y\<rparr>)" by metis+
  then show "di_type y = di_type x" "di_nlink y = di_nlink x" by simp_all
qed

lemma size_irrelevant [simp]:
  "faddr C (y\<lparr>di_size := v\<rparr>) = faddr C y" "ind (y\<lparr>di_size := v\<rparr>) = ind y"
  "fblocks C (y\<lparr>di_size := v\<rparr>) nb = fblocks C y nb" "file_ok C (y\<lparr>di_size := v\<rparr>) nb fb = file_ok C y nb fb"
  "ztail C (y\<lparr>di_size := v\<rparr>) n = ztail C y n" "file_data C (y\<lparr>di_size := v\<rparr>) n = file_data C y n"
proof -
  show f: "faddr C (y\<lparr>di_size := v\<rparr>) = faddr C y" and i: "ind (y\<lparr>di_size := v\<rparr>) = ind y"
    by (auto simp: faddr_def ind_def)
  show b: "fblocks C (y\<lparr>di_size := v\<rparr>) nb = fblocks C y nb" by (simp add: fblocks_def f i)
  show "file_ok C (y\<lparr>di_size := v\<rparr>) nb fb = file_ok C y nb fb" by (simp add: file_ok_def f i b)
  show "ztail C (y\<lparr>di_size := v\<rparr>) n = ztail C y n" by (simp add: ztail_def f)
  show "file_data C (y\<lparr>di_size := v\<rparr>) n = file_data C y n" by (simp add: file_data_def f)
qed

text \<open>Writing the inode of a file makes it the file with this inode.\<close>

lemma file_at_put_inode:
  assumes ok: "file_ok (im_block B) y (nblk n) (im_used B)" and z: "ztail (im_block B) y n"
    and n: "n \<le> MAXFILE * 1024" and i: "i < NINODES" and nl: "di_nlink y = 1"
  defines "D \<equiv> put_inode i (y\<lparr>di_size := of_nat n\<rparr>) B"
  shows "file_at D i (di_type y, file_data (im_block B) y n)" "own D i n = fblocks (im_block B) y (nblk n)"
proof -
  let ?f = "(di_type y, file_data (im_block B) y n)"
  have x: "inode_at (im_block D) i = y\<lparr>di_size := of_nat n\<rparr>"
    unfolding D_def by (rule inode_at_put) (use file_ok_none(1) [OF ok] in simp)
  have l: "length (file_data (im_block B) y n) = n" by (simp add: file_data_def)
  have D: "im_block D b = im_block B b" if "b \<in> fblocks (im_block B) y (nblk n)" for b
    using that ok iblock_less [OF i] unfolding D_def by (intro put_inode_simps) (auto simp: file_ok_def)
  have "NDIRECT < nblk n \<Longrightarrow> im_block D (ind y) = im_block B (ind y)" by (rule D) (simp add: fblocks_def)
  then have c: "file_ok (im_block D) y (nblk n) (im_used B)" "faddr (im_block D) y = faddr (im_block B) y"
    "fblocks (im_block D) y (nblk n) = fblocks (im_block B) y (nblk n)"
    using file_ok_cong [of "im_block B" y "nblk n" "im_used B" "im_block D" "im_used B"] ok by (auto simp: file_ok_def)
  have b: "im_block D (faddr (im_block B) y k) = im_block B (faddr (im_block B) y k)" if "k < nblk n" for k
    by (rule D) (use that in \<open>simp add: fblocks_def\<close>)
  have "ztail (im_block D) y n" using z b [of "n div 1024"] by (auto simp: ztail_def c(2) nblk_eq)
  moreover have "file_data (im_block D) y n = file_data (im_block B) y n"
    by (rule file_data_cong) (simp add: b c(2))
  moreover have "unat (of_nat n :: uint) = n" using n by (simp add: unat_of_nat)
  ultimately show "file_at D i ?f" using x l c(1) nl by (simp add: file_at_def Let_def) (simp add: D_def)
  show "own D i n = fblocks (im_block B) y (nblk n)" using x c(3) by (simp add: own_def)
qed

lemma space_update:
  assumes k: "k < length fs"
  shows "space (fs[k := f]) + need (length (snd (fs ! k))) = space fs + need (length (snd f))"
proof -
  have "space fs = need (length (snd (fs ! k))) + space (take k fs @ drop (Suc k) fs)"
    by (subst id_take_nth_drop [OF k]) (simp add: space_def)
  moreover have "space (fs[k := f]) = need (length (snd f)) + space (take k fs @ drop (Suc k) fs)"
    using k by (simp add: upd_conv_take_nth_drop space_def)
  ultimately show ?thesis by simp
qed

text \<open>\<open>iappend\<close> extends one file of the image and keeps the others.\<close>

lemma image_ok_update:
  assumes A: "image_ok A fs" and k: "k < length fs" and inodes: "im_inodes D = im_inodes A"
    and fk: "file_at D (Suc k) f" "fst f = fst (fs ! k)"
    and u: "im_used D + need (length (snd (fs ! k))) = im_used A + need (length (snd f))"
      "im_used A \<le> im_used D" "im_used D \<le> FSSIZE" "fresh (im_block D) (im_used D)"
    and own: "own D (Suc k) (length (snd f)) \<subseteq> own A (Suc k) (length (snd (fs ! k))) \<union> {im_used A..<im_used D}"
    and D: "\<And>b. b < im_used A \<Longrightarrow> b \<noteq> iblock (Suc k) \<Longrightarrow> b \<notin> own A (Suc k) (length (snd (fs ! k))) \<Longrightarrow>
      im_block D b = im_block A b"
    and x: "\<And>j. j \<noteq> Suc k \<Longrightarrow> j < NINODES \<Longrightarrow> inode_at (im_block D) j = inode_at (im_block A) j"
  shows "image_ok D (fs[k := f])"
proof -
  have kn: "Suc k < NINODES" using A k by (simp add: image_ok_def)
  have other: "file_at D (Suc j) (fs ! j)" "own D (Suc j) (length (snd (fs ! j))) = own A (Suc j) (length (snd (fs ! j)))"
    if "j < length fs" "j \<noteq> k" for j
  proof -
    have "im_block D b = im_block A b" if "b \<in> own A (Suc j) (length (snd (fs ! j)))" for b
      using that own_bounds [OF image_okD(3) [OF A \<open>j < length fs\<close>]] iblock_less [OF kn]
        image_okD(4) [OF A \<open>j < length fs\<close> k \<open>j \<noteq> k\<close>] by (intro D) auto
    from file_at_frame [OF image_okD(3) [OF A that(1)] x this u(2,3)] that A
    show "file_at D (Suc j) (fs ! j)" "own D (Suc j) (length (snd (fs ! j))) = own A (Suc j) (length (snd (fs ! j)))"
      by (auto simp: image_ok_def)
  qed
  have "im_used D = nmeta + space (fs[k := f])" using A u(1) space_update [OF k, of f] by (simp add: image_ok_def)
  moreover have "own D (Suc k) (length (snd f)) \<inter> own D (Suc j) (length (snd (fs ! j))) = {}"
    if "j < length fs" "j \<noteq> k" for j
    using own other(2) [OF that] image_okD(4) [OF A that(1) k that(2)] own_bounds [OF image_okD(3) [OF A that(1)]]
    by fastforce
  moreover have "im_block D 1 = im_block A 1"
    using iblock_bounds [OF kn] own_bounds [OF image_okD(3) [OF A k]] image_okD(1) [OF A] by (intro D) auto
  ultimately show ?thesis using A k fk u inodes other image_okD(4) [OF A]
    unfolding image_ok_def by (auto simp: nth_list_update Int_commute)
qed

lemma image_iappend:
  assumes H: "host_image H con pos" and A: "image_ok A fs" and k: "k < length fs" "fs ! k = (ty, xs)"
    and lt: "length xs + length p \<le> MAXFILE * 1024"
      "im_used A + need (length xs + length p) \<le> FSSIZE + need (length xs)"
  shows "\<exists>D. does con (iappend H (of_nat (Suc k)) p) A () D \<and> image_ok D (fs[k := (ty, xs @ p)])
     \<and> im_input D = im_input A"
proof -
  define x where "x = inode_at (im_block A) (Suc k)"
  have kn: "Suc k < NINODES" using A k by (simp add: image_ok_def)
  from image_okD(3) [OF A k(1)] k(2) have fx: "di_type x = ty" "di_nlink x = 1" "length xs = unat (di_size x)"
    "file_ok (im_block A) x (nblk (length xs)) (im_used A)" "ztail (im_block A) x (length xs)"
    "file_data (im_block A) x (length xs) = xs" by (simp_all add: file_at_def Let_def x_def)
  from does_iappend [OF H kn x_def fx(3,4) image_okD(2) [OF A] fx(5) image_okD(1) [OF A] lt] obtain B y
    where d: "does con (iappend H (of_nat (Suc k)) p) A ()
        (put_inode (Suc k) (y\<lparr>di_size := of_nat (length xs + length p)\<rparr>) B)"
      and ap: "appended A x (length xs) B y (length xs + length p) p" by blast
  let ?D = "put_inode (Suc k) (y\<lparr>di_size := of_nat (length xs + length p)\<rparr>) B"
  from ap have kept: "kept A x (length xs) B y (nblk (length xs + length p))"
    and z: "ztail (im_block B) y (length xs + length p)" and u: "im_used B + need (length xs) = im_used A + need (length xs + length p)"
    and fd: "file_data (im_block B) y (length xs + length p) = xs @ p" by (simp_all add: appended_def fx(6))
  from kept have ok: "file_ok (im_block B) y (nblk (length xs + length p)) (im_used B)"
    and fb: "fblocks (im_block B) y (nblk (length xs + length p)) \<subseteq> own A (Suc k) (length xs) \<union> {im_used A..<im_used B}"
    and B: "\<And>b. b < im_used A \<Longrightarrow> b \<notin> own A (Suc k) (length xs) \<Longrightarrow> im_block B b = im_block A b"
    and AB: "im_inodes B = im_inodes A" "im_input B = im_input A" "im_used A \<le> im_used B" "fresh (im_block B) (im_used B)"
    by (simp_all add: kept_def own_def x_def)
  have ib: "iblock (Suc k) < 45" by (rule iblock_less [OF kn])
  have fr: "fresh (im_block ?D) (im_used B)" "im_used B \<le> FSSIZE"
    using AB image_okD(1) [OF A] ib ok by (auto simp: fresh_def file_ok_def)
  have x': "inode_at (im_block ?D) j = inode_at (im_block A) j" if "j \<noteq> Suc k" "j < NINODES" for j
  proof -
    have "im_block B (iblock j) = im_block A (iblock j)"
      using iblock_less [OF that(2)] image_okD(1) [OF A] own_bounds [OF image_okD(3) [OF A k(1)]] k(2) by (intro B) auto
    then have "inode_at (im_block B) j = inode_at (im_block A) j" by (rule inode_at_cong)
    with that(1) show ?thesis by (simp add: inode_at_put_other)
  qed
  note f = file_at_put_inode [OF ok z lt(1) kn kept_fields(2) [OF kept, unfolded fx(2)]]
  have "image_ok ?D (fs[k := (ty, xs @ p)])"
    by (rule image_ok_update [OF A k(1)])
       (use f k u fr fb B AB kept_fields(1) [OF kept] fx(1) fd x' in \<open>auto simp: add.commute\<close>)
  with d AB show ?thesis by auto
qed

lemma image_ialloc:
  assumes H: "host_image H con pos" and A: "image_ok A fs" and n: "Suc (length fs) < NINODES"
  shows "\<exists>D. does con (ialloc_mk H ty) A (of_nat (Suc (length fs))) D \<and> image_ok D (fs @ [(ty, [])])
     \<and> im_input D = im_input A"
proof -
  let ?n = "Suc (length fs)"
  let ?B = "A\<lparr>im_inodes := of_nat ?n + 1\<rparr>"
  let ?D = "put_inode ?n (new_inode ty) ?B"
  have "im_inodes A = of_nat ?n" using A by (simp add: image_ok_def)
  from does_ialloc [OF H n this] have d: "does con (ialloc_mk H ty) A (of_nat ?n) ?D" .
  have ib: "iblock ?n < 45" "32 \<le> iblock ?n" using n by (simp_all add: iblock_less iblock_bounds)
  have u: "im_used A \<le> FSSIZE" "46 \<le> im_used A" using A by (simp_all add: image_ok_def)
  have ok: "file_ok (im_block ?B) (new_inode ty) (nblk 0) (im_used ?B)" "ztail (im_block ?B) (new_inode ty) 0"
    using u by (simp_all add: file_ok_def fblocks_def nblk_def new_inode_def faddr_def ztail_def)
  have new: "file_at ?D ?n (ty, [])" "own ?D ?n 0 = {}"
    using file_at_put_inode [OF ok _ n] by (simp_all add: new_inode_def file_data_def fblocks_def nblk_def)
  have old: "file_at ?D (Suc j) (fs ! j)" "own ?D (Suc j) (length (snd (fs ! j))) = own A (Suc j) (length (snd (fs ! j)))"
    if "j < length fs" for j
  proof -
    have "im_block ?D b = im_block A b" if "b \<in> own A (Suc j) (length (snd (fs ! j)))" for b
      using that own_bounds [OF image_okD(3) [OF A \<open>j < length fs\<close>]] ib by auto
    from file_at_frame [OF image_okD(3) [OF A that], of ?D, OF _ this] that u inode_at_put_other [of "Suc j" ?n]
    show "file_at ?D (Suc j) (fs ! j)" "own ?D (Suc j) (length (snd (fs ! j))) = own A (Suc j) (length (snd (fs ! j)))"
      by auto
  qed
  have "im_block ?D 1 = im_block A 1" "fresh (im_block ?D) (im_used A)" "space (fs @ [(ty, [])]) = space fs"
    using ib A by (auto simp: image_ok_def fresh_def space_def need_def nblk_def)
  with new old A n have "image_ok ?D (fs @ [(ty, [])])"
    unfolding image_ok_def by (auto simp: nth_append less_Suc_eq)
  with d show ?thesis by auto
qed

section \<open>Copying files\<close>

text \<open>
  \<open>gives con m A Q\<close>: \<open>m\<close>, started with image \<open>A\<close>, returns, and what it returns and the image it leaves
  satisfy \<open>Q\<close>.
\<close>

definition gives :: "'h contents \<Rightarrow> ('h mkfs, 'a) km \<Rightarrow> image \<Rightarrow> ('a \<Rightarrow> image \<Rightarrow> bool) \<Rightarrow> bool" where
  "gives con m A Q \<longleftrightarrow> (\<forall>s. holds con A s \<longrightarrow> (\<exists>r B t. m s = Done r t \<and> holds con B t \<and> Q r B))"

lemma does_gives: "does con m A r B \<Longrightarrow> Q r B \<Longrightarrow> gives con m A Q"
  unfolding does_def gives_def by blast

lemma gives_bind:
  assumes "gives con m A P" "\<And>r B. P r B \<Longrightarrow> gives con (f r) B Q"
  shows "gives con (bind m f) A Q"
  using assms unfolding gives_def by (metis bind_Done)

lemma gives_block_Cons:
  "gives con m A P \<Longrightarrow> (\<And>r B. P r B \<Longrightarrow> gives con (block ms) B Q) \<Longrightarrow> gives con (block (m # ms)) A Q"
  unfolding block.simps by (rule gives_bind)

lemma does_then:
  "does con m A r D \<Longrightarrow> gives con (f r) D Q \<Longrightarrow> gives con (bind m f) A Q"
  "does con n A () D \<Longrightarrow> gives con (block ms) D Q' \<Longrightarrow> gives con (block (n # ms)) A Q'"
  unfolding does_def gives_def block.simps by (metis bind_Done)+

lemma gives_mono: "gives con m A P \<Longrightarrow> (\<And>r B. P r B \<Longrightarrow> Q r B) \<Longrightarrow> gives con m A Q"
  unfolding gives_def by metis

lemma gives_ret: "Q r A \<Longrightarrow> gives con (ret r) A Q"
  using does_gives [OF does_ret] .

lemma gives_block_Nil: "Q () A \<Longrightarrow> gives con (block []) A Q"
  by (simp add: gives_ret)

lemma gives_loop:
  assumes "gives con (f x) A (\<lambda>r B. case r of Inl y \<Rightarrow> gives con (loop f y) B Q | Inr z \<Rightarrow> Q z B)"
  shows "gives con (loop f x) A Q"
  unfolding gives_def
proof (intro allI impI)
  fix s assume "holds con A s"
  with assms obtain r B t where r: "f x s = Done r t" "holds con B t"
    "case r of Inl y \<Rightarrow> gives con (loop f y) B Q | Inr z \<Rightarrow> Q z B" unfolding gives_def by blast
  then show "\<exists>r B t. loop f x s = Done r t \<and> holds con B t \<and> Q r B"
    by (subst loop_unfold) (cases r; auto simp: gives_def)
qed

text \<open>
  What the program relies on of the host for the files that are copied: they can be opened, reading
  gives their bytes in order, at most a block at a time and nothing only at the end. \<open>src\<close> is what
  is in the files.
\<close>

definition host_files :: "'h host \<Rightarrow> 'h contents \<Rightarrow> (string \<Rightarrow> byte list) \<Rightarrow> string list \<Rightarrow> bool" where
  "host_files H con src args \<longleftrightarrow>
     (\<forall>w name. \<exists>fd w'. h_create H name w = Done fd w' \<and> 0 \<le> fd)
   \<and> (\<forall>w. \<forall>a\<in>set args. \<exists>fd w'. h_open H a w = Done fd w' \<and> 0 \<le> fd \<and>
        con w' = (fst (con w), (snd (con w))(fd := src a)))
   \<and> (\<forall>w fd. \<exists>n w'. h_input H fd w = Done (Some (take n (snd (con w) fd))) w' \<and> n \<le> 1024 \<and> 0 < n
        \<and> con w' = (fst (con w), (snd (con w))(fd := drop n (snd (con w) fd))))
   \<and> (\<forall>w fd. \<exists>w'. h_close H fd w = Done () w' \<and> fst (con w') = fst (con w))"

lemma gives_open:
  assumes "host_files H con src args" "a \<in> set args"
  shows "gives con (on_host (h_open H a)) A (\<lambda>fd B. 0 \<le> fd \<and> B = A\<lparr>im_input := (im_input A)(fd := src a)\<rparr>)"
  unfolding gives_def
proof (intro allI impI)
  fix s assume s: "holds con A s"
  from assms obtain fd w where w: "h_open H a (world s) = Done fd w" "0 \<le> fd"
    "con w = (fst (con (world s)), (snd (con (world s)))(fd := src a))" unfolding host_files_def by blast
  let ?B = "A\<lparr>im_input := (im_input A)(fd := src a)\<rparr>"
  have "on_host (h_open H a) s = Done fd (s\<lparr>world := w\<rparr>)" using w by (simp add: on_host_def)
  moreover have "holds con ?B (s\<lparr>world := w\<rparr>)" using s w by (simp add: holds_def)
  ultimately show "\<exists>r B t. on_host (h_open H a) s = Done r t \<and> holds con B t \<and>
      0 \<le> r \<and> B = A\<lparr>im_input := (im_input A)(r := src a)\<rparr>" using w(2) by blast
qed

lemma gives_input:
  assumes "host_files H con src args"
  shows "gives con (on_host (h_input H fd)) A (\<lambda>r B. \<exists>n>0. r = Some (take n (im_input A fd)) \<and>
     B = A\<lparr>im_input := (im_input A)(fd := drop n (im_input A fd))\<rparr>)"
  unfolding gives_def
proof (intro allI impI)
  fix s assume s: "holds con A s"
  from assms obtain n w where w: "h_input H fd (world s) = Done (Some (take n (snd (con (world s)) fd))) w" "0 < n"
    "con w = (fst (con (world s)), (snd (con (world s)))(fd := drop n (snd (con (world s)) fd)))"
    unfolding host_files_def by blast
  have "snd (con (world s)) = im_input A" using s by (simp add: holds_def)
  then have "on_host (h_input H fd) s = Done (Some (take n (im_input A fd))) (s\<lparr>world := w\<rparr>)"
    "holds con (A\<lparr>im_input := (im_input A)(fd := drop n (im_input A fd))\<rparr>) (s\<lparr>world := w\<rparr>)"
    using w s by (simp_all add: on_host_def holds_def)
  then show "\<exists>r B t. on_host (h_input H fd) s = Done r t \<and> holds con B t \<and> (\<exists>n>0. r = Some (take n (im_input A fd)) \<and>
      B = A\<lparr>im_input := (im_input A)(fd := drop n (im_input A fd))\<rparr>)" using w(2) by blast
qed

lemma image_ok_input [simp]: "image_ok (A\<lparr>im_input := g\<rparr>) fs = image_ok A fs"
  by (simp add: image_ok_def file_at_def own_def)

lemma gives_close:
  assumes "host_files H con src args" "image_ok A fs"
  shows "gives con (on_host (h_close H fd)) A (\<lambda>_ B. image_ok B fs)"
  unfolding gives_def
proof (intro allI impI)
  fix s assume s: "holds con A s"
  from assms obtain w where w: "h_close H fd (world s) = Done () w" "fst (con w) = fst (con (world s))"
    unfolding host_files_def by blast
  then have "on_host (h_close H fd) s = Done () (s\<lparr>world := w\<rparr>)"
    "holds con (A\<lparr>im_input := snd (con w)\<rparr>) (s\<lparr>world := w\<rparr>)" using s by (simp_all add: on_host_def holds_def)
  with assms(2) show "\<exists>r B t. on_host (h_close H fd) s = Done r t \<and> holds con B t \<and> image_ok B fs"
    by (metis image_ok_input)
qed

text \<open>The copy loop.\<close>

lemma gives_copy_step:
  assumes H: "host_files H con src args"
    and stop: "im_input A fd = [] \<Longrightarrow> Q () (A\<lparr>im_input := (im_input A)(fd := [])\<rparr>)"
    and go: "\<And>n. im_input A fd \<noteq> [] \<Longrightarrow> 0 < n \<Longrightarrow>
      gives con (iappend H inum (take n (im_input A fd))) (A\<lparr>im_input := (im_input A)(fd := drop n (im_input A fd))\<rparr>)
        (\<lambda>_ B. gives con (mkfs_copy H inum fd) B Q)"
  shows "gives con (mkfs_copy H inum fd) A Q"
proof -
  let ?Q = "\<lambda>r B. case r of Inl y \<Rightarrow> gives con (mkfs_copy H inum fd) B Q | Inr z \<Rightarrow> Q z B"
  have "gives con (mkfs_copy_round H inum fd) A ?Q"
    unfolding mkfs_copy_round_def
  proof (rule gives_bind [OF gives_input [OF H]], elim exE conjE)
    fix r B n assume n: "0 < n" and r: "r = Some (take n (im_input A fd))"
      and B: "B = A\<lparr>im_input := (im_input A)(fd := drop n (im_input A fd))\<rparr>"
    show "gives con (case r of Some (b # bs) \<Rightarrow> bind (iappend H inum (b # bs)) (\<lambda>_. ret (Inl ()))
        | _ \<Rightarrow> ret (Inr ())) B ?Q"
    proof (cases "take n (im_input A fd)")
      case Nil
      with n have "im_input A fd = []" by simp
      with stop r B show ?thesis by (simp add: gives_ret)
    next
      case (Cons b bs)
      with go [OF _ n] have "gives con (iappend H inum (b # bs)) B (\<lambda>_ B. gives con (mkfs_copy H inum fd) B Q)"
        using B by (cases "im_input A fd") auto
      then have "gives con (bind (iappend H inum (b # bs)) (\<lambda>_. ret (Inl ()))) B ?Q"
        by (rule gives_bind) (simp add: gives_ret)
      then show ?thesis using r Cons by simp
    qed
  qed
  moreover have e: "loop (\<lambda>_. mkfs_copy_round H inum fd) y = mkfs_copy H inum fd" for y
    by (simp add: mkfs_copy_def)
  ultimately show ?thesis by (subst e [of "()", symmetric], intro gives_loop) (simp only: e)
qed

lemma gives_copy:
  assumes H: "host_image H con pos" "host_files H con src args" and A: "image_ok A fs"
    and k: "k < length fs" "fs ! k = (ty, xs)"
    and lt: "length xs + length (im_input A fd) \<le> MAXFILE * 1024"
      "im_used A + need (length xs + length (im_input A fd)) \<le> FSSIZE + need (length xs)"
  shows "gives con (mkfs_copy H (of_nat (Suc k)) fd) A (\<lambda>_ B. image_ok B (fs[k := (ty, xs @ im_input A fd)]))"
  using A k lt
proof (induction "length (im_input A fd)" arbitrary: A fs xs rule: less_induct)
  case less
  show ?case
  proof (rule gives_copy_step [OF H(2)])
    assume "im_input A fd = []"
    with less.prems list_update_id [of fs k]
    show "image_ok (A\<lparr>im_input := (im_input A)(fd := [])\<rparr>) (fs[k := (ty, xs @ im_input A fd)])" by simp
  next
    fix n :: nat assume i: "im_input A fd \<noteq> []" and n: "0 < n"
    let ?p = "take n (im_input A fd)"
    let ?B = "A\<lparr>im_input := (im_input A)(fd := drop n (im_input A fd))\<rparr>"
    have "need (length xs + length ?p) \<le> need (length xs + length (im_input A fd))" by (rule need_mono) simp
    moreover have "length xs + length ?p \<le> MAXFILE * 1024" using less.prems(4) by simp
    ultimately obtain D where d: "does con (iappend H (of_nat (Suc k)) ?p) ?B () D"
      and D: "image_ok D (fs[k := (ty, xs @ ?p)])" "im_input D = im_input ?B"
      using image_iappend [OF H(1), of ?B fs k ty xs ?p] less.prems by auto
    have "im_used D = nmeta + space (fs[k := (ty, xs @ ?p)])" "im_used A = nmeta + space fs"
      using D(1) less.prems(1) by (simp_all add: image_ok_def)
    then have u: "im_used D + need (length xs) = im_used A + need (length xs + length ?p)"
      using space_update [OF less.prems(2), of "(ty, xs @ ?p)"] less.prems(3) by simp
    have l: "length xs + min (length (im_input A fd)) n + (length (im_input A fd) - n) = length xs + length (im_input A fd)"
      by simp
    have "gives con (mkfs_copy H (of_nat (Suc k)) fd) D
        (\<lambda>_ B. image_ok B ((fs[k := (ty, xs @ ?p)])[k := (ty, (xs @ ?p) @ im_input D fd)]))"
      by (rule less.hyps) (use i n D u less.prems in \<open>auto simp: l\<close>)
    then have "gives con (mkfs_copy H (of_nat (Suc k)) fd) D (\<lambda>_ B. image_ok B (fs[k := (ty, xs @ im_input A fd)]))"
      using D(2) by simp
    then show "gives con (iappend H (of_nat (Suc k)) ?p) ?B (\<lambda>_ B. gives con (mkfs_copy H (of_nat (Suc k)) fd) B
        (\<lambda>_ B. image_ok B (fs[k := (ty, xs @ im_input A fd)])))"
      by (rule does_gives [OF d])
  qed
qed

section \<open>The run of main\<close>

text \<open>The bytes of the root directory and the files of the image for the arguments \<open>args\<close>.\<close>

definition root_bytes :: "string list \<Rightarrow> byte list" where
  "root_bytes args = dirent_bytes 1 ''.'' @ dirent_bytes 1 ''..''
     @ concat (map (\<lambda>i. dirent_bytes (of_nat (i + 2)) (shortname (args ! i))) [0..<length args])"

definition image_files :: "(string \<Rightarrow> byte list) \<Rightarrow> string list \<Rightarrow> (16 word \<times> byte list) list" where
  "image_files src args = (T_DIR, root_bytes args) # map (\<lambda>a. (T_FILE, src a)) args"

lemma length_dirent [simp]: "length (dirent_bytes i name) = 16"
  by (simp add: dirent_bytes_def)

lemma length_root: "length (root_bytes args) = 16 * (length args + 2)"
proof -
  have "length (concat (map (\<lambda>i. dirent_bytes (of_nat (i + 2)) (shortname (args ! i))) is)) = 16 * length is" for "is"
    by (induction "is") auto
  then show ?thesis by (simp add: root_bytes_def)
qed

lemma root_bytes_snoc:
  "root_bytes (args @ [a]) = root_bytes args @ dirent_bytes (of_nat (length args + 2)) (shortname a)"
proof -
  have "map (\<lambda>i. dirent_bytes (of_nat (i + 2)) (shortname ((args @ [a]) ! i))) [0..<length args] =
      map (\<lambda>i. dirent_bytes (of_nat (i + 2)) (shortname (args ! i))) [0..<length args]"
    by (rule map_cong) (simp_all add: nth_append)
  then show ?thesis by (simp add: root_bytes_def del: map_eq_conv)
qed

lemma space_image_files: "space (image_files src args) = need (length (root_bytes args)) + (\<Sum>a\<leftarrow>args. need (length (src a)))"
  by (simp add: space_def image_files_def comp_def)

lemma space_prefix: "space (image_files src ds) \<le> space (image_files src (ds @ args))"
proof -
  have "need (length (root_bytes ds)) \<le> need (length (root_bytes (ds @ args)))"
    by (rule need_mono) (simp add: length_root)
  then show ?thesis by (simp add: space_image_files)
qed

lemma gives_file:
  assumes H: "host_image H con pos" "host_files H con src args" and a: "a \<in> set args"
    and A: "image_ok A (image_files src ds)" and n: "length ds + 2 < NINODES"
    and nm: "CHR ''/'' \<notin> set (if take 5 a = ''user/'' then drop 5 a else a)"
    and sz: "length (src a) \<le> MAXFILE * 1024" "nmeta + space (image_files src (ds @ [a])) \<le> FSSIZE"
  shows "gives con (mkfs_file H 1 a) A (\<lambda>_ B. image_ok B (image_files src (ds @ [a])))"
proof -
  let ?fs = "image_files src ds"
  let ?n = "Suc (length ?fs)"
  let ?e = "dirent_bytes (of_nat ?n) (shortname a)"
  let ?fs' = "(T_DIR, root_bytes (ds @ [a])) # map (\<lambda>a. (T_FILE, src a)) ds @ [(T_FILE, [])]"
  have len: "length ?fs = length ds + 1" by (simp add: image_files_def)
  have copy: "gives con (mkfs_copy H (of_nat ?n) fd) D (\<lambda>_ B. image_ok B (image_files src (ds @ [a])))"
    if D: "image_ok D ?fs'" and i: "im_input D fd = src a" for D fd
  proof -
    have "im_used D = nmeta + space ?fs'" using D by (simp add: image_ok_def)
    with sz have "im_used D + need (0 + length (im_input D fd)) \<le> FSSIZE + need 0"
      by (simp add: i space_def image_files_def)
    then have "gives con (mkfs_copy H (of_nat (Suc (length ds + 1))) fd) D
        (\<lambda>_ B. image_ok B (?fs'[length ds + 1 := (T_FILE, [] @ im_input D fd)]))"
      by (intro gives_copy [OF H D]) (use sz in \<open>simp_all add: i nth_append\<close>)
    then show ?thesis by (simp add: len image_files_def i list_update_append)
  qed
  have step: "gives con (block [iappend H 1 ?e, mkfs_copy H (of_nat ?n) fd, on_host (h_close H fd)]) B
      (\<lambda>_ B. image_ok B (image_files src (ds @ [a])))"
    if B: "image_ok B (?fs @ [(T_FILE, [])])" and i: "im_input B fd = src a" for B fd
  proof -
    have "im_used B = nmeta + space ?fs" using B by (simp add: image_ok_def space_def need_def nblk_def)
    then have "im_used B + need (length (root_bytes ds) + length ?e) \<le> FSSIZE + need (length (root_bytes ds))"
      using sz(2) by (simp add: space_image_files length_root)
    then obtain D where d: "does con (iappend H (of_nat (Suc 0)) ?e) B () D" and
      D: "image_ok D ((?fs @ [(T_FILE, [])])[0 := (T_DIR, root_bytes ds @ ?e)])" "im_input D = im_input B"
      using image_iappend [OF H(1) B, of 0 T_DIR "root_bytes ds" ?e] n
      by (auto simp: image_files_def length_root NINODES_def)
    from D(1) have D': "image_ok D ?fs'" using root_bytes_snoc [of ds a] by (simp add: image_files_def)
    have one: "(of_nat (Suc 0) :: uint) = 1" by simp
    have "gives con (block [mkfs_copy H (of_nat ?n) fd, on_host (h_close H fd)]) D
        (\<lambda>_ B. image_ok B (image_files src (ds @ [a])))"
    proof (rule gives_block_Cons [OF copy [OF D']])
      show "im_input D fd = src a" by (simp add: D i)
      show "gives con (block [on_host (h_close H fd)]) B (\<lambda>_ B. image_ok B (image_files src (ds @ [a])))"
        if "image_ok B (image_files src (ds @ [a]))" for B
        by (rule gives_block_Cons [OF gives_close [OF H(2) that]]) (rule gives_block_Nil)
    qed
    from does_then(2) [OF d this] one show ?thesis by simp
  qed
  have alloc: "gives con (ialloc_mk H T_FILE) B (\<lambda>r D. r = of_nat ?n \<and> image_ok D (?fs @ [(T_FILE, [])]) \<and> im_input D = im_input B)"
    if "image_ok B ?fs" for B
    using image_ialloc [OF H(1) that, of T_FILE] n len by (auto intro: does_gives)
  show ?thesis unfolding mkfs_file_def
  proof (rule does_then [OF does_assert [OF nm]])
    have op: "gives con (on_host (h_open H a)) A (\<lambda>fd D. 0 \<le> fd \<and> image_ok D ?fs \<and> im_input D fd = src a)"
      by (rule gives_mono [OF gives_open [OF H(2) a]]) (use A in auto)
    show "gives con (bind (on_host (h_open H a)) (\<lambda>fd. if fd < 0 then die a else bind (ialloc_mk H T_FILE) (\<lambda>inum.
        block [iappend H 1 (dirent_bytes inum (shortname a)), mkfs_copy H inum fd, on_host (h_close H fd)]))) A
        (\<lambda>_ B. image_ok B (image_files src (ds @ [a])))"
      by (rule gives_bind [OF op], auto intro!: gives_bind [OF alloc]) (use step in simp)
  qed
qed

lemma gives_files:
  assumes H: "host_image H con pos" "host_files H con src args" and "set todo \<subseteq> set args"
    and "image_ok A (image_files src ds)" and "length (ds @ todo) + 1 < NINODES"
    and "\<And>a. a \<in> set todo \<Longrightarrow> CHR ''/'' \<notin> set (if take 5 a = ''user/'' then drop 5 a else a)"
    and "\<And>a. a \<in> set todo \<Longrightarrow> length (src a) \<le> MAXFILE * 1024"
    and "nmeta + space (image_files src (ds @ todo)) \<le> FSSIZE"
  shows "gives con (for_each (mkfs_file H 1) todo) A (\<lambda>_ B. image_ok B (image_files src (ds @ todo)))"
  using assms(3-)
proof (induction todo arbitrary: ds A)
  case Nil
  then show ?case by (simp add: gives_ret)
next
  case (Cons a todo)
  have "nmeta + space (image_files src (ds @ [a])) \<le> FSSIZE"
    using Cons.prems(6) space_prefix [of src "ds @ [a]" todo] by simp
  then have "gives con (mkfs_file H 1 a) A (\<lambda>_ B. image_ok B (image_files src (ds @ [a])))"
    using Cons.prems by (intro gives_file [OF H]) auto
  moreover have "gives con (for_each (mkfs_file H 1) todo) B (\<lambda>_ B. image_ok B (image_files src ((ds @ [a]) @ todo)))"
    if "image_ok B (image_files src (ds @ [a]))" for B
    by (rule Cons.IH) (use that Cons.prems in auto)
  ultimately show ?case by (simp add: gives_bind)
qed

text \<open>Zeroing the image.\<close>

lemma zero_image:
  assumes H: "host_image H con pos" and "n \<le> FSSIZE"
  shows "\<exists>w. for_each (\<lambda>i. wsect H (of_nat i) (\<lambda>_. 0)) [0..<n] s = Done () (s\<lparr>world := w\<rparr>)
     \<and> (\<forall>b<n. fst (con w) b = Some (\<lambda>_. 0)) \<and> snd (con w) = snd (con (world s))"
  using assms(2)
proof (induction n)
  case (Suc n)
  then obtain w where w: "for_each (\<lambda>i. wsect H (of_nat i) (\<lambda>_. 0)) [0..<n] s = Done () (s\<lparr>world := w\<rparr>)"
    "\<forall>b<n. fst (con w) b = Some (\<lambda>_. 0)" "snd (con w) = snd (con (world s))" by auto
  from Suc.prems wsect_eq [OF H, of n "\<lambda>_. 0" "s\<lparr>world := w\<rparr>"] obtain w' where
    w': "wsect H (of_nat n) (\<lambda>_. 0) (s\<lparr>world := w\<rparr>) = Done () (s\<lparr>world := w'\<rparr>)"
    "con w' = ((fst (con w))(n \<mapsto> (\<lambda>_. 0)), snd (con w))" by auto
  then have "for_each (\<lambda>i. wsect H (of_nat i) (\<lambda>_. 0)) [0..<Suc n] s = Done () (s\<lparr>world := w'\<rparr>)"
    using w by (simp add: for_each_append ret_def bind_def)
  with w w' show ?case by (auto simp: less_Suc_eq)
qed (auto simp: ret_def intro: exI [of _ "world s"])

text \<open>The bitmap.\<close>

lemma bit_used_iff: "bit_used d b \<longleftrightarrow> bit (d (b div 8)) (b mod 8)"
  by (simp add: bit_used_def bit_mask_def bit_iff_and_push_bit_not_eq_0)

lemma bit_used_set: "bit_used (bit_set n d) b \<longleftrightarrow> b = n \<or> bit_used d b"
proof -
  have "b div 8 = n div 8 \<and> b mod 8 = n mod 8 \<longleftrightarrow> b = n" by (metis div_mult_mod_eq)
  then show ?thesis by (auto simp: bit_used_iff bit_set_def bit_mask_def bit_simps)
qed

lemma bit_used_balloc: "bit_used (balloc_bits n) b \<longleftrightarrow> b < n"
proof (induction n)
  case (Suc n)
  have "balloc_bits (Suc n) = bit_set n (balloc_bits n)" by (simp add: balloc_bits_def bit_set_def bit_mask_def)
  with Suc show ?case by (auto simp: bit_used_set)
qed (simp add: balloc_bits_def bit_used_def)

lemma does_balloc:
  assumes H: "host_image H con pos" and "n \<le> FSSIZE"
  shows "does con (balloc_mk H (int n)) A () (put_block 45 (balloc_bits n) A)"
proof -
  have "does con (bind (gets mk_sb) (\<lambda>b. wsect H (sb_bmapstart b) (balloc_bits n))) A () (put_block 45 (balloc_bits n) A)"
    by (rule does_bind [OF does_gets [of _ _ _ mkfs_sb]])
       (use does_wsect [OF H, of 45 "balloc_bits n"] in \<open>auto simp: holds_def FSSIZE_def\<close>)
  then show ?thesis unfolding balloc_mk_def using assms(2)
    by (intro does_block_Cons [OF does_assert] does_block_Cons [OF _ does_block_Nil]) (auto simp: FSSIZE_def)
qed

text \<open>The last steps.\<close>

definition finished :: "image \<Rightarrow> image" where
  "finished A = (let x = inode_at (im_block A) 1 in
     put_block 45 (balloc_bits (im_used A))
       (put_inode 1 (x\<lparr>di_size := (di_size x div 1024 + 1) * 1024\<rparr>) A))"

lemma does_finish:
  assumes H: "host_image H con pos" and u: "im_used A \<le> FSSIZE"
  shows "does con (mkfs_finish H 1) A () (finished A)"
proof -
  have r: "does con (rinode H 1) B (inode_at (im_block B) 1) B" for B
    using does_rinode [OF H, of 1] by (simp add: NINODES_def)
  have w: "does con (winode H 1 y) B () (put_inode 1 y B)" for y B
    using does_winode [OF H, of 1] by (simp add: NINODES_def)
  have g: "does con (gets freeblock) B (of_nat (im_used B)) B" for B
    by (rule does_gets) (simp add: holds_def)
  have b: "sint (of_nat (im_used A) :: uint) = int (im_used A)"
    using u by (simp add: FSSIZE_def signed_of_nat signed_take_bit_int_eq_self)
  show ?thesis unfolding mkfs_finish_def finished_def Let_def xint_id of_nat_numeral
    by (rule does_bind, rule r, rule does_bind, rule w, rule does_bind, rule g)
       (use does_balloc [OF H u] b in simp)
qed

text \<open>The super block and the root directory.\<close>

lemma gives_root_dir:
  assumes H: "host_image H con pos" and A: "image_ok A [(T_DIR, [])]"
  shows "gives con (block [assert_mk (1 = ROOTINO), iappend H 1 (dirent_bytes 1 ''.''), iappend H 1 (dirent_bytes 1 ''..'')]) A
     (\<lambda>_ B. image_ok B (image_files src []))"
proof -
  have used: "im_used B = 46 + need (length xs)" if "image_ok B [(T_DIR, xs)]" for B xs
    using that by (simp add: image_ok_def space_def)
  have need: "need n = (if n = 0 then 0 else 1)" if "n \<le> 32" for n
    using that by (auto simp: need_def nblk_def)
  have step: "\<exists>D. does con (iappend H 1 (dirent_bytes 1 nm)) B () D \<and> image_ok D [(T_DIR, xs @ dirent_bytes 1 nm)]"
    if "image_ok B [(T_DIR, xs)]" "length xs \<le> 16" for B xs nm
    using image_iappend [OF H that(1), of 0 T_DIR xs "dirent_bytes 1 nm"] used [OF that(1)] that(2)
    by (auto simp: need FSSIZE_def)
  from step [OF A] obtain B where B: "does con (iappend H 1 (dirent_bytes 1 ''.'')) A () B"
    "image_ok B [(T_DIR, dirent_bytes 1 ''.'')]" by auto
  from step [OF B(2)] obtain D where D: "does con (iappend H 1 (dirent_bytes 1 ''..'')) B () D"
    "image_ok D [(T_DIR, dirent_bytes 1 ''.'' @ dirent_bytes 1 ''..'')]" by auto
  from D(2) have "image_ok D (image_files src [])" by (simp add: image_files_def root_bytes_def)
  then show ?thesis
    by (intro does_then(2) [OF does_assert] does_then(2) [OF B(1)] does_then(2) [OF D(1)] gives_block_Nil)
       (simp_all add: ROOTINO_def)
qed

lemma mkfs_root_ok:
  assumes H: "host_image H con pos" and s: "freeinode s = 1"
  shows "\<exists>A t. mkfs_root H s = Done 1 t \<and> holds con A t \<and> image_ok A (image_files src [])"
proof -
  let ?s = "s\<lparr>mk_sb := mkfs_sb, freeblock := 46\<rparr>"
  from zero_image [OF H order.refl, of ?s] obtain w where
    w: "for_each (\<lambda>i. wsect H (of_nat i) (\<lambda>_. 0)) [0..<FSSIZE] ?s = Done () (?s\<lparr>world := w\<rparr>)"
    "\<forall>b<FSSIZE. fst (con w) b = Some (\<lambda>_. 0)" by blast
  let ?A = "\<lparr>im_block = (\<lambda>_ _. 0), im_inodes = 1, im_used = 46, im_input = snd (con w)\<rparr>"
  let ?B = "put_block 1 (sb_bytes mkfs_sb) ?A"
  have hold: "holds con ?A (?s\<lparr>world := w\<rparr>)" using w s by (simp add: holds_def)
  have wr: "does con (wsect H 1 (sb_bytes mkfs_sb)) ?A () ?B"
    using does_wsect [OF H, of 1] by (simp add: FSSIZE_def)
  have "image_ok ?B []" by (simp add: image_ok_def space_def fresh_def NINODES_def FSSIZE_def)
  from image_ialloc [OF H this, of T_DIR] obtain D where D: "does con (ialloc_mk H T_DIR) ?B 1 D" "image_ok D [(T_DIR, [])]"
    by (auto simp: NINODES_def)
  have "gives con (bind (wsect H 1 (sb_bytes mkfs_sb)) (\<lambda>_. mkfs_dir H)) ?A
     (\<lambda>r B. r = 1 \<and> image_ok B (image_files src []))"
    unfolding mkfs_dir_def
    by (rule does_then(1) [OF wr], rule does_then(1) [OF D(1)], rule gives_bind [OF gives_root_dir [OF H D(2), of src]])
       (rule gives_ret, simp)
  with hold obtain A t where "bind (wsect H 1 (sb_bytes mkfs_sb)) (\<lambda>_. mkfs_dir H) (?s\<lparr>world := w\<rparr>) = Done 1 t"
     "holds con A t" "image_ok A (image_files src [])" unfolding gives_def by blast
  moreover have "mkfs_root H s = bind (wsect H 1 (sb_bytes mkfs_sb)) (\<lambda>_. mkfs_dir H) (?s\<lparr>world := w\<rparr>)"
    using w(1) by (simp add: mkfs_root_def bind_assoc modify_def bind_def)
  ultimately show ?thesis by metis
qed

text \<open>Inode \<open>i\<close> of the image as the kernel reads it, by the super block it finds there.\<close>

definition kernel_inode :: "(nat \<Rightarrow> blk) \<Rightarrow> nat \<Rightarrow> inode" where
  "kernel_inode C i =
     dinode_to_inode (C (unat (IBLOCK (of_nat i) (sb_of_bytes (C 1))))) (dinode_off (of_nat i)) free_inode"

lemma from_kernel_inode:
  assumes "C 1 = sb_bytes mkfs_sb" "i < NINODES"
  shows "from_inode (kernel_inode C i) = inode_at C i"
proof -
  have "unat (of_nat (iblock i) :: uint) = iblock i"
    using iblock_less [OF assms(2)] by (intro unat_small) simp
  with assms show ?thesis
    by (simp add: kernel_inode_def sb_bytes_read IBLOCK_of_nat dinode_off_of_nat inode_at_def get_dinode_eq [symmetric])
qed

lemma inode_at_addrs: "NDIRECT < k \<Longrightarrow> di_addrs (inode_at C n) k = 0"
  by (simp add: inode_at_def)

text \<open>The finished image.\<close>

lemma finished_image:
  assumes A: "image_ok A (image_files src args)"
  defines "fs \<equiv> image_files src args" and "C \<equiv> im_block (finished A)"
  shows "C 1 = sb_bytes mkfs_sb" "C 45 = balloc_bits (nmeta + space fs)"
    "\<And>k. k < length fs \<Longrightarrow> inode_at C (Suc k) = inode_at (im_block A) (Suc k)\<lparr>di_size := of_nat (if k = 0
        then (length (snd (fs ! 0)) div 1024 + 1) * 1024 else length (snd (fs ! k)))\<rparr>"
    "\<And>b. 46 \<le> b \<Longrightarrow> C b = im_block A b"
proof -
  note ok = A [folded fs_def]
  have len: "length fs < NINODES" using ok by (simp add: image_ok_def)
  have ib: "iblock 1 < 45" "32 \<le> iblock 1" by (simp_all add: iblock_def)
  have CA: "C b = im_block A b" if "b \<noteq> 45" "b \<noteq> iblock 1" for b
    using that by (simp add: C_def finished_def Let_def)
  show "C 1 = sb_bytes mkfs_sb" using CA [of 1] ib ok by (simp add: image_ok_def)
  show "C 45 = balloc_bits (nmeta + space fs)" using ok by (simp add: C_def finished_def Let_def image_ok_def)
  show "C b = im_block A b" if "46 \<le> b" for b using CA [of b] that ib by simp
  fix k assume k: "k < length fs"
  have C: "inode_at C (Suc k) = inode_at (im_block (put_inode 1 (inode_at (im_block A) 1\<lparr>di_size :=
      (di_size (inode_at (im_block A) 1) div 1024 + 1) * 1024\<rparr>) A)) (Suc k)"
    using iblock_less [of "Suc k"] k len by (simp add: C_def finished_def Let_def inode_at_def)
  let ?x = "inode_at (im_block A) (Suc k)"
  have u: "unat (di_size ?x) = length (snd (fs ! k))" using image_okD(3) [OF ok k] by (simp add: file_at_def Let_def)
  have sz: "di_size ?x = of_nat (length (snd (fs ! k)))" by (simp add: u [symmetric])
  show "inode_at C (Suc k) = ?x\<lparr>di_size := of_nat (if k = 0
      then (length (snd (fs ! 0)) div 1024 + 1) * 1024 else length (snd (fs ! k)))\<rparr>"
  proof (cases "k = 0")
    case True
    have "v div 1024 = of_nat (unat v div 1024)" for v :: uint
      by (simp add: word_arith_nat_div)
    then show ?thesis using C True u by (simp add: inode_at_put inode_at_addrs add.commute)
  next
    case False
    then have "inode_at C (Suc k) = ?x" using C inode_at_put_other [of "Suc k" 1 _ A] by simp
    with False sz show ?thesis by simp
  qed
qed

lemma data_area_frame:
  assumes ok: "file_ok C y (nblk n) fb" and C: "\<And>b. 46 \<le> b \<Longrightarrow> C' b = C b"
  shows "fblocks C' y (nblk n) = fblocks C y (nblk n)" "file_data C' y n = file_data C y n" "ztail C' y n = ztail C y n"
proof -
  have "NDIRECT < nblk n \<Longrightarrow> C' (ind y) = C (ind y)" using file_ok_ind(1) [OF ok] C by simp
  then have f: "faddr C' y = faddr C y" by (rule faddr_cong) (use ok in \<open>auto simp: file_ok_def\<close>)
  then show "fblocks C' y (nblk n) = fblocks C y (nblk n)" by (simp add: fblocks_def)
  have b: "C' (faddr C y k) = C (faddr C y k)" if "k < nblk n" for k using file_ok_addr(1) [OF ok that] C by simp
  then show "file_data C' y n = file_data C y n" by (intro file_data_cong) (simp add: f)
  show "ztail C' y n = ztail C y n" using b [of "n div 1024"] by (auto simp: ztail_def f nblk_eq)
qed

lemma finished_files:
  assumes A: "image_ok A (image_files src args)"
  defines "fs \<equiv> image_files src args" and "C \<equiv> im_block (finished A)"
  defines "x \<equiv> \<lambda>k. from_inode (kernel_inode C (Suc k))" and "n \<equiv> \<lambda>k. length (snd (fs ! k))"
  shows "\<And>k. k < length fs \<Longrightarrow> di_type (x k) = fst (fs ! k) \<and> di_nlink (x k) = 1
      \<and> di_size (x k) = of_nat (if k = 0 then (n 0 div 1024 + 1) * 1024 else n k)
      \<and> file_data C (x k) (n k) = snd (fs ! k) \<and> ztail C (x k) (n k)
      \<and> fblocks C (x k) (nblk (n k)) \<subseteq> {nmeta..<nmeta + space fs}"
    "\<And>j k. j < length fs \<Longrightarrow> k < length fs \<Longrightarrow> j \<noteq> k \<Longrightarrow>
      fblocks C (x j) (nblk (n j)) \<inter> fblocks C (x k) (nblk (n k)) = {}"
proof -
  note ok = A [folded fs_def] and fin = finished_image [OF A, folded fs_def C_def]
  have len: "length fs < NINODES" and used: "im_used A = nmeta + space fs" using ok by (simp_all add: image_ok_def)
  have x: "x k = inode_at (im_block A) (Suc k)\<lparr>di_size := of_nat (if k = 0 then (n 0 div 1024 + 1) * 1024 else n k)\<rparr>"
    if "k < length fs" for k
    using fin(3) [OF that] from_kernel_inode [of C, OF fin(1)] that len by (simp add: x_def n_def)
  have f: "file_at A (Suc k) (fs ! k)" if "k < length fs" for k using image_okD(3) [OF ok that] .
  have fr: "fblocks C (x k) (nblk (n k)) = own A (Suc k) (n k)" "file_data C (x k) (n k) = snd (fs ! k)"
    "ztail C (x k) (n k)" if "k < length fs" for k
    using data_area_frame [of "im_block A" "inode_at (im_block A) (Suc k)" "n k" "im_used A" C] f [OF that] fin(4)
    unfolding x [OF that] size_irrelevant by (auto simp: file_at_def Let_def n_def own_def)
  show "di_type (x k) = fst (fs ! k) \<and> di_nlink (x k) = 1
      \<and> di_size (x k) = of_nat (if k = 0 then (n 0 div 1024 + 1) * 1024 else n k)
      \<and> file_data C (x k) (n k) = snd (fs ! k) \<and> ztail C (x k) (n k)
      \<and> fblocks C (x k) (nblk (n k)) \<subseteq> {nmeta..<nmeta + space fs}" if "k < length fs" for k
    using fr [OF that] f [OF that] own_bounds [OF f [OF that]] used x [OF that]
    by (simp add: file_at_def Let_def n_def)
  show "fblocks C (x j) (nblk (n j)) \<inter> fblocks C (x k) (nblk (n k)) = {}"
    if "j < length fs" "k < length fs" "j \<noteq> k" for j k
    using fr that image_okD(4) [OF ok that] by (simp add: n_def)
qed

lemma mkfs_main_eq:
  assumes H: "host_image H con pos" "host_files H con src args"
    and args: "length args + 1 < NINODES" "nmeta + space (image_files src args) \<le> FSSIZE"
      "\<forall>a\<in>set args. CHR ''/'' \<notin> set (if take 5 a = ''user/'' then drop 5 a else a) \<and> length (src a) \<le> MAXFILE * 1024"
  shows "\<exists>A t. mkfs_main H (prog # img # args) (mkfs_start w) = Stop (Exited 0) t
     \<and> image_ok A (image_files src args) \<and> holds con (finished A) t"
proof -
  from H(2) obtain fd w1 where c: "h_create H img w = Done fd w1" "0 \<le> fd" unfolding host_files_def by blast
  let ?s = "mkfs_start w\<lparr>world := w1\<rparr>"
  have "freeinode ?s = 1" by (simp add: mkfs_start_def)
  from mkfs_root_ok [OF H(1) this, of src] obtain A t where
    r: "mkfs_root H ?s = Done 1 t" "holds con A t" "image_ok A (image_files src [])" by blast
  have "gives con (for_each (mkfs_file H 1) args) A (\<lambda>_ B. image_ok B (image_files src ([] @ args)))"
    by (rule gives_files [OF H]) (use r args in auto)
  with r(2) obtain u B t' where f: "for_each (mkfs_file H 1) args t = Done u t'" "holds con B t'"
    "image_ok B (image_files src args)" unfolding gives_def append_Nil by blast
  then obtain t'' where e: "mkfs_finish H 1 t' = Done () t''" "holds con (finished B) t''"
    using does_finish [OF H(1), of B] unfolding does_def image_ok_def by blast
  have "on_host (h_create H img) (mkfs_start w) = Done fd ?s" using c by (simp add: on_host_def mkfs_start_def)
  then have "mkfs_main H (prog # img # args) (mkfs_start w) = Stop (Exited 0) t''"
    using c r f e by (simp add: mkfs_main_def assert_mk_def km_simps)
  with f e show ?thesis by blast
qed

text \<open>
  C39. mkfs makes the image it is asked to. If the host's files can be read, their names have no
  slash, and the files fit (at most 198 of them, none larger than the largest file, all blocks
  together within the image), then mkfs ends with status 0 and the image has: the super block the
  kernel's code reads back; as inode 1 the root directory with the entries \<open>.\<close>, \<open>..\<close> and one per
  file, followed by zeros; as inode \<open>k + 2\<close> the file of argument \<open>k\<close>, with its bytes; the blocks of
  different files are disjoint and in the data area; and the bitmap has exactly the blocks before
  the first free one marked, as the kernel's code reads it.
\<close>

theorem mkfs_makes_image:
  fixes src :: "string \<Rightarrow> byte list" and args :: "string list"
  defines "fs \<equiv> image_files src args"
  assumes H: "host_image H con pos" "host_files H con src args"
    and args: "length args + 1 < NINODES" "nmeta + space fs \<le> FSSIZE"
      "\<forall>a\<in>set args. CHR ''/'' \<notin> set (if take 5 a = ''user/'' then drop 5 a else a) \<and> length (src a) \<le> MAXFILE * 1024"
  shows "\<exists>t C. mkfs_main H (prog # img # args) (mkfs_start w) = Stop (Exited 0) t
     \<and> (\<forall>b<FSSIZE. fst (con (world t)) b = Some (C b))
     \<and> sb_of_bytes (C 1) = mkfs_sb
     \<and> (\<forall>k<length fs. let x = from_inode (kernel_inode C (Suc k)); n = length (snd (fs ! k)) in
          di_type x = fst (fs ! k) \<and> di_nlink x = 1
        \<and> di_size x = of_nat (if k = 0 then (n div 1024 + 1) * 1024 else n)
        \<and> file_data C x n = snd (fs ! k) \<and> ztail C x n \<and> fblocks C x (nblk n) \<subseteq> {nmeta..<nmeta + space fs})
     \<and> (\<forall>j<length fs. \<forall>k<length fs. j \<noteq> k \<longrightarrow>
          fblocks C (from_inode (kernel_inode C (Suc j))) (nblk (length (snd (fs ! j))))
          \<inter> fblocks C (from_inode (kernel_inode C (Suc k))) (nblk (length (snd (fs ! k)))) = {})
     \<and> (\<forall>b<BPB. bit_used (C (unat (BBLOCK (of_nat b) mkfs_sb))) b \<longleftrightarrow> b < nmeta + space fs)"
proof -
  from mkfs_main_eq [OF H args [unfolded fs_def]] obtain A t where
    t: "mkfs_main H (prog # img # args) (mkfs_start w) = Stop (Exited 0) t"
    and A: "image_ok A (image_files src args)" and h: "holds con (finished A) t" by blast
  let ?C = "im_block (finished A)"
  have "unat (BBLOCK (of_nat b) mkfs_sb) = 45" if "b < BPB" for b
  proof -
    have "(of_nat b :: uint) div 8192 = 0" using that by (simp add: word_unat_eq_iff unat_div unat_of_nat)
    then show ?thesis by (simp add: BBLOCK_def)
  qed
  then have bits: "bit_used (?C (unat (BBLOCK (of_nat b) mkfs_sb))) b \<longleftrightarrow> b < nmeta + space fs" if "b < BPB" for b
    using that finished_image(2) [OF A] by (simp add: bit_used_balloc fs_def)
  show ?thesis
    using t h finished_image(1) [OF A] bits finished_files [OF A]
    by (intro exI [of _ t] exI [of _ ?C]) (simp add: fs_def holds_def sb_bytes_read Let_def)
qed

text \<open>A host that keeps the image and the files in memory.\<close>

definition mem_host :: "(string \<Rightarrow> byte list) \<Rightarrow> ((nat \<rightharpoonup> blk) \<times> uint \<times> (int \<Rightarrow> byte list)) host" where
  "mem_host src = \<lparr>
     h_create = (\<lambda>name (m, p, i). Done 3 (Map.empty, 0, i)),
     h_lseek = (\<lambda>off (m, p, i). Done off (m, off, i)),
     h_write = (\<lambda>buf (m, p, i). Done 1024 (m(unat p div 1024 \<mapsto> buf), p + 1024, i)),
     h_read = (\<lambda>(m, p, i). case m (unat p div 1024) of
       Some buf \<Rightarrow> Done (1024, buf) (m, p + 1024, i) | None \<Rightarrow> Done (0, \<lambda>_. 0) (m, p, i)),
     h_open = (\<lambda>a (m, p, i). Done 4 (m, p, i(4 := src a))),
     h_input = (\<lambda>fd (m, p, i). Done (Some (take 1024 (i fd))) (m, p, i(fd := drop 1024 (i fd)))),
     h_close = (\<lambda>fd w. Done () w)\<rparr>"

lemma mem_host_ok:
  "host_image (mem_host src) (\<lambda>(m, p, i). (m, i)) (\<lambda>(m, p, i). p)"
  "host_files (mem_host src) (\<lambda>(m, p, i). (m, i)) src args"
proof -
  have "unat (of_nat b * 1024 :: uint) div 1024 = b" if "b < FSSIZE" for b
    using that by (simp add: unat_word_ariths unat_of_nat FSSIZE_def)
  then show "host_image (mem_host src) (\<lambda>(m, p, i). (m, i)) (\<lambda>(m, p, i). p)"
    by (auto simp: host_image_def mem_host_def)
  show "host_files (mem_host src) (\<lambda>(m, p, i). (m, i)) src args"
    by (auto simp: host_files_def mem_host_def intro: exI [of _ 1024])
qed

theorem mkfs_makes_image_witness:
  "\<exists>t C. mkfs_main (mem_host (\<lambda>_. [104, 105])) [''mkfs'', ''fs.img'', ''README'', ''user/_cat''] (mkfs_start (Map.empty, 0, \<lambda>_. []))
     = Stop (Exited 0) t
   \<and> (\<forall>b<FSSIZE. fst (world t) b = Some (C b))
   \<and> file_data C (from_inode (kernel_inode C 3)) 2 = [104, 105]
   \<and> file_data C (from_inode (kernel_inode C 1)) 64 =
      dirent_bytes 1 ''.'' @ dirent_bytes 1 ''..'' @ dirent_bytes 2 ''README'' @ dirent_bytes 3 ''cat''"
proof -
  let ?src = "\<lambda>_ :: string. [104, 105 :: byte]"
  let ?args = "[''README'', ''user/_cat'']"
  have fs: "image_files ?src ?args = [(T_DIR, root_bytes ?args), (T_FILE, [104, 105]), (T_FILE, [104, 105])]"
    by (simp add: image_files_def)
  have root: "root_bytes ?args =
      dirent_bytes 1 ''.'' @ dirent_bytes 1 ''..'' @ dirent_bytes 2 ''README'' @ dirent_bytes 3 ''cat''"
    by (simp add: root_bytes_def shortname_def)
  have "length ?args + 1 < NINODES" "nmeta + space (image_files ?src ?args) \<le> FSSIZE"
    "\<forall>a\<in>set ?args. CHR ''/'' \<notin> set (if take 5 a = ''user/'' then drop 5 a else a) \<and> length (?src a) \<le> MAXFILE * 1024"
    by (simp_all add: NINODES_def fs space_def length_root need_def nblk_def FSSIZE_def)
  note m = mkfs_makes_image [OF mem_host_ok(1) mem_host_ok(2) this, of "''mkfs''" "''fs.img''" "(Map.empty, 0, \<lambda>_. [])"]
  have "\<exists>t C. mkfs_main (mem_host ?src) (''mkfs'' # ''fs.img'' # ?args) (mkfs_start (Map.empty, 0, \<lambda>_. [])) = Stop (Exited 0) t
    \<and> (\<forall>b<FSSIZE. fst ((\<lambda>(m, p, i). (m, i)) (world t)) b = Some (C b))
    \<and> (\<forall>k<length (image_files ?src ?args). file_data C (from_inode (kernel_inode C (Suc k)))
        (length (snd (image_files ?src ?args ! k))) = snd (image_files ?src ?args ! k))"
    using m unfolding Let_def by (elim ex_forward conjE) (intro conjI allI impI; simp)
  then obtain t C where t: "mkfs_main (mem_host ?src) (''mkfs'' # ''fs.img'' # ?args) (mkfs_start (Map.empty, 0, \<lambda>_. [])) = Stop (Exited 0) t"
    and C: "\<forall>b<FSSIZE. fst ((\<lambda>(m, p, i). (m, i)) (world t)) b = Some (C b)"
    and f: "\<forall>k<length (image_files ?src ?args). file_data C (from_inode (kernel_inode C (Suc k)))
        (length (snd (image_files ?src ?args ! k))) = snd (image_files ?src ?args ! k)" by (elim exE conjE)
  have "fst ((\<lambda>(m, p, i). (m, i)) (world t)) = fst (world t)" by (simp add: case_prod_beta)
  moreover have "file_data C (from_inode (kernel_inode C 3)) (Suc (Suc 0)) = [104, 105]"
    using f [rule_format, of 2] by (simp add: fs)
  then have "file_data C (from_inode (kernel_inode C 3)) 2 = [104, 105]" unfolding numeral_2_eq_2 .
  ultimately show ?thesis using t C f [rule_format, of 0]
    by (intro exI [of _ t] exI [of _ C]) (simp add: fs length_root root)
qed

end
