(* ===== verification/Xv6_Umalloc.thy ===== *)
theory Xv6_Umalloc
  imports Xv6_Machine
begin

text \<open>
  The memory allocator of user programs (user/umalloc.c). The fields of a header in memory are one
  function each, from the address of the header; \<open>sbrk\<close> is the system call, and \<open>base\<close> the address
  of the static header of this name.
\<close>

record 'w umem =
  h_ptr :: "addr \<Rightarrow> addr"
  h_size :: "addr \<Rightarrow> uint"
  freep :: addr
  u_world :: 'w

definition set_ptr :: "addr \<Rightarrow> addr \<Rightarrow> ('w umem, unit) km" where
  "set_ptr p v = modify (\<lambda>s. s\<lparr>h_ptr := (h_ptr s)(p := v)\<rparr>)"

definition set_size :: "addr \<Rightarrow> uint \<Rightarrow> ('w umem, unit) km" where
  "set_size p v = modify (\<lambda>s. s\<lparr>h_size := (h_size s)(p := v)\<rparr>)"

text \<open>\<open>p + n\<close> for a header pointer: a header has 16 bytes.\<close>

definition plus_units :: "addr \<Rightarrow> uint \<Rightarrow> addr" where
  "plus_units p n = p + 16 * ucast n"

definition free_search :: "addr \<Rightarrow> ('w umem, addr) km" where
  "free_search bp =
     bind (gets freep) (loop (\<lambda>p.
       bind (gets (\<lambda>s. h_ptr s p)) (\<lambda>q.
       if p < bp \<and> bp < q then ret (Inr p)
       else if q \<le> p \<and> (p < bp \<or> bp < q) then ret (Inr p)
       else ret (Inl q))))"

text \<open>The block joins the one above it, and the one below it takes the block.\<close>

definition free_upper :: "addr \<Rightarrow> addr \<Rightarrow> ('w umem, unit) km" where
  "free_upper bp p =
     bind (gets (\<lambda>s. (h_size s bp, h_ptr s p))) (\<lambda>(n, q).
     if plus_units bp n = q then
       bind (gets (\<lambda>s. (h_size s q, h_ptr s q))) (\<lambda>(m, r). block [set_size bp (n + m), set_ptr bp r])
     else set_ptr bp q)"

definition free_lower :: "addr \<Rightarrow> addr \<Rightarrow> ('w umem, unit) km" where
  "free_lower bp p =
     bind (gets (\<lambda>s. h_size s p)) (\<lambda>n.
     if plus_units p n = bp then
       bind (gets (\<lambda>s. (h_size s bp, h_ptr s bp))) (\<lambda>(m, r). block [set_size p (n + m), set_ptr p r])
     else set_ptr p bp)"

definition free_u :: "addr \<Rightarrow> ('w umem, unit) km" where
  "free_u ap =
     (let bp = ap - 16 in
      bind (free_search bp) (\<lambda>p. block [
        free_upper bp p,
        free_lower bp p,
        modify (\<lambda>s. s\<lparr>freep := p\<rparr>)]))"

text \<open>
  The argument of \<open>sbrk\<close> is an \<open>int\<close>: the product of 64 bits is truncated. \<open>-1\<close> is the failure of \<open>sbrk\<close>.
\<close>

definition sbrk_arg :: "uint \<Rightarrow> int" where
  "sbrk_arg nu = sint (ucast (ucast nu * 16 :: 64 word) :: uint)"

definition on_world :: "('w, 'a) km \<Rightarrow> ('w umem, 'a) km" where
  "on_world m s = (case m (u_world s) of
     Done a w \<Rightarrow> Done a (s\<lparr>u_world := w\<rparr>) | Stop r w \<Rightarrow> Stop r (s\<lparr>u_world := w\<rparr>) | Forever \<Rightarrow> Forever)"

definition morecore :: "(int \<Rightarrow> ('w, addr) km) \<Rightarrow> uint \<Rightarrow> ('w umem, addr) km" where
  "morecore sbrk nu =
     (let nu = (if nu < 4096 then 4096 else nu) in
      bind (on_world (sbrk (sbrk_arg nu))) (\<lambda>p.
      if p = -1 then ret 0
      else bind (block [set_size p nu, free_u (p + 16)]) (\<lambda>_. gets freep)))"

definition nunits :: "uint \<Rightarrow> uint" where
  "nunits nbytes = ucast ((ucast nbytes + 16 - 1) div 16 + 1 :: 64 word)"

text \<open>The block \<open>p\<close>, large enough, after \<open>prevp\<close>: all of it, or its tail end.\<close>

definition malloc_take :: "uint \<Rightarrow> addr \<Rightarrow> addr \<Rightarrow> ('w umem, addr) km" where
  "malloc_take n prevp p =
     bind (gets (\<lambda>s. (h_size s p, h_ptr s p))) (\<lambda>(m, q).
     bind (if m = n then bind (set_ptr prevp q) (\<lambda>_. ret p)
           else let p' = plus_units p (m - n) in
             bind (block [set_size p (m - n), set_size p' n]) (\<lambda>_. ret p')) (\<lambda>p.
     bind (modify (\<lambda>s. s\<lparr>freep := prevp\<rparr>)) (\<lambda>_. ret (p + 16))))"

definition malloc_round :: "(int \<Rightarrow> ('w, addr) km) \<Rightarrow> uint \<Rightarrow> addr \<times> addr \<Rightarrow> ('w umem, addr \<times> addr + addr) km" where
  "malloc_round sbrk n = (\<lambda>(prevp, p).
     bind (gets (\<lambda>s. (h_size s p, freep s, h_ptr s p))) (\<lambda>(m, f, q).
     if n \<le> m then bind (malloc_take n prevp p) (\<lambda>r. ret (Inr r))
     else if p = f then
       bind (morecore sbrk n) (\<lambda>p. if p = 0 then ret (Inr 0)
         else bind (gets (\<lambda>s. h_ptr s p)) (\<lambda>q. ret (Inl (p, q))))
     else ret (Inl (p, q))))"

definition malloc :: "addr \<Rightarrow> (int \<Rightarrow> ('w, addr) km) \<Rightarrow> uint \<Rightarrow> ('w umem, addr) km" where
  "malloc base sbrk nbytes =
     bind (gets freep) (\<lambda>f.
     bind (if f = 0
           then bind (block [set_ptr base base, modify (\<lambda>s. s\<lparr>freep := base\<rparr>), set_size base 0]) (\<lambda>_. ret base)
           else ret f) (\<lambda>prevp.
     bind (gets (\<lambda>s. h_ptr s prevp)) (\<lambda>p.
     loop (malloc_round sbrk (nunits nbytes)) (prevp, p))))"

end
