(* ===== verification/Xv6_Heap.thy ===== *)
theory Xv6_Heap
  imports Xv6_Umalloc
begin

text \<open>
  The allocator of user/umalloc.c: the free blocks form a ring in order of their addresses, free and
  allocated blocks never overlap, and the loops of \<open>malloc\<close> and \<open>free\<close> end.
\<close>

section \<open>The ring of free blocks\<close>

primrec path :: "(addr \<Rightarrow> addr) \<Rightarrow> addr \<Rightarrow> addr list \<Rightarrow> addr \<Rightarrow> bool" where
  "path h p [] q \<longleftrightarrow> p = q"
| "path h p (a # as) q \<longleftrightarrow> p = a \<and> path h (h a) as q"

lemma path_append: "path h p (as @ bs) q \<longleftrightarrow> (\<exists>r. path h p as r \<and> path h r bs q)"
  by (induction as arbitrary: p) auto

lemma path_cong: "(\<And>a. a \<in> set as \<Longrightarrow> h' a = h a) \<Longrightarrow> path h' p as q = path h p as q"
  by (induction as arbitrary: p) auto

lemma path_update [simp]: "a \<notin> set as \<Longrightarrow> path (h(a := v)) p as q = path h p as q"
  by (rule path_cong) auto

text \<open>The block before another on a ring that starts at \<open>b\<close>; and the way around the ring.\<close>

lemma path_next:
  assumes "path h b fl b" "fl = xs @ p # ys"
  shows "h p = (if ys = [] then b else hd ys)"
  using assms by (cases ys) (auto simp: path_append)

lemma path_around:
  assumes "path h b (xs @ f # ys) b"
  shows "path h (h f) (ys @ xs) f"
  using assms by (auto simp: path_append)

section \<open>Blocks\<close>

text \<open>
  The bytes of a block; what is asked of a set of blocks (\<open>lo\<close> and \<open>hi\<close> are the ends of the heap);
  and the invariant, for the list \<open>fl\<close> of the free blocks and the set \<open>L\<close> of the allocated blocks.
\<close>

definition span :: "(addr \<Rightarrow> uint) \<Rightarrow> addr \<Rightarrow> nat set" where
  "span z a = {unat a..<unat a + 16 * unat (z a)}"

definition blocks_ok :: "(addr \<Rightarrow> uint) \<Rightarrow> nat \<Rightarrow> nat \<Rightarrow> addr set \<Rightarrow> bool" where
  "blocks_ok z lo hi U \<longleftrightarrow>
     (\<forall>a\<in>U. 0 < z a \<and> span z a \<subseteq> {lo..<hi})
   \<and> (\<forall>a\<in>U. \<forall>c\<in>U. a \<noteq> c \<longrightarrow> span z a \<inter> span z c = {})"

definition heap_ok :: "addr \<Rightarrow> nat \<Rightarrow> 'w umem \<Rightarrow> addr list \<Rightarrow> addr set \<Rightarrow> bool" where
  "heap_ok b hi s fl L \<longleftrightarrow>
     path (h_ptr s) b (b # fl) b \<and> sorted_wrt (<) (b # fl) \<and> freep s \<in> set (b # fl) \<and> b \<noteq> 0 \<and> h_size s b = 0
   \<and> set fl \<inter> L = {} \<and> unat b + 16 \<le> hi \<and> hi \<le> 2 ^ 32 \<and> blocks_ok (h_size s) (unat b + 16) hi (set fl \<union> L)"

lemma span_bounds:
  assumes "blocks_ok z lo hi U" "a \<in> U"
  shows "lo \<le> unat a" "unat a + 16 * unat (z a) \<le> hi" "0 < unat (z a)"
proof -
  from assms have "0 < z a" and sub: "span z a \<subseteq> {lo..<hi}" by (auto simp: blocks_ok_def)
  then show z: "0 < unat (z a)" by (simp add: word_less_nat_alt)
  from z have "unat a \<in> span z a" "unat a + 16 * unat (z a) - 1 \<in> span z a" by (auto simp: span_def)
  with sub z show "lo \<le> unat a" "unat a + 16 * unat (z a) \<le> hi" by fastforce+
qed

lemma blocks_ok_subset: "blocks_ok z lo hi U \<Longrightarrow> V \<subseteq> U \<Longrightarrow> blocks_ok z lo hi V"
  unfolding blocks_ok_def by blast

lemma plus_units_unat:
  assumes "unat a + 16 * unat n \<le> 2 ^ 32"
  shows "unat (plus_units a n) = unat a + 16 * unat n"
proof -
  have "unat (16 * ucast n :: addr) = 16 * unat n" using assms by (simp add: unat_word_ariths unsigned_ucast_eq take_bit_nat_eq_self)
  then show ?thesis using assms unfolding plus_units_def by (simp add: unat_word_ariths)
qed

lemma disjoint_order:
  assumes "blocks_ok z lo hi U" "a \<in> U" "c \<in> U" "a < c"
  shows "unat a + 16 * unat (z a) \<le> unat c"
proof (rule ccontr)
  assume "\<not> ?thesis"
  with assms(4) span_bounds(3) [OF assms(1,3)] have "unat c \<in> span z a \<inter> span z c"
    by (auto simp: span_def word_less_nat_alt)
  with assms show False unfolding blocks_ok_def by (metis emptyE less_irrefl)
qed

section \<open>free\<close>

text \<open>The place of a block in the ring.\<close>

lemma sorted_place:
  fixes b bp :: addr
  assumes "sorted_wrt (<) (b # fl)" "b < bp" "bp \<notin> set fl"
  shows "\<exists>xs p ys. b # fl = xs @ p # ys \<and> (\<forall>x\<in>set xs. x < p) \<and> p < bp \<and> (\<forall>y\<in>set ys. bp < y)"
proof -
  define xs where "xs = takeWhile (\<lambda>a. a < bp) (b # fl)"
  define ys where "ys = dropWhile (\<lambda>a. a < bp) (b # fl)"
  have "b # fl = xs @ ys" by (simp add: xs_def ys_def)
  moreover have "xs \<noteq> []" using assms(2) by (simp add: xs_def)
  moreover have lt: "\<forall>x\<in>set xs. x < bp" by (auto simp: xs_def dest: set_takeWhileD)
  ultimately have eq: "b # fl = butlast xs @ last xs # ys" by simp
  then have so: "sorted_wrt (<) (butlast xs @ last xs # ys)" using assms(1) by metis
  have "bp < y" if "y \<in> set ys" for y
  proof (cases ys)
    case (Cons a zs)
    then have "\<not> a < bp" by (metis dropWhile_eq_Cons_conv ys_def)
    moreover have "a \<in> set (b # fl)" unfolding eq by (simp add: Cons)
    then have "a \<noteq> bp" using assms(2,3) by (metis less_irrefl set_ConsD)
    ultimately have "bp < a" by simp
    with that so Cons show ?thesis by (auto simp: sorted_wrt_append)
  qed (use that in simp)
  moreover have "\<forall>x\<in>set (butlast xs). x < last xs" using so by (auto simp: sorted_wrt_append)
  moreover have "last xs < bp" using lt \<open>xs \<noteq> []\<close> by simp
  ultimately show ?thesis using eq by blast
qed

text \<open>The search finds this place, wherever it starts.\<close>

definition search_round :: "addr \<Rightarrow> addr \<Rightarrow> ('w umem, addr + addr) km" where
  "search_round bp = (\<lambda>p.
     bind (gets (\<lambda>s. h_ptr s p)) (\<lambda>q.
     if p < bp \<and> bp < q then ret (Inr p)
     else if q \<le> p \<and> (p < bp \<or> bp < q) then ret (Inr p)
     else ret (Inl q)))"

lemma search_step:
  "loop (search_round bp) p s =
     (let q = h_ptr s p in if p < bp \<and> bp < q \<or> q \<le> p \<and> (p < bp \<or> bp < q) then Done p s
      else loop (search_round bp) q s)"
proof -
  have "search_round bp p s = (if p < bp \<and> bp < h_ptr s p \<or> h_ptr s p \<le> p \<and> (p < bp \<or> bp < h_ptr s p)
      then Done (Inr p) s else Done (Inl (h_ptr s p)) s)"
    by (auto simp: search_round_def km_simps)
  then show ?thesis by (subst loop_unfold) (auto simp: Let_def)
qed

lemma search_below:
  assumes "path (h_ptr s) b (b # fl) b" "b # fl = vs @ us @ p # ys" "sorted_wrt (<) (b # fl)"
    "p < bp" "\<forall>y\<in>set ys. bp < y"
  shows "loop (search_round bp) (hd (us @ [p])) s = Done p s"
  using assms(2)
proof (induction us arbitrary: vs)
  case Nil
  then have "h_ptr s p = (if ys = [] then b else hd ys)" using path_next [OF assms(1)] by simp
  moreover have "b \<le> p" using Nil assms(3) by (cases vs) auto
  ultimately show ?case using assms(4,5) by (subst search_step) (auto simp: Let_def)
next
  case (Cons u us)
  from path_next [OF assms(1), of vs u "us @ p # ys"] Cons.prems have q: "h_ptr s u = hd (us @ [p])"
    by (cases us) auto
  have "sorted_wrt (<) (vs @ (u # us) @ p # ys)" using assms(3) Cons.prems by metis
  then have "u < hd (us @ [p])" "hd (us @ [p]) \<le> p" by (cases us; auto simp: sorted_wrt_append)+
  then have "loop (search_round bp) u s = loop (search_round bp) (hd (us @ [p])) s"
    using q assms(4) by (subst search_step) (auto simp: Let_def)
  also have "\<dots> = Done p s" by (rule Cons.IH [of "vs @ [u]"]) (use Cons.prems in simp)
  finally show ?case by simp
qed

lemma search_above:
  assumes "path (h_ptr s) b (b # fl) b" "b # fl = xs @ p # vs @ us" "sorted_wrt (<) (b # fl)" "us \<noteq> []"
    "b < bp" "\<forall>y\<in>set us. bp < y"
  shows "loop (search_round bp) (hd us) s = loop (search_round bp) b s"
  using assms(2,4,6)
proof (induction us arbitrary: vs)
  case (Cons u us)
  from path_next [OF assms(1), of "xs @ p # vs" u us] Cons.prems have q: "h_ptr s u = (if us = [] then b else hd us)"
    by simp
  have "sorted_wrt (<) (xs @ p # vs @ u # us)" using assms(3) Cons.prems by metis
  then have so: "\<forall>x\<in>set us. u < x" by (auto simp: sorted_wrt_append)
  show ?case
  proof (cases us)
    case Nil
    then show ?thesis using q Cons.prems assms(5) by (simp, subst search_step) (auto simp: Let_def)
  next
    case (Cons a as)
    then have "loop (search_round bp) u s = loop (search_round bp) (hd us) s"
      using q so Cons.prems by (subst search_step) (auto simp: Let_def)
    also have "\<dots> = loop (search_round bp) b s"
      by (rule Cons.IH [of "vs @ [u]"]) (use Cons Cons.prems in auto)
    finally show ?thesis by simp
  qed
qed simp

lemma free_search_eq:
  assumes h: "path (h_ptr s) b (b # fl) b" "sorted_wrt (<) (b # fl)" "freep s \<in> set (b # fl)"
    and p: "b # fl = xs @ p # ys" "p < bp" "\<forall>y\<in>set ys. bp < y" and b: "b < bp"
  shows "free_search bp s = Done p s"
proof -
  have below: "loop (search_round bp) a s = Done p s" if "a \<in> set (xs @ [p])" for a
  proof -
    from that obtain vs us where "xs @ [p] = vs @ a # us" by (meson split_list)
    then have "\<exists>us'. b # fl = vs @ us' @ p # ys \<and> hd (us' @ [p]) = a"
    proof (cases us rule: rev_cases)
      case Nil
      with \<open>xs @ [p] = vs @ a # us\<close> p(1) show ?thesis by (intro exI [of _ "[]"]) simp
    next
      case (snoc zs z)
      with \<open>xs @ [p] = vs @ a # us\<close> p(1) show ?thesis by (intro exI [of _ "a # zs"]) simp
    qed
    then obtain us' where "b # fl = vs @ us' @ p # ys" "hd (us' @ [p]) = a" by blast
    from search_below [OF h(1) this(1) h(2) p(2,3)] this(2) show ?thesis by simp
  qed
  have "b \<in> set (xs @ [p])" using p(1) by (cases xs) auto
  have "loop (search_round bp) (freep s) s = Done p s"
  proof (cases "freep s \<in> set ys")
    case True
    then obtain vs us where "ys = vs @ freep s # us" by (meson split_list)
    then have "loop (search_round bp) (hd (freep s # us)) s = loop (search_round bp) b s"
      by (intro search_above [OF h(1) _ h(2)]) (use p b in auto)
    with below [OF \<open>b \<in> set (xs @ [p])\<close>] show ?thesis by simp
  next
    case False
    with h(3) p(1) have "freep s \<in> set (xs @ [p])" by auto
    then show ?thesis by (rule below)
  qed
  then show ?thesis by (simp add: free_search_def search_round_def bind_def gets_def)
qed

text \<open>Joining a block with the one behind it.\<close>

lemma join_blocks:
  assumes ok: "blocks_ok z lo hi U" and U: "a \<in> U" "c \<in> U" "a \<noteq> c"
    and adj: "unat a + 16 * unat (z a) = unat c" and hi: "hi \<le> 2 ^ 32"
  defines "z' \<equiv> z(a := z a + z c)"
  shows "blocks_ok z' lo hi (U - {c})" "span z' a = span z a \<union> span z c" "unat (z' a) = unat (z a) + unat (z c)"
    "(\<Union>d\<in>U - {c}. span z' d) = (\<Union>d\<in>U. span z d)"
proof -
  note a = span_bounds [OF ok U(1)] and c = span_bounds [OF ok U(2)]
  from adj c(2) hi a(3) have "unat (z a) + unat (z c) < 2 ^ 32" by linarith
  then show u: "unat (z' a) = unat (z a) + unat (z c)" by (simp add: z'_def unat_word_ariths)
  show s: "span z' a = span z a \<union> span z c" unfolding span_def u using adj by auto
  have o: "span z' d = span z d" if "d \<noteq> a" for d using that by (simp add: z'_def span_def)
  have "U - {c} = insert a (U - {a, c})" "U = insert a (insert c (U - {a, c}))" using U by auto
  moreover have "(\<Union>d\<in>U - {a, c}. span z' d) = (\<Union>d\<in>U - {a, c}. span z d)" using o by (intro SUP_cong) auto
  ultimately show "(\<Union>d\<in>U - {c}. span z' d) = (\<Union>d\<in>U. span z d)" using s by (metis UN_insert Un_assoc)
  have "0 < z' a" using u a(3) by (simp add: word_less_nat_alt)
  moreover have "0 < z' d" if "d \<in> U" "d \<noteq> a" for d using that ok by (simp add: z'_def blocks_ok_def)
  moreover have "span z' d \<subseteq> {lo..<hi}" if "d \<in> U" for d
    using that ok U s o [of d] by (cases "d = a") (auto simp: blocks_ok_def)
  moreover have "span z' d \<inter> span z' e = {}" if "d \<in> U - {c}" "e \<in> U - {c}" "d \<noteq> e" for d e
  proof -
    have D: "span z d \<inter> span z e = {}" if "d \<in> U" "e \<in> U" "d \<noteq> e" for d e using that ok by (simp add: blocks_ok_def)
    have "span z' a \<inter> span z' e = {}" if "e \<in> U - {c}" "e \<noteq> a" for e
      using that U D [of a e] D [of c e] s o [of e] by (auto simp: Int_Un_distrib2)
    with that D [of d e] o [of d] o [of e] show ?thesis by (cases "d = a"; cases "e = a") (auto simp: Int_commute)
  qed
  ultimately show "blocks_ok z' lo hi (U - {c})" unfolding blocks_ok_def by blast
qed

text \<open>The first half of \<open>free\<close>: the block is linked to what follows, joined with it if it is adjacent.\<close>

definition joined :: "addr \<Rightarrow> nat \<Rightarrow> 'w umem \<Rightarrow> addr set \<Rightarrow> 'w umem \<Rightarrow> addr set \<Rightarrow> addr \<Rightarrow> bool" where
  "joined b hi s U t V a \<longleftrightarrow> blocks_ok (h_size t) (unat b + 16) hi V \<and> V \<subseteq> U
     \<and> (\<Union>c\<in>V. span (h_size t) c) = (\<Union>c\<in>U. span (h_size s) c)
     \<and> (\<forall>c. c \<noteq> a \<longrightarrow> h_size t c = h_size s c) \<and> unat (h_size s a) \<le> unat (h_size t a)
     \<and> freep t = freep s \<and> u_world t = u_world s"

lemma free_upper_ok:
  assumes h: "path (h_ptr s) b (xs @ p # ys) b" and ok: "blocks_ok (h_size s) (unat b + 16) hi U" "hi \<le> 2 ^ 32"
    and bp: "bp \<in> U" "bp \<notin> set (xs @ p # ys)" "set ys \<subseteq> U" "b < bp" and U: "W \<subseteq> U" "U = W \<union> set ys" "W \<inter> set ys = {}"
    and y: "distinct ys"
  shows "\<exists>t zs. free_upper bp p s = Done () t \<and> h_ptr t = (h_ptr s)(bp := (if zs = [] then b else hd zs))
     \<and> (zs = ys \<or> (\<exists>q. ys = q # zs)) \<and> joined b hi s U t (W \<union> set zs) bp"
proof -
  note b = span_bounds [OF ok(1) bp(1)]
  have n: "h_ptr s p = (if ys = [] then b else hd ys)" by (rule path_next [OF h refl])
  have pu: "unat (plus_units bp (h_size s bp)) = unat bp + 16 * unat (h_size s bp)"
    using b(2) ok(2) by (intro plus_units_unat) simp
  show ?thesis
  proof (cases "plus_units bp (h_size s bp) = h_ptr s p")
    case True
    have "ys \<noteq> []"
    proof
      assume "ys = []"
      with True n pu have "unat b = unat bp + 16 * unat (h_size s bp)" by simp
      with bp(4) show False by (simp add: word_less_nat_alt)
    qed
    then obtain q zs where ys: "ys = q # zs" by (cases ys) auto
    have q: "q \<in> U" "bp \<noteq> q" "unat bp + 16 * unat (h_size s bp) = unat q" using bp ys True n pu by auto
    have nq: "h_ptr s q = (if zs = [] then b else hd zs)" using path_next [OF h, of "xs @ [p]" q zs] ys by simp
    let ?t = "s\<lparr>h_size := (h_size s)(bp := h_size s bp + h_size s q), h_ptr := (h_ptr s)(bp := h_ptr s q)\<rparr>"
    have "free_upper bp p s = Done () ?t"
      using True n ys by (simp add: free_upper_def set_size_def set_ptr_def km_simps)
    moreover have "W \<union> set zs = U - {q}" using U ys y by auto
    with join_blocks [OF ok(1) bp(1) q(1,2,3) ok(2)] q(1) bp(1)
    have "joined b hi s U ?t (W \<union> set zs) bp"
      by (auto simp: joined_def)
    ultimately show ?thesis using nq ys by (intro exI [of _ ?t] exI [of _ zs]) simp
  next
    case False
    let ?t = "s\<lparr>h_ptr := (h_ptr s)(bp := h_ptr s p)\<rparr>"
    have "free_upper bp p s = Done () ?t" using False by (simp add: free_upper_def set_ptr_def km_simps)
    moreover have "joined b hi s U ?t (W \<union> set ys) bp" using ok U by (simp add: joined_def)
    ultimately show ?thesis using n by (intro exI [of _ ?t] exI [of _ ys]) simp
  qed
qed

text \<open>The second half: the block before it is linked to it, or joined with it.\<close>

lemma free_lower_ok:
  assumes ok: "blocks_ok (h_size t) (unat b + 16) hi V" "hi \<le> 2 ^ 32" and bp: "bp \<in> V" "p < bp"
    and p: "p = b \<and> h_size t b = 0 \<or> p \<noteq> b \<and> p \<in> V"
  shows "free_lower bp p t = Done () (t\<lparr>h_ptr := (h_ptr t)(p := bp)\<rparr>)
     \<or> (\<exists>u. free_lower bp p t = Done () u \<and> p \<noteq> b \<and> h_ptr u = (h_ptr t)(p := h_ptr t bp) \<and> joined b hi t V u (V - {bp}) p
        \<and> unat (h_size t bp) \<le> unat (h_size u p))"
proof (cases "plus_units p (h_size t p) = bp")
  case True
  have "p \<noteq> b" using True p bp(2) by (auto simp: plus_units_def)
  with p have "p \<in> V" by simp
  note pv = span_bounds [OF ok(1) this]
  have adj: "unat p + 16 * unat (h_size t p) = unat bp"
    using True plus_units_unat [of p "h_size t p"] pv(2) ok(2) by simp
  let ?u = "t\<lparr>h_size := (h_size t)(p := h_size t p + h_size t bp), h_ptr := (h_ptr t)(p := h_ptr t bp)\<rparr>"
  have "free_lower bp p t = Done () ?u"
    using True by (simp add: free_lower_def set_size_def set_ptr_def km_simps)
  moreover have "joined b hi t V ?u (V - {bp}) p" "unat (h_size t bp) \<le> unat (h_size ?u p)"
    using join_blocks [OF ok(1) \<open>p \<in> V\<close> bp(1) _ adj ok(2)] bp(2) by (auto simp: joined_def)
  ultimately show ?thesis using \<open>p \<noteq> b\<close> by (intro disjI2 exI [of _ ?u]) simp
next
  case False
  then show ?thesis by (simp add: free_lower_def set_ptr_def km_simps)
qed

lemma joined_trans:
  "joined b hi s U t V a \<Longrightarrow> joined b hi t V u X p \<Longrightarrow> a \<noteq> p \<Longrightarrow>
   blocks_ok (h_size u) (unat b + 16) hi X \<and> X \<subseteq> U \<and> (\<Union>c\<in>X. span (h_size u) c) = (\<Union>c\<in>U. span (h_size s) c)
   \<and> (\<forall>c. c \<noteq> a \<and> c \<noteq> p \<longrightarrow> h_size u c = h_size s c) \<and> freep u = freep s \<and> u_world u = u_world s"
  by (auto simp: joined_def)

text \<open>The ring with the block in it.\<close>

lemma ring_insert:
  assumes h: "path h b (xs @ p # ys) b" and d: "distinct (xs @ p # ys)" "bp \<notin> set (xs @ p # ys)"
    and zs: "zs = ys \<or> (\<exists>q. ys = q # zs)"
  defines "v \<equiv> if zs = [] then b else hd zs"
  shows "path (h(bp := v, p := bp)) b (xs @ p # bp # zs) b" "path (h(bp := v, p := v)) b (xs @ p # zs) b"
proof -
  from h have x: "path h b xs p" and y: "path h (h p) ys b" by (auto simp: path_append)
  have z: "path h v zs b"
    using zs y by (cases zs) (auto simp: v_def)
  from zs d have "bp \<notin> set zs" "p \<notin> set zs" "bp \<notin> set xs" "p \<notin> set xs" "bp \<noteq> p" by auto
  with x z show "path (h(bp := v, p := bp)) b (xs @ p # bp # zs) b" "path (h(bp := v, p := v)) b (xs @ p # zs) b"
    by (auto simp: path_append)
qed

lemma blocks_split:
  assumes "blocks_ok z lo hi (A \<union> B)" "A \<inter> B = {}"
  shows "(\<Union>a\<in>A. span z a) = (\<Union>a\<in>A \<union> B. span z a) - (\<Union>a\<in>B. span z a)"
proof -
  have "span z a \<inter> span z c = {}" if "a \<in> A" "c \<in> B" for a c
  proof -
    have "a \<noteq> c" using that assms(2) by blast
    with that assms(1) show ?thesis by (simp add: blocks_ok_def)
  qed
  then have "(\<Union>a\<in>A. span z a) \<inter> (\<Union>a\<in>B. span z a) = {}" by blast
  then show ?thesis by (simp add: UN_Un) blast
qed

lemma sorted_insert:
  fixes bp :: addr
  assumes "sorted_wrt (<) (xs @ p # ys)" "p < bp" "\<forall>y\<in>set ys. bp < y" "zs = ys \<or> (\<exists>q. ys = q # zs)"
  shows "sorted_wrt (<) (xs @ p # bp # zs)" "sorted_wrt (<) (xs @ p # zs)"
  using assms by (auto simp: sorted_wrt_append dest: less_trans)

text \<open>The result of \<open>free\<close> before \<open>freep\<close> is set.\<close>

lemma free_linked:
  assumes ok: "heap_ok b hi s fl L" and bp: "bp \<in> L" and p: "b # fl = xs @ p # ys" "p < bp" "\<forall>y\<in>set ys. bp < y"
  shows "\<exists>t u gl. free_upper bp p s = Done () t \<and> free_lower bp p t = Done () u
     \<and> path (h_ptr u) b (b # gl) b \<and> sorted_wrt (<) (b # gl) \<and> p \<in> set (b # gl)
     \<and> set gl \<subseteq> insert bp (set fl) \<and> (\<exists>c\<in>set gl. unat (h_size s bp) \<le> unat (h_size u c))
     \<and> blocks_ok (h_size u) (unat b + 16) hi (set gl \<union> (L - {bp}))
     \<and> (\<Union>c\<in>set gl \<union> (L - {bp}). span (h_size u) c) = (\<Union>c\<in>set fl \<union> L. span (h_size s) c)
     \<and> (\<forall>c. c \<notin> insert bp (set fl) \<longrightarrow> h_size u c = h_size s c) \<and> h_size u b = 0 \<and> u_world u = u_world s"
proof -
  let ?U = "set fl \<union> L"
  from ok have h: "path (h_ptr s) b (xs @ p # ys) b" "sorted_wrt (<) (xs @ p # ys)" and z: "h_size s b = 0"
    and U: "blocks_ok (h_size s) (unat b + 16) hi ?U" "hi \<le> 2 ^ 32" "set fl \<inter> L = {}"
    unfolding heap_ok_def p(1) by auto
  have d: "distinct (xs @ p # ys)" using h(2) strict_sorted_iff by blast
  have "b \<notin> ?U" using span_bounds(1) [OF U(1), of b] by auto
  have bb: "b < bp" using span_bounds(1) [OF U(1), of bp] bp by (simp add: word_less_nat_alt)
  have nb: "bp \<notin> set (xs @ p # ys)" using bp U(3) bb unfolding p(1) [symmetric] by auto
  from p(1) obtain cl where cl: "xs @ [p] = b # cl" by (cases xs) auto
  with p(1) have fl: "fl = cl @ ys" by (metis append.assoc append_Cons append_Nil list.inject)
  have "distinct ((xs @ [p]) @ ys)" using d by simp
  then have dy: "distinct ys" "(set cl \<union> L) \<inter> set ys = {}" using U(3) unfolding cl fl by auto
  obtain t zs where t: "free_upper bp p s = Done () t" "h_ptr t = (h_ptr s)(bp := (if zs = [] then b else hd zs))"
    and zs: "zs = ys \<or> (\<exists>q. ys = q # zs)" and j: "joined b hi s ?U t ((set cl \<union> L) \<union> set zs) bp"
    using free_upper_ok [OF h(1) U(1,2) _ nb _ bb _ _ dy(2,1)] bp fl by (auto simp: Un_ac)
  let ?V = "(set cl \<union> L) \<union> set zs"
  from j have V: "blocks_ok (h_size t) (unat b + 16) hi ?V" "h_size t c = h_size s c \<or> c = bp" for c
    by (auto simp: joined_def)
  have pc: "p = b \<and> h_size t b = 0 \<or> p \<noteq> b \<and> p \<in> ?V"
    using cl z V(2) [of b] bb by (cases cl rule: rev_cases) auto
  have gl: "b # cl @ bp # zs = xs @ p # bp # zs" "b # cl @ zs = xs @ p # zs" using cl by (metis append.assoc append_Cons append_Nil)+
  note ring = ring_insert [OF h(1) d nb zs] and so = sorted_insert [OF h(2) p(2,3) zs]
  have bpV: "bp \<in> ?V" using bp by simp
  have sz: "unat (h_size s bp) \<le> unat (h_size t bp)" using j by (simp add: joined_def)
  have fl': "set cl \<union> set zs \<subseteq> set fl" using fl zs by auto
  have zsbp: "bp \<notin> set cl \<union> set zs" using fl' nb unfolding p(1) [symmetric] by auto
  have b0: "h_size t b = 0" using z V(2) [of b] bb by auto
  from free_lower_ok [OF V(1) U(2) bpV p(2) pc]
  show ?thesis
  proof (elim disjE exE conjE)
    let ?u = "t\<lparr>h_ptr := (h_ptr t)(p := bp)\<rparr>" and ?gl = "cl @ bp # zs"
    assume u: "free_lower bp p t = Done () ?u"
    have gV: "set ?gl \<union> (L - {bp}) = ?V" using bp by auto
    have "path (h_ptr ?u) b (b # ?gl) b" "sorted_wrt (<) (b # ?gl)" unfolding gl(1) using ring(1) so(1) t(2) by simp_all
    moreover have "p \<in> set (b # ?gl)" unfolding gl(1) by simp
    moreover have "set ?gl \<subseteq> insert bp (set fl)" using fl' by auto
    moreover have "\<exists>c\<in>set ?gl. unat (h_size s bp) \<le> unat (h_size ?u c)" using sz by simp
    moreover have "blocks_ok (h_size ?u) (unat b + 16) hi (set ?gl \<union> (L - {bp}))" unfolding gV using V(1) by simp
    moreover have "(\<Union>c\<in>set ?gl \<union> (L - {bp}). span (h_size ?u) c) = (\<Union>c\<in>set fl \<union> L. span (h_size s) c)"
      unfolding gV using j by (simp add: joined_def)
    moreover have "h_size ?u c = h_size s c" if "c \<notin> insert bp (set fl)" for c using that V(2) [of c] by auto
    moreover have "h_size ?u b = 0" "u_world ?u = u_world s" using b0 j by (simp_all add: joined_def)
    ultimately show ?thesis using u t(1) by blast
  next
    fix u assume u: "free_lower bp p t = Done () u" "p \<noteq> b" "h_ptr u = (h_ptr t)(p := h_ptr t bp)"
      "joined b hi t ?V u (?V - {bp}) p" "unat (h_size t bp) \<le> unat (h_size u p)"
    have gV: "set (cl @ zs) \<union> (L - {bp}) = ?V - {bp}" using zsbp by auto
    have "p \<in> set (b # cl)" using cl by (metis in_set_conv_decomp)
    then have p': "p \<in> set cl" using u(2) by simp
    have "path (h_ptr u) b (b # cl @ zs) b" "sorted_wrt (<) (b # cl @ zs)" unfolding gl(2) using ring(2) so(2) t(2) u(3) by simp_all
    moreover have "set (cl @ zs) \<subseteq> insert bp (set fl)" using fl' by auto
    moreover have "\<exists>c\<in>set (cl @ zs). unat (h_size s bp) \<le> unat (h_size u c)" using sz u(5) p' by force
    moreover have "h_size u b = 0" "h_size u c = h_size t c \<or> c = p" for c using u(2,4) b0 by (auto simp: joined_def)
    moreover have "blocks_ok (h_size u) (unat b + 16) hi (set (cl @ zs) \<union> (L - {bp}))"
      unfolding gV using u(4) by (simp add: joined_def)
    moreover have "(\<Union>c\<in>set (cl @ zs) \<union> (L - {bp}). span (h_size u) c) = (\<Union>c\<in>set fl \<union> L. span (h_size s) c)"
      unfolding gV using u(4) j by (simp add: joined_def)
    moreover have "h_size u c = h_size s c" if "c \<notin> insert bp (set fl)" for c
      using that V(2) [of c] u(4) p' fl' unfolding joined_def by (metis Un_iff insertCI subset_iff)
    moreover have "u_world u = u_world s" using u(4) j by (simp add: joined_def)
    moreover have "p \<in> set (b # cl @ zs)" using p' by simp
    ultimately show ?thesis using u(1) t(1) by blast
  qed
qed

lemma free_ok:
  assumes ok: "heap_ok b hi s fl L" and bp: "bp \<in> L"
  shows "\<exists>t gl. free_u (bp + 16) s = Done () t \<and> heap_ok b hi t gl (L - {bp}) \<and> u_world t = u_world s
     \<and> (\<forall>a\<in>L - {bp}. h_size t a = h_size s a)
     \<and> (\<Union>a\<in>set gl. span (h_size t) a) = (\<Union>a\<in>set fl. span (h_size s) a) \<union> span (h_size s) bp
     \<and> (\<exists>c\<in>set gl. unat (h_size s bp) \<le> unat (h_size t c))"
proof -
  from ok have U: "blocks_ok (h_size s) (unat b + 16) hi (set fl \<union> L)" and dj: "set fl \<inter> L = {}"
    and h: "path (h_ptr s) b (b # fl) b" "sorted_wrt (<) (b # fl)" "freep s \<in> set (b # fl)" by (auto simp: heap_ok_def)
  have bb: "b < bp" using span_bounds(1) [OF U, of bp] bp by (simp add: word_less_nat_alt)
  have "bp \<notin> set fl" using dj bp by auto
  from sorted_place [OF h(2) bb this] obtain xs p ys where p: "b # fl = xs @ p # ys" "p < bp" "\<forall>y\<in>set ys. bp < y"
    by (elim exE conjE)
  from free_linked [OF ok bp p] obtain t u gl where t: "free_upper bp p s = Done () t" "free_lower bp p t = Done () u"
    and r: "path (h_ptr u) b (b # gl) b" "sorted_wrt (<) (b # gl)" "p \<in> set (b # gl)" "set gl \<subseteq> insert bp (set fl)"
    and c: "\<exists>c\<in>set gl. unat (h_size s bp) \<le> unat (h_size u c)"
    and V: "blocks_ok (h_size u) (unat b + 16) hi (set gl \<union> (L - {bp}))"
      "(\<Union>c\<in>set gl \<union> (L - {bp}). span (h_size u) c) = (\<Union>c\<in>set fl \<union> L. span (h_size s) c)"
    and z: "\<forall>c. c \<notin> insert bp (set fl) \<longrightarrow> h_size u c = h_size s c" "h_size u b = 0" "u_world u = u_world s"
    by (elim exE conjE)
  let ?u = "u\<lparr>freep := p\<rparr>"
  have "free_u (bp + 16) s = Done () ?u"
    using free_search_eq [OF h p bb] t by (simp add: free_u_def Let_def km_simps)
  moreover have dj': "set gl \<inter> (L - {bp}) = {}" using r(4) dj by auto
  then have "heap_ok b hi ?u gl (L - {bp})" using ok r V(1) z by (simp add: heap_ok_def)
  moreover have L: "h_size u a = h_size s a" if "a \<in> L - {bp}" for a using that dj by (intro z(1) [rule_format]) auto
  moreover have "(\<Union>a\<in>set gl. span (h_size u) a) = (\<Union>a\<in>set fl. span (h_size s) a) \<union> span (h_size s) bp"
  proof -
    have "(\<Union>a\<in>L - {bp}. span (h_size u) a) = (\<Union>a\<in>L - {bp}. span (h_size s) a)"
      using L by (intro SUP_cong) (auto simp: span_def)
    then have "(\<Union>a\<in>set gl. span (h_size u) a) = (\<Union>c\<in>set fl \<union> L. span (h_size s) c) - (\<Union>a\<in>L - {bp}. span (h_size s) a)"
      using blocks_split [OF V(1) dj'] V(2) by simp
    also have "\<dots> = (\<Union>a\<in>insert bp (set fl). span (h_size s) a)"
    proof -
      have "insert bp (set fl) \<union> (L - {bp}) = set fl \<union> L" "insert bp (set fl) \<inter> (L - {bp}) = {}" using bp dj by auto
      with U show ?thesis using blocks_split [of "h_size s" _ _ "insert bp (set fl)" "L - {bp}"] by simp
    qed
    finally show ?thesis by auto
  qed
  ultimately show ?thesis using c z(3) by (intro exI [of _ ?u] exI [of _ gl]) simp
qed

section \<open>malloc\<close>

text \<open>Cutting the tail end off a block.\<close>

lemma split_block:
  assumes ok: "blocks_ok z lo hi U" and p: "p \<in> U" and n: "0 < n" "n < z p" and hi: "hi \<le> 2 ^ 32"
  defines "q \<equiv> plus_units p (z p - n)"
  defines "z' \<equiv> z(p := z p - n, q := n)"
  shows "q \<notin> U" "unat q = unat p + 16 * (unat (z p) - unat n)" "blocks_ok z' lo hi (insert q U)"
    "span z' p \<union> span z' q = span z p" "p \<noteq> q"
proof -
  note b = span_bounds [OF ok p]
  have m: "unat (z p - n) = unat (z p) - unat n" "unat n < unat (z p)" "0 < unat n"
    using n by (simp_all add: unat_sub word_less_nat_alt order.strict_implies_order)
  show q: "unat q = unat p + 16 * (unat (z p) - unat n)"
    unfolding q_def using b m hi by (subst plus_units_unat) auto
  then show pq: "p \<noteq> q" using m by auto
  have sp: "span z' p = {unat p..<unat q}" "span z' q = {unat q..<unat p + 16 * unat (z p)}"
    using q m pq by (auto simp: span_def z'_def)
  then show s: "span z' p \<union> span z' q = span z p" using q m by (auto simp: span_def)
  have D: "span z d \<inter> span z e = {}" if "d \<in> U" "e \<in> U" "d \<noteq> e" for d e using that ok by (simp add: blocks_ok_def)
  have "unat q \<in> span z p" using sp(2) s q m by auto
  show nq: "q \<notin> U"
  proof
    assume "q \<in> U"
    then have "unat q \<in> span z q" using span_bounds(3) [OF ok] by (simp add: span_def)
    with D [OF p \<open>q \<in> U\<close> pq] \<open>unat q \<in> span z p\<close> show False by auto
  qed
  have o: "span z' d = span z d" "z' d = z d" if "d \<in> U" "d \<noteq> p" for d using that nq by (auto simp: z'_def span_def)
  have e: "span z' e \<inter> span z' p = {}" "span z' e \<inter> span z' q = {}" if "e \<in> U" "e \<noteq> p" for e
    using D [OF that(1) p that(2)] s o(1) [OF that] by blast+
  have Q: "span z' e \<inter> span z' q = {}" if "e \<in> U" for e
    using e(2) [OF that] sp by (cases "e = p") auto
  have R: "span z' d \<inter> span z' e = {}" if "d \<in> U" "e \<in> U" "d \<noteq> e" for d e
  proof (cases "d = p \<or> e = p")
    case True
    with that e(1) [of d] e(1) [of e] show ?thesis by (metis Int_commute)
  next
    case False
    with D [OF that] that show ?thesis by (simp add: o(1))
  qed
  have disj: "span z' d \<inter> span z' e = {}" if "d \<in> insert q U" "e \<in> insert q U" "d \<noteq> e" for d e
    using that Q [of d] Q [of e] R [of d e] by (metis Int_commute insertE)
  have "0 < z' p" "0 < z' q" using m n pq by (simp_all add: z'_def word_less_nat_alt)
  moreover have "span z p \<subseteq> {lo..<hi}" using ok p by (simp add: blocks_ok_def)
  ultimately have "0 < z' d \<and> span z' d \<subseteq> {lo..<hi}" if "d \<in> insert q U" for d
    using that ok o [of d] s by (cases "d = p"; cases "d = q") (auto simp: blocks_ok_def)
  with disj show "blocks_ok z' lo hi (insert q U)" unfolding blocks_ok_def by blast
qed

text \<open>What an allocation does to the heap.\<close>

definition taken :: "addr \<Rightarrow> nat \<Rightarrow> 'w umem \<Rightarrow> addr set \<Rightarrow> uint \<Rightarrow> addr \<Rightarrow> 'w umem \<Rightarrow> bool" where
  "taken b hi s L n c t \<longleftrightarrow> c \<notin> L \<and> h_size t c = n \<and> (\<exists>gl. heap_ok b hi t gl (insert c L))
     \<and> (\<forall>a\<in>L. h_size t a = h_size s a) \<and> u_world t = u_world s"

lemma ring_remove:
  fixes h :: "addr \<Rightarrow> addr"
  assumes h: "path h b (b # fl) b" "sorted_wrt (<) (b # fl)" and p: "r \<in> set (b # fl)" "h r = p" "p \<noteq> b"
  shows "\<exists>gl. path (h(r := h p)) b (b # gl) b \<and> sorted_wrt (<) (b # gl) \<and> set gl = set fl - {p} \<and> r \<in> set (b # gl) \<and> p \<in> set fl"
proof -
  from p(1) obtain as bs where s: "b # fl = as @ r # bs" by (meson split_list)
  from path_next [OF h(1) s] p obtain cs where bs: "bs = p # cs" by (cases bs) auto
  have "distinct (b # fl)" using h(2) strict_sorted_iff by blast
  then have d: "distinct (as @ r # p # cs)" unfolding s bs .
  from h(1) have "path h b (as @ r # p # cs) b" unfolding s bs .
  then have "path (h(r := h p)) b (as @ r # cs) b" using d by (auto simp: path_append)
  moreover have "sorted_wrt (<) (as @ r # cs)" using h(2) unfolding s bs by (auto simp: sorted_wrt_append)
  moreover obtain gl where gl: "as @ r # cs = b # gl" using s by (cases as) auto
  moreover have "set gl = set fl - {p}"
  proof -
    have "distinct (b # gl)" unfolding gl [symmetric] using d by auto
    with \<open>distinct (b # fl)\<close> have n: "b \<notin> set fl - {p}" "b \<notin> set gl" by auto
    have "set (b # gl) = set (b # fl) - {p}" unfolding s bs gl [symmetric] using d by auto
    with p(3) have "insert b (set gl) = insert b (set fl - {p})" by (simp add: insert_Diff_if)
    then show ?thesis using insert_ident [OF n(2,1)] by simp
  qed
  moreover have "r \<in> set (b # gl)" unfolding gl [symmetric] by simp
  moreover have "p \<in> set (b # fl)" unfolding s bs by simp
  then have "p \<in> set fl" using p(3) by simp
  ultimately show ?thesis by (intro exI [of _ gl]) simp
qed

lemma take_ok:
  assumes ok: "heap_ok b hi s fl L" and r: "r \<in> set (b # fl)" "h_ptr s r = p" and n: "0 < n" "n \<le> h_size s p"
  shows "\<exists>c t. malloc_take n r p s = Done (c + 16) t \<and> taken b hi s L n c t"
proof -
  let ?z = "h_size s"
  from ok have U: "blocks_ok ?z (unat b + 16) hi (set fl \<union> L)" and dj: "set fl \<inter> L = {}" and hi: "hi \<le> 2 ^ 32"
    and h: "path (h_ptr s) b (b # fl) b" "sorted_wrt (<) (b # fl)" and b: "b \<noteq> 0" "?z b = 0" "unat b + 16 \<le> hi"
    by (auto simp: heap_ok_def)
  have "p \<noteq> b" using n b(2) by auto
  from ring_remove [OF h r this] obtain gl where gl: "path ((h_ptr s)(r := h_ptr s p)) b (b # gl) b" "sorted_wrt (<) (b # gl)"
    "set gl = set fl - {p}" "r \<in> set (b # gl)" "p \<in> set fl" by blast
  show ?thesis
  proof (cases "?z p = n")
    case True
    let ?t = "s\<lparr>h_ptr := (h_ptr s)(r := h_ptr s p), freep := r\<rparr>"
    have "malloc_take n r p s = Done (p + 16) ?t" using True by (simp add: malloc_take_def set_ptr_def km_simps)
    moreover have "set gl \<union> insert p L = set fl \<union> L" using gl(3,5) by auto
    then have "heap_ok b hi ?t gl (insert p L)" using U dj hi b gl(1,2,4) gl(3) by (simp add: heap_ok_def) auto
    then have "taken b hi s L n p ?t" using True dj gl(5) by (auto simp: taken_def)
    ultimately show ?thesis by blast
  next
    case False
    with n have "n < ?z p" by simp
    let ?q = "plus_units p (?z p - n)"
    let ?z' = "?z(p := ?z p - n, ?q := n)"
    let ?t = "s\<lparr>h_size := ?z', freep := r\<rparr>"
    from split_block [OF U _ n(1) \<open>n < ?z p\<close> hi] gl(5)
    have q: "?q \<notin> set fl \<union> L" "unat ?q = unat p + 16 * (unat (?z p) - unat n)" "p \<noteq> ?q"
      "blocks_ok ?z' (unat b + 16) hi (insert ?q (set fl \<union> L))" by auto
    have "?q \<noteq> b" "p \<noteq> b" using q(2) span_bounds(1) [OF U, of p] gl(5) by auto
    have "malloc_take n r p s = Done (?q + 16) ?t"
      using False by (simp add: malloc_take_def set_size_def km_simps Let_def)
    moreover have "heap_ok b hi ?t fl (insert ?q L)"
      using q(1,4) h r hi b dj \<open>?q \<noteq> b\<close> \<open>p \<noteq> b\<close> by (simp add: heap_ok_def)
    then have "taken b hi s L n ?q ?t" using q(1,3) dj gl(5) by (auto simp: taken_def)
    ultimately show ?thesis by blast
  qed
qed

text \<open>The search of \<open>malloc\<close> goes along the ring up to \<open>freep\<close>.\<close>

lemma malloc_step:
  "loop (malloc_round sbrk n) (r, p) s =
     (if n \<le> h_size s p then malloc_take n r p s
      else if p = freep s then bind (morecore sbrk n) (\<lambda>p. if p = 0 then ret 0
        else bind (gets (\<lambda>s. h_ptr s p)) (\<lambda>q. loop (malloc_round sbrk n) (p, q))) s
      else loop (malloc_round sbrk n) (p, h_ptr s p) s)"
proof -
  have "malloc_round sbrk n (r, p) s =
     (if n \<le> h_size s p then bind (malloc_take n r p) (\<lambda>r. ret (Inr r)) s
      else if p = freep s then bind (morecore sbrk n) (\<lambda>p. if p = 0 then ret (Inr 0)
         else bind (gets (\<lambda>s. h_ptr s p)) (\<lambda>q. ret (Inl (p, q)))) s
      else Done (Inl (p, h_ptr s p)) s)"
    by (simp add: malloc_round_def bind_def gets_def ret_def)
  then show ?thesis
    by (subst loop_unfold) (auto simp: bind_def gets_def ret_def split: outcome.split)
qed

lemma malloc_walk:
  assumes "path (h_ptr s) p us (freep s)" "freep s \<notin> set us" "set us \<subseteq> A" "freep s \<in> A" "r \<in> A" "h_ptr s r = p"
  shows "(\<exists>c\<in>insert (freep s) (set us). n \<le> h_size s c) \<Longrightarrow>
      \<exists>r' p'. r' \<in> A \<and> h_ptr s r' = p' \<and> n \<le> h_size s p' \<and>
        loop (malloc_round sbrk n) (r, p) s = malloc_take n r' p' s"
    "\<not> (\<exists>c\<in>insert (freep s) (set us). n \<le> h_size s c) \<Longrightarrow>
      loop (malloc_round sbrk n) (r, p) s = bind (morecore sbrk n) (\<lambda>p. if p = 0 then ret 0
        else bind (gets (\<lambda>s. h_ptr s p)) (\<lambda>q. loop (malloc_round sbrk n) (p, q))) s"
  using assms
proof (induction us arbitrary: r p)
  case Nil
  { case 1 then show ?case by (subst malloc_step) auto
  next
    case 2 then show ?case by (subst malloc_step) auto }
next
  case (Cons a us)
  { case 1
    show ?case
    proof (cases "n \<le> h_size s p")
      case True
      with 1 show ?thesis by (subst malloc_step) auto
    next
      case False
      with 1 Cons.IH(1) [of "h_ptr s p" p] show ?thesis by (subst malloc_step) auto
    qed
  next
    case 2
    with Cons.IH(2) [of "h_ptr s p" p] show ?case by (subst malloc_step) auto }
qed

text \<open>
  What \<open>sbrk\<close> does: it fails, or it gives the old end of the memory and moves it; \<open>brk\<close> is the end.
\<close>

definition sbrk_ok :: "(int \<Rightarrow> ('w, addr) km) \<Rightarrow> ('w \<Rightarrow> nat) \<Rightarrow> bool" where
  "sbrk_ok sbrk brk \<longleftrightarrow> (\<forall>w n. 0 \<le> n \<longrightarrow>
     (\<exists>w'. sbrk n w = Done (-1) w' \<and> brk w' = brk w)
   \<or> (\<exists>w'. sbrk n w = Done (of_nat (brk w)) w' \<and> brk w' = brk w + nat n \<and> brk w' \<le> 2 ^ 32))"

lemma sbrk_arg_eq:
  assumes "unat n < 2 ^ 27"
  shows "sbrk_arg n = 16 * int (unat n)"
proof -
  have "unat (ucast n * 16 :: 64 word) = 16 * unat n"
    using assms by (simp add: unat_word_ariths unsigned_ucast_eq take_bit_nat_eq_self)
  then have "(ucast (ucast n * 16 :: 64 word) :: uint) = of_nat (16 * unat n)"
    by (metis of_nat_unat)
  then have "sbrk_arg n = int (16 * unat n)" using assms
    by (simp add: sbrk_arg_def signed_of_nat signed_take_bit_int_eq_self del: of_nat_mult)
  then show ?thesis by simp
qed

lemma heap_ok_freep: "heap_ok b hi s fl L \<Longrightarrow> freep s \<noteq> 0"
  by (auto simp: heap_ok_def)

lemma grow_heap:
  fixes s :: "'w umem" and w :: 'w
  assumes ok: "heap_ok b hi s fl L" and p: "unat p = hi" and m: "0 < unat m" "hi + 16 * unat m \<le> 2 ^ 32"
  defines "t \<equiv> s\<lparr>u_world := w, h_size := (h_size s)(p := m)\<rparr>"
  shows "heap_ok b (hi + 16 * unat m) t fl (insert p L)" "p \<notin> set fl \<union> L"
proof -
  let ?U = "set fl \<union> L"
  from ok have U: "blocks_ok (h_size s) (unat b + 16) hi ?U" and b: "unat b + 16 \<le> hi" by (auto simp: heap_ok_def)
  have lt: "unat a < hi" if "a \<in> ?U" for a using span_bounds [OF U that] by linarith
  then show np: "p \<notin> ?U" using p by auto
  have pb: "p \<noteq> b" using p b by auto
  have o: "span (h_size t) a = span (h_size s) a" "h_size t a = h_size s a" if "a \<noteq> p" for a
    using that by (simp_all add: t_def span_def)
  have sp: "span (h_size t) p = {hi..<hi + 16 * unat m}" "0 < h_size t p" using p m by (simp_all add: t_def span_def word_less_nat_alt)
  have sub: "span (h_size s) a \<subseteq> {unat b + 16..<hi}" "0 < h_size s a" if "a \<in> ?U" for a
    using that U by (simp_all add: blocks_ok_def)
  have "0 < h_size t a \<and> span (h_size t) a \<subseteq> {unat b + 16..<hi + 16 * unat m}" if "a \<in> insert p ?U" for a
    using that np o [of a] sp sub [of a] b by (cases "a = p") (auto simp: subset_iff)
  moreover have "span (h_size t) a \<inter> span (h_size t) c = {}" if "a \<in> insert p ?U" "c \<in> insert p ?U" "a \<noteq> c" for a c
  proof -
    have P: "span (h_size t) p \<inter> span (h_size t) d = {}" if "d \<in> ?U" "d \<noteq> p" for d
      using sub(1) [OF that(1)] o(1) [OF that(2)] sp(1) by fastforce
    show ?thesis
    proof (cases "a = p \<or> c = p")
      case True
      with that P [of a] P [of c] show ?thesis by (metis Int_commute insertE)
    next
      case False
      with that U o(1) [of a] o(1) [of c] show ?thesis by (simp add: blocks_ok_def)
    qed
  qed
  ultimately have "blocks_ok (h_size t) (unat b + 16) (hi + 16 * unat m) (insert p ?U)" unfolding blocks_ok_def by blast
  with ok m(2) np pb o(2) show "heap_ok b (hi + 16 * unat m) t fl (insert p L)" by (simp add: heap_ok_def) (simp add: t_def)
qed

lemma morecore_ok:
  assumes sbrk: "sbrk_ok sbrk brk" and ok: "heap_ok b (brk (u_world s)) s fl L" and n: "unat n < 2 ^ 27"
  shows "\<exists>t gl. heap_ok b (brk (u_world t)) t gl L \<and> (\<forall>a\<in>L. h_size t a = h_size s a)
     \<and> (morecore sbrk n s = Done 0 t \<and> sbrk (sbrk_arg (max 4096 n)) (u_world s) = Done (-1) (u_world t)
        \<or> morecore sbrk n s = Done (freep t) t \<and> freep t \<noteq> 0 \<and> (\<exists>c\<in>set gl. n \<le> h_size t c))"
proof -
  define m :: uint where "m = (if n < 4096 then 4096 else n)"
  have m: "unat m < 2 ^ 27" "n \<le> m" "0 < unat m" using n by (auto simp: m_def word_le_nat_alt word_less_nat_alt)
  let ?w = "u_world s"
  have "0 \<le> sbrk_arg m" using sbrk_arg_eq [OF m(1)] by simp
  with sbrk consider w where "sbrk (sbrk_arg m) ?w = Done (-1) w" "brk w = brk ?w"
    | w where "sbrk (sbrk_arg m) ?w = Done (of_nat (brk ?w)) w" "brk w = brk ?w + 16 * unat m" "brk w \<le> 2 ^ 32"
    unfolding sbrk_ok_def using sbrk_arg_eq [OF m(1)] by (metis nat_int of_nat_mult of_nat_numeral)
  then show ?thesis
  proof cases
    case 1
    let ?t = "s\<lparr>u_world := w\<rparr>"
    have "morecore sbrk n s = Done 0 ?t"
      using 1 by (simp add: morecore_def m_def [symmetric] on_world_def bind_def ret_def Let_def)
    moreover have "heap_ok b (brk (u_world ?t)) ?t fl L" using ok 1(2) by (simp add: heap_ok_def)
    moreover have "m = max 4096 n" by (auto simp: m_def max_def)
    ultimately show ?thesis using 1(1) by (intro exI [of _ ?t] exI [of _ fl]) simp
  next
    case 2
    let ?p = "of_nat (brk ?w) :: addr"
    let ?s = "s\<lparr>u_world := w, h_size := (h_size s)(?p := m)\<rparr>"
    have hi: "brk ?w \<le> 2 ^ 32" using 2 by simp
    have p: "unat ?p = brk ?w" using hi by (simp add: unat_of_nat)
    have "unat (-1 :: addr) = 2 ^ 64 - 1" by (simp add: unsigned_minus_1_eq_mask mask_eq_exp_minus_1)
    then have "unat ?p \<noteq> unat (-1 :: addr)" unfolding p using hi by simp
    then have p1: "?p \<noteq> -1" by metis
    note g = grow_heap(1) [where w = w, OF ok p m(3), folded 2(2), OF 2(3)] grow_heap(2) [OF ok p m(3), folded 2(2), OF 2(3)]
    from free_ok [OF g(1), of ?p] obtain t gl where t: "free_u (?p + 16) ?s = Done () t" "heap_ok b (brk w) t gl (insert ?p L - {?p})"
      "u_world t = w" "\<forall>a\<in>insert ?p L - {?p}. h_size t a = h_size ?s a" "\<exists>c\<in>set gl. unat m \<le> unat (h_size t c)" by auto
    have L: "insert ?p L - {?p} = L" using g(2) by auto
    have "morecore sbrk n s = Done (freep t) t"
      using 2(1) p1 t(1) by (simp add: morecore_def m_def [symmetric] on_world_def bind_def gets_def Let_def set_size_def modify_def ret_def)
    moreover have "freep t \<noteq> 0" by (rule heap_ok_freep [OF t(2)])
    moreover have "\<exists>c\<in>set gl. n \<le> h_size t c" using t(5) m(2) by (meson order.trans word_le_nat_alt)
    moreover have "\<forall>a\<in>L. h_size t a = h_size s a" using t(4) g(2) unfolding L by auto
    ultimately show ?thesis using t(2,3) unfolding L by (intro exI [of _ t] exI [of _ gl]) simp
  qed
qed

text \<open>The loop of \<open>malloc\<close>: at most once around the ring, more memory, and around it again.\<close>

lemma ring_walk:
  assumes "heap_ok b hi s fl L"
  shows "\<exists>us. path (h_ptr s) (h_ptr s (freep s)) us (freep s) \<and> freep s \<notin> set us \<and> insert (freep s) (set us) = set (b # fl)"
proof -
  from assms have h: "path (h_ptr s) b (b # fl) b" "sorted_wrt (<) (b # fl)" "freep s \<in> set (b # fl)" by (simp_all add: heap_ok_def)
  then obtain xs ys where s: "b # fl = xs @ freep s # ys" by (meson split_list)
  have "distinct (b # fl)" using h(2) strict_sorted_iff by blast
  then have d: "distinct (xs @ freep s # ys)" unfolding s .
  have "path (h_ptr s) (h_ptr s (freep s)) (ys @ xs) (freep s)" using path_around h(1) unfolding s by blast
  moreover have "insert (freep s) (set (ys @ xs)) = set (b # fl)" unfolding s by auto
  ultimately show ?thesis using d by (intro exI [of _ "ys @ xs"]) auto
qed

lemma malloc_found:
  assumes ok: "heap_ok b hi s fl L" and n: "0 < n" and c: "\<exists>c\<in>set fl. n \<le> h_size s c"
  shows "\<exists>c t. loop (malloc_round sbrk n) (freep s, h_ptr s (freep s)) s = Done (c + 16) t \<and> taken b hi s L n c t"
proof -
  from ring_walk [OF ok] obtain us where us: "path (h_ptr s) (h_ptr s (freep s)) us (freep s)" "freep s \<notin> set us"
    "insert (freep s) (set us) = set (b # fl)" by blast
  then have f: "freep s \<in> set (b # fl)" "set us \<subseteq> set (b # fl)" by auto
  have "\<exists>c\<in>insert (freep s) (set us). n \<le> h_size s c" unfolding us(3) using c by auto
  from malloc_walk(1) [OF us(1,2) f(2,1,1) refl this] obtain r p where
    r: "r \<in> set (b # fl)" "h_ptr s r = p" "n \<le> h_size s p"
      "loop (malloc_round sbrk n) (freep s, h_ptr s (freep s)) s = malloc_take n r p s" by blast
  from take_ok [OF ok r(1,2) n r(3)] r(4) show ?thesis by simp
qed

lemma malloc_loop_ok:
  assumes sbrk: "sbrk_ok sbrk brk" and ok: "heap_ok b (brk (u_world s)) s fl L" and n: "0 < n" "unat n < 2 ^ 27"
  shows "\<exists>r t gl. loop (malloc_round sbrk n) (freep s, h_ptr s (freep s)) s = Done r t \<and> (\<forall>a\<in>L. h_size t a = h_size s a)
     \<and> (r = 0 \<and> heap_ok b (brk (u_world t)) t gl L \<and> sbrk (sbrk_arg (max 4096 n)) (u_world s) = Done (-1) (u_world t)
        \<or> (\<exists>c. r = c + 16 \<and> c \<notin> L \<and> h_size t c = n \<and> heap_ok b (brk (u_world t)) t gl (insert c L)))"
proof (cases "\<exists>c\<in>set fl. n \<le> h_size s c")
  case True
  from malloc_found [OF ok n(1) True, of sbrk] obtain c t where
    "loop (malloc_round sbrk n) (freep s, h_ptr s (freep s)) s = Done (c + 16) t"
    "taken b (brk (u_world s)) s L n c t" by blast
  then show ?thesis unfolding taken_def by metis
next
  case False
  from ring_walk [OF ok] obtain us where us: "path (h_ptr s) (h_ptr s (freep s)) us (freep s)" "freep s \<notin> set us"
    "insert (freep s) (set us) = set (b # fl)" by blast
  then have f: "freep s \<in> set (b # fl)" "set us \<subseteq> set (b # fl)" by auto
  have "h_size s b = 0" using ok by (simp add: heap_ok_def)
  with False n have "\<not> (\<exists>c\<in>insert (freep s) (set us). n \<le> h_size s c)" unfolding us(3) by auto
  note w = malloc_walk(2) [OF us(1,2) f(2,1,1) refl this, of sbrk]
  from morecore_ok [OF sbrk ok n(2)] obtain t gl where t: "heap_ok b (brk (u_world t)) t gl L" "\<forall>a\<in>L. h_size t a = h_size s a"
    and m: "morecore sbrk n s = Done 0 t \<and> sbrk (sbrk_arg (max 4096 n)) (u_world s) = Done (-1) (u_world t)
      \<or> morecore sbrk n s = Done (freep t) t \<and> freep t \<noteq> 0 \<and> (\<exists>c\<in>set gl. n \<le> h_size t c)" by blast
  from m show ?thesis
  proof (elim disjE conjE)
    assume "morecore sbrk n s = Done 0 t" "sbrk (sbrk_arg (max 4096 n)) (u_world s) = Done (-1) (u_world t)"
    with w t show ?thesis by (intro exI [of _ 0] exI [of _ t] exI [of _ gl]) (simp add: ret_def)
  next
    assume m: "morecore sbrk n s = Done (freep t) t" "freep t \<noteq> 0" "\<exists>c\<in>set gl. n \<le> h_size t c"
    from malloc_found [OF t(1) n(1) m(3), of sbrk] obtain c u where
      "loop (malloc_round sbrk n) (freep t, h_ptr t (freep t)) t = Done (c + 16) u"
      "taken b (brk (u_world t)) t L n c u" by blast
    with w m t(2) show ?thesis unfolding taken_def by (simp add: bind_def gets_def) metis
  qed
qed

lemma nunits_eq:
  assumes "unat n < 2 ^ 31 - 32"
  shows "unat (nunits n) = (unat n + 15) div 16 + 1"
proof -
  have "unat (ucast n + 15 :: 64 word) = unat n + 15"
    using assms by (simp add: unat_word_ariths unsigned_ucast_eq take_bit_nat_eq_self)
  then have u: "unat ((ucast n + 15) div 16 + 1 :: 64 word) = (unat n + 15) div 16 + 1"
    using assms by (simp add: unat_word_ariths unat_div)
  have "ucast n + 16 - 1 = (ucast n + 15 :: 64 word)" by simp
  then have "unat (nunits n) = take_bit 32 ((unat n + 15) div 16 + 1)"
    unfolding nunits_def by (simp only: unsigned_ucast_eq u) simp
  moreover have "(unat n + 15) div 16 + 1 < 2 ^ 32" using assms by simp
  ultimately show ?thesis by (simp only: take_bit_nat_eq_self)
qed

text \<open>
  The bound on the size is needed: for a request just below 4 GB the product of \<open>morecore\<close> does not
  fit into the \<open>int\<close> that \<open>sbrk\<close> takes, so no memory at all is asked for.
\<close>

lemma malloc_huge_asks_nothing: "nunits 0xFFFFFFF0 = 0x10000000" "sbrk_arg (nunits 0xFFFFFFF0) = 0"
proof -
  show "nunits 0xFFFFFFF0 = 0x10000000" by (simp add: nunits_def)
  then show "sbrk_arg (nunits 0xFFFFFFF0) = 0" by (simp add: sbrk_arg_def)
qed

section \<open>A program that uses the allocator\<close>

text \<open>
  The states a program reaches by calls of \<open>malloc\<close> and by \<open>free\<close> of blocks it has; \<open>L\<close> are the
  headers of the blocks it has.
\<close>

inductive heap_reach :: "addr \<Rightarrow> (int \<Rightarrow> ('w, addr) km) \<Rightarrow> ('w \<Rightarrow> nat) \<Rightarrow> 'w umem \<Rightarrow> addr set \<Rightarrow> bool"
  for b sbrk brk where
  start: "freep s = 0 \<Longrightarrow> b \<noteq> 0 \<Longrightarrow> unat b + 16 \<le> brk (u_world s) \<Longrightarrow> brk (u_world s) \<le> 2 ^ 32 \<Longrightarrow>
    heap_reach b sbrk brk s {}"
| malloc_none: "heap_reach b sbrk brk s L \<Longrightarrow> unat n < 2 ^ 31 - 32 \<Longrightarrow> malloc b sbrk n s = Done 0 t \<Longrightarrow>
    heap_reach b sbrk brk t L"
| malloc_some: "heap_reach b sbrk brk s L \<Longrightarrow> unat n < 2 ^ 31 - 32 \<Longrightarrow> malloc b sbrk n s = Done r t \<Longrightarrow> r \<noteq> 0 \<Longrightarrow>
    heap_reach b sbrk brk t (insert (r - 16) L)"
| free: "heap_reach b sbrk brk s L \<Longrightarrow> bp \<in> L \<Longrightarrow> free_u (bp + 16) s = Done () t \<Longrightarrow>
    heap_reach b sbrk brk t (L - {bp})"

definition heap_inv :: "addr \<Rightarrow> ('w \<Rightarrow> nat) \<Rightarrow> 'w umem \<Rightarrow> addr set \<Rightarrow> bool" where
  "heap_inv b brk s L \<longleftrightarrow>
     freep s = 0 \<and> L = {} \<and> b \<noteq> 0 \<and> unat b + 16 \<le> brk (u_world s) \<and> brk (u_world s) \<le> 2 ^ 32
   \<or> (\<exists>fl. heap_ok b (brk (u_world s)) s fl L)"

lemma malloc_inv:
  assumes sbrk: "sbrk_ok sbrk brk" and inv: "heap_inv b brk s L" and n: "unat n < 2 ^ 31 - 32"
  shows "\<exists>r t. malloc b sbrk n s = Done r t \<and> (\<forall>a\<in>L. h_size t a = h_size s a)
     \<and> (r = 0 \<and> heap_inv b brk t L \<and> sbrk (sbrk_arg (max 4096 (nunits n))) (u_world s) = Done (-1) (u_world t)
        \<or> r \<noteq> 0 \<and> r - 16 \<notin> L \<and> heap_inv b brk t (insert (r - 16) L) \<and> h_size t (r - 16) = nunits n
          \<and> unat r = unat (r - 16) + 16)"
proof -
  define s0 where "s0 = (if freep s = 0
    then s\<lparr>h_ptr := (h_ptr s)(b := b), freep := b, h_size := (h_size s)(b := 0)\<rparr> else s)"
  have "\<exists>fl. heap_ok b (brk (u_world s0)) s0 fl L"
  proof (cases "freep s = 0")
    case True
    with inv have "heap_ok b (brk (u_world s0)) s0 [] L"
      by (auto simp: heap_inv_def s0_def heap_ok_def blocks_ok_def)
    then show ?thesis ..
  next
    case False
    with inv show ?thesis by (auto simp: heap_inv_def s0_def)
  qed
  then obtain fl where ok: "heap_ok b (brk (u_world s0)) s0 fl L" ..
  have eq: "malloc b sbrk n s = loop (malloc_round sbrk (nunits n)) (freep s0, h_ptr s0 (freep s0)) s0"
    by (simp add: malloc_def s0_def km_simps set_ptr_def set_size_def)
  have u: "0 < nunits n" "unat (nunits n) < 2 ^ 27" using nunits_eq [OF n] n by (auto simp: word_less_nat_alt)
  have L: "h_size s0 a = h_size s a" if "a \<in> L" for a
    using that ok inv by (auto simp: s0_def heap_inv_def heap_ok_def)
  from malloc_loop_ok [OF sbrk ok u] obtain r t gl where r: "malloc b sbrk n s = Done r t" "\<forall>a\<in>L. h_size t a = h_size s0 a"
    "r = 0 \<and> heap_ok b (brk (u_world t)) t gl L \<and> sbrk (sbrk_arg (max 4096 (nunits n))) (u_world s0) = Done (-1) (u_world t)
      \<or> (\<exists>c. r = c + 16 \<and> c \<notin> L \<and> h_size t c = nunits n \<and> heap_ok b (brk (u_world t)) t gl (insert c L))"
    unfolding eq by blast
  from r(3) show ?thesis
  proof (elim disjE exE conjE)
    assume "r = 0" "heap_ok b (brk (u_world t)) t gl L"
      "sbrk (sbrk_arg (max 4096 (nunits n))) (u_world s0) = Done (-1) (u_world t)"
    moreover have "u_world s0 = u_world s" by (simp add: s0_def)
    ultimately show ?thesis using r(1,2) L by (auto simp: heap_inv_def)
  next
    fix c assume c: "r = c + 16" "c \<notin> L" "h_size t c = nunits n" "heap_ok b (brk (u_world t)) t gl (insert c L)"
    from c(4) have "blocks_ok (h_size t) (unat b + 16) (brk (u_world t)) (set gl \<union> insert c L)" "brk (u_world t) \<le> 2 ^ 32"
      by (simp_all add: heap_ok_def)
    from span_bounds [OF this(1), of c] this(2) have "unat c < 2 ^ 32" by auto
    then have "unat (c + 16) = unat c + 16" by (simp add: unat_word_ariths)
    moreover from this have "c + 16 \<noteq> 0" by (metis add_is_0 unat_0 zero_neq_numeral)
    ultimately show ?thesis using c r(1,2) L by (auto simp: heap_inv_def)
  qed
qed

lemma free_inv:
  assumes inv: "heap_inv b brk s L" and bp: "bp \<in> L"
  shows "\<exists>t. free_u (bp + 16) s = Done () t \<and> heap_inv b brk t (L - {bp}) \<and> (\<forall>a\<in>L - {bp}. h_size t a = h_size s a)"
proof -
  from assms obtain fl where "heap_ok b (brk (u_world s)) s fl L" by (auto simp: heap_inv_def)
  from free_ok [OF this bp] show ?thesis unfolding heap_inv_def by metis
qed

lemma heap_reach_inv:
  assumes "sbrk_ok sbrk brk" "heap_reach b sbrk brk s L"
  shows "heap_inv b brk s L"
  using assms(2)
proof induction
  case (start s)
  then show ?case by (simp add: heap_inv_def)
next
  case (malloc_none s L n t)
  with malloc_inv [OF assms(1), of b s L n] show ?case by auto
next
  case (malloc_some s L n r t)
  with malloc_inv [OF assms(1), of b s L n] show ?case by auto
next
  case (free s L bp t)
  with free_inv [of b brk s L bp] show ?case by auto
qed

lemma payload_span:
  assumes "unat n < 2 ^ 31 - 32" "unat r = unat a + 16" "z a = nunits n"
  shows "{unat r..<unat r + unat n} \<subseteq> span z a"
proof -
  have "unat n \<le> 16 * ((unat n + 15) div 16)" by linarith
  with assms(2,3) nunits_eq [OF assms(1)] show ?thesis by (auto simp: span_def)
qed

text \<open>
  C40. The allocator of user programs is safe and its loops end. Whatever a program does with
  \<open>malloc\<close> and with \<open>free\<close> of the blocks it has: these blocks lie within the heap and do not
  overlap; \<open>malloc\<close> of less than 2 GB returns, leaves the sizes of the other blocks alone, and gives
  a null pointer only if \<open>sbrk\<close> failed, and else a block that the program does not have yet, with at
  least the bytes asked for behind its header; and \<open>free\<close> of any block returns and leaves the
  others alone.
\<close>

theorem malloc_free_safe:
  assumes sbrk: "sbrk_ok sbrk brk" and reach: "heap_reach b sbrk brk s L"
  shows "(\<forall>a\<in>L. span (h_size s) a \<subseteq> {unat b + 16..<brk (u_world s)})
   \<and> (\<forall>a\<in>L. \<forall>c\<in>L. a \<noteq> c \<longrightarrow> span (h_size s) a \<inter> span (h_size s) c = {})
   \<and> (\<forall>n. unat n < 2 ^ 31 - 32 \<longrightarrow> (\<exists>r t. malloc b sbrk n s = Done r t \<and> (\<forall>a\<in>L. h_size t a = h_size s a)
        \<and> (if r = 0 then sbrk (sbrk_arg (max 4096 (nunits n))) (u_world s) = Done (-1) (u_world t)
           else r - 16 \<notin> L \<and> {unat r..<unat r + unat n} \<subseteq> span (h_size t) (r - 16))))
   \<and> (\<forall>bp\<in>L. \<exists>t. free_u (bp + 16) s = Done () t \<and> (\<forall>a\<in>L - {bp}. h_size t a = h_size s a))"
proof -
  have inv: "heap_inv b brk s L" by (rule heap_reach_inv [OF assms])
  have "blocks_ok (h_size s) (unat b + 16) (brk (u_world s)) L"
    using inv blocks_ok_subset [of "h_size s" _ _ "_ \<union> L" L] by (auto simp: heap_inv_def heap_ok_def) (simp add: blocks_ok_def)
  moreover have "\<exists>r t. malloc b sbrk n s = Done r t \<and> (\<forall>a\<in>L. h_size t a = h_size s a)
        \<and> (if r = 0 then sbrk (sbrk_arg (max 4096 (nunits n))) (u_world s) = Done (-1) (u_world t)
           else r - 16 \<notin> L \<and> {unat r..<unat r + unat n} \<subseteq> span (h_size t) (r - 16))" if "unat n < 2 ^ 31 - 32" for n
    using malloc_inv [OF sbrk inv that] payload_span [OF that] by (elim exE) auto
  ultimately show ?thesis using free_inv [OF inv] unfolding blocks_ok_def by blast
qed

text \<open>A memory of 1 MB: \<open>sbrk\<close> moves the end up to there. The program gets a block.\<close>

definition mem_sbrk :: "int \<Rightarrow> (nat, addr) km" where
  "mem_sbrk n w = (if w + nat n \<le> 2 ^ 20 then Done (of_nat w) (w + nat n) else Done (-1) w)"

theorem malloc_free_safe_witness:
  "\<exists>r t. malloc 0x1000 mem_sbrk 100 \<lparr>h_ptr = (\<lambda>_. 0), h_size = (\<lambda>_. 0), freep = 0, u_world = 0x2000\<rparr> = Done r t \<and> r \<noteq> 0
     \<and> {unat r..<unat r + 100} \<subseteq> span (h_size t) (r - 16)
     \<and> (\<exists>u. free_u r t = Done () u)"
proof -
  let ?s = "\<lparr>h_ptr = (\<lambda>_. 0), h_size = (\<lambda>_. 0), freep = 0, u_world = 0x2000\<rparr> :: nat umem"
  have sb: "sbrk_ok mem_sbrk id" by (auto simp: sbrk_ok_def mem_sbrk_def)
  have "heap_reach 0x1000 mem_sbrk id ?s {}" by (rule heap_reach.start) simp_all
  note r = this and safe = malloc_free_safe [OF sb this]
  have n: "unat (100 :: uint) < 2 ^ 31 - 32" by simp
  have "nunits 100 = 8" by (simp add: nunits_def)
  then have "sbrk_arg (max 4096 (nunits 100)) = 65536" by (simp add: sbrk_arg_def)
  then have no: "mem_sbrk (sbrk_arg (max 4096 (nunits 100))) (u_world ?s) \<noteq> Done (-1) w" for w
    by (simp add: mem_sbrk_def)
  from safe n obtain r t where t: "malloc 0x1000 mem_sbrk 100 ?s = Done r t"
    "if r = 0 then mem_sbrk (sbrk_arg (max 4096 (nunits 100))) (u_world ?s) = Done (-1) (u_world t)
     else r - 16 \<notin> {} \<and> {unat r..<unat r + unat (100 :: uint)} \<subseteq> span (h_size t) (r - 16)" by blast
  with no have r0: "r \<noteq> 0" "{unat r..<unat r + 100} \<subseteq> span (h_size t) (r - 16)" by (auto split: if_splits)
  from heap_reach.malloc_some [OF r n t(1) r0(1)] have "heap_reach 0x1000 mem_sbrk id t (insert (r - 16) {})" .
  from malloc_free_safe [OF sb this] have "\<exists>u. free_u (r - 16 + 16) t = Done () u" by blast
  then show ?thesis using t(1) r0 by auto
qed

end
