(* ===== verification/Spec2Isabelle.thy ===== *)
theory Spec2Isabelle
  imports Xv6_Trap Xv6_List Xv6_Exit Xv6_Pipeio Xv6_Output Xv6_Wakeup Xv6_Layout Xv6_Bcache
    Xv6_Uprog Xv6_Grep Xv6_Shshow Xv6_Mkwhole Xv6_Heap
begin

text \<open>
  A verification development for a small Unix kernel for RISC-V (xv6 with system call tracing,
  process statistics and intrusive lists): the kernel of src/kernel, the programs and the library of
  src/user, and the tool of src/mkfs that makes the first file system.

  \<^bold>\<open>The program.\<close> Every hart runs the same kernel on shared memory. The lowest layer is locks and
  memory: spin locks (spinlock.c), string routines (string.c), the page allocator (kalloc.c) and
  page tables (vm.c). On them stand processes and scheduling (proc.c), the console and its serial
  port (console.c, uart.c, printf.c), sleep locks (sleeplock.c), the disk driver (virtio_disk.c),
  the buffer cache (bio.c), the write-ahead log (log.c), the file system (fs.c), pipes (pipe.c),
  open files (file.c), program loading (exec.c), system calls (syscall.c, sysfile.c, sysproc.c),
  traps (trap.c) and the start of the machine (start.c, main.c). User programs reach the kernel by
  system calls, through a small C library (ulib.c, printf.c, umalloc.c); the shell (sh.c) parses and
  runs commands. mkfs.c runs on the host and writes the disk image that fs.c reads.

  \<^bold>\<open>How code becomes definitions.\<close> A kernel function is a function from the state in which it is
  called to an outcome (theory \<open>Xv6_Prelude\<close>): \<open>Done a t\<close> returns \<open>a\<close> in state \<open>t\<close>, \<open>Stop r t\<close> is a
  panic or a fault of the machine with its reason, \<open>Forever\<close> is a loop that does not end. C
  statements are sequenced with \<open>bind\<close> and \<open>block\<close>; \<open>for_each\<close> and \<open>scan\<close> are counted loops; \<open>loop\<close>
  and \<open>while_do\<close> are unbounded loops, defined by \<open>while_option\<close> with \<open>Forever\<close> for a loop that does not
  end, so that a statement that a function returns is a statement that its outcome is \<open>Done\<close>.

  Unsigned integers, bytes and addresses are words of their width, and physical memory is a function
  from addresses to bytes. A C \<open>int\<close> is a HOL \<open>int\<close>; kernel counters that go up and down keep the
  width of their type by \<open>int32\<close> (two's complement, the behaviour of the target), written out at each
  update: \<open>nextpid\<close>, the counters of the log, the reference counts of files and inodes, the page count
  of \<open>countmapped\<close>. The one exception is the depth \<open>c_noff\<close> of nested \<open>push_off\<close>s of a hart, which is
  unbounded; it would take 2^31 nested locks to tell the difference.

  The state is one record, extended by each component with its globals in the order of the layers:
  \<open>machine\<close> (registers, harts, spin locks, memory), \<open>kmem\<close>, \<open>vm\<close>, \<open>procs\<close>, \<open>consoles\<close>, \<open>sleepers\<close>,
  \<open>disks\<close>, \<open>logs\<close>, \<open>fss\<close>, \<open>pipes\<close>, \<open>files\<close>. An operation of a component is polymorphic in the
  components above it, so it is applied to the state of the whole kernel, and theory \<open>Xv6_Frame\<close>
  proves that it leaves their part alone. A function that can give up the processor (\<open>sleep\<close>, \<open>yield\<close>
  and everything that calls them) takes a parameter \<open>env\<close> of type \<open>'s env\<close>: what all other harts,
  processes and devices do to the state until the process runs again. Where interleaving is the
  subject, an inductive step relation runs the same definitions one atomic part at a time on
  several harts (\<open>spin_step\<close>, \<open>sched_step\<close>, \<open>race_step\<close>, \<open>log_run\<close>, \<open>cache_run\<close>). For this the
  functions that such a relation cuts are defined from their parts: \<open>sleep\<close> is the statements
  \<open>sleep_enter\<close>, then \<open>sched\<close>, then \<open>sleep_leave\<close>, and \<open>race_step\<close> runs the statements of these lists one by
  one; \<open>wakeup\<close> is the list \<open>wakeup_visits\<close>; \<open>yield\<close>, \<open>exit\<close> and \<open>scheduler\<close> share \<open>yield_enter\<close>,
  \<open>exit_zombie\<close>, \<open>scheduler_pick\<close> and \<open>scheduler_rest\<close> with \<open>sched_step\<close>. An operation enters \<open>log_run\<close> when
  \<open>begin_op\<close> itself returns, whatever the other processes do.

  Code outside the repository is a parameter with a contract. A user program is a function over the
  system calls it makes; \<open>sbrk\<close> is a parameter of the allocator, with \<open>sbrk_ok\<close> as what it promises;
  mkfs runs on a record \<open>host\<close> of the calls it makes to the host, with \<open>host_image\<close> (what is written
  to the image is read back) and \<open>host_files\<close> (what the input files hold), and \<open>mem_host\<close> is a
  concrete host.

  Three functions have fuel. The parser of the shell, \<open>parsecmd\<close>, starts with four steps per character
  of the line and four more, and theory \<open>Xv6_Shshow\<close> proves that this is enough. \<open>freewalk\<close> and
  \<open>countmapped\<close> recurse at most \<open>PT_LEVELS\<close> = 3 tables deep and are \<open>Forever\<close> beyond: \<open>walk\<close> puts valid
  table entries into tables of level 2 and 1 only, so a tree that the kernel built has no deeper
  table; what the C code would do on a table that points back to itself is not modelled further.
  Requests to \<open>malloc\<close> are bounded by 2^31 - 32 bytes in the theorems on the allocator, as its
  arithmetic wraps beyond (\<open>malloc_huge_asks_nothing\<close>).

  \<^bold>\<open>Theories.\<close>
  \<^item> \<open>Xv6_Prelude\<close>: outcomes, sequencing, loops and their rules.
  \<^item> \<open>Xv6_Machine\<close>: param.h, memlayout.h, the registers and bits of riscv.h that the kernel uses,
    loads and stores.
  \<^item> \<open>Xv6_Spinlock\<close>: spinlock.c. Acquire and release undo each other, panic exactly as the code
    says, exclude each other on any number of harts and never panic in a correct use.
  \<^item> \<open>Xv6_String\<close>: string.c, with memmove on overlapping areas and the string functions.
  \<^item> \<open>Xv6_Kalloc\<close>: kalloc.c. The free list holds each page once; no page is allocated twice.
  \<^item> \<open>Xv6_List\<close>: list.c. Insertion and removal refine the operations on HOL lists.
  \<^item> \<open>Xv6_Vm\<close>, \<open>Xv6_Pagetable\<close>, \<open>Xv6_Uvm\<close>, \<open>Xv6_Copy\<close>: vm.c. Tables made by \<open>walk\<close> and \<open>mappages\<close>
    translate as asked; \<open>copyin\<close>, \<open>copyout\<close> and \<open>copyinstr\<close> move exactly the user's bytes.
  \<^item> \<open>Xv6_Proc\<close>, \<open>Xv6_Process\<close>, \<open>Xv6_Sched\<close>, \<open>Xv6_Proctable\<close>, \<open>Xv6_Exit\<close>, \<open>Xv6_Wakeup\<close>: proc.c. One
    process runs on one hart; process identifiers are fresh; \<open>wait\<close>, \<open>exit\<close>, \<open>kill\<close> and \<open>wakeup\<close> do
    what they say; no wakeup is lost.
  \<^item> \<open>Xv6_Console\<close>, \<open>Xv6_Consoleio\<close>, \<open>Xv6_Output\<close>: uart.c, printf.c, console.c, plic.c. The line
    discipline, numbers as printed, bytes sent in order.
  \<^item> \<open>Xv6_Ring\<close>: ring buffers with free-running counters as bounded queues, with the contract
    \<open>bounded_fifo\<close> that the pipe is an instance of.
  \<^item> \<open>Xv6_Sleeplock\<close>, \<open>Xv6_Virtio\<close>, \<open>Xv6_Bio\<close>, \<open>Xv6_Bcache\<close>, \<open>Xv6_Log\<close>, \<open>Xv6_Logspace\<close>, \<open>Xv6_Fs\<close>,
    \<open>Xv6_Layout\<close>: sleeplock.c, virtio_disk.c, bio.c, log.c, fs.c. The buffer cache keeps one buffer
    per block and recycles the least recently released one; space in the log; the on-disk format.
  \<^item> \<open>Xv6_Pipe\<close>, \<open>Xv6_Pipeio\<close>: pipe.c. A pipe is a first-in first-out queue of bytes.
  \<^item> \<open>Xv6_File\<close>, \<open>Xv6_Sysfile\<close>, \<open>Xv6_Trap\<close>: file.c, exec.c, syscall.c, sysfile.c, sysproc.c, trap.c,
    start.c, main.c.
  \<^item> \<open>Xv6_Ulib\<close>, \<open>Xv6_Uprog\<close>: ulib.c, printf.c of src/user and the small programs (cat, echo, kill, ln,
    ls, mkdir, rm, wc, ps and the others), as what they ask of the kernel.
  \<^item> \<open>Xv6_Grep\<close>: grep.c. The matcher agrees with a declarative meaning of patterns.
  \<^item> \<open>Xv6_Sh\<close>, \<open>Xv6_Shparse\<close>, \<open>Xv6_Shshow\<close>: sh.c. The parser returns on every line, and the
    line that shows a command makes the shell run this command.
  \<^item> \<open>Xv6_Umalloc\<close>, \<open>Xv6_Heap\<close>: umalloc.c. The free list stays in address order without overlap, and
    blocks that are in use stay apart from each other and from it.
  \<^item> \<open>Xv6_Mkfs\<close>, \<open>Xv6_Mkimage\<close>, \<open>Xv6_Mkwhole\<close>: mkfs.c. The image holds the given files under their
    names, in blocks that do not overlap and that the bitmap marks.
  \<^item> \<open>Xv6_Frame\<close>: layering. \<open>Xv6_Demo\<close>: a concrete state of the whole kernel.

  \<^bold>\<open>Not modelled.\<close> The assembler files (entry.S, swtch.S, trampoline.S, kernelvec.S, usys.S,
  initcode.S) save and restore registers and change page tables; the definitions state where
  control passes through them. The TLB (\<open>sfence_vma\<close>), memory barriers and weak memory order are not
  modelled: memory is sequentially consistent. \<open>r_sp\<close> and \<open>r_ra\<close> read registers of the compiler's
  choice. ramdisk.c is not part of the build. The test programs (usertests.c, grind.c, pstest.c and
  the like) exercise the kernel and promise nothing to the rest. defs.h, types.h, date.h and
  kernel.ld declare and place what other files define. The messages that mkfs prints on the host
  are left out.
\<close>

end
